(* ===== verification/JsPrelude.thy ===== *)
theory JsPrelude
  imports Main "HOL-Library.Word" "HOL-Library.Signed_Division"
begin

unbundle bit_operations_syntax

text \<open>
  What the JavaScript components share: strings as lists of UTF-16 code units, thrown
  errors as values, JavaScript's 32-bit bitwise operators on integral numbers, and indexed
  reads that may be \<open>undefined\<close>.

  A JavaScript number is modelled by an \<open>int\<close> wherever the code computes with
  integers below \<open>2 ^ 53\<close>, where the double arithmetic of the language is exact.
  \<open>undefined\<close> and \<open>NaN\<close> are the value \<open>None\<close> of \<open>int option\<close>.
\<close>

named_theorems js_ops \<comment> \<open>characterisations of the bitwise operators as arithmetic\<close>
named_theorems js_defs \<comment> \<open>definitions to unfold when evaluating a concrete input\<close>

section \<open>Strings, errors\<close>

type_synonym jsstring = "int list"

definition jstr :: "string \<Rightarrow> jsstring" where
  "jstr s = map of_char s"

lemma jstr_simps [simp]:
  "jstr [] = []" "jstr (c # s) = of_char c # jstr s"
  by (simp_all add: jstr_def)

lemma jstr_append [simp]: "jstr (s @ t) = jstr s @ jstr t"
  by (simp add: jstr_def)

datatype js_error = TypeError string | RangeError string | PlainError string

type_synonym 'a res = "js_error + 'a"

definition bind_res :: "'e + 'a \<Rightarrow> ('a \<Rightarrow> 'e + 'b) \<Rightarrow> 'e + 'b" where
  "bind_res m f = (case m of Inl e \<Rightarrow> Inl e | Inr x \<Rightarrow> f x)"

lemma bind_res_simps [simp]:
  "bind_res (Inl e) f = Inl e" "bind_res (Inr x) f = f x"
  by (simp_all add: bind_res_def)

lemma bind_res_Inr_iff: "bind_res m f = Inr y \<longleftrightarrow> (\<exists>x. m = Inr x \<and> f x = Inr y)"
  by (cases m) auto

text \<open>\<open>isL\<close>, \<open>projr\<close> and friends of \<open>HOL.Sum_Type\<close> read results.\<close>

section \<open>Indexed reads\<close>

text \<open>
  \<open>xs[i]\<close> and \<open>s.charCodeAt(i)\<close>: outside the bounds the result is
  \<open>undefined\<close> (\<open>NaN\<close> for \<open>charCodeAt\<close>), never an exception.
\<close>

definition at :: "'a list \<Rightarrow> int \<Rightarrow> 'a option" where
  "at xs i = (if 0 \<le> i \<and> i < int (length xs) then Some (xs ! nat i) else None)"

lemma at_in [simp]: "i < length xs \<Longrightarrow> at xs (int i) = Some (xs ! i)"
  by (simp add: at_def)

lemma at_out [simp]: "i < 0 \<or> int (length xs) \<le> i \<Longrightarrow> at xs i = None"
  by (auto simp: at_def)

lemma at_Some_iff: "at xs i = Some x \<longleftrightarrow> 0 \<le> i \<and> nat i < length xs \<and> xs ! nat i = x"
  by (auto simp: at_def)

lemma at_None_iff: "at xs i = None \<longleftrightarrow> i < 0 \<or> int (length xs) \<le> i"
  by (auto simp: at_def)

lemma at_append_left: "i < int (length xs) \<Longrightarrow> at (xs @ ys) i = at xs i"
  by (auto simp: at_def nth_append)

lemma at_append_right:
  "int (length xs) \<le> i \<Longrightarrow> at (xs @ ys) i = at ys (i - int (length xs))"
  by (auto simp: at_def nth_append nat_diff_distrib)

lemma at_drop: "0 \<le> j \<Longrightarrow> at (drop n xs) j = at xs (int n + j)"
  by (auto simp: at_def nat_add_distrib)

text \<open>\<open>s.slice(a, b)\<close> with \<open>0 \<le> a\<close> and \<open>0 \<le> b\<close>.\<close>

definition js_slice :: "'a list \<Rightarrow> int \<Rightarrow> int \<Rightarrow> 'a list" where
  "js_slice xs a b = drop (nat a) (take (nat b) xs)"

section \<open>Bitwise operators on integral numbers\<close>

definition to_int32 :: "int \<Rightarrow> int" where
  "to_int32 x = signed_take_bit 31 x"

definition js_and :: "int \<Rightarrow> int \<Rightarrow> int" where
  "js_and a b = to_int32 a AND to_int32 b"

definition js_or :: "int \<Rightarrow> int \<Rightarrow> int" where
  "js_or a b = to_int32 a OR to_int32 b"

definition js_shl :: "int \<Rightarrow> nat \<Rightarrow> int" where
  "js_shl a n = to_int32 (push_bit n (to_int32 a))"

definition js_shr :: "int \<Rightarrow> nat \<Rightarrow> int" where
  "js_shr a n = drop_bit n (to_int32 a)"

definition js_ushr :: "int \<Rightarrow> nat \<Rightarrow> int" where
  "js_ushr a n = drop_bit n (take_bit 32 a)"

text \<open>
  An operand that is \<open>undefined\<close> or \<open>NaN\<close> counts as 0 in a bitwise operation,
  and makes an arithmetic one \<open>NaN\<close>.
\<close>

definition bits_of :: "int option \<Rightarrow> int" where
  "bits_of v = (case v of None \<Rightarrow> 0 | Some x \<Rightarrow> x)"

lemma bits_of_simps [simp]: "bits_of None = 0" "bits_of (Some x) = x"
  by (simp_all add: bits_of_def)

fun num_add :: "int option \<Rightarrow> int option \<Rightarrow> int option" where
  "num_add (Some a) (Some b) = Some (a + b)"
| "num_add _ _ = None"

fun num_mul :: "int option \<Rightarrow> int option \<Rightarrow> int option" where
  "num_mul (Some a) (Some b) = Some (a * b)"
| "num_mul _ _ = None"

text \<open>
  The conversion to an integer of a quotient \<open>a / m\<close> drops the fraction, towards 0.
\<close>

definition trunc_div :: "int \<Rightarrow> int \<Rightarrow> int" where
  "trunc_div a m = (if a < 0 then - ((- a) div m) else a div m)"

lemma trunc_div_nonneg [simp]: "0 \<le> a \<Longrightarrow> trunc_div a m = a div m"
  by (simp add: trunc_div_def)

lemmas js_bit_defs = js_and_def js_or_def js_shl_def js_shr_def js_ushr_def to_int32_def

declare js_bit_defs [js_defs] trunc_div_def [js_defs] at_def [js_defs]

lemma to_int32_id: "- (2 ^ 31) \<le> x \<Longrightarrow> x < 2 ^ 31 \<Longrightarrow> to_int32 x = x"
  by (simp add: to_int32_def signed_take_bit_int_eq_self)

lemma to_int32_range: "- (2 ^ 31) \<le> to_int32 x" "to_int32 x < 2 ^ 31"
  unfolding to_int32_def
  by (rule signed_take_bit_int_greater_eq_minus_exp, rule signed_take_bit_int_less_exp)

lemma to_int32_idem [simp]: "to_int32 (to_int32 x) = to_int32 x"
  by (rule to_int32_id) (rule to_int32_range)+

subsection \<open>The operators as arithmetic\<close>

lemma take_bit_to_int32: "n \<le> 32 \<Longrightarrow> take_bit n (to_int32 x) = take_bit n x"
  by (simp add: to_int32_def take_bit_signed_take_bit)

lemma to_int32_take_bit: "to_int32 (take_bit 32 x) = to_int32 x"
  by (simp add: to_int32_def signed_take_bit_take_bit)

lemma js_and_mask:
  assumes "n \<le> 31"
  shows "js_and x (2 ^ n - 1) = x mod 2 ^ n"
proof -
  have "(2::int) ^ n \<le> 2 ^ 31" by (rule power_increasing) (use assms in auto)
  then have "to_int32 (2 ^ n - 1) = 2 ^ n - 1"
    by (intro to_int32_id) (simp_all, smt (verit) zero_le_power)
  then have "js_and x (2 ^ n - 1) = to_int32 x AND mask n"
    by (simp add: js_and_def mask_eq_exp_minus_1)
  also have "\<dots> = take_bit n x"
    using assms by (simp flip: take_bit_eq_mask add: take_bit_to_int32)
  finally show ?thesis by (simp add: take_bit_eq_mod)
qed

text \<open>The masks the code uses.\<close>

lemmas js_and_masks [js_ops] =
  js_and_mask [of 2, simplified] js_and_mask [of 3, simplified] js_and_mask [of 4, simplified] js_and_mask [of 5, simplified]
  js_and_mask [of 6, simplified] js_and_mask [of 7, simplified]
  js_and_mask [of 8, simplified] js_and_mask [of 10, simplified]

lemma js_shr_div:
  assumes "- (2 ^ 31) \<le> x" "x < 2 ^ 31"
  shows "js_shr x n = x div 2 ^ n"
  by (simp add: js_shr_def to_int32_id [OF assms] drop_bit_eq_div)

lemma js_ushr_div:
  assumes "0 \<le> x" "x < 2 ^ 32"
  shows "js_ushr x n = x div 2 ^ n"
proof -
  have "take_bit 32 x = x" using assms by (simp add: take_bit_eq_mod)
  then show ?thesis by (simp add: js_ushr_def drop_bit_eq_div)
qed

lemma js_shl_mult:
  assumes "0 \<le> x" "x * 2 ^ n < 2 ^ 31"
  shows "js_shl x n = x * 2 ^ n"
proof -
  have "x * 1 \<le> x * 2 ^ n" using assms(1) by (intro mult_left_mono) auto
  with assms have "to_int32 x = x" by (intro to_int32_id) auto
  moreover have "to_int32 (x * 2 ^ n) = x * 2 ^ n"
    using assms by (intro to_int32_id) (auto simp: order_trans [OF _ mult_nonneg_nonneg])
  ultimately show ?thesis by (simp add: js_shl_def push_bit_eq_mult)
qed

lemma or_eq_add_disjoint:
  fixes a b :: int
  assumes "2 ^ n dvd a" "0 \<le> b" "b < 2 ^ n"
  shows "a OR b = a + b"
proof (rule disjunctive_add_eq_or [symmetric], rule bit_eqI)
  fix i
  have b: "b = take_bit n b" using assms by (simp add: take_bit_eq_mod)
  obtain k where a: "a = push_bit n k"
    using assms(1) by (metis dvd_def mult.commute push_bit_eq_mult)
  show "bit (a AND b) i = bit 0 i"
    by (subst b, subst a) (auto simp: bit_simps)
qed

lemma js_or_add:
  assumes "2 ^ n dvd a" "0 \<le> b" "b < 2 ^ n" "- (2 ^ 31) \<le> a" "a < 2 ^ 31" "n \<le> 31"
  shows "js_or a b = a + b"
proof -
  have "(2::int) ^ n \<le> 2 ^ 31" by (rule power_increasing) (use assms in auto)
  with assms have "to_int32 a = a" "to_int32 b = b" by (auto intro!: to_int32_id)
  with or_eq_add_disjoint [OF assms(1-3)] show ?thesis by (simp add: js_or_def)
qed

lemma js_shr_and: "js_shr (js_and x y) n = js_shr x n AND js_shr y n"
  unfolding js_shr_def js_and_def to_int32_def by (rule bit_eqI) (simp add: bit_simps)

lemma js_and_shifted_mask:
  assumes "0 \<le> x" "x < 2 ^ 31" "m + n \<le> 31"
  shows "js_and x ((2 ^ m - 1) * 2 ^ n) = x div 2 ^ n mod 2 ^ m * 2 ^ n"
proof -
  have "(2::int) ^ (m + n) \<le> 2 ^ 31" by (rule power_increasing) (use assms in auto)
  moreover have "(2 ^ m - 1) * 2 ^ n < (2::int) ^ (m + n)"
    by (simp add: power_add left_diff_distrib)
  ultimately have "to_int32 ((2 ^ m - 1) * 2 ^ n) = (2 ^ m - 1) * 2 ^ n"
    by (intro to_int32_id) (auto intro: order_trans [of _ 0])
  moreover have "to_int32 x = x" using assms by (intro to_int32_id) auto
  ultimately have "js_and x ((2 ^ m - 1) * 2 ^ n) = x AND push_bit n (mask m)"
    by (simp add: js_and_def mask_eq_exp_minus_1 push_bit_eq_mult)
  also have "\<dots> = push_bit n (take_bit m (drop_bit n x))"
    by (rule bit_eqI) (auto simp: bit_simps)
  finally show ?thesis by (simp add: push_bit_eq_mult take_bit_eq_mod drop_bit_eq_div)
qed

lemma js_or_commute: "js_or a b = js_or b a"
  by (simp add: js_or_def or.commute)

lemma div_mod_unique:
  fixes x m q r :: int
  assumes "x = m * q + r" "0 \<le> r" "r < m"
  shows "x div m = q" "x mod m = r"
  using assms by (simp_all add: int_div_pos_eq int_mod_pos_eq)

section \<open>Element stores\<close>

text \<open>
  \<open>b[i] = v\<close> on the elements of a buffer. Elements of a \<open>Uint8Array\<close>
  (\<open>ta\<close>) hold the value modulo 256; those of a plain object (the fallback where typed
  arrays are missing) hold it as it is. A store outside the elements leaves them unchanged.
\<close>

definition put :: "bool \<Rightarrow> int list \<Rightarrow> int \<Rightarrow> int \<Rightarrow> int list" where
  "put ta b i v =
     (if 0 \<le> i \<and> i < int (length b) then b[nat i := (if ta then v mod 256 else v)] else b)"

declare put_def [js_defs]

definition is_bytes :: "int list \<Rightarrow> bool" where
  "is_bytes b \<longleftrightarrow> (\<forall>x \<in> set b. 0 \<le> x \<and> x < 256)"

lemma is_bytes_simps [simp]:
  "is_bytes []" "is_bytes (x # xs) \<longleftrightarrow> 0 \<le> x \<and> x < 256 \<and> is_bytes xs"
  "is_bytes (xs @ ys) \<longleftrightarrow> is_bytes xs \<and> is_bytes ys"
  by (auto simp: is_bytes_def)

lemma is_bytes_nth: "is_bytes b \<Longrightarrow> i < length b \<Longrightarrow> 0 \<le> b ! i \<and> b ! i < 256"
  by (auto simp: is_bytes_def)

lemma is_bytes_take [intro]: "is_bytes b \<Longrightarrow> is_bytes (take n b)"
  by (auto simp: is_bytes_def dest: in_set_takeD)

lemma is_bytes_drop [intro]: "is_bytes b \<Longrightarrow> is_bytes (drop n b)"
  by (auto simp: is_bytes_def dest: in_set_dropD)

lemma is_bytes_replicate [simp]: "is_bytes (replicate n x) \<longleftrightarrow> n = 0 \<or> 0 \<le> x \<and> x < 256"
  by (auto simp: is_bytes_def)

lemma is_bytes_update: "is_bytes b \<Longrightarrow> 0 \<le> v \<Longrightarrow> v < 256 \<Longrightarrow> is_bytes (b[i := v])"
  by (auto simp: is_bytes_def dest!: set_update_subset_insert [THEN subsetD])

lemma length_put [simp]: "length (put ta b i v) = length b"
  by (simp add: put_def)

lemma is_bytes_put_typed [simp]: "is_bytes b \<Longrightarrow> is_bytes (put True b i v)"
  by (simp add: put_def is_bytes_update)

lemma put_nth: "0 \<le> i \<Longrightarrow> nat i < length b \<Longrightarrow>
    put ta b i v ! j = (if j = nat i then (if ta then v mod 256 else v) else b ! j)"
  by (auto simp: put_def nth_list_update)

lemma put_append:
  "i = int (length xs) \<Longrightarrow> put ta (xs @ y # ys) i v = xs @ (if ta then v mod 256 else v) # ys"
  by (simp add: put_def)

end
