(* ===== verification/Base64.thy ===== *)
theory Base64
  imports JsPrelude
begin

text \<open>
  The base64 codec of \<open>swagger-ui.js\<close> (module 15, \<open>base64-js\<close>):
  \<open>decode\<close>, \<open>b64ToByteArray\<close> and \<open>uint8ToBase64\<close>, and the
  structural encoder \<open>b64_spec\<close> of RFC 4648 they are compared with.
\<close>

section \<open>The code\<close>

definition lookup :: jsstring where
  "lookup = jstr ''ABCDEFGHIJKLMNOPQRSTUVWXYZabcdefghijklmnopqrstuvwxyz0123456789+/''"

text \<open>
  \<open>decode(b64.charAt(i))\<close>: \<open>charAt\<close> of an index outside the string is the
  empty string, whose \<open>charCodeAt(0)\<close> is \<open>NaN\<close>; every comparison fails and
  the result is \<open>undefined\<close>, as it is for a code above \<open>'z'\<close>.
\<close>

definition decode :: "int option \<Rightarrow> int option" where
  "decode elt = (case elt of
     None \<Rightarrow> None
   | Some code \<Rightarrow>
      (if code = 43 \<or> code = 45 then Some 62
       else if code = 47 \<or> code = 95 then Some 63
       else if code < 48 then Some (- 1)
       else if code < 48 + 10 then Some (code - 48 + 26 + 26)
       else if code < 65 + 26 then Some (code - 65)
       else if code < 97 + 26 then Some (code - 97 + 26)
       else None))"

definition push :: "int list \<times> int \<Rightarrow> int \<Rightarrow> int list \<times> int" where
  "push st v = (put True (fst st) (snd st) v, snd st + 1)"

definition decode_at :: "jsstring \<Rightarrow> int \<Rightarrow> int" where
  "decode_at b64 i = bits_of (decode (at b64 i))"

text \<open>The loop over the complete groups; the final \<open>i\<close> is used after it.\<close>

function b64_groups :: "jsstring \<Rightarrow> int \<Rightarrow> int \<Rightarrow> int list \<times> int \<Rightarrow> int \<times> int list \<times> int" where
  "b64_groups b64 l i st =
     (if i < l then
        (let tmp = js_or (js_or (js_or (js_shl (decode_at b64 i) 18)
                                       (js_shl (decode_at b64 (i + 1)) 12))
                                (js_shl (decode_at b64 (i + 2)) 6))
                         (decode_at b64 (i + 3));
             st = push st (js_shr (js_and tmp 0xFF0000) 16);
             st = push st (js_shr (js_and tmp 0xFF00) 8);
             st = push st (js_and tmp 0xFF)
         in b64_groups b64 l (i + 4) st)
      else (i, st))"
  by pat_completeness auto
termination by (relation "measure (\<lambda>(b64, l, i, st). nat (l - i))") auto

declare b64_groups.simps [simp del]

definition b64_placeholders :: "jsstring \<Rightarrow> int" where
  "b64_placeholders b64 =
     (let len = int (length b64) in
      if at b64 (len - 2) = Some 61 then 2
      else if at b64 (len - 1) = Some 61 then 1 else 0)"

definition b64ToByteArray :: "jsstring \<Rightarrow> int list res" where
  "b64ToByteArray b64 =
     (if length b64 mod 4 > 0
      then Inl (PlainError ''Invalid string. Length must be a multiple of 4'')
      else
        (let len = int (length b64);
             placeHolders = b64_placeholders b64;
             arr = replicate (nat (len * 3 div 4 - placeHolders)) 0;
             l = (if placeHolders > 0 then len - 4 else len);
             (i, st) = b64_groups b64 l 0 (arr, 0);
             st = (if placeHolders = 2 then
                     (let tmp = js_or (js_shl (decode_at b64 i) 2)
                                      (js_shr (decode_at b64 (i + 1)) 4)
                      in push st (js_and tmp 0xFF))
                   else if placeHolders = 1 then
                     (let tmp = js_or (js_or (js_shl (decode_at b64 i) 10)
                                             (js_shl (decode_at b64 (i + 1)) 4))
                                      (js_shr (decode_at b64 (i + 2)) 2);
                          st = push st (js_and (js_shr tmp 8) 0xFF)
                      in push st (js_and tmp 0xFF))
                   else st)
         in Inr (fst st)))"

definition encode :: "int \<Rightarrow> jsstring" where
  "encode num = (case at lookup num of None \<Rightarrow> [] | Some c \<Rightarrow> [c])"

definition tripletToBase64 :: "int \<Rightarrow> jsstring" where
  "tripletToBase64 num =
     encode (js_and (js_shr num 18) 0x3F) @ encode (js_and (js_shr num 12) 0x3F) @
     encode (js_and (js_shr num 6) 0x3F) @ encode (js_and num 0x3F)"

function b64_triplets :: "int list \<Rightarrow> int \<Rightarrow> int \<Rightarrow> jsstring \<Rightarrow> jsstring" where
  "b64_triplets uint8 len i output =
     (if i < len then
        (let temp = js_shl (bits_of (at uint8 i)) 16 + js_shl (bits_of (at uint8 (i + 1))) 8
                    + bits_of (at uint8 (i + 2))
         in b64_triplets uint8 len (i + 3) (output @ tripletToBase64 temp))
      else output)"
  by pat_completeness auto
termination by (relation "measure (\<lambda>(u, len, i, out). nat (len - i))") auto

declare b64_triplets.simps [simp del]

definition uint8ToBase64 :: "int list \<Rightarrow> jsstring" where
  "uint8ToBase64 uint8 =
     (let len = int (length uint8);
          extraBytes = len mod 3;
          output = b64_triplets uint8 (len - extraBytes) 0 []
      in if extraBytes = 1 then
           (let temp = bits_of (at uint8 (len - 1))
            in output @ encode (js_shr temp 2) @ encode (js_and (js_shl temp 4) 0x3F)
               @ jstr ''=='')
         else if extraBytes = 2 then
           (let temp = js_shl (bits_of (at uint8 (len - 2))) 8 + bits_of (at uint8 (len - 1))
            in output @ encode (js_shr temp 10) @ encode (js_and (js_shr temp 4) 0x3F)
               @ encode (js_and (js_shl temp 2) 0x3F) @ jstr ''='')
         else output)"

section \<open>Correctness\<close>

text \<open>Every 6-bit value, its character and back.\<close>

lemma length_lookup: "length lookup = 64"
  by (simp add: lookup_def)

lemma lookup_codes: "map (\<lambda>c. decode (Some c)) lookup = map (\<lambda>k. Some (int k)) [0..<64]"
  by (simp add: upt_rec decode_def lookup_def)

lemma lookup_chars: "\<forall>c \<in> set lookup. c \<noteq> 61 \<and> 0 < c \<and> c < 128"
  by (simp add: lookup_def)

lemma lookup_table:
  assumes "k < 64"
  shows "decode (Some (lookup ! k)) = Some (int k)" "lookup ! k \<noteq> 61"
     "lookup ! k < 128" "0 < lookup ! k"
proof -
  have "k < length lookup" using assms by (simp add: length_lookup)
  then show "decode (Some (lookup ! k)) = Some (int k)"
    using arg_cong [OF lookup_codes, of "\<lambda>xs. xs ! k"] assms by simp
  show "lookup ! k \<noteq> 61" "lookup ! k < 128" "0 < lookup ! k"
    using lookup_chars \<open>k < length lookup\<close> by auto
qed

lemma lookup_char:
  assumes "0 \<le> k" "k < 64"
  shows "encode k = [lookup ! nat k]" "decode (Some (lookup ! nat k)) = Some k"
    "lookup ! nat k \<noteq> 61" "0 < lookup ! nat k" "lookup ! nat k < 128"
  using assms lookup_table [of "nat k"] by (simp_all add: encode_def at_def length_lookup)

definition sextet :: "int \<Rightarrow> int" where "sextet k = lookup ! nat k"

lemma decode_sextet [simp]: "0 \<le> k \<Longrightarrow> k < 64 \<Longrightarrow> decode (Some (sextet k)) = Some k"
  by (simp add: sextet_def lookup_char)

lemma sextet_not_pad [simp]: "0 \<le> k \<Longrightarrow> k < 64 \<Longrightarrow> sextet k \<noteq> 61"
  by (simp add: sextet_def lookup_char)

lemma encode_sextet: "0 \<le> k \<Longrightarrow> k < 64 \<Longrightarrow> encode k = [sextet k]"
  by (simp add: sextet_def lookup_char)

fun b64_spec :: "int list \<Rightarrow> jsstring" where
  "b64_spec (a # b # c # xs) =
     sextet (a div 4) # sextet (a mod 4 * 16 + b div 16) #
     sextet (b mod 16 * 4 + c div 64) # sextet (c mod 64) # b64_spec xs"
| "b64_spec [a, b] =
     [sextet (a div 4), sextet (a mod 4 * 16 + b div 16), sextet (b mod 16 * 4), 61]"
| "b64_spec [a] = [sextet (a div 4), sextet (a mod 4 * 16), 61, 61]"
| "b64_spec [] = []"


lemma byte_split:
  fixes a m :: int
  assumes "0 \<le> a" "a < 256" "0 < m" "m * n = 256"
  obtains q r where "a = m * q + r" "0 \<le> r" "r < m" "0 \<le> q" "q < n" "a div m = q" "a mod m = r"
proof (rule that [of "a div m" "a mod m"])
  have "m * (a div m) \<le> a"
    using assms(3) mult_div_mod_eq [of m a] pos_mod_sign [of m a] by linarith
  then have "m * (a div m) < m * n" using assms(2,4) by linarith
  then show "a div m < n" using assms(3) by (simp only: mult_less_cancel_left_pos)
qed (use assms in \<open>auto simp: pos_imp_zdiv_nonneg_iff\<close>)

lemma triplet_sextets:
  assumes "0 \<le> a" "a < 256" "0 \<le> b" "b < 256" "0 \<le> c" "c < 256"
  shows "tripletToBase64 (js_shl a 16 + js_shl b 8 + c) =
    [sextet (a div 4), sextet (a mod 4 * 16 + b div 16),
     sextet (b mod 16 * 4 + c div 64), sextet (c mod 64)]"
proof -
  obtain a1 a0 where a: "a = 4 * a1 + a0" "0 \<le> a0" "a0 < 4" "0 \<le> a1" "a1 < 64" "a div 4 = a1" "a mod 4 = a0"
    by (rule byte_split [of a 4 64]) (use assms in auto)
  obtain b1 b0 where b: "b = 16 * b1 + b0" "0 \<le> b0" "b0 < 16" "0 \<le> b1" "b1 < 16" "b div 16 = b1" "b mod 16 = b0"
    by (rule byte_split [of b 16 16]) (use assms in auto)
  obtain c1 c0 where c: "c = 64 * c1 + c0" "0 \<le> c0" "c0 < 64" "0 \<le> c1" "c1 < 4" "c div 64 = c1" "c mod 64 = c0"
    by (rule byte_split [of c 64 4]) (use assms in auto)
  let ?t = "a * 65536 + b * 256 + c"
  have t: "js_shl a 16 + js_shl b 8 + c = ?t"
    using assms by (simp add: js_shl_mult)
  have r: "- (2 ^ 31) \<le> ?t" "?t < 2 ^ 31" using assms by auto
  have d1: "?t div 2 ^ 18 = a1"
    by (rule div_mod_unique(1) [where r = "a0 * 65536 + b * 256 + c"]) (use a b c in auto)
  have d2: "?t div 2 ^ 12 = 64 * a1 + (a0 * 16 + b1)"
    by (rule div_mod_unique(1) [where r = "b0 * 256 + c"]) (use a b c in auto)
  have d3: "?t div 2 ^ 6 = 64 * (64 * a1 + (a0 * 16 + b1)) + (b0 * 4 + c1)"
    by (rule div_mod_unique(1) [where r = "c0"]) (use a b c in auto)
  have d4: "?t mod 64 = c0"
    by (rule div_mod_unique(2) [where q = "64 * (64 * a1 + (a0 * 16 + b1)) + (b0 * 4 + c1)"])
       (use a b c in auto)
  have m1: "a1 mod 64 = a1" using a(4,5) by simp
  have m2: "(64 * a1 + (a0 * 16 + b1)) mod 64 = a0 * 16 + b1"
    using a(2,3) b(4,5) by (intro div_mod_unique(2) [where q = a1]) auto
  have m3: "(64 * (64 * a1 + (a0 * 16 + b1)) + (b0 * 4 + c1)) mod 64 = b0 * 4 + c1"
    using b(2,3) c(4,5) by (intro div_mod_unique(2) [where q = "64 * a1 + (a0 * 16 + b1)"]) auto
  have "tripletToBase64 ?t = encode a1 @ encode (a0 * 16 + b1) @ encode (b0 * 4 + c1) @ encode c0"
    unfolding tripletToBase64_def js_shr_div [OF r] js_ops d1 d2 d3 d4 m1 m2 m3 ..
  also have "\<dots> = [sextet a1, sextet (a0 * 16 + b1), sextet (b0 * 4 + c1), sextet c0]"
    using a(2-5) b(2-5) c(2-5) by (simp add: encode_sextet)
  finally show ?thesis
    unfolding t a(6,7) b(6,7) c(6,7) .
qed

text \<open>The encoder of the code is the structural one.\<close>

lemma b64_triplets_spec:
  assumes "is_bytes rest" "length pre mod 3 = 0"
  shows "b64_triplets (pre @ rest) (int (length pre + length rest - length rest mod 3)) (int (length pre)) out
    = out @ take (length rest div 3 * 4) (b64_spec rest)"
  using assms
proof (induction rest arbitrary: pre out rule: b64_spec.induct)
  case (1 a b c xs)
  have m: "(3 + length xs) mod 3 = length xs mod 3" "(3 + length xs) div 3 = Suc (length xs div 3)"
    by simp_all
  have le: "length xs mod 3 \<le> length xs" by simp
  have at: "at (pre @ a # b # c # xs) (int (length pre)) = Some a"
     "at (pre @ a # b # c # xs) (int (length pre) + 1) = Some b"
     "at (pre @ a # b # c # xs) (int (length pre) + 2) = Some c"
    by (simp_all add: at_def nth_append nat_add_distrib)
  have *: "b64_triplets (pre @ a # b # c # xs) n (int (length pre)) out =
     b64_triplets (pre @ a # b # c # xs) n (int (length (pre @ [a, b, c])))
       (out @ tripletToBase64 (js_shl a 16 + js_shl b 8 + c))"
     if "int (length pre) < n" for n
    using that by (subst b64_triplets.simps) (simp add: at Let_def add.commute [of _ 3])
  have idx: "int (length pre + length (a # b # c # xs) - length (a # b # c # xs) mod 3)
     = int (length (pre @ [a, b, c]) + length xs - length xs mod 3)" (is "?l = ?l'")
    using le by (simp add: m)
  have "length (pre @ [a, b, c]) mod 3 = 0" using "1.prems"(2) by simp
  then have IH: "b64_triplets ((pre @ [a, b, c]) @ xs) ?l' (int (length (pre @ [a, b, c]))) o' =
      o' @ take (length xs div 3 * 4) (b64_spec xs)" for o'
    using "1.IH" [of "pre @ [a, b, c]" o'] "1.prems"(1) by simp
  have lt: "int (length pre) < ?l" using le by (simp add: m)
  show ?case
    using IH "1.prems"(1) unfolding * [OF lt] unfolding idx
    by (simp add: triplet_sextets m take_Cons')
next
  case (2 a b)
  then show ?case by (subst b64_triplets.simps) simp
next
  case (3 a)
  then show ?case by (subst b64_triplets.simps) simp
next
  case 4
  then show ?case by (subst b64_triplets.simps) simp
qed


lemma tail_sextets:
  assumes "0 \<le> a" "a < 256" "0 \<le> b" "b < 256"
  shows "encode (js_shr a 2) = [sextet (a div 4)]"
    "encode (js_and (js_shl a 4) 63) = [sextet (a mod 4 * 16)]"
    "encode (js_shr (js_shl a 8 + b) 10) = [sextet (a div 4)]"
    "encode (js_and (js_shr (js_shl a 8 + b) 4) 63) = [sextet (a mod 4 * 16 + b div 16)]"
    "encode (js_and (js_shl (js_shl a 8 + b) 2) 63) = [sextet (b mod 16 * 4)]"
proof -
  obtain a1 a0 where a: "a = 4 * a1 + a0" "0 \<le> a0" "a0 < 4" "0 \<le> a1" "a1 < 64" "a div 4 = a1" "a mod 4 = a0"
    by (rule byte_split [of a 4 64]) (use assms in auto)
  obtain b1 b0 where b: "b = 16 * b1 + b0" "0 \<le> b0" "b0 < 16" "0 \<le> b1" "b1 < 16" "b div 16 = b1" "b mod 16 = b0"
    by (rule byte_split [of b 16 16]) (use assms in auto)
  have sh: "js_shl a 8 = a * 256" "js_shl a 4 = a * 16" "js_shl (a * 256 + b) 2 = (a * 256 + b) * 4"
    using assms by (simp_all add: js_shl_mult)
  have r: "- (2 ^ 31) \<le> a" "a < 2 ^ 31" "- (2 ^ 31) \<le> a * 256 + b" "a * 256 + b < 2 ^ 31"
    using assms by auto
  show "encode (js_shr a 2) = [sextet (a div 4)]"
    using a(2-5) unfolding js_shr_div [OF r(1,2)] by (simp add: a(6) encode_sextet)
  have "a * 16 mod 64 = a0 * 16"
    by (rule div_mod_unique(2) [where q = a1]) (use a(1-3) in auto)
  then show "encode (js_and (js_shl a 4) 63) = [sextet (a mod 4 * 16)]"
    using a(2,3) by (simp add: sh js_ops a(7) encode_sextet)
  have "(a * 256 + b) div 2 ^ 10 = a1"
    by (rule div_mod_unique(1) [where r = "a0 * 256 + b"]) (use a(1-3) assms in auto)
  then show "encode (js_shr (js_shl a 8 + b) 10) = [sextet (a div 4)]"
    using a(4,5) unfolding sh js_shr_div [OF r(3,4)] a(6) by (simp add: encode_sextet)
  have "(a * 256 + b) div 2 ^ 4 = 64 * a1 + (a0 * 16 + b1)"
    by (rule div_mod_unique(1) [where r = b0]) (use a(1) b(1-3) in auto)
  moreover have "(64 * a1 + (a0 * 16 + b1)) mod 64 = a0 * 16 + b1"
    using a(2,3) b(4,5) by (intro div_mod_unique(2) [where q = a1]) auto
  ultimately show "encode (js_and (js_shr (js_shl a 8 + b) 4) 63) = [sextet (a mod 4 * 16 + b div 16)]"
    using a(2,3) b(4,5) unfolding sh js_shr_div [OF r(3,4)] a(7) b(6) js_ops
    by (simp add: encode_sextet)
  have "(a * 256 + b) * 4 mod 64 = b0 * 4"
    by (rule div_mod_unique(2) [where q = "16 * a + b1"]) (use b(1-3) in auto)
  then show "encode (js_and (js_shl (js_shl a 8 + b) 2) 63) = [sextet (b mod 16 * 4)]"
    using b(2,3) by (simp add: sh js_ops b(7) encode_sextet)
qed

lemma div3: "(3 + n) div 3 = Suc (n div 3)" for n :: nat
  by simp

lemma b64_spec_append:
  assumes "length pre mod 3 = 0"
  shows "b64_spec (pre @ rest) = b64_spec pre @ b64_spec rest"
    "length (b64_spec pre) = length pre div 3 * 4"
  using assms by (induction pre rule: b64_spec.induct) (simp_all add: div3)

lemma int_mod3: "int n mod 3 = int (n mod 3)"
  by (simp add: zmod_int)

lemma uint8ToBase64_spec:
  assumes "is_bytes xs"
  shows "uint8ToBase64 xs = b64_spec xs"
proof -
  define k where "k = length xs div 3 * 3"
  define pre rest where "pre = take k xs" and "rest = drop k xs"
  have k: "k \<le> length xs" "length xs = k + length xs mod 3" "k mod 3 = 0"
    "k div 3 * 4 = length xs div 3 * 4" by (auto simp: k_def)
  then have len: "length pre = k" "length rest = length xs mod 3"
    using k by (auto simp: pre_def rest_def)
  have xs: "xs = pre @ rest" by (simp add: pre_def rest_def)
  have bs: "is_bytes pre" "is_bytes rest" using assms by (auto simp: xs)
  have sp: "b64_spec xs = b64_spec pre @ b64_spec rest" "length (b64_spec pre) = k div 3 * 4"
    using b64_spec_append(1) [of pre rest] b64_spec_append(2) [of pre] len k(3) by (simp_all add: xs)
  have ex: "int (length xs) - int (length xs) mod 3 = int (length ([] @ xs) - length xs mod 3)"
    by (simp add: int_mod3 of_nat_diff)
  have loop: "b64_triplets xs (int (length xs) - int (length xs) mod 3) 0 [] = b64_spec pre"
    using b64_triplets_spec [of xs "[]" "[]"] assms sp k(4) by (simp add: ex)
  consider "rest = []" | a where "rest = [a]" | a b where "rest = [a, b]"
  proof -
    have "length rest < 3" using len by simp
    then show thesis using that
      by (cases rest; cases "tl rest"; cases "tl (tl rest)") auto
  qed
  then show ?thesis
  proof cases
    case 1
    then have "int (length xs) mod 3 = 0" using len by (simp add: int_mod3)
    then show ?thesis using 1 loop sp by (simp add: uint8ToBase64_def Let_def)
  next
    case (2 a)
    then have "length xs mod 3 = 1" using len(2) by simp
    then have "int (length xs) mod 3 = 1" by (simp add: int_mod3)
    moreover have "at xs (int (length xs) - 1) = Some a" using 2 by (simp add: xs at_def nth_append)
    ultimately show ?thesis using 2 loop sp bs tail_sextets(1,2) [of a 0]
      by (simp add: uint8ToBase64_def Let_def)
  next
    case (3 a b)
    then have "length xs mod 3 = 2" using len(2) by simp
    then have "int (length xs) mod 3 = 2" by (simp add: int_mod3)
    moreover have "at xs (int (length xs) - 2) = Some a" "at xs (int (length xs) - 1) = Some b"
      using 3 by (simp_all add: xs at_def nth_append nat_add_distrib)
    ultimately show ?thesis using 3 loop sp bs tail_sextets(3,4,5) [of a b]
      by (simp add: uint8ToBase64_def Let_def)
  qed
qed

subsection \<open>The decoder inverts the encoder\<close>

lemma group_decodes:
  assumes "0 \<le> a" "a < 256" "0 \<le> b" "b < 256" "0 \<le> c" "c < 256"
  defines "t \<equiv> js_or (js_or (js_or (js_shl (a div 4) 18) (js_shl (a mod 4 * 16 + b div 16) 12))
               (js_shl (b mod 16 * 4 + c div 64) 6)) (c mod 64)"
  shows "js_shr (js_and t 0xFF0000) 16 = a" "js_shr (js_and t 0xFF00) 8 = b" "js_and t 0xFF = c"
proof -
  obtain a1 a0 where a: "a = 4 * a1 + a0" "0 \<le> a0" "a0 < 4" "0 \<le> a1" "a1 < 64" "a div 4 = a1" "a mod 4 = a0"
    by (rule byte_split [of a 4 64]) (use assms in auto)
  obtain b1 b0 where b: "b = 16 * b1 + b0" "0 \<le> b0" "b0 < 16" "0 \<le> b1" "b1 < 16" "b div 16 = b1" "b mod 16 = b0"
    by (rule byte_split [of b 16 16]) (use assms in auto)
  obtain c1 c0 where c: "c = 64 * c1 + c0" "0 \<le> c0" "c0 < 64" "0 \<le> c1" "c1 < 4" "c div 64 = c1" "c mod 64 = c0"
    by (rule byte_split [of c 64 4]) (use assms in auto)
  have s1: "js_shl a1 18 = a1 * 2 ^ 18" "js_shl (a0 * 16 + b1) 12 = (a0 * 16 + b1) * 2 ^ 12"
    "js_shl (b0 * 4 + c1) 6 = (b0 * 4 + c1) * 2 ^ 6"
    by (rule js_shl_mult; use a(2-5) b(2-5) c(2-5) in simp)+
  have o1: "js_or (a1 * 2 ^ 18) ((a0 * 16 + b1) * 2 ^ 12) = a1 * 2 ^ 18 + (a0 * 16 + b1) * 2 ^ 12"
    by (rule js_or_add [of 18]) (use a(2-5) b(2-5) in auto)
  have o2: "js_or (a1 * 2 ^ 18 + (a0 * 16 + b1) * 2 ^ 12) ((b0 * 4 + c1) * 2 ^ 6) =
      a1 * 2 ^ 18 + (a0 * 16 + b1) * 2 ^ 12 + (b0 * 4 + c1) * 2 ^ 6"
    by (rule js_or_add [of 12]) (use a(2-5) b(2-5) c(2-5) in \<open>auto intro!: dvd_add dvd_mult2\<close>)
  have o3: "js_or (a1 * 2 ^ 18 + (a0 * 16 + b1) * 2 ^ 12 + (b0 * 4 + c1) * 2 ^ 6) c0 =
      a1 * 2 ^ 18 + (a0 * 16 + b1) * 2 ^ 12 + (b0 * 4 + c1) * 2 ^ 6 + c0"
    by (rule js_or_add [of 6]) (use a(2-5) b(2-5) c(2-5) in \<open>auto intro!: dvd_add dvd_mult2\<close>)
  have "t = a1 * 2 ^ 18 + (a0 * 16 + b1) * 2 ^ 12 + (b0 * 4 + c1) * 2 ^ 6 + c0"
    unfolding t_def a(6,7) b(6,7) c(6,7) s1 o1 o2 o3 ..
  then have t: "t = a * 65536 + b * 256 + c"
    using a(1) b(1) c(1) by simp
  have r: "- (2 ^ 31) \<le> t" "t < 2 ^ 31" using assms(1-6) by (simp_all add: t)
  have m: "js_shr 0xFF00 8 = mask 8" "js_shr 0xFF0000 16 = mask 8"
    by (simp_all add: js_bit_defs mask_numeral)
  show "js_and t 0xFF = c"
    using assms(5,6) unfolding js_ops t by (intro div_mod_unique(2) [where q = "a * 256 + b"]) auto
  have "t div 2 ^ 8 = 256 * a + b" "t div 2 ^ 16 = a"
    using assms(1-6) unfolding t
    by (intro div_mod_unique(1) [where r = c] div_mod_unique(1) [where r = "b * 256 + c"]; simp)+
  moreover have "take_bit 8 (256 * a + b) = b" "take_bit 8 a = a"
    using assms(1-4) by (simp_all add: take_bit_eq_mod)
  ultimately show "js_shr (js_and t 0xFF00) 8 = b" "js_shr (js_and t 0xFF0000) 16 = a"
    unfolding js_shr_and m by (simp_all add: js_shr_div [OF r] flip: take_bit_eq_mask)
qed


lemma tail_decodes:
  assumes "0 \<le> a" "a < 256" "0 \<le> b" "b < 256"
  shows "js_and (js_or (js_shl (a div 4) 2) (js_shr (a mod 4 * 16) 4)) 0xFF = a"
    "js_and (js_shr (js_or (js_or (js_shl (a div 4) 10) (js_shl (a mod 4 * 16 + b div 16) 4))
       (js_shr (b mod 16 * 4) 2)) 8) 0xFF = a"
    "js_and (js_or (js_or (js_shl (a div 4) 10) (js_shl (a mod 4 * 16 + b div 16) 4))
       (js_shr (b mod 16 * 4) 2)) 0xFF = b"
proof -
  obtain a1 a0 where a: "a = 4 * a1 + a0" "0 \<le> a0" "a0 < 4" "0 \<le> a1" "a1 < 64" "a div 4 = a1" "a mod 4 = a0"
    by (rule byte_split [of a 4 64]) (use assms in auto)
  obtain b1 b0 where b: "b = 16 * b1 + b0" "0 \<le> b0" "b0 < 16" "0 \<le> b1" "b1 < 16" "b div 16 = b1" "b mod 16 = b0"
    by (rule byte_split [of b 16 16]) (use assms in auto)
  have sl: "js_shl a1 2 = a1 * 2 ^ 2" "js_shl a1 10 = a1 * 2 ^ 10"
    "js_shl (a0 * 16 + b1) 4 = (a0 * 16 + b1) * 2 ^ 4"
    by (rule js_shl_mult; use a(2-5) b(2-5) in simp)+
  have sr: "js_shr (a0 * 16) 4 = a0" "js_shr (b0 * 4) 2 = b0"
    using a(2-5) b(2-5) by (simp_all add: js_shr_div)
  have o1: "js_or (a1 * 2 ^ 2) a0 = a"
    unfolding a(1) by (subst js_or_add [of 2]) (use a(2-5) in auto)
  have o2: "js_or (a1 * 2 ^ 10) ((a0 * 16 + b1) * 2 ^ 4) = a1 * 2 ^ 10 + (a0 * 16 + b1) * 2 ^ 4"
    by (rule js_or_add [of 10]) (use a(2-5) b(2-5) in auto)
  have "js_or (a1 * 2 ^ 10 + (a0 * 16 + b1) * 2 ^ 4) b0 = a1 * 2 ^ 10 + (a0 * 16 + b1) * 2 ^ 4 + b0"
    by (rule js_or_add [of 4]) (use a(2-5) b(2-5) in \<open>auto intro!: dvd_add dvd_mult2\<close>)
  then have o3: "js_or (a1 * 2 ^ 10 + (a0 * 16 + b1) * 2 ^ 4) b0 = a * 256 + b"
    using a(1) b(1) by simp
  show "js_and (js_or (js_shl (a div 4) 2) (js_shr (a mod 4 * 16) 4)) 0xFF = a"
    unfolding a(6,7) sl sr o1 js_ops using assms by simp
  have "(a * 256 + b) div 2 ^ 8 = a" "a mod 256 = a" "(a * 256 + b) mod 256 = b"
    using assms by simp_all
  moreover have "- (2 ^ 31) \<le> a * 256 + b" "a * 256 + b < 2 ^ 31" using assms by auto
  ultimately show "js_and (js_shr (js_or (js_or (js_shl (a div 4) 10) (js_shl (a mod 4 * 16 + b div 16) 4))
       (js_shr (b mod 16 * 4) 2)) 8) 0xFF = a"
    "js_and (js_or (js_or (js_shl (a div 4) 10) (js_shl (a mod 4 * 16 + b div 16) 4))
       (js_shr (b mod 16 * 4) 2)) 0xFF = b"
    unfolding a(6,7) b(6,7) sl sr o2 o3 js_ops by (simp_all only: js_shr_div)
qed

lemma push_next:
  "L = int (length xs) \<Longrightarrow> 0 \<le> v \<Longrightarrow> v < 256 \<Longrightarrow> push (xs @ y # ys, L) v = (xs @ v # ys, L + 1)"
  by (simp add: push_def put_append)

lemma split_triplets:
  fixes xs :: "'a list"
  obtains "xs = []"
  | pre a b c where "xs = pre @ [a, b, c]" "length pre mod 3 = 0"
  | pre a where "xs = pre @ [a]" "length pre mod 3 = 0"
  | pre a b where "xs = pre @ [a, b]" "length pre mod 3 = 0"
proof -
  define k where "k = (length xs - 1) div 3 * 3"
  have k: "k \<le> length xs" "length (take k xs) mod 3 = 0" "length (drop k xs) \<le> 3"
    "xs \<noteq> [] \<Longrightarrow> drop k xs \<noteq> []"
    by (cases xs; simp add: k_def; arith)+
  have xs: "xs = take k xs @ drop k xs" by simp
  show thesis
  proof (cases xs)
    case Nil
    then show thesis by (rule that(1))
  next
    case (Cons y ys)
    then obtain a r where r: "drop k xs = a # r" using k(4) by (cases "drop k xs") auto
    then consider "r = []" | b where "r = [b]" | b c where "r = [b, c]"
      using k(3) by (cases r; cases "tl r"; cases "tl (tl r)") auto
    then show thesis
      using that(2-4) [OF _ k(2)] xs r by cases metis+
  qed
qed

lemma decode_at_sextets:
  assumes "0 \<le> k" "k < 64"
  shows "decode_at (p @ sextet k # q) (int (length p)) = k"
    "decode_at (p @ x # sextet k # q) (int (length p) + 1) = k"
    "decode_at (p @ x # y # sextet k # q) (int (length p) + 2) = k"
    "decode_at (p @ x # y # z # sextet k # q) (int (length p) + 3) = k"
  using assms by (simp_all add: decode_at_def at_def nth_append nat_add_distrib)

lemma b64_groups_spec:
  assumes "is_bytes pre" "length pre mod 3 = 0" "length pre \<le> length ys"
    "l = int (length s0 + length (b64_spec pre))"
  shows "b64_groups (s0 @ b64_spec pre @ s1) l (int (length s0)) (done @ ys, int (length done)) =
    (l, done @ pre @ drop (length pre) ys, int (length done + length pre))"
  using assms
proof (induction pre arbitrary: s0 "done" ys rule: b64_spec.induct)
  case (1 a b c xs)
  let ?q = "[sextet (a div 4), sextet (a mod 4 * 16 + b div 16),
     sextet (b mod 16 * 4 + c div 64), sextet (c mod 64)]"
  define s where "s = s0 @ b64_spec (a # b # c # xs) @ s1"
  have r: "0 \<le> a" "a < 256" "0 \<le> b" "b < 256" "0 \<le> c" "c < 256" "is_bytes xs" using 1(2) by auto
  obtain y1 y2 y3 zs where ys: "ys = y1 # y2 # y3 # zs" "length xs \<le> length zs"
    using 1(4) by (auto simp: Suc_le_length_iff)
  have rng: "a div 4 < 64" "a mod 4 * 16 + b div 16 < 64" "b mod 16 * 4 + c div 64 < 64"
    "0 \<le> a mod 4 * 16 + b div 16" "0 \<le> b mod 16 * 4 + c div 64" "0 \<le> a div 4"
    using r by (auto simp: pos_imp_zdiv_nonneg_iff; linarith)+
  have s: "s = s0 @ sextet (a div 4) # sextet (a mod 4 * 16 + b div 16) #
      sextet (b mod 16 * 4 + c div 64) # sextet (c mod 64) # b64_spec xs @ s1"
    by (simp add: s_def)
  have d0: "decode_at s (int (length s0)) = a div 4"
    unfolding s by (rule decode_at_sextets(1) [OF rng(6,1)])
  have d1: "decode_at s (int (length s0) + 1) = a mod 4 * 16 + b div 16"
    unfolding s by (rule decode_at_sextets(2) [OF rng(4,2)])
  have d2: "decode_at s (int (length s0) + 2) = b mod 16 * 4 + c div 64"
    unfolding s by (rule decode_at_sextets(3) [OF rng(5,3)])
  have d3: "decode_at s (int (length s0) + 3) = c mod 64"
    unfolding s by (rule decode_at_sextets(4)) simp_all
  have p: "push (done @ y1 # y2 # y3 # zs, int (length done)) a = (done @ a # y2 # y3 # zs, int (length done) + 1)"
    "push (done @ a # y2 # y3 # zs, int (length done) + 1) b = (done @ a # b # y3 # zs, int (length done) + 2)"
    "push (done @ a # b # y3 # zs, int (length done) + 2) c = (done @ a # b # c # zs, int (length done) + 3)"
    using r push_next [of _ "done" a y1] push_next [of _ "done @ [a]" b y2] push_next [of _ "done @ [a, b]" c y3]
    by (simp_all add: add.commute)
  have lt: "int (length s0) < l" using 1(5) by simp
  have "b64_groups s l (int (length s0)) (done @ ys, int (length done)) =
     b64_groups s l (int (length s0) + 4) (done @ a # b # c # zs, int (length done) + 3)"
    unfolding ys(1) by (subst b64_groups.simps) (simp add: lt d0 d1 d2 d3 group_decodes r p Let_def)
  also have "\<dots> = b64_groups ((s0 @ ?q) @ b64_spec xs @ s1) l (int (length (s0 @ ?q)))
      ((done @ [a, b, c]) @ zs, int (length (done @ [a, b, c])))"
    by (simp add: s_def add.commute [of _ 4] add.commute [of _ 3])
  also have "\<dots> = (l, (done @ [a, b, c]) @ xs @ drop (length xs) zs,
      int (length (done @ [a, b, c]) + length xs))"
    by (rule "1.IH") (use 1(3,5) r ys in auto)
  finally show ?case by (simp add: ys s_def)
next
  case 4
  then show ?case by (subst b64_groups.simps) simp
qed simp_all


lemma placeholders_last4:
  "b64_placeholders (p @ [w, x, y, z]) = (if y = 61 then 2 else if z = 61 then 1 else 0)"
  by (auto simp: b64_placeholders_def at_def nth_append nat_add_distrib)

lemma placeholders_spec:
  assumes "is_bytes xs"
  shows "b64_placeholders (b64_spec xs) =
    (if length xs mod 3 = 1 then 2 else if length xs mod 3 = 2 then 1 else 0)"
proof (cases xs rule: split_triplets)
  case 1
  then show ?thesis by (simp add: b64_placeholders_def at_def)
next
  case (2 pre a b c)
  then have "0 \<le> b" "b < 256" "0 \<le> c" "c < 256" using assms by auto
  then have "0 \<le> b mod 16 * 4 + c div 64" "b mod 16 * 4 + c div 64 < 64"
    by (auto simp: pos_imp_zdiv_nonneg_iff; linarith)+
  moreover have "length xs mod 3 = 0" using 2 by simp
  ultimately show ?thesis using 2(2)
    by (simp add: 2(1) b64_spec_append(1) placeholders_last4)
next
  case (3 pre a)
  then have "length xs mod 3 = 1" by (simp add: mod_Suc)
  then show ?thesis using 3(2) by (simp add: 3(1) b64_spec_append(1) placeholders_last4)
next
  case (4 pre a b)
  then have "length xs mod 3 = 2" "0 \<le> b" "b < 256" using assms by (auto simp: mod_Suc)
  then show ?thesis using 4(2) by (simp add: 4(1) b64_spec_append(1) placeholders_last4)
qed

lemma length_b64_spec: "length (b64_spec xs) = (length xs + 2) div 3 * 4"
proof (induction xs rule: b64_spec.induct)
  case (1 a b c xs)
  have "(5 + length xs) div 3 = Suc ((length xs + 2) div 3)" by presburger
  then show ?case using 1 by simp
qed simp_all

lemma b64ToByteArray_pad1:
  assumes "length b64 mod 4 = 0" "b64_placeholders b64 = 1"
    "b64_groups b64 (int (length b64) - 4) 0 (replicate (nat (int (length b64) * 3 div 4 - 1)) 0, 0) = (i, st)"
    "x = js_or (js_or (js_shl (decode_at b64 i) 10) (js_shl (decode_at b64 (i + 1)) 4))
          (js_shr (decode_at b64 (i + 2)) 2)"
  shows "b64ToByteArray b64 = Inr (fst (push (push st (js_and (js_shr x 8) 255)) (js_and x 255)))"
  using assms by (simp add: b64ToByteArray_def Let_def)

lemma b64ToByteArray_pad2:
  assumes "length b64 mod 4 = 0" "b64_placeholders b64 = 2"
    "b64_groups b64 (int (length b64) - 4) 0 (replicate (nat (int (length b64) * 3 div 4 - 2)) 0, 0) = (i, st)"
    "x = js_or (js_shl (decode_at b64 i) 2) (js_shr (decode_at b64 (i + 1)) 4)"
  shows "b64ToByteArray b64 = Inr (fst (push st (js_and x 255)))"
  using assms by (simp add: b64ToByteArray_def Let_def)

lemma b64ToByteArray_spec:
  assumes "is_bytes xs"
  shows "b64ToByteArray (b64_spec xs) = Inr xs"
proof -
  have m4: "length (b64_spec xs) mod 4 = 0" by (simp add: length_b64_spec)
  have run: "b64_groups (b64_spec xs) (int (length (b64_spec pre))) 0 (replicate n 0, 0) =
     (int (length (b64_spec pre)), pre @ replicate (n - length pre) 0, int (length pre))"
    if "xs = pre @ rest" "length pre mod 3 = 0" "length pre \<le> n" for pre rest n
    using b64_groups_spec [of pre "replicate n 0" "int (length (b64_spec pre))" "[]" "b64_spec rest" "[]"] that assms
    by (simp add: b64_spec_append)
  show ?thesis
  proof (cases xs rule: split_triplets)
    case 1
    then show ?thesis
      using run [of "[]" "[]" 0]
      by (simp add: b64ToByteArray_def b64_placeholders_def at_def Let_def)
  next
    case (2 pre a b c)
    have len: "length xs mod 3 = 0" "length (b64_spec xs) = length xs div 3 * 4" 
      using 2 by (simp_all add: b64_spec_append div3)
    have n: "int (length (b64_spec xs)) * 3 div 4 = int (length xs)"
      using len by auto
    show ?thesis
      using run [of xs "[]" "length xs"] m4 len(1) n assms
      by (simp add: b64ToByteArray_def placeholders_spec Let_def)
  next
    case (3 pre a)
    have len: "length xs mod 3 = 1" "length (b64_spec xs) = length pre div 3 * 4 + 4" 
      using 3 by (simp_all add: b64_spec_append mod_Suc) 
    have n: "int (length (b64_spec xs)) * 3 div 4 - 2 = int (length pre + 1)"
      using len 3(2) by auto
    have l: "int (length (b64_spec xs)) - 4 = int (length (b64_spec pre))" 
      using len 3 by (simp add: b64_spec_append)
    have a: "0 \<le> a" "a < 256" using 3 assms by auto
    have r: "a mod 4 * 16 < 64" by simp
    have dec: "decode_at (b64_spec xs) (int (length (b64_spec pre))) = a div 4"
       "decode_at (b64_spec xs) (int (length (b64_spec pre)) + 1) = a mod 4 * 16"
      unfolding 3(1) b64_spec_append(1) [OF 3(2)] b64_spec.simps
      using decode_at_sextets(1) [of "a div 4"] decode_at_sextets(2) [OF _ r] a
      by (simp_all add: pos_imp_zdiv_nonneg_iff)
    have ph: "b64_placeholders (b64_spec xs) = 2" using len(1) by (simp add: placeholders_spec assms)
    have run': "b64_groups (b64_spec xs) (int (length (b64_spec xs)) - 4) 0
        (replicate (nat (int (length (b64_spec xs)) * 3 div 4 - 2)) 0, 0) =
        (int (length (b64_spec pre)), pre @ [0], int (length pre))"
      unfolding l n nat_int using run [OF 3(1,2), of "length pre + 1"] by simp
    show ?thesis
      by (subst b64ToByteArray_pad2 [OF m4 ph run' refl])
         (simp add: dec tail_decodes [OF a a] push_next a 3(1) [symmetric])
  next
    case (4 pre a b)
    have len: "length xs mod 3 = 2" "length (b64_spec xs) = length pre div 3 * 4 + 4" 
      using 4 by (simp_all add: b64_spec_append mod_Suc) 
    have n: "int (length (b64_spec xs)) * 3 div 4 - 1 = int (length pre + 2)"
      using len 4(2) by auto
    have l: "int (length (b64_spec xs)) - 4 = int (length (b64_spec pre))" 
      using len 4 by (simp add: b64_spec_append)
    have a: "0 \<le> a" "a < 256" "0 \<le> b" "b < 256" using 4 assms by auto
    have r: "a mod 4 * 16 + b div 16 < 64" "0 \<le> a mod 4 * 16 + b div 16" 
      using a by (auto simp: pos_imp_zdiv_nonneg_iff; linarith)+
    have dec: "decode_at (b64_spec xs) (int (length (b64_spec pre))) = a div 4"
       "decode_at (b64_spec xs) (int (length (b64_spec pre)) + 1) = a mod 4 * 16 + b div 16"
       "decode_at (b64_spec xs) (int (length (b64_spec pre)) + 2) = b mod 16 * 4"
      unfolding 4(1) b64_spec_append(1) [OF 4(2)] b64_spec.simps
      using decode_at_sextets(1) [of "a div 4"] decode_at_sextets(2) [OF r(2,1)]
        decode_at_sextets(3) [of "b mod 16 * 4"] a
      by (simp_all add: pos_imp_zdiv_nonneg_iff)
    have p: "push (pre @ [0, 0], int (length pre)) a = (pre @ [a, 0], int (length pre) + 1)"
      "push (pre @ [a, 0], int (length pre) + 1) b = (pre @ [a, b], int (length pre) + 2)"
      using a push_next [of _ pre a 0 "[0]"] push_next [of _ "pre @ [a]" b 0 "[]"]
      by (simp_all add: add.commute)
    have rep: "replicate 2 0 = [0, 0 :: int]" by (simp add: numeral_2_eq_2)
    have ph: "b64_placeholders (b64_spec xs) = 1" using len(1) by (simp add: placeholders_spec assms)
    have run': "b64_groups (b64_spec xs) (int (length (b64_spec xs)) - 4) 0
        (replicate (nat (int (length (b64_spec xs)) * 3 div 4 - 1)) 0, 0) =
        (int (length (b64_spec pre)), pre @ [0, 0], int (length pre))"
      unfolding l n nat_int using run [OF 4(1,2), of "length pre + 2"] by (simp add: rep)
    show ?thesis
      by (subst b64ToByteArray_pad1 [OF m4 ph run' refl])
         (simp only: dec tail_decodes [OF a] p fst_conv 4(1) [symmetric])
  qed
qed

text \<open>What the decoder does with any string.\<close>

lemma length_push [simp]: "length (fst (push st v)) = length (fst st)"
  by (simp add: push_def)

lemma is_bytes_push [simp]: "is_bytes (fst st) \<Longrightarrow> is_bytes (fst (push st v))"
  by (simp add: push_def)

lemma b64_groups_inv:
  "length (fst (snd (b64_groups b64 l i st))) = length (fst st)"
  "is_bytes (fst st) \<Longrightarrow> is_bytes (fst (snd (b64_groups b64 l i st)))"
proof (induction b64 l i st rule: b64_groups.induct)
  case (1 b64 l i st)
  {
    case 1
    show ?case
      by (subst b64_groups.simps) (simp add: Let_def "1.IH"(1) del: One_nat_def)
  next
    case 2
    then show ?case
      by (subst b64_groups.simps) (simp add: Let_def "1.IH"(2))
  }
qed

lemma b64ToByteArray_cases:
  "length b64 mod 4 = 0 \<Longrightarrow> \<exists>arr. b64ToByteArray b64 = Inr arr \<and> is_bytes arr \<and>
     int (length arr) = int (length b64) * 3 div 4 - b64_placeholders b64"
  "length b64 mod 4 \<noteq> 0 \<Longrightarrow>
     b64ToByteArray b64 = Inl (PlainError ''Invalid string. Length must be a multiple of 4'')"
proof -
  let ?l = "if b64_placeholders b64 > 0 then int (length b64) - 4 else int (length b64)"
  let ?n = "nat (int (length b64) * 3 div 4 - b64_placeholders b64)"
  assume m: "length b64 mod 4 = 0"
  have p: "b64_placeholders b64 \<le> int (length b64) * 3 div 4"
  proof (cases "b64 = []")
    case True
    then show ?thesis by (simp add: b64_placeholders_def at_def)
  next
    case False
    then have "length b64 \<noteq> 0" by simp
    then have "4 \<le> length b64" using m by presburger
    then show ?thesis by (auto simp: b64_placeholders_def Let_def)
  qed
  obtain i st where g: "b64_groups b64 ?l 0 (replicate ?n 0, 0) = (i, st)"
    by (cases "b64_groups b64 ?l 0 (replicate ?n 0, 0)")
  have "length (fst st) = ?n" "is_bytes (fst st)"
    using b64_groups_inv(1) [of b64 ?l 0 "(replicate ?n 0, 0)"]
      b64_groups_inv(2) [of "(replicate ?n 0, 0)" b64 ?l 0] unfolding g by simp_all
  then show "\<exists>arr. b64ToByteArray b64 = Inr arr \<and> is_bytes arr \<and>
     int (length arr) = int (length b64) * 3 div 4 - b64_placeholders b64"
    using m g p by (simp add: b64ToByteArray_def Let_def)
qed (simp add: b64ToByteArray_def)

section \<open>Properties\<close>

text \<open>
  C5: encoding bytes gives the base64 text of RFC 4648, four characters for every three bytes
  begun, and decoding that text gives the bytes back.
\<close>

theorem base64_roundtrip:
  assumes "is_bytes xs"
  shows "uint8ToBase64 xs = b64_spec xs \<and> b64ToByteArray (uint8ToBase64 xs) = Inr xs \<and>
    length (uint8ToBase64 xs) = (length xs + 2) div 3 * 4"
  using assms by (simp add: uint8ToBase64_spec b64ToByteArray_spec length_b64_spec)

theorem base64_roundtrip_witness:
  "b64ToByteArray (uint8ToBase64 [77, 97, 110, 255]) = Inr [77, 97, 110, 255]"
  by (rule base64_roundtrip [of "[77, 97, 110, 255]", THEN conjunct2, THEN conjunct1]) simp

text \<open>
  C40: decoding throws exactly when the length of the text is no multiple of 4. Otherwise it
  returns three bytes for every four characters less one for each placeholder, whatever the
  characters are: a character outside the alphabet is not an error.
\<close>

theorem base64_decode_total:
  "(isl (b64ToByteArray b64) \<longleftrightarrow> length b64 mod 4 \<noteq> 0) \<and>
   (\<forall>arr. b64ToByteArray b64 = Inr arr \<longrightarrow> is_bytes arr \<and> int (length arr) = int (length b64) * 3 div 4 - b64_placeholders b64)"
proof (cases "length b64 mod 4 = 0")
  case True
  from b64ToByteArray_cases(1) [OF this] obtain arr where "b64ToByteArray b64 = Inr arr" "is_bytes arr"
    "int (length arr) = int (length b64) * 3 div 4 - b64_placeholders b64" by blast
  then show ?thesis using True by simp
next
  case False
  then show ?thesis using b64ToByteArray_cases(2) [of b64] by simp
qed

theorem base64_decode_total_witness: "isl (b64ToByteArray (jstr ''abcde''))"
  using base64_decode_total [of "jstr ''abcde''"] by simp

end
