(* ===== verification/BufferCodecs.thy ===== *)
theory BufferCodecs
  imports Base64
begin

text \<open>
  The string encodings of \<open>Buffer\<close> (module 14 of \<open>swagger-ui.js\<close>): from
  strings to bytes (\<open>utf8ToBytes\<close>, \<open>utf16leToBytes\<close>, \<open>asciiToBytes\<close>,
  \<open>base64ToBytes\<close>) and from a range of a buffer to a string (\<open>utf8Slice\<close>,
  \<open>utf16leSlice\<close>, \<open>asciiSlice\<close>, \<open>binarySlice\<close>, \<open>hexSlice\<close>).
\<close>

section \<open>From strings to bytes\<close>

definition asciiToBytes :: "jsstring \<Rightarrow> int list" where
  "asciiToBytes str = map (\<lambda>c. js_and c 0xFF) str"

text \<open>
  The budget \<open>units\<close> of bytes: \<open>None\<close> is \<open>Infinity\<close> (or \<open>NaN\<close>, which
  compares the same way with 0 here).
\<close>

definition units_sub :: "int option \<Rightarrow> int \<Rightarrow> int option" where
  "units_sub units n = map_option (\<lambda>u. u - n) units"

definition units_out :: "int option \<Rightarrow> bool" where
  "units_out units = (case units of None \<Rightarrow> False | Some u \<Rightarrow> u < 0)"

fun utf16le_loop :: "jsstring \<Rightarrow> int option \<Rightarrow> int list \<Rightarrow> int list" where
  "utf16le_loop [] units byteArray = byteArray"
| "utf16le_loop (c # str) units byteArray =
     (let units = units_sub units 2 in
      if units_out units then byteArray
      else (let hi = js_shr c 8; lo = c mod 256
            in utf16le_loop str units (byteArray @ [lo, hi])))"

definition utf16leToBytes :: "jsstring \<Rightarrow> int option \<Rightarrow> int list" where
  "utf16leToBytes str units = utf16le_loop str units []"

text \<open>
  One code point of \<open>utf8ToBytes\<close>: the remaining budget and the bytes, \<open>None\<close>
  where the loop breaks because the budget is spent.
\<close>

definition utf8_emit :: "int option \<Rightarrow> int \<Rightarrow> int list \<Rightarrow> (int option \<times> int list) option res" where
  "utf8_emit units codePoint bytes =
     (if codePoint < 0x80 then
        (let units = units_sub units 1 in
         if units_out units then Inr None else Inr (Some (units, bytes @ [codePoint])))
      else if codePoint < 0x800 then
        (let units = units_sub units 2 in
         if units_out units then Inr None
         else Inr (Some (units, bytes @ [js_or (js_shr codePoint 6) 0xC0,
                                         js_or (js_and codePoint 0x3F) 0x80])))
      else if codePoint < 0x10000 then
        (let units = units_sub units 3 in
         if units_out units then Inr None
         else Inr (Some (units, bytes @ [js_or (js_shr codePoint 12) 0xE0,
                                         js_or (js_and (js_shr codePoint 6) 0x3F) 0x80,
                                         js_or (js_and codePoint 0x3F) 0x80])))
      else if codePoint < 0x110000 then
        (let units = units_sub units 4 in
         if units_out units then Inr None
         else Inr (Some (units, bytes @ [js_or (js_shr codePoint 18) 0xF0,
                                         js_or (js_and (js_shr codePoint 12) 0x3F) 0x80,
                                         js_or (js_and (js_shr codePoint 6) 0x3F) 0x80,
                                         js_or (js_and codePoint 0x3F) 0x80])))
      else Inl (PlainError ''Invalid code point''))"

text \<open>The replacement character, if the budget allows it; the budget is charged anyway.\<close>

definition utf8_replace :: "int option \<Rightarrow> int list \<Rightarrow> int list" where
  "utf8_replace units bytes = (if units_out units then bytes else bytes @ [0xEF, 0xBF, 0xBD])"

text \<open>
  The loop of \<open>utf8ToBytes\<close>; the list is what is left of the string from index
  \<open>i\<close>, so \<open>i + 1 === length\<close> says that nothing follows.
\<close>

fun utf8_loop :: "jsstring \<Rightarrow> int option \<Rightarrow> int option \<Rightarrow> int list \<Rightarrow> int list res" where
  "utf8_loop [] units leadSurrogate bytes = Inr bytes"
| "utf8_loop (codePoint # rest) units leadSurrogate bytes =
     (let encode_then = (\<lambda>units codePoint bytes.
            (case utf8_emit units codePoint bytes of
               Inl e \<Rightarrow> Inl e
             | Inr None \<Rightarrow> Inr bytes
             | Inr (Some (units, bytes)) \<Rightarrow> utf8_loop rest units None bytes))
      in if codePoint > 0xD7FF \<and> codePoint < 0xE000 then
           (case leadSurrogate of
              None \<Rightarrow>
                (if codePoint > 0xDBFF then
                   (let units = units_sub units 3
                    in utf8_loop rest units None (utf8_replace units bytes))
                 else if rest = [] then
                   (let units = units_sub units 3
                    in utf8_loop rest units None (utf8_replace units bytes))
                 else utf8_loop rest units (Some codePoint) bytes)
            | Some lead \<Rightarrow>
                (if codePoint < 0xDC00 then
                   (let units = units_sub units 3
                    in utf8_loop rest units (Some codePoint) (utf8_replace units bytes))
                 else
                   encode_then units
                     (js_or (js_or (js_shl (lead - 0xD800) 10) (codePoint - 0xDC00)) 0x10000)
                     bytes))
         else
           (case leadSurrogate of
              Some lead \<Rightarrow>
                (let units = units_sub units 3
                 in encode_then units codePoint (utf8_replace units bytes))
            | None \<Rightarrow> encode_then units codePoint bytes))"

text \<open>\<open>units = units || Infinity\<close>: a budget of 0 is no budget at all.\<close>

definition utf8ToBytes :: "jsstring \<Rightarrow> int option \<Rightarrow> int list res" where
  "utf8ToBytes string units =
     utf8_loop string (if units = Some 0 then None else units) None []"

text \<open>\<open>stringtrim\<close>: the white space and line terminators of \<open>String.prototype.trim\<close>.\<close>

definition is_trim_space :: "int \<Rightarrow> bool" where
  "is_trim_space c \<longleftrightarrow> c \<in> {9, 10, 11, 12, 13, 32, 0xA0, 0x1680, 0x2028, 0x2029, 0x202F, 0x205F,
     0x3000, 0xFEFF} \<or> (0x2000 \<le> c \<and> c \<le> 0x200A)"

definition stringtrim :: "jsstring \<Rightarrow> jsstring" where
  "stringtrim str = rev (dropWhile is_trim_space (rev (dropWhile is_trim_space str)))"

text \<open>The complement of \<open>INVALID_BASE64_RE\<close>: the characters that are kept.\<close>

definition valid_base64_char :: "int \<Rightarrow> bool" where
  "valid_base64_char c \<longleftrightarrow> c = 43 \<or> c = 47 \<or> (48 \<le> c \<and> c \<le> 57) \<or> (65 \<le> c \<and> c \<le> 90)
     \<or> (97 \<le> c \<and> c \<le> 122) \<or> c = 45 \<or> c = 95"

function base64_pad :: "jsstring \<Rightarrow> jsstring" where
  "base64_pad str = (if length str mod 4 \<noteq> 0 then base64_pad (str @ jstr ''='') else str)"
  by pat_completeness auto
termination by (relation "measure (\<lambda>str. (4 - length str mod 4) mod 4)") (auto simp: mod_Suc)

declare base64_pad.simps [simp del]

definition base64clean :: "jsstring \<Rightarrow> jsstring" where
  "base64clean str =
     (let str = filter valid_base64_char (stringtrim str)
      in if length str < 2 then [] else base64_pad str)"

definition base64ToBytes :: "jsstring \<Rightarrow> int list res" where
  "base64ToBytes str = b64ToByteArray (base64clean str)"

section \<open>From bytes to strings\<close>

text \<open>
  \<open>String.fromCharCode\<close> takes each argument modulo \<open>2 ^ 16\<close>; a missing element
  (\<open>NaN\<close>) gives code unit 0.
\<close>

definition fromCharCode :: "int list \<Rightarrow> jsstring" where
  "fromCharCode cs = map (\<lambda>c. c mod 65536) cs"

definition MAX_ARGUMENTS_LENGTH :: int where
  "MAX_ARGUMENTS_LENGTH = 0x1000"

function decode_chunks_from :: "int list \<Rightarrow> int \<Rightarrow> jsstring \<Rightarrow> jsstring" where
  "decode_chunks_from codePoints i res =
     (if i < int (length codePoints)
      then decode_chunks_from codePoints (i + MAX_ARGUMENTS_LENGTH)
             (res @ fromCharCode (js_slice codePoints i (i + MAX_ARGUMENTS_LENGTH)))
      else res)"
  by pat_completeness auto
termination
  by (relation "measure (\<lambda>(cs, i, res). nat (int (length cs) - i))")
     (auto simp: MAX_ARGUMENTS_LENGTH_def)

declare decode_chunks_from.simps [simp del]

definition decodeCodePointsArray :: "int list \<Rightarrow> jsstring" where
  "decodeCodePointsArray codePoints =
     (if int (length codePoints) \<le> MAX_ARGUMENTS_LENGTH then fromCharCode codePoints
      else decode_chunks_from codePoints 0 [])"

definition is_cont :: "int \<Rightarrow> bool" where
  "is_cont b \<longleftrightarrow> js_and b 0xC0 = 0x80"

text \<open>The sequence at index \<open>i\<close>: its length by the first byte, and its code point.\<close>

definition utf8_seq_len :: "int \<Rightarrow> int" where
  "utf8_seq_len firstByte =
     (if firstByte > 0xEF then 4 else if firstByte > 0xDF then 3
      else if firstByte > 0xBF then 2 else 1)"

definition utf8_seq :: "int list \<Rightarrow> int \<Rightarrow> int option" where
  "utf8_seq buf i =
     (let firstByte = bits_of (at buf i);
          secondByte = bits_of (at buf (i + 1));
          thirdByte = bits_of (at buf (i + 2));
          fourthByte = bits_of (at buf (i + 3));
          bytesPerSequence = utf8_seq_len firstByte
      in if bytesPerSequence = 1 then
           (if firstByte < 0x80 then Some firstByte else None)
         else if bytesPerSequence = 2 then
           (if is_cont secondByte then
              (let cp = js_or (js_shl (js_and firstByte 0x1F) 6) (js_and secondByte 0x3F)
               in if cp > 0x7F then Some cp else None)
            else None)
         else if bytesPerSequence = 3 then
           (if is_cont secondByte \<and> is_cont thirdByte then
              (let cp = js_or (js_or (js_shl (js_and firstByte 0xF) 12)
                                     (js_shl (js_and secondByte 0x3F) 6)) (js_and thirdByte 0x3F)
               in if cp > 0x7FF \<and> (cp < 0xD800 \<or> cp > 0xDFFF) then Some cp else None)
            else None)
         else
           (if is_cont secondByte \<and> is_cont thirdByte \<and> is_cont fourthByte then
              (let cp = js_or (js_or (js_or (js_shl (js_and firstByte 0xF) 18)
                                            (js_shl (js_and secondByte 0x3F) 12))
                                     (js_shl (js_and thirdByte 0x3F) 6)) (js_and fourthByte 0x3F)
               in if cp > 0xFFFF \<and> cp < 0x110000 then Some cp else None)
            else None))"

text \<open>The units a code point contributes to the result.\<close>

definition utf8_units :: "int \<Rightarrow> int list" where
  "utf8_units codePoint =
     (if codePoint > 0xFFFF then
        (let codePoint = codePoint - 0x10000
         in [js_or (js_and (js_ushr codePoint 10) 0x3FF) 0xD800,
             js_or 0xDC00 (js_and codePoint 0x3FF)])
      else [codePoint])"

function utf8_slice_loop :: "int list \<Rightarrow> int \<Rightarrow> int \<Rightarrow> int list \<Rightarrow> int list" where
  "utf8_slice_loop buf i end' res =
     (if i < end' then
        (let bytesPerSequence = utf8_seq_len (bits_of (at buf i));
             codePoint = (if i + bytesPerSequence \<le> end' then utf8_seq buf i else None)
         in case codePoint of
              None \<Rightarrow> utf8_slice_loop buf (i + 1) end' (res @ [0xFFFD])
            | Some cp \<Rightarrow> utf8_slice_loop buf (i + bytesPerSequence) end' (res @ utf8_units cp))
      else res)"
  by pat_completeness auto
termination
  by (relation "measure (\<lambda>(buf, i, end', res). nat (end' - i))") (auto simp: utf8_seq_len_def)

declare utf8_slice_loop.simps [simp del]

definition utf8Slice :: "int list \<Rightarrow> int \<Rightarrow> int \<Rightarrow> jsstring" where
  "utf8Slice buf start end' =
     decodeCodePointsArray (utf8_slice_loop buf start (min (int (length buf)) end') [])"

text \<open>\<open>for (i = start; i < end; i++)\<close>, collecting one piece for each index.\<close>

definition range_concat :: "(int \<Rightarrow> 'a list) \<Rightarrow> int \<Rightarrow> int \<Rightarrow> 'a list" where
  "range_concat f start end' = concat (map f [start..end' - 1])"

definition asciiSlice :: "int list \<Rightarrow> int \<Rightarrow> int \<Rightarrow> jsstring" where
  "asciiSlice buf start end' =
     range_concat (\<lambda>i. fromCharCode [js_and (bits_of (at buf i)) 0x7F])
       start (min (int (length buf)) end')"

definition binarySlice :: "int list \<Rightarrow> int \<Rightarrow> int \<Rightarrow> jsstring" where
  "binarySlice buf start end' =
     range_concat (\<lambda>i. fromCharCode [bits_of (at buf i)]) start (min (int (length buf)) end')"

text \<open>\<open>n.toString(16)\<close> of a byte, and \<open>toHex\<close>.\<close>

definition hex_digit :: "int \<Rightarrow> int" where
  "hex_digit d = (if d < 10 then 48 + d else 87 + d)"

definition toHex :: "int \<Rightarrow> jsstring" where
  "toHex n = (if n < 16 then jstr ''0'' @ [hex_digit n] else [hex_digit (n div 16), hex_digit (n mod 16)])"

text \<open>\<open>None\<close> is an argument that was not given.\<close>

definition hexSlice :: "int list \<Rightarrow> int option \<Rightarrow> int option \<Rightarrow> jsstring" where
  "hexSlice buf start end' =
     (let len = int (length buf);
          start = (case start of None \<Rightarrow> 0 | Some s \<Rightarrow> if s < 0 then 0 else s);
          end' = (case end' of None \<Rightarrow> len | Some e \<Rightarrow> if e = 0 \<or> e < 0 \<or> e > len then len else e)
      in range_concat (\<lambda>i. toHex (bits_of (at buf i))) start end')"

section \<open>UTF-8\<close>

text \<open>Well-formed UTF-16: every surrogate is one half of a pair.\<close>

fun wf_utf16 :: "jsstring \<Rightarrow> bool" where
  "wf_utf16 [] = True"
| "wf_utf16 (c # s) =
     (0 \<le> c \<and> c < 0x10000 \<and>
      (if 0xD800 \<le> c \<and> c \<le> 0xDBFF then
         (case s of [] \<Rightarrow> False | d # s' \<Rightarrow> 0xDC00 \<le> d \<and> d \<le> 0xDFFF \<and> wf_utf16 s')
       else \<not> (0xDC00 \<le> c \<and> c \<le> 0xDFFF) \<and> wf_utf16 s))"

text \<open>The bytes of a code point, as RFC 3629 has them.\<close>

definition utf8_bytes :: "int \<Rightarrow> int list" where
  "utf8_bytes cp =
     (if cp < 0x80 then [cp]
      else if cp < 0x800 then [0xC0 + cp div 64, 0x80 + cp mod 64]
      else if cp < 0x10000 then [0xE0 + cp div 4096, 0x80 + cp div 64 mod 64, 0x80 + cp mod 64]
      else [0xF0 + cp div 262144, 0x80 + cp div 4096 mod 64, 0x80 + cp div 64 mod 64,
            0x80 + cp mod 64])"

definition scalar_value :: "int \<Rightarrow> bool" where
  "scalar_value cp \<longleftrightarrow> 0 \<le> cp \<and> cp < 0x110000 \<and> \<not> (0xD800 \<le> cp \<and> cp \<le> 0xDFFF)"

text \<open>
  The code point the encoder computes for a surrogate pair. The code combines the parts
  with \<open>|\<close>, so the bit \<open>0x10000\<close> is set rather than added.
\<close>

definition pair_code_point :: "int \<Rightarrow> int \<Rightarrow> int" where
  "pair_code_point lead trail = js_or (js_or (js_shl (lead - 0xD800) 10) (trail - 0xDC00)) 0x10000"

lemma lead_bytes:
  "0 \<le> x \<Longrightarrow> x < 32 \<Longrightarrow> js_or x 0xC0 = 0xC0 + x"
  "0 \<le> x \<Longrightarrow> x < 16 \<Longrightarrow> js_or x 0xE0 = 0xE0 + x"
  "0 \<le> x \<Longrightarrow> x < 8 \<Longrightarrow> js_or x 0xF0 = 0xF0 + x"
  "0 \<le> x \<Longrightarrow> x < 64 \<Longrightarrow> js_or x 0x80 = 0x80 + x"
  by (subst js_or_commute, subst js_or_add [of 6] js_or_add [of 5] js_or_add [of 4] js_or_add [of 7];
      simp)+

lemma utf8_emit_None:
  assumes "0 \<le> cp" "cp < 0x110000"
  shows "utf8_emit None cp bs = Inr (Some (None, bs @ utf8_bytes cp))"
proof -
  have r: "- (2 ^ 31) \<le> cp" "cp < 2 ^ 31" using assms by auto
  have "cp < 0x800 \<Longrightarrow> cp div 64 < 32" "cp < 0x10000 \<Longrightarrow> cp div 4096 < 16" "cp div 262144 < 8"
    "0 \<le> cp div 64" "0 \<le> cp div 4096" "0 \<le> cp div 262144"
    using assms by (auto simp: pos_imp_zdiv_nonneg_iff)
  then show ?thesis using assms
    by (simp add: utf8_emit_def utf8_bytes_def units_sub_def units_out_def js_ops js_shr_div [OF r] lead_bytes)
qed

lemma cont_byte:
  assumes "0 \<le> x" "x < 64"
  shows "is_cont (0x80 + x)" "js_and (0x80 + x) 0x3F = x"
proof -
  have "(0x80 + x) div 64 = 2" "(0x80 + x) mod 64 = x"
    using assms by (simp_all add: div_mod_unique [of _ 64 2 x])
  then show "is_cont (0x80 + x)" "js_and (0x80 + x) 0x3F = x"
    using assms js_and_shifted_mask [of "0x80 + x" 2 6] by (simp_all add: is_cont_def js_ops)
qed

lemma lead_byte_mask:
  "0 \<le> a \<Longrightarrow> a < 32 \<Longrightarrow> js_and (0xC0 + a) 0x1F = a"
  "0 \<le> a \<Longrightarrow> a < 16 \<Longrightarrow> js_and (0xE0 + a) 0xF = a"
  "0 \<le> a \<Longrightarrow> a < 16 \<Longrightarrow> js_and (0xF0 + a) 0xF = a"
  using div_mod_unique(2) [of "0xC0 + a" 32 6 a] div_mod_unique(2) [of "0xE0 + a" 16 14 a]
    div_mod_unique(2) [of "0xF0 + a" 16 15 a] by (simp_all add: js_ops)

lemma base64_digits:
  fixes cp :: int
  shows "cp = cp div 64 * 64 + cp mod 64"
    "cp = cp div 4096 * 4096 + cp div 64 mod 64 * 64 + cp mod 64"
    "cp = cp div 262144 * 262144 + cp div 4096 mod 64 * 4096 + cp div 64 mod 64 * 64 + cp mod 64"
proof -
  have d: "cp div 4096 = cp div 64 div 64" "cp div 262144 = cp div 64 div 64 div 64"
    by (simp_all add: zdiv_zmult2_eq [symmetric])
  show 1: "cp = cp div 64 * 64 + cp mod 64" by simp
  have 2: "x = x div 64 * 64 + x mod 64" for x :: int by simp
  show "cp = cp div 4096 * 4096 + cp div 64 mod 64 * 64 + cp mod 64"
    "cp = cp div 262144 * 262144 + cp div 4096 mod 64 * 4096 + cp div 64 mod 64 * 64 + cp mod 64"
    unfolding d using 1 2 [of "cp div 64"] 2 [of "cp div 64 div 64"] by linarith+
qed

lemma utf8_seq_len_lead:
  "0 \<le> x \<Longrightarrow> x < 0x80 \<Longrightarrow> utf8_seq_len x = 1"
  "0 \<le> x \<Longrightarrow> x < 32 \<Longrightarrow> utf8_seq_len (0xC0 + x) = 2"
  "0 \<le> x \<Longrightarrow> x < 16 \<Longrightarrow> utf8_seq_len (0xE0 + x) = 3"
  "0 \<le> x \<Longrightarrow> x < 16 \<Longrightarrow> utf8_seq_len (0xF0 + x) = 4"
  by (simp_all add: utf8_seq_len_def)

lemma at_shift:
  "at (p @ x # q) (int (length p)) = Some x"
  "at (p @ x # y # q) (int (length p) + 1) = Some y"
  "at (p @ x # y # z # q) (int (length p) + 2) = Some z"
  "at (p @ x # y # z # w # q) (int (length p) + 3) = Some w"
  by (simp_all add: at_def nth_append nat_add_distrib)

lemma or_bytes2: "0 \<le> a \<Longrightarrow> a < 32 \<Longrightarrow> 0 \<le> b \<Longrightarrow> b < 64 \<Longrightarrow> js_or (js_shl a 6) b = a * 64 + b"
  using js_or_add [of 6 "a * 64" b] by (simp add: js_shl_mult)

lemma or_bytes3:
  assumes "0 \<le> a" "a < 16" "0 \<le> b" "b < 64" "0 \<le> c" "c < 64"
  shows "js_or (js_or (js_shl a 12) (js_shl b 6)) c = a * 4096 + b * 64 + c"
proof -
  have "js_or (js_shl a 12) (js_shl b 6) = a * 4096 + b * 64"
    using assms js_or_add [of 12 "a * 4096" "b * 64"] by (simp add: js_shl_mult)
  then show ?thesis
    using assms js_or_add [of 6 "a * 4096 + b * 64" c] by (simp add: dvd_add dvd_mult)
qed

lemma or_bytes4:
  assumes "0 \<le> a" "a < 16" "0 \<le> b" "b < 64" "0 \<le> c" "c < 64" "0 \<le> d" "d < 64"
  shows "js_or (js_or (js_or (js_shl a 18) (js_shl b 12)) (js_shl c 6)) d =
    a * 262144 + b * 4096 + c * 64 + d"
proof -
  have "js_or (js_shl a 18) (js_shl b 12) = a * 262144 + b * 4096"
    using assms js_or_add [of 18 "a * 262144" "b * 4096"] by (simp add: js_shl_mult)
  moreover have "js_or (a * 262144 + b * 4096) (js_shl c 6) = a * 262144 + b * 4096 + c * 64"
    using assms js_or_add [of 12 "a * 262144 + b * 4096" "c * 64"] by (simp add: dvd_add dvd_mult js_shl_mult)
  ultimately show ?thesis
    using assms js_or_add [of 6 "a * 262144 + b * 4096 + c * 64" d] by (simp add: dvd_add dvd_mult)
qed

lemma utf8_seq_bytes:
  assumes "scalar_value cp"
  shows "utf8_seq (p @ utf8_bytes cp @ q) (int (length p)) = Some cp"
    "utf8_seq_len (bits_of (at (p @ utf8_bytes cp @ q) (int (length p)))) = int (length (utf8_bytes cp))"
proof -
  have r: "0 \<le> cp" "cp < 0x110000" using assms by (auto simp: scalar_value_def)
  consider (1) "cp < 0x80" | (2) "0x80 \<le> cp" "cp < 0x800" | (3) "0x800 \<le> cp" "cp < 0x10000"
    | (4) "0x10000 \<le> cp" by linarith
  then have "utf8_seq (p @ utf8_bytes cp @ q) (int (length p)) = Some cp \<and>
     utf8_seq_len (bits_of (at (p @ utf8_bytes cp @ q) (int (length p)))) = int (length (utf8_bytes cp))"
  proof cases
    case 1
    then show ?thesis using r
      by (simp add: utf8_bytes_def utf8_seq_def utf8_seq_len_def at_shift)
  next
    case 2
    define a b where "a = cp div 64" and "b = cp mod 64"
    have ab: "cp = a * 64 + b" "0 \<le> a" "a < 32" "0 \<le> b" "b < 64"
      using 2 by (auto simp: a_def b_def)
    have "utf8_bytes cp = [0xC0 + a, 0x80 + b]" using 2 by (simp add: utf8_bytes_def a_def b_def)
    moreover have "js_and (0xC0 + a) 0x1F = a" using ab by (simp add: lead_byte_mask)
    ultimately show ?thesis using ab 2 cont_byte [of b] or_bytes2 [of a b]
      by (simp add: utf8_seq_def utf8_seq_len_lead at_shift Let_def)
  next
    case 3
    define a b c where "a = cp div 4096" and "b = cp div 64 mod 64" and "c = cp mod 64"
    have abc: "cp = a * 4096 + b * 64 + c" "0 \<le> a" "a < 16" "0 \<le> b" "b < 64" "0 \<le> c" "c < 64"
      using 3 base64_digits(2) [of cp] by (auto simp: a_def b_def c_def)
    have "utf8_bytes cp = [0xE0 + a, 0x80 + b, 0x80 + c]" using 3 by (simp add: utf8_bytes_def a_def b_def c_def)
    moreover have "js_and (0xE0 + a) 0xF = a" using abc by (simp add: lead_byte_mask)
    moreover have "cp < 0xD800 \<or> 0xDFFF < cp" using assms by (auto simp: scalar_value_def)
    ultimately show ?thesis using abc 3 cont_byte [of b] cont_byte [of c] or_bytes3 [of a b c]
      by (simp add: utf8_seq_def utf8_seq_len_lead at_shift Let_def)
  next
    case 4
    define a b c d where "a = cp div 262144" and "b = cp div 4096 mod 64" and "c = cp div 64 mod 64" and "d = cp mod 64"
    have "cp = a * 262144 + b * 4096 + c * 64 + d"
      unfolding a_def b_def c_def d_def by (rule base64_digits(3))
    moreover have "0 \<le> a" "a < 8" using r by (simp_all add: a_def pos_imp_zdiv_nonneg_iff)
    moreover have "0 \<le> b" "b < 64" "0 \<le> c" "c < 64" "0 \<le> d" "d < 64"
      by (simp_all add: b_def c_def d_def)
    ultimately have abc: "cp = a * 262144 + b * 4096 + c * 64 + d" "0 \<le> a" "a < 8" "0 \<le> b" "b < 64"
      "0 \<le> c" "c < 64" "0 \<le> d" "d < 64" by blast+
    have "utf8_bytes cp = [0xF0 + a, 0x80 + b, 0x80 + c, 0x80 + d]" using 4 by (simp add: utf8_bytes_def a_def b_def c_def d_def)
    moreover have "js_and (0xF0 + a) 0xF = a" using abc by (simp add: lead_byte_mask)
    ultimately show ?thesis using abc 4 r cont_byte [of b] cont_byte [of c] cont_byte [of d] or_bytes4 [of a b c d]
      by (simp add: utf8_seq_def utf8_seq_len_lead at_shift Let_def)
  qed
  then show "utf8_seq (p @ utf8_bytes cp @ q) (int (length p)) = Some cp"
    "utf8_seq_len (bits_of (at (p @ utf8_bytes cp @ q) (int (length p)))) = int (length (utf8_bytes cp))"
    by simp_all
qed

subsection \<open>Encoding and decoding well-formed strings\<close>

fun code_points16 :: "jsstring \<Rightarrow> int list" where
  "code_points16 [] = []"
| "code_points16 [c] = [c]"
| "code_points16 (c # d # s) =
     (if 0xD800 \<le> c \<and> c \<le> 0xDBFF then pair_code_point c d # code_points16 s
      else c # code_points16 (d # s))"

text \<open>What the missing carry costs: bit 6 of every lead surrogate.\<close>

definition clear_plane_bit :: "int \<Rightarrow> int" where
  "clear_plane_bit c = (if 0xD800 \<le> c \<and> c \<le> 0xDBFF \<and> bit (c - 0xD800) 6 then c - 64 else c)"

lemma js_or_bit:
  assumes "0 \<le> x" "x < 2 ^ 31" "n < 31"
  shows "js_or x (2 ^ n) = x + of_bool (\<not> bit x n) * 2 ^ n"
proof -
  have "(2::int) ^ n \<le> 2 ^ 30" by (rule power_increasing) (use assms in auto)
  then have "to_int32 (2 ^ n) = 2 ^ n" by (intro to_int32_id) (auto intro: order_trans [of _ 0])
  moreover have "to_int32 x = x" using assms by (intro to_int32_id) auto
  moreover have "x OR 2 ^ n = set_bit n x" by (simp add: set_bit_eq_or push_bit_eq_mult)
  ultimately show ?thesis by (simp add: js_or_def set_bit_eq)
qed

lemma pair_code_point_value:
  assumes "0xD800 \<le> l" "l \<le> 0xDBFF" "0xDC00 \<le> t" "t \<le> 0xDFFF"
  shows "pair_code_point l t =
    (clear_plane_bit l - 0xD800) * 1024 + (t - 0xDC00) + 0x10000"
proof -
  define a b where "a = l - 0xD800" and "b = t - 0xDC00"
  have ab: "0 \<le> a" "a < 1024" "0 \<le> b" "b < 1024" using assms by (auto simp: a_def b_def)
  have "js_or (js_shl a 10) b = a * 1024 + b"
    using ab js_or_add [of 10 "a * 1024" b] by (simp add: js_shl_mult)
  moreover have "(a * 1024 + b) div 2 ^ 16 = a div 64"
  proof -
    define k r where "k = a div 64" and "r = a mod 64"
    have kr: "a = 64 * k + r" "0 \<le> r" "r < 64" by (simp_all add: k_def r_def)
    then have "a * 1024 + b = 2 ^ 16 * k + (r * 1024 + b)" "0 \<le> r * 1024 + b" "r * 1024 + b < 2 ^ 16"
      using ab by simp_all
    then have "(a * 1024 + b) div 2 ^ 16 = k" by (rule div_mod_unique(1))
    then show ?thesis by (simp only: k_def)
  qed
  then have "bit (a * 1024 + b) 16 = bit a 6" by (simp add: bit_iff_odd)
  ultimately have "js_or (js_or (js_shl a 10) b) 0x10000 = a * 1024 + b + of_bool (\<not> bit a 6) * 0x10000"
    using ab js_or_bit [of "a * 1024 + b" 16] by simp
  then show ?thesis using assms
    by (auto simp: pair_code_point_def a_def b_def clear_plane_bit_def)
qed

lemma clear_plane_bit_lead:
  assumes "0xD800 \<le> l" "l \<le> 0xDBFF"
  shows "0xD800 \<le> clear_plane_bit l" "clear_plane_bit l \<le> 0xDBFF"
proof -
  have "64 \<le> l - 0xD800" if "bit (l - 0xD800) 6"
  proof (rule ccontr)
    assume "\<not> ?thesis"
    then have "(l - 0xD800) div 64 = 0" using assms by simp
    then show False using that by (simp add: bit_iff_odd)
  qed
  then show "0xD800 \<le> clear_plane_bit l" "clear_plane_bit l \<le> 0xDBFF"
    using assms by (auto simp: clear_plane_bit_def)
qed

lemma scalar_pair:
  assumes "0xD800 \<le> l" "l \<le> 0xDBFF" "0xDC00 \<le> t" "t \<le> 0xDFFF"
  shows "0x10000 \<le> pair_code_point l t" "pair_code_point l t < 0x110000"
  using clear_plane_bit_lead [OF assms(1,2)] assms
  unfolding pair_code_point_value [OF assms] by auto

lemma utf8_units_pair:
  assumes "0x10000 \<le> cp" "cp < 0x110000"
  shows "utf8_units cp = [0xD800 + (cp - 0x10000) div 1024, 0xDC00 + (cp - 0x10000) mod 1024]"
proof -
  define o' where "o' = cp - 0x10000"
  have o: "0 \<le> o'" "o' < 0x100000" using assms by (auto simp: o'_def)
  then have q: "0 \<le> o' div 1024" "o' div 1024 < 1024" by (auto simp: pos_imp_zdiv_nonneg_iff)
  have "js_and (js_ushr o' 10) 0x3FF = o' div 1024"
    using o q by (simp add: js_ops js_ushr_div)
  moreover have "js_or (o' div 1024) 0xD800 = 0xD800 + o' div 1024"
    using q js_or_add [of 10 "0xD800" "o' div 1024"] by (simp add: js_or_commute)
  moreover have "js_or 0xDC00 (js_and o' 0x3FF) = 0xDC00 + o' mod 1024"
    using js_or_add [of 10 "0xDC00" "o' mod 1024"] by (simp add: js_ops)
  ultimately show ?thesis using assms by (simp add: utf8_units_def o'_def Let_def)
qed

lemma utf8_units_pair_code_point:
  assumes "0xD800 \<le> l" "l \<le> 0xDBFF" "0xDC00 \<le> t" "t \<le> 0xDFFF"
  shows "utf8_units (pair_code_point l t) = [clear_plane_bit l, t]"
proof -
  have "(pair_code_point l t - 0x10000) div 1024 = clear_plane_bit l - 0xD800"
    "(pair_code_point l t - 0x10000) mod 1024 = t - 0xDC00"
    unfolding pair_code_point_value [OF assms]
    using assms by (auto intro!: div_mod_unique [where r = "t - 0xDC00" and q = "clear_plane_bit l - 0xD800"])
  then show ?thesis using scalar_pair [OF assms] by (simp add: utf8_units_pair)
qed

text \<open>The encoder on well-formed strings.\<close>

lemma wf_utf16_cases:
  assumes "wf_utf16 s"
  obtains "s = []"
  | l t r where "s = l # t # r" "0xD800 \<le> l" "l \<le> 0xDBFF" "0xDC00 \<le> t" "t \<le> 0xDFFF" "wf_utf16 r"
  | c r where "s = c # r" "0 \<le> c" "c < 0x10000" "c < 0xD800 \<or> 0xDFFF < c" "wf_utf16 r"
  using assms by (cases s) (auto split: if_splits list.splits)

lemma utf8_loop_wf:
  assumes "wf_utf16 s"
  shows "utf8_loop s None None bs = Inr (bs @ concat (map utf8_bytes (code_points16 s)))"
  using assms
proof (induction s arbitrary: bs rule: code_points16.induct)
  case 1
  then show ?case by simp
next
  case (2 c)
  then show ?case by (auto simp: utf8_emit_None split: if_splits)
next
  case (3 c d s)
  show ?case
  proof (cases "0xD800 \<le> c \<and> c \<le> 0xDBFF")
    case True
    then have d: "0xDC00 \<le> d" "d \<le> 0xDFFF" "wf_utf16 s" using 3(3) by auto
    have "utf8_emit None (pair_code_point c d) bs = Inr (Some (None, bs @ utf8_bytes (pair_code_point c d)))"
      using scalar_pair [of c d] True d by (intro utf8_emit_None) auto
    then show ?thesis using True d 3(1) [OF True d(3)]
      by (simp add: Let_def pair_code_point_def)
  next
    case False
    then have c: "0 \<le> c" "c < 0x10000" "c < 0xD800 \<or> 0xDFFF < c" "wf_utf16 (d # s)" 
      using 3(3) by (auto split: if_splits)
    have "utf8_emit None c bs = Inr (Some (None, bs @ utf8_bytes c))"
      using c by (intro utf8_emit_None) auto
    moreover have "\<not> (0xD7FF < c \<and> c < 0xE000)" using c(3) by auto
    ultimately have "utf8_loop (c # d # s) None None bs = utf8_loop (d # s) None None (bs @ utf8_bytes c)"
      by (subst utf8_loop.simps(2)) (auto simp del: utf8_loop.simps)
    then show ?thesis using False 3(2) [OF False c(4)] by (auto simp del: utf8_loop.simps)
  qed
qed

lemma code_points16_scalar:
  assumes "wf_utf16 s"
  shows "\<forall>cp \<in> set (code_points16 s). scalar_value cp"
  using assms
proof (induction s rule: code_points16.induct)
  case (3 c d s)
  show ?case
  proof (cases "0xD800 \<le> c \<and> c \<le> 0xDBFF")
    case True
    then have "0xDC00 \<le> d" "d \<le> 0xDFFF" "wf_utf16 s" using 3(3) by auto
    then show ?thesis using 3(1) True scalar_pair [of c d] by (simp add: scalar_value_def)
  next
    case False
    then have "scalar_value c" "wf_utf16 (d # s)" using 3(3) by (auto simp: scalar_value_def)
    then show ?thesis using 3(2) False by (auto simp del: wf_utf16.simps)
  qed
qed (auto simp: scalar_value_def split: if_splits)

lemma code_points16_units:
  assumes "wf_utf16 s"
  shows "concat (map utf8_units (code_points16 s)) = map clear_plane_bit s"
  using assms
proof (induction s rule: code_points16.induct)
  case (3 c d s)
  show ?case
  proof (cases "0xD800 \<le> c \<and> c \<le> 0xDBFF")
    case True
    then have "0xDC00 \<le> d" "d \<le> 0xDFFF" "wf_utf16 s" using 3(3) by auto
    then show ?thesis using 3(1) True utf8_units_pair_code_point [of c d]
      by (simp add: clear_plane_bit_def)
  next
    case False
    then have "wf_utf16 (d # s)" "c < 0x10000" using 3(3) by auto
    then show ?thesis using 3(2) False by (auto simp: utf8_units_def clear_plane_bit_def simp del: wf_utf16.simps)
  qed
qed (auto simp: utf8_units_def clear_plane_bit_def)

text \<open>The decoder on the bytes of scalar values.\<close>

lemma utf8_bytes_nonempty: "0 < length (utf8_bytes cp)"
  by (simp add: utf8_bytes_def)

lemma utf8_slice_loop_bytes:
  assumes "\<forall>cp \<in> set cps. scalar_value cp"
    "end' = int (length p + length (concat (map utf8_bytes cps)))"
  shows "utf8_slice_loop (p @ concat (map utf8_bytes cps) @ q) (int (length p)) end' res
    = res @ concat (map utf8_units cps)"
  using assms
proof (induction cps arbitrary: p res)
  case Nil
  then show ?case by (subst utf8_slice_loop.simps) simp
next
  case (Cons cp cps)
  have sv: "scalar_value cp" using Cons.prems by simp
  note seq = utf8_seq_bytes [OF sv, of p "concat (map utf8_bytes cps) @ q"]
  have lt: "int (length p) < end'" "int (length p) + int (length (utf8_bytes cp)) \<le> end'"
    using Cons.prems(2) utf8_bytes_nonempty [of cp] by (simp_all del: length_greater_0_conv length_concat)
  have "utf8_slice_loop (p @ concat (map utf8_bytes (cp # cps)) @ q) (int (length p)) end' res =
    utf8_slice_loop ((p @ utf8_bytes cp) @ concat (map utf8_bytes cps) @ q)
      (int (length (p @ utf8_bytes cp))) end' (res @ utf8_units cp)"
    by (subst utf8_slice_loop.simps) (use lt seq in \<open>simp add: Let_def\<close>)
  also have "\<dots> = (res @ utf8_units cp) @ concat (map utf8_units cps)"
    by (rule Cons.IH) (use Cons.prems in auto)
  finally show ?case by simp
qed

lemma fromCharCode_append: "fromCharCode (xs @ ys) = fromCharCode xs @ fromCharCode ys"
  by (simp add: fromCharCode_def)

lemma decode_chunks_from_spec:
  "0 \<le> i \<Longrightarrow> decode_chunks_from cs i res = res @ fromCharCode (drop (nat i) cs)"
proof (induction cs i res rule: decode_chunks_from.induct)
  case (1 cs i res)
  show ?case
  proof (cases "i < int (length cs)")
    case True
    have "nat (i + MAX_ARGUMENTS_LENGTH) = nat i + nat MAX_ARGUMENTS_LENGTH"
      using "1.prems" by (simp add: nat_add_distrib MAX_ARGUMENTS_LENGTH_def)
    then have "drop (nat i) cs =
      js_slice cs i (i + MAX_ARGUMENTS_LENGTH) @ drop (nat (i + MAX_ARGUMENTS_LENGTH)) cs"
      by (simp add: js_slice_def drop_take)
         (metis add.commute append_take_drop_id drop_drop)
    moreover have "0 \<le> i + MAX_ARGUMENTS_LENGTH" using "1.prems" by (simp add: MAX_ARGUMENTS_LENGTH_def)
    ultimately show ?thesis using "1.IH" [OF True] True
      by (subst decode_chunks_from.simps) (simp add: fromCharCode_append)
  next
    case False
    then show ?thesis using "1.prems" by (subst decode_chunks_from.simps) (simp add: fromCharCode_def)
  qed
qed

lemma decodeCodePointsArray_spec: "decodeCodePointsArray cs = fromCharCode cs"
  by (simp add: decodeCodePointsArray_def decode_chunks_from_spec)

lemma fromCharCode_id: "\<forall>c \<in> set cs. 0 \<le> c \<and> c < 65536 \<Longrightarrow> fromCharCode cs = cs"
  by (induction cs) (simp_all add: fromCharCode_def)

lemma wf_utf16_induct [consumes 1, case_names nil pair unit]:
  assumes "wf_utf16 s" "P []"
    "\<And>l t r. 0xD800 \<le> l \<Longrightarrow> l \<le> 0xDBFF \<Longrightarrow> 0xDC00 \<le> t \<Longrightarrow> t \<le> 0xDFFF \<Longrightarrow> wf_utf16 r \<Longrightarrow>
       P r \<Longrightarrow> P (l # t # r)"
    "\<And>c r. 0 \<le> c \<Longrightarrow> c < 0x10000 \<Longrightarrow> c < 0xD800 \<or> 0xDFFF < c \<Longrightarrow> wf_utf16 r \<Longrightarrow> P r \<Longrightarrow> P (c # r)"
  shows "P s"
  using assms(1)
proof (induction s rule: length_induct)
  case (1 s)
  from \<open>wf_utf16 s\<close> show ?case
    by (cases rule: wf_utf16_cases) (use 1 assms(2-4) in auto)
qed

lemma wf_utf16_range: "wf_utf16 s \<Longrightarrow> \<forall>c \<in> set s. 0 \<le> c \<and> c < 65536"
  by (induction s rule: wf_utf16_induct) auto

lemma clear_plane_bit_range:
  assumes "wf_utf16 s"
  shows "\<forall>c \<in> set (map clear_plane_bit s). 0 \<le> c \<and> c < 65536"
proof -
  have "0 \<le> clear_plane_bit c \<and> clear_plane_bit c < 65536" if "0 \<le> c" "c < 65536" for c
    using that by (auto simp: clear_plane_bit_def)
  then show ?thesis using wf_utf16_range [OF assms] by simp
qed

lemma utf8_encode_decode:
  assumes "wf_utf16 s"
  shows "\<exists>bs. utf8ToBytes s None = Inr bs \<and> utf8Slice bs 0 (int (length bs)) = map clear_plane_bit s"
proof -
  define bs where "bs = concat (map utf8_bytes (code_points16 s))"
  have "utf8ToBytes s None = Inr bs"
    using utf8_loop_wf [OF assms, of "[]"] by (simp add: utf8ToBytes_def bs_def)
  moreover have "utf8_slice_loop bs 0 (int (length bs)) [] = map clear_plane_bit s"
    using utf8_slice_loop_bytes [OF code_points16_scalar [OF assms] refl, of "[]" "[]" "[]"]
    by (simp add: bs_def code_points16_units [OF assms])
  ultimately show ?thesis
    using fromCharCode_id [OF clear_plane_bit_range [OF assms]]
    by (simp add: utf8Slice_def decodeCodePointsArray_spec)
qed

text \<open>Whatever the bytes, the decoder returns well-formed UTF-16.\<close>

lemma wf_utf16_append: "wf_utf16 s \<Longrightarrow> wf_utf16 t \<Longrightarrow> wf_utf16 (s @ t)"
  by (induction s rule: wf_utf16_induct) auto

lemma utf8_units_wf:
  assumes "scalar_value cp"
  shows "wf_utf16 (utf8_units cp)"
proof (cases "cp < 0x10000")
  case True
  then show ?thesis using assms by (auto simp: utf8_units_def scalar_value_def)
next
  case False
  then have "0x10000 \<le> cp" "cp < 0x110000" using assms by (auto simp: scalar_value_def)
  moreover from this have "0 \<le> (cp - 0x10000) div 1024" "(cp - 0x10000) div 1024 < 1024"
    by (auto simp: pos_imp_zdiv_nonneg_iff)
  ultimately show ?thesis by (simp add: utf8_units_pair add_increasing)
qed

lemma or_bytes_bounds:
  fixes a b c :: int
  shows "js_or (js_shl (a mod 32) 6) (b mod 64) < 0x800"
    "js_or (js_or (js_shl (a mod 16) 12) (js_shl (b mod 64) 6)) (c mod 64) < 0x10000"
proof -
  have m: "0 \<le> a mod 32" "a mod 32 < 32" "0 \<le> a mod 16" "a mod 16 < 16" "0 \<le> b mod 64" "b mod 64 < 64"
    "0 \<le> c mod 64" "c mod 64 < 64" by simp_all
  show "js_or (js_shl (a mod 32) 6) (b mod 64) < 0x800"
    unfolding or_bytes2 [OF m(1,2,5,6)] using m by linarith
  show "js_or (js_or (js_shl (a mod 16) 12) (js_shl (b mod 64) 6)) (c mod 64) < 0x10000"
    unfolding or_bytes3 [OF m(3-8)] using m by linarith
qed

lemma utf8_seq_cases:
  assumes "utf8_seq buf i = Some cp"
  obtains (one) "cp = bits_of (at buf i)" "cp < 0x80"
  | (two) a b where "cp = js_or (js_shl (a mod 32) 6) (b mod 64)" "0x7F < cp"
  | (three) a b c where "cp = js_or (js_or (js_shl (a mod 16) 12) (js_shl (b mod 64) 6)) (c mod 64)"
      "0x7FF < cp" "cp < 0xD800 \<or> 0xDFFF < cp"
  | (four) "0xFFFF < cp" "cp < 0x110000"
proof -
  define n where "n = utf8_seq_len (bits_of (at buf i))"
  note seq = assms [unfolded utf8_seq_def Let_def js_ops, folded n_def]
  consider "n = 1" | "n = 2" | "n = 3" | "n \<noteq> 1" "n \<noteq> 2" "n \<noteq> 3" by blast
  then show thesis
  proof cases
    case 1
    then have "cp = bits_of (at buf i)" "cp < 0x80" using seq by (simp_all split: if_split_asm)
    then show thesis by (rule one)
  next
    case 2
    then have "cp = js_or (js_shl (bits_of (at buf i) mod 32) 6) (bits_of (at buf (i + 1)) mod 64)"
      "0x7F < cp" using seq by (simp_all split: if_split_asm)
    then show thesis by (rule two)
  next
    case 3
    then have "cp = js_or (js_or (js_shl (bits_of (at buf i) mod 16) 12)
        (js_shl (bits_of (at buf (i + 1)) mod 64) 6)) (bits_of (at buf (i + 2)) mod 64)"
      "0x7FF < cp" "cp < 0xD800 \<or> 0xDFFF < cp" using seq by (simp_all split: if_split_asm)
    then show thesis by (rule three)
  next
    case 4
    then have "0xFFFF < cp" "cp < 0x110000" using seq by (simp_all split: if_split_asm)
    then show thesis by (rule four)
  qed
qed

lemma utf8_seq_scalar:
  assumes "is_bytes buf" "utf8_seq buf i = Some cp"
  shows "scalar_value cp"
  using assms(2)
proof (cases rule: utf8_seq_cases)
  case one
  moreover have "0 \<le> bits_of (at buf i)"
    using assms(1) by (auto simp: at_def bits_of_def is_bytes_nth)
  ultimately show ?thesis by (auto simp: scalar_value_def)
next
  case (two a b)
  then show ?thesis using or_bytes_bounds(1) [of a b] unfolding scalar_value_def by linarith
next
  case (three a b c)
  then show ?thesis using or_bytes_bounds(2) [of a b c] unfolding scalar_value_def by linarith
qed (auto simp: scalar_value_def)

lemma utf8_slice_loop_wf:
  "is_bytes buf \<Longrightarrow> wf_utf16 res \<Longrightarrow> wf_utf16 (utf8_slice_loop buf i end' res)"
proof (induction buf i end' res rule: utf8_slice_loop.induct)
  case (1 buf i end' res)
  have r: "wf_utf16 (res @ [0xFFFD])" using 1 by (intro wf_utf16_append) auto
  have u: "wf_utf16 (res @ utf8_units cp)" if "utf8_seq buf i = Some cp" for cp
    using 1 that by (intro wf_utf16_append utf8_units_wf utf8_seq_scalar)
  show ?case
  proof (cases "i < end'")
    case False
    then show ?thesis using "1.prems" by (subst utf8_slice_loop.simps) simp
  next
    case True
    define n where "n = utf8_seq_len (bits_of (at buf i))"
    note IH = "1.IH" [OF True n_def refl]
    show ?thesis
    proof (cases "if i + n \<le> end' then utf8_seq buf i else None")
      case None
      then show ?thesis using IH(1) True "1.prems"(1) r
        by (subst utf8_slice_loop.simps) (simp add: Let_def flip: n_def)
    next
      case (Some cp)
      then have "utf8_seq buf i = Some cp" by (simp split: if_splits)
      then show ?thesis using IH(2) [OF Some] Some True "1.prems"(1) u
        by (subst utf8_slice_loop.simps) (simp add: Let_def flip: n_def)
    qed
  qed
qed

lemma utf8Slice_wf:
  assumes "is_bytes buf"
  shows "wf_utf16 (utf8Slice buf start end')"
proof -
  have "wf_utf16 (utf8_slice_loop buf start (min (int (length buf)) end') [])"
    using assms by (intro utf8_slice_loop_wf) simp_all
  then show ?thesis
    by (simp add: utf8Slice_def decodeCodePointsArray_spec fromCharCode_id wf_utf16_range)
qed

section \<open>Properties\<close>

text \<open>
  C7: decoding a range of any bytes as UTF-8 gives a well-formed string: invalid, truncated,
  overlong and surrogate sequences become replacement characters, and every surrogate in the
  result is one half of a pair.
\<close>

theorem utf8_decode_wellformed:
  assumes "is_bytes buf"
  shows "wf_utf16 (utf8Slice buf start end')"
  using assms by (rule utf8Slice_wf)

theorem utf8_decode_wellformed_witness: "wf_utf16 (utf8Slice [0xED, 0xA0, 0x80, 0xF0, 0x9F] 0 5)"
  using utf8_decode_wellformed [of "[0xED, 0xA0, 0x80, 0xF0, 0x9F]"] by simp

text \<open>
  C6: a well-formed string is encoded without an error, and decoding the bytes gives the
  string again, except that each lead surrogate loses the bit that distinguishes an odd from
  an even plane. So every string of code points below \<open>0x20000\<close> comes back unchanged.
\<close>

theorem utf8_encode_decode_string:
  assumes "wf_utf16 s"
  shows "\<exists>bs. utf8ToBytes s None = Inr bs \<and> utf8Slice bs 0 (int (length bs)) = map clear_plane_bit s \<and>
    ((\<forall>c \<in> set s. \<not> (0xD840 \<le> c \<and> c \<le> 0xDBFF)) \<longrightarrow> utf8Slice bs 0 (int (length bs)) = s)"
proof -
  have "map clear_plane_bit s = s" if "\<forall>c \<in> set s. \<not> (0xD840 \<le> c \<and> c \<le> 0xDBFF)"
  proof (rule map_idI)
    fix c assume "c \<in> set s"
    then have "c < 0xD840 \<or> 0xDBFF < c" using that by force
    moreover have "\<not> bit (c - 0xD800) 6" if "0xD800 \<le> c" "c < 0xD840"
      using that by (simp add: bit_iff_odd)
    ultimately show "clear_plane_bit c = c" by (auto simp: clear_plane_bit_def)
  qed
  then show ?thesis using utf8_encode_decode [OF assms] by auto
qed

theorem utf8_encode_decode_string_witness:
  "\<exists>bs. utf8ToBytes [0x41, 0xD83D, 0xDE00] None = Inr bs \<and> utf8Slice bs 0 (int (length bs)) = [0x41, 0xD83D, 0xDE00]"
  using utf8_encode_decode_string [of "[0x41, 0xD83D, 0xDE00]"] by auto

subsection \<open>Deviations\<close>

text \<open>U+20000 is encoded as U+10000.\<close>

lemma utf8_loses_plane_bit: "utf8ToBytes [0xD840, 0xDC00] None = utf8ToBytes [0xD800, 0xDC00] None"
  by code_simp

text \<open>The second of two leads at the end of a string leaves no replacement character.\<close>

lemma utf8_drops_last_lead: "utf8ToBytes [0xD800, 0xD801] None = Inr [0xEF, 0xBF, 0xBD]"
  by code_simp

text \<open>A budget of no bytes is taken for no budget.\<close>

lemma utf8_zero_budget: "utf8ToBytes [0x41] (Some 0) = Inr [0x41]"
  by code_simp

end
