(* ===== verification/BufferInts.thy ===== *)
theory BufferInts
  imports JsPrelude
begin

text \<open>
  The integer accessors of \<open>Buffer\<close> (module 14 of \<open>swagger-ui.js\<close>): reading and
  writing unsigned and signed integers of 1 to 6 bytes, little- and big-endian, with and
  without bounds assertions.

  A buffer is the list of its elements. \<open>ta\<close> is \<open>Buffer.TYPED_ARRAY_SUPPORT\<close>,
  a constant of the running browser. A read gives \<open>None\<close> where the code computes with
  \<open>undefined\<close> and returns \<open>undefined\<close> or \<open>NaN\<close>. Offsets, lengths
  and values are integral numbers; sums are exact up to 6 bytes (\<open>2 ^ 48\<close>), the
  longest length the documented interface allows.
\<close>

section \<open>Bounds assertions\<close>

text \<open>
  \<open>offset % 1 !== 0\<close> is false of every integral offset, and the \<open>isBuffer\<close> test
  of \<open>checkInt\<close> holds of the buffer a method is called on.
\<close>

definition checkOffset :: "int \<Rightarrow> int \<Rightarrow> int \<Rightarrow> unit res" where
  "checkOffset offset ext len =
     (if offset < 0 then Inl (RangeError ''offset is not uint'')
      else if offset + ext > len then Inl (RangeError ''Trying to access beyond buffer length'')
      else Inr ())"

definition checkInt :: "int list \<Rightarrow> int \<Rightarrow> int \<Rightarrow> int \<Rightarrow> int \<Rightarrow> int \<Rightarrow> unit res" where
  "checkInt buf value offset ext mx mn =
     (if value > mx \<or> value < mn then Inl (RangeError ''value is out of bounds'')
      else if offset + ext > int (length buf) then Inl (RangeError ''index out of range'')
      else Inr ())"

text \<open>
  \<open>Math.pow(2, n)\<close> as a bound for an integer: the fraction that a negative \<open>n\<close>
  gives bounds the same integers as 0 does.
\<close>

definition pow2 :: "int \<Rightarrow> int" where
  "pow2 n = (if n < 0 then 0 else 2 ^ nat n)"

text \<open>\<open>if (!noAssert) check\<close>, then the rest.\<close>

definition asserting :: "bool \<Rightarrow> unit res \<Rightarrow> 'a \<Rightarrow> 'a res" where
  "asserting noAssert check rest = (if noAssert then Inr rest else bind_res check (\<lambda>_. Inr rest))"

section \<open>Reading\<close>

function readUIntLE_loop ::
  "int list \<Rightarrow> int \<Rightarrow> int \<Rightarrow> int \<Rightarrow> int \<Rightarrow> int option \<Rightarrow> int option \<times> int" where
  "readUIntLE_loop buf offset byteLength i mul val =
     (let i = i + 1 in
      if i < byteLength then
        (let mul = mul * 0x100
         in readUIntLE_loop buf offset byteLength i mul
              (num_add val (num_mul (at buf (offset + i)) (Some mul))))
      else (val, mul))"
  by pat_completeness auto
termination by (relation "measure (\<lambda>(b, off, n, i, m, v). nat (n - i))") auto

declare readUIntLE_loop.simps [simp del]

definition readUIntLE :: "int list \<Rightarrow> int \<Rightarrow> int \<Rightarrow> bool \<Rightarrow> int option res" where
  "readUIntLE buf offset byteLength noAssert =
     (let offset = to_int32 offset; byteLength = to_int32 byteLength
      in asserting noAssert (checkOffset offset byteLength (int (length buf)))
           (fst (readUIntLE_loop buf offset byteLength 0 1 (at buf offset))))"

text \<open>The big-endian loop counts \<open>n\<close> (\<open>byteLength\<close>, or \<open>i\<close>) down.\<close>

function readUIntBE_loop :: "int list \<Rightarrow> int \<Rightarrow> int \<Rightarrow> int \<Rightarrow> int option \<Rightarrow> int option \<times> int" where
  "readUIntBE_loop buf offset n mul val =
     (if n > 0 then
        (let mul = mul * 0x100; n = n - 1
         in readUIntBE_loop buf offset n mul
              (num_add val (num_mul (at buf (offset + n)) (Some mul))))
      else (val, mul))"
  by pat_completeness auto
termination by (relation "measure (\<lambda>(b, off, n, m, v). nat n)") auto

declare readUIntBE_loop.simps [simp del]

definition readUIntBE :: "int list \<Rightarrow> int \<Rightarrow> int \<Rightarrow> bool \<Rightarrow> int option res" where
  "readUIntBE buf offset byteLength noAssert =
     (let offset = to_int32 offset; byteLength = to_int32 byteLength
      in asserting noAssert (checkOffset offset byteLength (int (length buf)))
           (let byteLength = byteLength - 1
            in fst (readUIntBE_loop buf offset byteLength 1 (at buf (offset + byteLength)))))"

definition readUInt8 :: "int list \<Rightarrow> int \<Rightarrow> bool \<Rightarrow> int option res" where
  "readUInt8 buf offset noAssert =
     asserting noAssert (checkOffset offset 1 (int (length buf))) (at buf offset)"

definition readUInt16LE :: "int list \<Rightarrow> int \<Rightarrow> bool \<Rightarrow> int option res" where
  "readUInt16LE buf offset noAssert =
     asserting noAssert (checkOffset offset 2 (int (length buf)))
       (Some (js_or (bits_of (at buf offset)) (js_shl (bits_of (at buf (offset + 1))) 8)))"

definition readUInt16BE :: "int list \<Rightarrow> int \<Rightarrow> bool \<Rightarrow> int option res" where
  "readUInt16BE buf offset noAssert =
     asserting noAssert (checkOffset offset 2 (int (length buf)))
       (Some (js_or (js_shl (bits_of (at buf offset)) 8) (bits_of (at buf (offset + 1)))))"

definition readUInt32LE :: "int list \<Rightarrow> int \<Rightarrow> bool \<Rightarrow> int option res" where
  "readUInt32LE buf offset noAssert =
     asserting noAssert (checkOffset offset 4 (int (length buf)))
       (num_add
          (Some (js_or (js_or (bits_of (at buf offset)) (js_shl (bits_of (at buf (offset + 1))) 8))
                       (js_shl (bits_of (at buf (offset + 2))) 16)))
          (num_mul (at buf (offset + 3)) (Some 0x1000000)))"

definition readUInt32BE :: "int list \<Rightarrow> int \<Rightarrow> bool \<Rightarrow> int option res" where
  "readUInt32BE buf offset noAssert =
     asserting noAssert (checkOffset offset 4 (int (length buf)))
       (num_add
          (num_mul (at buf offset) (Some 0x1000000))
          (Some (js_or (js_or (js_shl (bits_of (at buf (offset + 1))) 16)
                              (js_shl (bits_of (at buf (offset + 2))) 8))
                       (bits_of (at buf (offset + 3))))))"

text \<open>
  \<open>if (val >= mul) val -= Math.pow(2, 8 * byteLength)\<close>; no comparison with
  \<open>NaN\<close> holds. (A negative length, which would subtract a fraction, is outside the
  integral model.)
\<close>

definition sign_adjust :: "int option \<Rightarrow> int \<Rightarrow> int \<Rightarrow> int option" where
  "sign_adjust val mul byteLength =
     map_option (\<lambda>v. if v \<ge> mul then v - pow2 (8 * byteLength) else v) val"

definition readIntLE :: "int list \<Rightarrow> int \<Rightarrow> int \<Rightarrow> bool \<Rightarrow> int option res" where
  "readIntLE buf offset byteLength noAssert =
     (let offset = to_int32 offset; byteLength = to_int32 byteLength
      in asserting noAssert (checkOffset offset byteLength (int (length buf)))
           (let (val, mul) = readUIntLE_loop buf offset byteLength 0 1 (at buf offset)
            in sign_adjust val (mul * 0x80) byteLength))"

definition readIntBE :: "int list \<Rightarrow> int \<Rightarrow> int \<Rightarrow> bool \<Rightarrow> int option res" where
  "readIntBE buf offset byteLength noAssert =
     (let offset = to_int32 offset; byteLength = to_int32 byteLength
      in asserting noAssert (checkOffset offset byteLength (int (length buf)))
           (let i = byteLength - 1;
                (val, mul) = readUIntBE_loop buf offset i 1 (at buf (offset + i))
            in sign_adjust val (mul * 0x80) byteLength))"

definition readInt8 :: "int list \<Rightarrow> int \<Rightarrow> bool \<Rightarrow> int option res" where
  "readInt8 buf offset noAssert =
     asserting noAssert (checkOffset offset 1 (int (length buf)))
       (if js_and (bits_of (at buf offset)) 0x80 = 0 then at buf offset
        else map_option (\<lambda>v. (0xff - v + 1) * - 1) (at buf offset))"

text \<open>\<open>val | 0xFFFF0000\<close> is a signed 32-bit result.\<close>

definition sign_extend16 :: "int \<Rightarrow> int" where
  "sign_extend16 val = (if js_and val 0x8000 \<noteq> 0 then js_or val 0xFFFF0000 else val)"

definition readInt16LE :: "int list \<Rightarrow> int \<Rightarrow> bool \<Rightarrow> int option res" where
  "readInt16LE buf offset noAssert =
     asserting noAssert (checkOffset offset 2 (int (length buf)))
       (Some (sign_extend16
          (js_or (bits_of (at buf offset)) (js_shl (bits_of (at buf (offset + 1))) 8))))"

definition readInt16BE :: "int list \<Rightarrow> int \<Rightarrow> bool \<Rightarrow> int option res" where
  "readInt16BE buf offset noAssert =
     asserting noAssert (checkOffset offset 2 (int (length buf)))
       (Some (sign_extend16
          (js_or (bits_of (at buf (offset + 1))) (js_shl (bits_of (at buf offset)) 8))))"

definition readInt32LE :: "int list \<Rightarrow> int \<Rightarrow> bool \<Rightarrow> int option res" where
  "readInt32LE buf offset noAssert =
     asserting noAssert (checkOffset offset 4 (int (length buf)))
       (Some (js_or (js_or (js_or (bits_of (at buf offset)) (js_shl (bits_of (at buf (offset + 1))) 8))
                           (js_shl (bits_of (at buf (offset + 2))) 16))
                    (js_shl (bits_of (at buf (offset + 3))) 24)))"

definition readInt32BE :: "int list \<Rightarrow> int \<Rightarrow> bool \<Rightarrow> int option res" where
  "readInt32BE buf offset noAssert =
     asserting noAssert (checkOffset offset 4 (int (length buf)))
       (Some (js_or (js_or (js_or (js_shl (bits_of (at buf offset)) 24)
                                  (js_shl (bits_of (at buf (offset + 1))) 16))
                           (js_shl (bits_of (at buf (offset + 2))) 8))
                    (bits_of (at buf (offset + 3)))))"

section \<open>Writing\<close>

text \<open>A write returns the buffer it leaves and the offset after the value.\<close>

function writeUIntLE_loop :: "bool \<Rightarrow> int list \<Rightarrow> int \<Rightarrow> int \<Rightarrow> int \<Rightarrow> int \<Rightarrow> int \<Rightarrow> int list" where
  "writeUIntLE_loop ta buf value offset byteLength i mul =
     (let i = i + 1 in
      if i < byteLength then
        (let mul = mul * 0x100
         in writeUIntLE_loop ta (put ta buf (offset + i) (js_and (trunc_div value mul) 0xFF))
              value offset byteLength i mul)
      else buf)"
  by pat_completeness auto
termination by (relation "measure (\<lambda>(ta, b, v, off, n, i, m). nat (n - i))") auto

declare writeUIntLE_loop.simps [simp del]

definition writeUIntLE :: "bool \<Rightarrow> int list \<Rightarrow> int \<Rightarrow> int \<Rightarrow> int \<Rightarrow> bool \<Rightarrow> (int list \<times> int) res" where
  "writeUIntLE ta buf value offset byteLength noAssert =
     (let offset = to_int32 offset; byteLength = to_int32 byteLength
      in asserting noAssert (checkInt buf value offset byteLength (pow2 (8 * byteLength)) 0)
           (writeUIntLE_loop ta (put ta buf offset (js_and value 0xFF)) value offset byteLength 0 1,
            offset + byteLength))"

function writeUIntBE_loop :: "bool \<Rightarrow> int list \<Rightarrow> int \<Rightarrow> int \<Rightarrow> int \<Rightarrow> int \<Rightarrow> int list" where
  "writeUIntBE_loop ta buf value offset i mul =
     (let i = i - 1 in
      if i \<ge> 0 then
        (let mul = mul * 0x100
         in writeUIntBE_loop ta (put ta buf (offset + i) (js_and (trunc_div value mul) 0xFF))
              value offset i mul)
      else buf)"
  by pat_completeness auto
termination by (relation "measure (\<lambda>(ta, b, v, off, i, m). nat i)") auto

declare writeUIntBE_loop.simps [simp del]

definition writeUIntBE :: "bool \<Rightarrow> int list \<Rightarrow> int \<Rightarrow> int \<Rightarrow> int \<Rightarrow> bool \<Rightarrow> (int list \<times> int) res" where
  "writeUIntBE ta buf value offset byteLength noAssert =
     (let offset = to_int32 offset; byteLength = to_int32 byteLength
      in asserting noAssert (checkInt buf value offset byteLength (pow2 (8 * byteLength)) 0)
           (let i = byteLength - 1
            in (writeUIntBE_loop ta (put ta buf (offset + i) (js_and value 0xFF)) value offset i 1,
                offset + byteLength)))"

text \<open>\<open>Math.floor\<close> is the identity on an integral value.\<close>

definition writeUInt8 :: "bool \<Rightarrow> int list \<Rightarrow> int \<Rightarrow> int \<Rightarrow> bool \<Rightarrow> (int list \<times> int) res" where
  "writeUInt8 ta buf value offset noAssert =
     (let offset = to_int32 offset
      in asserting noAssert (checkInt buf value offset 1 0xff 0)
           (put ta buf offset value, offset + 1))"

text \<open>The fallback writers of object buffers; \<open>i\<close> runs to \<open>j\<close>.\<close>

function objectWriteUInt16_loop :: "int list \<Rightarrow> int \<Rightarrow> int \<Rightarrow> bool \<Rightarrow> int \<Rightarrow> int \<Rightarrow> int list" where
  "objectWriteUInt16_loop buf value offset littleEndian i j =
     (if i < j then
        (let k = (if littleEndian then i else 1 - i)
         in objectWriteUInt16_loop
              (put False buf (offset + i)
                 (js_ushr (js_and value (js_shl 0xff (nat (8 * k)))) (nat (k * 8))))
              value offset littleEndian (i + 1) j)
      else buf)"
  by pat_completeness auto
termination by (relation "measure (\<lambda>(b, v, off, le, i, j). nat (j - i))") auto

declare objectWriteUInt16_loop.simps [simp del]

definition objectWriteUInt16 :: "int list \<Rightarrow> int \<Rightarrow> int \<Rightarrow> bool \<Rightarrow> int list" where
  "objectWriteUInt16 buf value offset littleEndian =
     objectWriteUInt16_loop buf (if value < 0 then 0xffff + value + 1 else value) offset
       littleEndian 0 (min (int (length buf) - offset) 2)"

definition writeUInt16LE :: "bool \<Rightarrow> int list \<Rightarrow> int \<Rightarrow> int \<Rightarrow> bool \<Rightarrow> (int list \<times> int) res" where
  "writeUInt16LE ta buf value offset noAssert =
     (let offset = to_int32 offset
      in asserting noAssert (checkInt buf value offset 2 0xffff 0)
           (if ta then put ta (put ta buf offset value) (offset + 1) (js_ushr value 8)
            else objectWriteUInt16 buf value offset True,
            offset + 2))"

definition writeUInt16BE :: "bool \<Rightarrow> int list \<Rightarrow> int \<Rightarrow> int \<Rightarrow> bool \<Rightarrow> (int list \<times> int) res" where
  "writeUInt16BE ta buf value offset noAssert =
     (let offset = to_int32 offset
      in asserting noAssert (checkInt buf value offset 2 0xffff 0)
           (if ta then put ta (put ta buf offset (js_ushr value 8)) (offset + 1) value
            else objectWriteUInt16 buf value offset False,
            offset + 2))"

function objectWriteUInt32_loop :: "int list \<Rightarrow> int \<Rightarrow> int \<Rightarrow> bool \<Rightarrow> int \<Rightarrow> int \<Rightarrow> int list" where
  "objectWriteUInt32_loop buf value offset littleEndian i j =
     (if i < j then
        objectWriteUInt32_loop
          (put False buf (offset + i)
             (js_and (js_ushr value (nat ((if littleEndian then i else 3 - i) * 8))) 0xff))
          value offset littleEndian (i + 1) j
      else buf)"
  by pat_completeness auto
termination by (relation "measure (\<lambda>(b, v, off, le, i, j). nat (j - i))") auto

declare objectWriteUInt32_loop.simps [simp del]

definition objectWriteUInt32 :: "int list \<Rightarrow> int \<Rightarrow> int \<Rightarrow> bool \<Rightarrow> int list" where
  "objectWriteUInt32 buf value offset littleEndian =
     objectWriteUInt32_loop buf (if value < 0 then 0xffffffff + value + 1 else value) offset
       littleEndian 0 (min (int (length buf) - offset) 4)"

definition writeUInt32LE :: "bool \<Rightarrow> int list \<Rightarrow> int \<Rightarrow> int \<Rightarrow> bool \<Rightarrow> (int list \<times> int) res" where
  "writeUInt32LE ta buf value offset noAssert =
     (let offset = to_int32 offset
      in asserting noAssert (checkInt buf value offset 4 0xffffffff 0)
           (if ta then
              put ta (put ta (put ta (put ta buf (offset + 3) (js_ushr value 24))
                (offset + 2) (js_ushr value 16)) (offset + 1) (js_ushr value 8)) offset value
            else objectWriteUInt32 buf value offset True,
            offset + 4))"

definition writeUInt32BE :: "bool \<Rightarrow> int list \<Rightarrow> int \<Rightarrow> int \<Rightarrow> bool \<Rightarrow> (int list \<times> int) res" where
  "writeUInt32BE ta buf value offset noAssert =
     (let offset = to_int32 offset
      in asserting noAssert (checkInt buf value offset 4 0xffffffff 0)
           (if ta then
              put ta (put ta (put ta (put ta buf offset (js_ushr value 24))
                (offset + 1) (js_ushr value 16)) (offset + 2) (js_ushr value 8)) (offset + 3) value
            else objectWriteUInt32 buf value offset False,
            offset + 4))"

text \<open>\<open>(value / mul >> 0) - sub & 0xFF\<close>.\<close>

definition int_byte :: "int \<Rightarrow> int \<Rightarrow> int \<Rightarrow> int" where
  "int_byte value mul sub = js_and (js_shr (trunc_div value mul) 0 - sub) 0xFF"

function writeIntLE_loop :: "bool \<Rightarrow> int list \<Rightarrow> int \<Rightarrow> int \<Rightarrow> int \<Rightarrow> int \<Rightarrow> int \<Rightarrow> int \<Rightarrow> int list" where
  "writeIntLE_loop ta buf value sub offset byteLength i mul =
     (let i = i + 1 in
      if i < byteLength then
        (let mul = mul * 0x100
         in writeIntLE_loop ta (put ta buf (offset + i) (int_byte value mul sub))
              value sub offset byteLength i mul)
      else buf)"
  by pat_completeness auto
termination by (relation "measure (\<lambda>(ta, b, v, s, off, n, i, m). nat (n - i))") auto

declare writeIntLE_loop.simps [simp del]

text \<open>
  The signed writers take the length as it is given, where all others convert it to 32 bits. Their limit
  is \<open>Math.pow(2, 8 * byteLength - 1)\<close>; for a length that is not positive it lies between 0 and 1, and
  every integer is above \<open>limit - 1\<close> or below \<open>- limit\<close>, as it is with 0.
\<close>

definition writeIntLE :: "bool \<Rightarrow> int list \<Rightarrow> int \<Rightarrow> int \<Rightarrow> int \<Rightarrow> bool \<Rightarrow> (int list \<times> int) res" where
  "writeIntLE ta buf value offset byteLength noAssert =
     (let offset = to_int32 offset; limit = pow2 (8 * byteLength - 1)
      in asserting noAssert (checkInt buf value offset byteLength (limit - 1) (- limit))
           (writeIntLE_loop ta (put ta buf offset (js_and value 0xFF)) value
              (if value < 0 then 1 else 0) offset byteLength 0 1,
            offset + byteLength))"

function writeIntBE_loop :: "bool \<Rightarrow> int list \<Rightarrow> int \<Rightarrow> int \<Rightarrow> int \<Rightarrow> int \<Rightarrow> int \<Rightarrow> int list" where
  "writeIntBE_loop ta buf value sub offset i mul =
     (let i = i - 1 in
      if i \<ge> 0 then
        (let mul = mul * 0x100
         in writeIntBE_loop ta (put ta buf (offset + i) (int_byte value mul sub))
              value sub offset i mul)
      else buf)"
  by pat_completeness auto
termination by (relation "measure (\<lambda>(ta, b, v, s, off, i, m). nat i)") auto

declare writeIntBE_loop.simps [simp del]

definition writeIntBE :: "bool \<Rightarrow> int list \<Rightarrow> int \<Rightarrow> int \<Rightarrow> int \<Rightarrow> bool \<Rightarrow> (int list \<times> int) res" where
  "writeIntBE ta buf value offset byteLength noAssert =
     (let offset = to_int32 offset; limit = pow2 (8 * byteLength - 1)
      in asserting noAssert (checkInt buf value offset byteLength (limit - 1) (- limit))
           (let i = byteLength - 1
            in (writeIntBE_loop ta (put ta buf (offset + i) (js_and value 0xFF)) value
                  (if value < 0 then 1 else 0) offset i 1,
                offset + byteLength)))"

definition writeInt8 :: "bool \<Rightarrow> int list \<Rightarrow> int \<Rightarrow> int \<Rightarrow> bool \<Rightarrow> (int list \<times> int) res" where
  "writeInt8 ta buf value offset noAssert =
     (let offset = to_int32 offset
      in asserting noAssert (checkInt buf value offset 1 0x7f (- 0x80))
           (put ta buf offset (if value < 0 then 0xff + value + 1 else value), offset + 1))"

definition writeInt16LE :: "bool \<Rightarrow> int list \<Rightarrow> int \<Rightarrow> int \<Rightarrow> bool \<Rightarrow> (int list \<times> int) res" where
  "writeInt16LE ta buf value offset noAssert =
     (let offset = to_int32 offset
      in asserting noAssert (checkInt buf value offset 2 0x7fff (- 0x8000))
           (if ta then put ta (put ta buf offset value) (offset + 1) (js_ushr value 8)
            else objectWriteUInt16 buf value offset True,
            offset + 2))"

definition writeInt16BE :: "bool \<Rightarrow> int list \<Rightarrow> int \<Rightarrow> int \<Rightarrow> bool \<Rightarrow> (int list \<times> int) res" where
  "writeInt16BE ta buf value offset noAssert =
     (let offset = to_int32 offset
      in asserting noAssert (checkInt buf value offset 2 0x7fff (- 0x8000))
           (if ta then put ta (put ta buf offset (js_ushr value 8)) (offset + 1) value
            else objectWriteUInt16 buf value offset False,
            offset + 2))"

definition writeInt32LE :: "bool \<Rightarrow> int list \<Rightarrow> int \<Rightarrow> int \<Rightarrow> bool \<Rightarrow> (int list \<times> int) res" where
  "writeInt32LE ta buf value offset noAssert =
     (let offset = to_int32 offset
      in asserting noAssert (checkInt buf value offset 4 0x7fffffff (- 0x80000000))
           (if ta then
              put ta (put ta (put ta (put ta buf offset value) (offset + 1) (js_ushr value 8))
                (offset + 2) (js_ushr value 16)) (offset + 3) (js_ushr value 24)
            else objectWriteUInt32 buf value offset True,
            offset + 4))"

definition writeInt32BE :: "bool \<Rightarrow> int list \<Rightarrow> int \<Rightarrow> int \<Rightarrow> bool \<Rightarrow> (int list \<times> int) res" where
  "writeInt32BE ta buf value offset noAssert =
     (let offset = to_int32 offset
      in asserting noAssert (checkInt buf value offset 4 0x7fffffff (- 0x80000000))
           (let value = (if value < 0 then 0xffffffff + value + 1 else value)
            in if ta then
                 put ta (put ta (put ta (put ta buf offset (js_ushr value 24))
                   (offset + 1) (js_ushr value 16)) (offset + 2) (js_ushr value 8)) (offset + 3) value
               else objectWriteUInt32 buf value offset False,
            offset + 4))"

section \<open>Correctness\<close>

subsection \<open>Loops as overwritten ranges and sums\<close>

text \<open>\<open>overwrite b off bs\<close> replaces the elements from \<open>off\<close> by \<open>bs\<close>.\<close>

definition overwrite :: "'a list \<Rightarrow> nat \<Rightarrow> 'a list \<Rightarrow> 'a list" where
  "overwrite b off bs = take off b @ bs @ drop (off + length bs) b"

definition stored :: "bool \<Rightarrow> int \<Rightarrow> int" where
  "stored ta v = (if ta then v mod 256 else v)"

lemma length_overwrite [simp]: "off + length bs \<le> length b \<Longrightarrow> length (overwrite b off bs) = length b"
  by (simp add: overwrite_def)

lemma overwrite_Nil [simp]: "overwrite b off [] = b"
  by (simp add: overwrite_def)

lemma put_overwrite_back:
  assumes "off + length bs < length b"
  shows "put ta (overwrite b off bs) (int off + int (length bs)) v = overwrite b off (bs @ [stored ta v])"
proof -
  have "drop (off + length bs) b = b ! (off + length bs) # drop (Suc (off + length bs)) b"
    using assms by (simp add: Cons_nth_drop_Suc)
  then have "overwrite b off bs = (take off b @ bs) @ b ! (off + length bs) # drop (Suc (off + length bs)) b"
    by (simp add: overwrite_def)
  moreover have "int off + int (length bs) = int (length (take off b @ bs))" using assms by simp
  ultimately show ?thesis
    by (simp only: put_append) (simp add: overwrite_def stored_def)
qed

lemma put_overwrite_front:
  assumes "off + length bs < length b"
  shows "put ta (overwrite b (Suc off) bs) (int off) v = overwrite b off (stored ta v # bs)"
proof -
  have "take (Suc off) b = take off b @ [b ! off]" using assms by (simp add: take_Suc_conv_app_nth)
  then have "overwrite b (Suc off) bs = take off b @ b ! off # (bs @ drop (off + Suc (length bs)) b)"
    by (simp add: overwrite_def)
  moreover have "int off = int (length (take off b))" using assms by simp
  ultimately show ?thesis
    by (simp only: put_append) (simp add: overwrite_def stored_def)
qed

lemma put_overwrite_start:
  "off < length b \<Longrightarrow> put ta b (int off) v = overwrite b off [stored ta v]"
  using put_overwrite_back [of off "[]" b ta v] by simp

lemma fold_put_up:
  assumes "length bs = j" "j \<le> n" "off + n \<le> length b"
  shows "fold (\<lambda>k b. put ta b (int off + int k) (f k)) [j..<n] (overwrite b off bs) =
    overwrite b off (bs @ map (\<lambda>k. stored ta (f k)) [j..<n])"
  using assms(2,1)
proof (induction arbitrary: bs rule: inc_induct)
  case base
  then show ?case by simp
next
  case (step m)
  have "fold (\<lambda>k b. put ta b (int off + int k) (f k)) [m..<n] (overwrite b off bs) =
     fold (\<lambda>k b. put ta b (int off + int k) (f k)) [Suc m..<n] (overwrite b off (bs @ [stored ta (f m)]))"
    using step put_overwrite_back [of off bs b ta "f m"] assms(3) by (simp add: upt_conv_Cons)
  also have "\<dots> = overwrite b off ((bs @ [stored ta (f m)]) @ map (\<lambda>k. stored ta (f k)) [Suc m..<n])"
    using step.prems by (intro step.IH) simp
  finally show ?case using step.hyps by (simp add: upt_conv_Cons)
qed

lemma fold_put_down:
  assumes "length bs = j" "0 < j" "j \<le> n" "off + n \<le> length b"
  shows "fold (\<lambda>k b. put ta b (int off + (int n - 1 - int k)) (f k)) [j..<n] (overwrite b (off + n - j) bs) =
    overwrite b off (rev (map (\<lambda>k. stored ta (f k)) [j..<n]) @ bs)"
  using assms(3,1,2)
proof (induction arbitrary: bs rule: inc_induct)
  case base
  then show ?case by simp
next
  case (step m)
  have e: "off + n - m = Suc (off + (n - 1 - m))" "off + n - Suc m = off + (n - 1 - m)"
    "int off + (int n - 1 - int m) = int (off + (n - 1 - m))" using step.hyps by auto
  have "off + (n - 1 - m) + length bs < length b" using step.hyps step.prems assms(4) by simp
  note p = put_overwrite_front [OF this, of ta "f m"]
  have "fold (\<lambda>k b. put ta b (int off + (int n - 1 - int k)) (f k)) [m..<n] (overwrite b (off + n - m) bs) =
     fold (\<lambda>k b. put ta b (int off + (int n - 1 - int k)) (f k)) [Suc m..<n]
       (overwrite b (off + n - Suc m) (stored ta (f m) # bs))"
    using p by (simp only: upt_conv_Cons [OF step.hyps(2)] fold.simps o_apply e)
  also have "\<dots> = overwrite b off (rev (map (\<lambda>k. stored ta (f k)) [Suc m..<n]) @ stored ta (f m) # bs)"
    using step.prems by (intro step.IH) simp_all
  finally show ?case using step.hyps by (simp add: upt_conv_Cons)
qed

text \<open>The writing loops as folds over the indices.\<close>

lemma writeUIntLE_loop_fold:
  "mul = 256 ^ nat i \<Longrightarrow> 0 \<le> i \<Longrightarrow> writeUIntLE_loop ta b v off n i mul =
   fold (\<lambda>k b. put ta b (off + int k) (js_and (trunc_div v (256 ^ k)) 0xFF)) [Suc (nat i)..<nat n] b"
proof (induction ta b v off n i mul rule: writeUIntLE_loop.induct)
  case (1 ta b v off n i mul)
  show ?case
  proof (cases "i + 1 < n")
    case True
    have e: "[Suc (nat i)..<nat n] = Suc (nat i) # [Suc (nat (i + 1))..<nat n]" "nat (i + 1) = Suc (nat i)"
      "off + int (Suc (nat i)) = off + (i + 1)" "mul * 256 = 256 ^ Suc (nat i)"
      using True "1.prems" by (auto simp: upt_conv_Cons nat_add_distrib)
    show ?thesis
      by (subst writeUIntLE_loop.simps)
         (use True "1.IH" [OF refl True refl] "1.prems" in
           \<open>simp add: e(1,3) Let_def e(2,4) [unfolded power_Suc] mult.commute add.commute [of 1]\<close>)
  next
    case False
    then show ?thesis by (subst writeUIntLE_loop.simps) simp
  qed
qed


lemma writeIntLE_loop_fold:
  "mul = 256 ^ nat i \<Longrightarrow> 0 \<le> i \<Longrightarrow> writeIntLE_loop ta b v sub off n i mul =
   fold (\<lambda>k b. put ta b (off + int k) (int_byte v (256 ^ k) sub)) [Suc (nat i)..<nat n] b"
proof (induction ta b v sub off n i mul rule: writeIntLE_loop.induct)
  case (1 ta b v sub off n i mul)
  show ?case
  proof (cases "i + 1 < n")
    case True
    have e: "[Suc (nat i)..<nat n] = Suc (nat i) # [Suc (nat (i + 1))..<nat n]" "nat (i + 1) = Suc (nat i)"
      "off + int (Suc (nat i)) = off + (i + 1)" "mul * 256 = 256 ^ Suc (nat i)"
      using True "1.prems" by (auto simp: upt_conv_Cons nat_add_distrib)
    show ?thesis
      by (subst writeIntLE_loop.simps)
         (use True "1.IH" [OF refl True refl] "1.prems" in
           \<open>simp add: e(1,3) Let_def e(2,4) [unfolded power_Suc] mult.commute add.commute [of 1]\<close>)
  next
    case False
    then show ?thesis by (subst writeIntLE_loop.simps) simp
  qed
qed

text \<open>The big-endian loops leave index \<open>i\<close> at \<open>n - 1 - k\<close>, where \<open>k\<close> counts the bytes written.\<close>

lemma writeUIntBE_loop_fold:
  "mul = 256 ^ k \<Longrightarrow> i = int n - 1 - int k \<Longrightarrow> k < n \<Longrightarrow> writeUIntBE_loop ta b v off i mul =
   fold (\<lambda>k b. put ta b (off + (int n - 1 - int k)) (js_and (trunc_div v (256 ^ k)) 0xFF)) [Suc k..<n] b"
proof (induction ta b v off i mul arbitrary: k rule: writeUIntBE_loop.induct)
  case (1 ta b v off i mul)
  show ?case
  proof (cases "i - 1 \<ge> 0")
    case True
    then have k: "Suc k < n" "i - 1 = int n - 1 - int (Suc k)" "mul * 256 = 256 ^ Suc k"
      using "1.prems" by auto
    have "writeUIntBE_loop ta b v off i mul = writeUIntBE_loop ta
        (put ta b (off + (i - 1)) (js_and (trunc_div v (mul * 256)) 0xFF)) v off (i - 1) (mul * 256)"
      using True by (subst writeUIntBE_loop.simps) (simp add: Let_def)
    then show ?thesis
      using "1.IH" [OF refl True refl k(3,2,1)] k by (simp only: upt_conv_Cons [OF k(1)] fold.simps o_apply)
  next
    case False
    then show ?thesis using "1.prems" by (subst writeUIntBE_loop.simps) simp
  qed
qed

lemma writeIntBE_loop_fold:
  "mul = 256 ^ k \<Longrightarrow> i = int n - 1 - int k \<Longrightarrow> k < n \<Longrightarrow> writeIntBE_loop ta b v sub off i mul =
   fold (\<lambda>k b. put ta b (off + (int n - 1 - int k)) (int_byte v (256 ^ k) sub)) [Suc k..<n] b"
proof (induction ta b v sub off i mul arbitrary: k rule: writeIntBE_loop.induct)
  case (1 ta b v sub off i mul)
  show ?case
  proof (cases "i - 1 \<ge> 0")
    case True
    then have k: "Suc k < n" "i - 1 = int n - 1 - int (Suc k)" "mul * 256 = 256 ^ Suc k"
      using "1.prems" by auto
    have "writeIntBE_loop ta b v sub off i mul = writeIntBE_loop ta
        (put ta b (off + (i - 1)) (int_byte v (mul * 256) sub)) v sub off (i - 1) (mul * 256)"
      using True by (subst writeIntBE_loop.simps) (simp add: Let_def)
    then show ?thesis
      using "1.IH" [OF refl True refl k(3,2,1)] k by (simp only: upt_conv_Cons [OF k(1)] fold.simps o_apply)
  next
    case False
    then show ?thesis using "1.prems" by (subst writeIntBE_loop.simps) simp
  qed
qed

text \<open>Reading loops as sums.\<close>

definition le_value :: "int list \<Rightarrow> int" where
  "le_value bs = (\<Sum>k<length bs. bs ! k * 256 ^ k)"

lemma readUIntLE_loop_sum:
  "0 \<le> i \<Longrightarrow> 0 \<le> off \<Longrightarrow> off + n \<le> int (length b) \<Longrightarrow> mul = 256 ^ nat i \<Longrightarrow> i < n \<Longrightarrow>
   readUIntLE_loop b off n i mul (Some val) =
     (Some (val + (\<Sum>k=Suc (nat i)..<nat n. b ! (nat off + k) * 256 ^ k)), 256 ^ nat (n - 1))"
proof (induction b off n i mul "Some val" arbitrary: val rule: readUIntLE_loop.induct)
  case (1 b off n i mul)
  show ?case
  proof (cases "i + 1 < n")
    case True
    have m: "mul * 256 = 256 ^ nat (i + 1)" "nat (i + 1) = Suc (nat i)" "Suc (nat i) < nat n"
      using "1.prems" True by (simp_all add: nat_add_distrib)
    have at: "at b (off + (i + 1)) = Some (b ! (nat off + Suc (nat i)))"
      using "1.prems" True by (simp add: at_def nat_add_distrib)
    then have v: "num_add (Some val) (num_mul (at b (off + (i + 1))) (Some (mul * 256)))
      = Some (val + b ! (nat off + Suc (nat i)) * (mul * 256))" by simp
    have "readUIntLE_loop b off n i mul (Some val) = readUIntLE_loop b off n (i + 1) (mul * 256)
        (Some (val + b ! (nat off + Suc (nat i)) * (mul * 256)))"
      by (subst readUIntLE_loop.simps) (simp only: Let_def True if_True v)
    also have "\<dots> = (Some (val + b ! (nat off + Suc (nat i)) * (mul * 256) +
        (\<Sum>k=Suc (nat (i + 1))..<nat n. b ! (nat off + k) * 256 ^ k)), 256 ^ nat (n - 1))"
      by (rule "1.hyps" [OF refl True refl v]) (use "1.prems" True m in simp_all)
    finally show ?thesis
      using "1.prems"(4) m by (simp add: sum.atLeast_Suc_lessThan mult.commute add.assoc)
  next
    case False
    then have "n = i + 1" using "1.prems" by simp
    then show ?thesis using "1.prems" by (subst readUIntLE_loop.simps) (simp add: Let_def nat_add_distrib)
  qed
qed


lemma readUIntBE_loop_sum:
  "mul = 256 ^ k \<Longrightarrow> m = int n - 1 - int k \<Longrightarrow> k < n \<Longrightarrow> off + n \<le> length b \<Longrightarrow>
   readUIntBE_loop b (int off) m mul (Some val) =
     (Some (val + (\<Sum>j=Suc k..<n. b ! (off + (n - 1 - j)) * 256 ^ j)), 256 ^ (n - 1))"
proof (induction b "int off" m mul "Some val" arbitrary: val k rule: readUIntBE_loop.induct)
  case (1 b m mul)
  show ?case
  proof (cases "m > 0")
    case True
    then have k: "Suc k < n" "m - 1 = int n - 1 - int (Suc k)" "mul * 256 = 256 ^ Suc k"
      using "1.prems" by auto
    have i: "nat (int off + (m - 1)) = off + (n - 1 - Suc k)" "0 \<le> int off + (m - 1)"
      "off + (n - 1 - Suc k) < length b"
      using "1.prems" True by auto
    then have "at b (int off + (m - 1)) = Some (b ! (off + (n - 1 - Suc k)))"
      by (simp add: at_def)
    then have v: "num_add (Some val) (num_mul (at b (int off + (m - 1))) (Some (mul * 256)))
      = Some (val + b ! (off + (n - 1 - Suc k)) * (mul * 256))" by simp
    have "readUIntBE_loop b (int off) m mul (Some val) = readUIntBE_loop b (int off) (m - 1) (mul * 256)
        (Some (val + b ! (off + (n - 1 - Suc k)) * (mul * 256)))"
      by (subst readUIntBE_loop.simps) (simp only: Let_def True if_True v)
    also have "\<dots> = (Some (val + b ! (off + (n - 1 - Suc k)) * (mul * 256) +
        (\<Sum>j=Suc (Suc k)..<n. b ! (off + (n - 1 - j)) * 256 ^ j)), 256 ^ (n - 1))"
      by (rule "1.hyps" [OF True refl refl v]) (use "1.prems" k in simp_all)
    finally show ?thesis
      using k(1,3) by (simp add: sum.atLeast_Suc_lessThan add.assoc)
  next
    case False
    then have "Suc k = n" using "1.prems" by simp
    then show ?thesis using "1.prems" False by (subst readUIntBE_loop.simps) auto
  qed
qed

subsection \<open>What the generic accessors do\<close>

definition le_bytes :: "nat \<Rightarrow> int \<Rightarrow> int list" where
  "le_bytes n v = map (\<lambda>k. v div 256 ^ k mod 256) [0..<n]"

lemma length_le_bytes [simp]: "length (le_bytes n v) = n"
  by (simp add: le_bytes_def)

lemma le_value_le_bytes: "le_value (le_bytes n v) = v mod 256 ^ n"
proof -
  have "(\<Sum>k<n. v div 256 ^ k mod 256 * 256 ^ k) = v mod 256 ^ n"
  proof (induction n)
    case (Suc n)
    have "v mod (256 ^ n * 256) = 256 ^ n * (v div 256 ^ n mod 256) + v mod 256 ^ n"
      by (rule zmod_zmult2_eq) simp
    then show ?case using Suc by (simp add: mult.commute)
  qed simp
  then show ?thesis by (simp add: le_value_def le_bytes_def)
qed

lemma js_and_byte: "js_and x 0xFF = x mod 256"
  by (simp add: js_ops)

lemma stored_byte [simp]: "stored ta (x mod 256) = x mod 256"
  by (simp add: stored_def)

lemma pow2_8: "pow2 (8 * int n) = 256 ^ n"
proof -
  have "nat (8 * int n) = 8 * n" by simp
  then show ?thesis by (simp add: pow2_def power_mult)
qed

definition in_buffer :: "int list \<Rightarrow> nat \<Rightarrow> nat \<Rightarrow> bool" where
  "in_buffer b off n \<longleftrightarrow> off + n \<le> length b \<and> length b < 2 ^ 31 \<and> 0 < n"

lemma in_buffer_int32:
  assumes "in_buffer b off n"
  shows "to_int32 (int off) = int off" "to_int32 (int n) = int n"
  using assms by (auto simp: in_buffer_def intro!: to_int32_id)

lemma asserting_ok: "check = Inr () \<Longrightarrow> asserting noAssert check x = Inr x"
  by (simp add: asserting_def)

lemma checkInt_ok: "0 \<le> off \<Longrightarrow> mn \<le> v \<Longrightarrow> v \<le> mx \<Longrightarrow> off + n \<le> int (length b) \<Longrightarrow>
  checkInt b v off n mx mn = Inr ()"
  by (simp add: checkInt_def)

lemma checkOffset_ok: "0 \<le> off \<Longrightarrow> off + n \<le> len \<Longrightarrow> checkOffset off n len = Inr ()"
  by (simp add: checkOffset_def)

lemma writeUIntLE_bytes:
  assumes "in_buffer b off n" "0 \<le> v" "v \<le> 256 ^ n"
  shows "writeUIntLE ta b v (int off) (int n) noAssert =
    Inr (overwrite b off (le_bytes n v), int off + int n)"
proof -
  have n: "0 < n" "off + n \<le> length b" "off < length b" using assms(1) by (auto simp: in_buffer_def)
  have "writeUIntLE_loop ta (put ta b (int off) (js_and v 0xFF)) v (int off) (int n) 0 1 =
      overwrite b off ([v mod 256] @ map (\<lambda>k. v div 256 ^ k mod 256) [1..<n])"
    using fold_put_up [of "[v mod 256]" 1 n off b ta "\<lambda>k. js_and (trunc_div v (256 ^ k)) 0xFF"] n assms(2)
    by (simp add: writeUIntLE_loop_fold put_overwrite_start js_and_byte)
  also have "[v mod 256] @ map (\<lambda>k. v div 256 ^ k mod 256) [1..<n] = le_bytes n v"
    using n(1) by (simp add: le_bytes_def upt_conv_Cons [of 0])
  finally show ?thesis
    using n assms(2,3) by (simp add: writeUIntLE_def in_buffer_int32 [OF assms(1)] asserting_ok
      checkInt_ok pow2_8)
qed

lemma writeUIntBE_bytes:
  assumes "in_buffer b off n" "0 \<le> v" "v \<le> 256 ^ n"
  shows "writeUIntBE ta b v (int off) (int n) noAssert =
    Inr (overwrite b off (rev (le_bytes n v)), int off + int n)"
proof -
  have n: "0 < n" "off + n \<le> length b" "off + (n - 1) < length b" using assms(1) by (auto simp: in_buffer_def)
  have i: "int off + (int n - 1) = int (off + (n - 1))" "Suc (off + (n - 1)) = off + n" using n by auto
  have s: "put ta b (int off + (int n - 1)) (v mod 256) = overwrite b (off + n - 1) [v mod 256]"
    unfolding i using put_overwrite_start [OF n(3)] n(1) by simp
  have "writeUIntBE_loop ta (put ta b (int off + (int n - 1)) (js_and v 0xFF)) v (int off) (int n - 1) 1 =
      overwrite b off (rev (map (\<lambda>k. v div 256 ^ k mod 256) [1..<n]) @ [v mod 256])"
    using fold_put_down [of "[v mod 256]" 1 n off b ta "\<lambda>k. js_and (trunc_div v (256 ^ k)) 0xFF"] n assms(2)
    by (simp add: writeUIntBE_loop_fold [where k = 0 and n = n] js_and_byte s)
  also have "rev (map (\<lambda>k. v div 256 ^ k mod 256) [1..<n]) @ [v mod 256] = rev (le_bytes n v)"
    using n(1) by (simp add: le_bytes_def upt_conv_Cons [of 0])
  finally show ?thesis
    using n assms(2,3) by (simp add: writeUIntBE_def in_buffer_int32 [OF assms(1)] asserting_ok
      checkInt_ok pow2_8)
qed

lemma readUIntLE_value:
  assumes "in_buffer b off n"
  shows "readUIntLE b (int off) (int n) noAssert = Inr (Some (le_value (take n (drop off b))))"
    "fst (readUIntLE_loop b (int off) (int n) 0 1 (at b (int off))) = Some (le_value (take n (drop off b)))"
    "snd (readUIntLE_loop b (int off) (int n) 0 1 (at b (int off))) = 256 ^ (n - 1)"
proof -
  have n: "0 < n" "off + n \<le> length b" using assms by (auto simp: in_buffer_def)
  have "le_value (take n (drop off b)) = (\<Sum>k=0..<n. b ! (off + k) * 256 ^ k)"
    using n by (simp add: le_value_def min_absorb2 atLeast0LessThan)
  also have "\<dots> = b ! off + (\<Sum>k=1..<n. b ! (off + k) * 256 ^ k)"
    using n(1) by (simp add: sum.atLeast_Suc_lessThan)
  finally show l: "fst (readUIntLE_loop b (int off) (int n) 0 1 (at b (int off))) = Some (le_value (take n (drop off b)))"
    "snd (readUIntLE_loop b (int off) (int n) 0 1 (at b (int off))) = 256 ^ (n - 1)"
    using readUIntLE_loop_sum [of 0 "int off" "int n" b 1 "b ! off"] n by (simp_all add: nat_diff_distrib)
  show "readUIntLE b (int off) (int n) noAssert = Inr (Some (le_value (take n (drop off b))))"
    using n l by (simp add: readUIntLE_def in_buffer_int32 [OF assms] asserting_ok checkOffset_ok)
qed

lemma readUIntBE_value:
  assumes "in_buffer b off n"
  shows "readUIntBE b (int off) (int n) noAssert = Inr (Some (le_value (rev (take n (drop off b)))))"
    "readUIntBE_loop b (int off) (int n - 1) 1 (at b (int off + (int n - 1))) =
       (Some (le_value (rev (take n (drop off b)))), 256 ^ (n - 1))"
proof -
  have n: "0 < n" "off + n \<le> length b" using assms by (auto simp: in_buffer_def)
  have a: "at b (int off + (int n - 1)) = Some (b ! (off + (n - 1)))"
    using n by (auto simp: at_def nat_add_distrib nat_diff_distrib)
  have "le_value (rev (take n (drop off b))) = (\<Sum>k=0..<n. b ! (off + (n - 1 - k)) * 256 ^ k)"
    using n by (simp add: le_value_def min_absorb2 atLeast0LessThan rev_nth)
  also have "\<dots> = b ! (off + (n - 1)) + (\<Sum>k=1..<n. b ! (off + (n - 1 - k)) * 256 ^ k)"
    using n(1) by (simp add: sum.atLeast_Suc_lessThan)
  finally show l: "readUIntBE_loop b (int off) (int n - 1) 1 (at b (int off + (int n - 1))) =
       (Some (le_value (rev (take n (drop off b)))), 256 ^ (n - 1))"
    using readUIntBE_loop_sum [of 1 0 "int n - 1" n off b "b ! (off + (n - 1))"] n a by simp
  show "readUIntBE b (int off) (int n) noAssert = Inr (Some (le_value (rev (take n (drop off b)))))"
    using n l by (simp add: readUIntBE_def in_buffer_int32 [OF assms] asserting_ok checkOffset_ok)
qed

lemma take_drop_overwrite:
  "off + length bs \<le> length b \<Longrightarrow> take (length bs) (drop off (overwrite b off bs)) = bs"
  by (simp add: overwrite_def)

lemma in_buffer_overwrite:
  "in_buffer b off n \<Longrightarrow> length bs = n \<Longrightarrow> in_buffer (overwrite b off bs) off n"
  by (simp add: in_buffer_def)

subsection \<open>The fixed-width accessors\<close>

lemma to_int32_wrap: "0 \<le> y \<Longrightarrow> y < 2 ^ 32 \<Longrightarrow> to_int32 y = (if y < 2 ^ 31 then y else y - 2 ^ 32)"
proof -
  assume y: "0 \<le> y" "y < 2 ^ 32"
  have "to_int32 (y - 2 ^ 32) = to_int32 y"
  proof -
    have "take_bit 32 (y - 2 ^ 32) = take_bit 32 y" by (simp add: take_bit_eq_mod)
    then show ?thesis by (metis to_int32_take_bit)
  qed
  then show ?thesis using y to_int32_id [of y] to_int32_id [of "y - 2 ^ 32"] by auto
qed

definition signed_value :: "nat \<Rightarrow> int \<Rightarrow> int" where
  "signed_value n u = (if u \<ge> 128 * 256 ^ (n - 1) then u - 256 ^ n else u)"

lemma window_nth:
  assumes "in_buffer b off n" "is_bytes b" "k < n"
  shows "at b (int off + int k) = Some (b ! (off + k))" "0 \<le> b ! (off + k)" "b ! (off + k) < 256"
  using assms is_bytes_nth [of b "off + k"] by (simp_all add: in_buffer_def at_def nat_add_distrib)

lemma take_drop_Suc: "i < length b \<Longrightarrow> take (Suc n) (drop i b) = b ! i # take n (drop (Suc i) b)"
  by (simp add: Cons_nth_drop_Suc [symmetric])

lemma window_lists:
  "in_buffer b off 1 \<Longrightarrow> take 1 (drop off b) = [b ! off]"
  "in_buffer b off 2 \<Longrightarrow> take 2 (drop off b) = [b ! off, b ! (off + 1)]"
  "in_buffer b off 4 \<Longrightarrow> take 4 (drop off b) = [b ! off, b ! (off + 1), b ! (off + 2), b ! (off + 3)]"
proof -
  show "in_buffer b off 1 \<Longrightarrow> take 1 (drop off b) = [b ! off]"
    by (simp add: in_buffer_def take_drop_Suc)
  have n: "(2::nat) = Suc (Suc 0)" "(4::nat) = Suc (Suc (Suc (Suc 0)))" by simp_all
  show "in_buffer b off 2 \<Longrightarrow> take 2 (drop off b) = [b ! off, b ! (off + 1)]"
    unfolding n by (simp add: in_buffer_def take_drop_Suc)
  have "take (Suc (Suc (Suc (Suc 0)))) (drop off b) = [b ! off, b ! (off + 1), b ! (off + 2), b ! (off + 3)]"
    if "off + 3 < length b" using that by (simp add: take_drop_Suc numeral_3_eq_3)
  then show "in_buffer b off 4 \<Longrightarrow> take 4 (drop off b) = [b ! off, b ! (off + 1), b ! (off + 2), b ! (off + 3)]"
    unfolding n(2) by (simp add: in_buffer_def)
qed

lemma le_value_lists:
  "le_value [x] = x" "le_value [x, y] = x + 256 * y"
  "le_value [x, y, z, w] = x + 256 * y + 65536 * z + 16777216 * w"
  by (simp_all add: le_value_def eval_nat_numeral)

lemma or_two:
  assumes "0 \<le> x" "x < 256" "0 \<le> y" "y < 256"
  shows "js_or x (js_shl y 8) = x + 256 * y" "js_or (js_shl y 8) x = x + 256 * y"
proof -
  have s: "js_shl y 8 = y * 256" using assms js_shl_mult [of y 8] by simp
  show "js_or (js_shl y 8) x = x + 256 * y"
    unfolding s using assms js_or_add [of 8 "y * 256" x] by simp
  then show "js_or x (js_shl y 8) = x + 256 * y" by (subst js_or_commute)
qed

lemma or_three:
  assumes "0 \<le> x" "x < 256" "0 \<le> y" "y < 256" "0 \<le> z" "z < 256"
  shows "js_or (js_or x (js_shl y 8)) (js_shl z 16) = x + 256 * y + 65536 * z"
    "js_or (js_or (js_shl z 16) (js_shl y 8)) x = x + 256 * y + 65536 * z"
proof -
  have s: "js_shl y 8 = y * 256" "js_shl z 16 = z * 65536"
    using assms js_shl_mult [of y 8] js_shl_mult [of z 16] by simp_all
  have "js_or (z * 65536) (x + 256 * y) = x + 256 * y + 65536 * z"
    using assms js_or_add [of 16 "z * 65536" "x + 256 * y"] by simp
  then show "js_or (js_or x (js_shl y 8)) (js_shl z 16) = x + 256 * y + 65536 * z"
    unfolding or_two(1) [OF assms(1-4)] s(2) by (subst js_or_commute)
  have h: "js_or (js_shl z 16) (js_shl y 8) = 65536 * z + 256 * y"
    unfolding s using assms js_or_add [of 16 "z * 65536" "y * 256"] by simp
  have "(2::int) ^ 8 dvd 65536 * z + 256 * y" by (rule dvdI [of _ _ "256 * z + y"]) simp
  then show "js_or (js_or (js_shl z 16) (js_shl y 8)) x = x + 256 * y + 65536 * z"
    unfolding h using assms js_or_add [of 8 "65536 * z + 256 * y" x] by simp
qed

lemma or_four:
  assumes "0 \<le> x" "x < 256" "0 \<le> y" "y < 256" "0 \<le> z" "z < 256" "0 \<le> w" "w < 256"
  shows "js_or (js_or (js_or x (js_shl y 8)) (js_shl z 16)) (js_shl w 24) =
      signed_value 4 (x + 256 * y + 65536 * z + 16777216 * w)"
    "js_or (js_or (js_or (js_shl w 24) (js_shl z 16)) (js_shl y 8)) x =
      signed_value 4 (x + 256 * y + 65536 * z + 16777216 * w)"
proof -
  define q where "q = (if w < 128 then w else w - 256)"
  have q: "- 128 \<le> q" "q < 128" using assms by (auto simp: q_def)
  have h: "js_shl w 24 = q * 16777216"
    using assms to_int32_id [of w] to_int32_wrap [of "w * 2 ^ 24"]
    by (auto simp: q_def js_shl_def push_bit_eq_mult)
  have v: "x + 256 * y + 65536 * z + 16777216 * q = signed_value 4 (x + 256 * y + 65536 * z + 16777216 * w)"
    using assms by (auto simp: q_def signed_value_def)
  have s: "js_shl y 8 = y * 256" "js_shl z 16 = z * 65536"
    using assms js_shl_mult [of y 8] js_shl_mult [of z 16] by simp_all
  have "js_or (q * 16777216) (x + 256 * y + 65536 * z) = q * 16777216 + (x + 256 * y + 65536 * z)"
    by (rule js_or_add [of 24]) (use assms q in simp_all)
  then show "js_or (js_or (js_or x (js_shl y 8)) (js_shl z 16)) (js_shl w 24) =
      signed_value 4 (x + 256 * y + 65536 * z + 16777216 * w)"
    unfolding or_three(1) [OF assms(1-6)] h v [symmetric] by (subst js_or_commute) simp
  have 1: "js_or (q * 16777216) (z * 65536) = q * 16777216 + z * 65536"
    by (rule js_or_add [of 24]) (use assms q in simp_all)
  have "(2::int) ^ 16 dvd q * 16777216 + z * 65536" by (rule dvdI [of _ _ "q * 256 + z"]) simp
  then have 2: "js_or (q * 16777216 + z * 65536) (y * 256) = q * 16777216 + z * 65536 + y * 256"
    by (rule js_or_add) (use assms q in simp_all)
  have "(2::int) ^ 8 dvd q * 16777216 + z * 65536 + y * 256" by (rule dvdI [of _ _ "q * 65536 + z * 256 + y"]) simp
  then have "js_or (q * 16777216 + z * 65536 + y * 256) x = q * 16777216 + z * 65536 + y * 256 + x"
    by (rule js_or_add) (use assms q in simp_all)
  then show "js_or (js_or (js_or (js_shl w 24) (js_shl z 16)) (js_shl y 8)) x =
      signed_value 4 (x + 256 * y + 65536 * z + 16777216 * w)"
    unfolding h s 1 2 v [symmetric] by simp
qed

lemma sign_extend16_value:
  assumes "0 \<le> u" "u < 65536"
  shows "sign_extend16 u = signed_value 2 u"
proof -
  have m: "js_and u 0x8000 = u div 32768 mod 2 * 32768"
    using assms js_and_shifted_mask [of u 1 15] by simp
  have o: "js_or u 0xFFFF0000 = u - 65536"
  proof -
    have "to_int32 0xFFFF0000 = - 65536" using to_int32_wrap [of "0xFFFF0000"] by simp
    then have "js_or u 0xFFFF0000 = js_or (- 65536) u"
      by (metis js_or_commute js_or_def to_int32_idem)
    also have "\<dots> = - 65536 + u" by (rule js_or_add [of 16]) (use assms in auto)
    finally show ?thesis by simp
  qed
  show ?thesis
  proof (cases "u < 32768")
    case True
    then show ?thesis using m assms by (simp add: sign_extend16_def signed_value_def)
  next
    case False
    then have "u div 32768 = 1" using assms int_div_pos_eq [of u 32768 1 "u - 32768"] by simp
    then show ?thesis using m o False by (simp add: sign_extend16_def signed_value_def)
  qed
qed

lemma read_fixed:
  assumes "is_bytes b"
  shows "in_buffer b off 1 \<Longrightarrow> readUInt8 b (int off) na = Inr (Some (le_value (take 1 (drop off b))))"
    "in_buffer b off 2 \<Longrightarrow> readUInt16LE b (int off) na = Inr (Some (le_value (take 2 (drop off b))))"
    "in_buffer b off 2 \<Longrightarrow> readUInt16BE b (int off) na = Inr (Some (le_value (rev (take 2 (drop off b)))))"
    "in_buffer b off 4 \<Longrightarrow> readUInt32LE b (int off) na = Inr (Some (le_value (take 4 (drop off b))))"
    "in_buffer b off 4 \<Longrightarrow> readUInt32BE b (int off) na = Inr (Some (le_value (rev (take 4 (drop off b)))))"
proof -
  note w = window_nth [OF _ assms]
  note z = w(1) [where k = 0, simplified]
  show "readUInt8 b (int off) na = Inr (Some (le_value (take 1 (drop off b))))" if i: "in_buffer b off 1"
    using z [OF i] i unfolding window_lists(1) [OF i] le_value_lists
    by (simp add: readUInt8_def asserting_ok checkOffset_ok in_buffer_def)
  show "readUInt16LE b (int off) na = Inr (Some (le_value (take 2 (drop off b))))"
    "readUInt16BE b (int off) na = Inr (Some (le_value (rev (take 2 (drop off b)))))" if i: "in_buffer b off 2"
    using z [OF i] w [OF i, of 0] w [OF i, of 1] i or_two unfolding window_lists(2) [OF i]
    by (simp_all add: readUInt16LE_def readUInt16BE_def asserting_ok checkOffset_ok in_buffer_def le_value_lists)
  show "readUInt32LE b (int off) na = Inr (Some (le_value (take 4 (drop off b))))"
    "readUInt32BE b (int off) na = Inr (Some (le_value (rev (take 4 (drop off b)))))" if i: "in_buffer b off 4"
    using z [OF i] w [OF i, of 0] w [OF i, of 1] w [OF i, of 2] w [OF i, of 3] i or_three unfolding window_lists(3) [OF i]
    by (simp_all add: readUInt32LE_def readUInt32BE_def asserting_ok checkOffset_ok in_buffer_def le_value_lists)
qed

lemma readIntLE_value:
  assumes "in_buffer b off n"
  shows "readIntLE b (int off) (int n) noAssert = Inr (Some (signed_value n (le_value (take n (drop off b)))))"
proof -
  have n: "0 < n" "off + n \<le> length b" using assms by (auto simp: in_buffer_def)
  note l = readUIntLE_value(2,3) [OF assms]
  show ?thesis using n l
    by (simp add: readIntLE_def in_buffer_int32 [OF assms] asserting_ok checkOffset_ok
      case_prod_unfold sign_adjust_def pow2_8 signed_value_def mult.commute [of 128])
qed

lemma readIntBE_value:
  assumes "in_buffer b off n"
  shows "readIntBE b (int off) (int n) noAssert = Inr (Some (signed_value n (le_value (rev (take n (drop off b))))))"
proof -
  have n: "0 < n" "off + n \<le> length b" using assms by (auto simp: in_buffer_def)
  show ?thesis using n
    by (simp add: readIntBE_def in_buffer_int32 [OF assms] asserting_ok checkOffset_ok
      readUIntBE_value(2) [OF assms] sign_adjust_def pow2_8 signed_value_def mult.commute [of 128])
qed

lemma read_signed_fixed:
  assumes "is_bytes b"
  shows "in_buffer b off 1 \<Longrightarrow> readInt8 b (int off) na = Inr (Some (signed_value 1 (le_value (take 1 (drop off b)))))"
    "in_buffer b off 2 \<Longrightarrow> readInt16LE b (int off) na = Inr (Some (signed_value 2 (le_value (take 2 (drop off b)))))"
    "in_buffer b off 2 \<Longrightarrow> readInt16BE b (int off) na = Inr (Some (signed_value 2 (le_value (rev (take 2 (drop off b))))))"
    "in_buffer b off 4 \<Longrightarrow> readInt32LE b (int off) na = Inr (Some (signed_value 4 (le_value (take 4 (drop off b)))))"
    "in_buffer b off 4 \<Longrightarrow> readInt32BE b (int off) na = Inr (Some (signed_value 4 (le_value (rev (take 4 (drop off b))))))"
proof -
  note w = window_nth [OF _ assms]
  note z = w(1) [where k = 0, simplified]
  show "readInt8 b (int off) na = Inr (Some (signed_value 1 (le_value (take 1 (drop off b)))))" if i: "in_buffer b off 1"
  proof -
    define x where "x = b ! off"
    have x: "0 \<le> x" "x < 256" using w [OF i, of 0] by (simp_all add: x_def)
    have "js_and x 0x80 = x div 128 mod 2 * 128" using x js_and_shifted_mask [of x 1 7] by simp
    moreover have "x div 128 = (if x < 128 then 0 else 1)"
      using x int_div_pos_eq [of x 128 1 "x - 128"] by simp
    ultimately show ?thesis
      using z [OF i] i x unfolding window_lists(1) [OF i] le_value_lists
      by (simp add: readInt8_def asserting_ok checkOffset_ok in_buffer_def signed_value_def flip: x_def)
  qed
  show "readInt16LE b (int off) na = Inr (Some (signed_value 2 (le_value (take 2 (drop off b)))))"
    "readInt16BE b (int off) na = Inr (Some (signed_value 2 (le_value (rev (take 2 (drop off b))))))" if i: "in_buffer b off 2"
    using z [OF i] w [OF i, of 0] w [OF i, of 1] i or_two sign_extend16_value unfolding window_lists(2) [OF i]
    by (simp_all add: readInt16LE_def readInt16BE_def asserting_ok checkOffset_ok in_buffer_def le_value_lists)
  show "readInt32LE b (int off) na = Inr (Some (signed_value 4 (le_value (take 4 (drop off b)))))"
    "readInt32BE b (int off) na = Inr (Some (signed_value 4 (le_value (rev (take 4 (drop off b))))))" if i: "in_buffer b off 4"
    using z [OF i] w [OF i, of 0] w [OF i, of 1] w [OF i, of 2] w [OF i, of 3] i or_four unfolding window_lists(3) [OF i]
    by (simp_all add: readInt32LE_def readInt32BE_def asserting_ok checkOffset_ok in_buffer_def le_value_lists)
qed

subsection \<open>Fixed-width writers\<close>

lemma js_ushr_mod:
  assumes "n + m \<le> 32"
  shows "js_ushr v n mod 2 ^ m = v div 2 ^ n mod 2 ^ m"
proof -
  have "take_bit m (drop_bit n (take_bit 32 v)) = take_bit m (drop_bit n v)"
    using assms by (intro bit_eqI) (auto simp: bit_simps)
  then show ?thesis by (simp add: js_ushr_def take_bit_eq_mod drop_bit_eq_div)
qed

lemmas js_ushr_bytes =
  js_ushr_mod [of 0 8, simplified] js_ushr_mod [of 8 8, simplified]
  js_ushr_mod [of 16 8, simplified] js_ushr_mod [of 24 8, simplified]

lemma le_bytes_lists:
  "le_bytes (Suc 0) v = [v mod 256]"
  "le_bytes 2 v = [v mod 256, v div 256 mod 256]"
  "le_bytes 4 v = [v mod 256, v div 256 mod 256, v div 65536 mod 256, v div 16777216 mod 256]"
  by (simp_all add: le_bytes_def upt_rec)

lemma put_two:
  assumes "off + 2 \<le> length b"
  shows "put ta (put ta b (int off) x) (int off + 1) y = overwrite b off [stored ta x, stored ta y]"
  using assms put_overwrite_back [of off "[stored ta x]" b ta y] by (simp add: put_overwrite_start)

lemma put_four:
  assumes "off + 4 \<le> length b"
  shows "put ta (put ta (put ta (put ta b (int off) x) (int off + 1) y) (int off + 2) z) (int off + 3) w =
    overwrite b off [stored ta x, stored ta y, stored ta z, stored ta w]"
  using assms put_overwrite_back [of off "[stored ta x, stored ta y]" b ta z]
    put_overwrite_back [of off "[stored ta x, stored ta y, stored ta z]" b ta w]
  by (simp add: put_two)

lemma put_swap: "i \<noteq> j \<Longrightarrow> put ta (put ta b i v) j w = put ta (put ta b j w) i v"
  by (auto simp: put_def list_update_swap)

lemma objectWriteUInt16_bytes:
  assumes "off + 2 \<le> length b" "- 0x8000 \<le> v" "v \<le> 0xffff"
  shows "objectWriteUInt16 b v (int off) le = overwrite b off (if le then le_bytes 2 v else rev (le_bytes 2 v))"
proof -
  define u where "u = (if v < 0 then 0xffff + v + 1 else v)"
  have u: "0 \<le> u" "u < 65536" using assms by (auto simp: u_def)
  have m: "u mod 256 = v mod 256 \<and> u div 256 mod 256 = v div 256 mod 256"
  proof (cases "v < 0")
    case True
    then have u: "u = v + 256 * 256" by (simp add: u_def)
    then have m: "u mod 256 = v mod 256" by (simp only: mod_mult_self1)
    have "u div 256 = 256 + v div 256" unfolding u by (rule div_mult_self1) simp
    then show ?thesis using m by simp
  qed (simp_all add: u_def)
  have k: "js_ushr (js_and u (js_shl 0xff 0)) 0 = v mod 256" "js_ushr (js_and u (js_shl 0xff 8)) 8 = v div 256 mod 256"
  proof -
    have "js_shl 0xff 0 = 255" "js_shl 0xff 8 = 65280" by (simp_all add: js_shl_mult)
    moreover have "js_and u 255 = u mod 256" by (rule js_and_byte)
    moreover have "js_and u 65280 = u div 256 mod 256 * 256" using u js_and_shifted_mask [of u 8 8] by simp
    ultimately show "js_ushr (js_and u (js_shl 0xff 0)) 0 = v mod 256" "js_ushr (js_and u (js_shl 0xff 8)) 8 = v div 256 mod 256"
      by (simp_all add: m js_ushr_div)
  qed
  have j: "min (int (length b) - int off) 2 = 2" using assms by simp
  have "objectWriteUInt16_loop b u (int off) le 0 2 =
    put False (put False b (int off) (js_ushr (js_and u (js_shl 0xff (if le then 0 else 8))) (if le then 0 else 8)))
      (int off + 1) (js_ushr (js_and u (js_shl 0xff (if le then 8 else 0))) (if le then 8 else 0))"
    by (simp add: objectWriteUInt16_loop.simps [of _ _ _ _ 0] objectWriteUInt16_loop.simps [of _ _ _ _ 1]
      objectWriteUInt16_loop.simps [of _ _ _ _ 2] Let_def)
  then show ?thesis
    using k by (simp add: objectWriteUInt16_def j put_two [OF assms(1)] le_bytes_lists stored_def flip: u_def)
qed

lemma objectWriteUInt32_bytes:
  assumes "off + 4 \<le> length b"
  shows "objectWriteUInt32 b v (int off) le = overwrite b off (if le then le_bytes 4 v else rev (le_bytes 4 v))"
proof -
  define u where "u = (if v < 0 then 0xffffffff + v + 1 else v)"
  have s: "js_ushr u n = js_ushr v n" for n
  proof -
    have "take_bit 32 u = take_bit 32 v" by (simp add: u_def take_bit_eq_mod)
    then show ?thesis by (simp add: js_ushr_def)
  qed
  have j: "min (int (length b) - int off) 4 = 4" using assms by simp
  have "objectWriteUInt32_loop b u (int off) le 0 4 =
    put False (put False (put False (put False b (int off) (js_and (js_ushr u (if le then 0 else 24)) 0xff))
      (int off + 1) (js_and (js_ushr u (if le then 8 else 16)) 0xff))
      (int off + 2) (js_and (js_ushr u (if le then 16 else 8)) 0xff))
      (int off + 3) (js_and (js_ushr u (if le then 24 else 0)) 0xff)"
    by (simp add: objectWriteUInt32_loop.simps [of _ _ _ _ 0] objectWriteUInt32_loop.simps [of _ _ _ _ 1]
      objectWriteUInt32_loop.simps [of _ _ _ _ 2] objectWriteUInt32_loop.simps [of _ _ _ _ 3] objectWriteUInt32_loop.simps [of _ _ _ _ 4])
  then show ?thesis
    by (simp add: objectWriteUInt32_def j put_four [OF assms(1)] le_bytes_lists js_and_byte s js_ushr_bytes stored_def flip: u_def)
qed

lemma write_fixed:
  "in_buffer b off 1 \<Longrightarrow> 0 \<le> v \<Longrightarrow> v \<le> 0xff \<Longrightarrow>
     writeUInt8 ta b v (int off) na = Inr (overwrite b off (le_bytes 1 v), int off + 1)"
  "in_buffer b off 2 \<Longrightarrow> 0 \<le> v \<Longrightarrow> v \<le> 0xffff \<Longrightarrow>
     writeUInt16LE ta b v (int off) na = Inr (overwrite b off (le_bytes 2 v), int off + 2)"
  "in_buffer b off 2 \<Longrightarrow> 0 \<le> v \<Longrightarrow> v \<le> 0xffff \<Longrightarrow>
     writeUInt16BE ta b v (int off) na = Inr (overwrite b off (rev (le_bytes 2 v)), int off + 2)"
  "in_buffer b off 4 \<Longrightarrow> 0 \<le> v \<Longrightarrow> v \<le> 0xffffffff \<Longrightarrow>
     writeUInt32LE ta b v (int off) na = Inr (overwrite b off (le_bytes 4 v), int off + 4)"
  "in_buffer b off 4 \<Longrightarrow> 0 \<le> v \<Longrightarrow> v \<le> 0xffffffff \<Longrightarrow>
     writeUInt32BE ta b v (int off) na = Inr (overwrite b off (rev (le_bytes 4 v)), int off + 4)"
proof -
  note i32 = in_buffer_int32(1)
  have n: "off + n \<le> length b" if "in_buffer b off n" for n using that by (simp add: in_buffer_def)
  show "writeUInt8 ta b v (int off) na = Inr (overwrite b off (le_bytes 1 v), int off + 1)"
    if i: "in_buffer b off 1" and v: "0 \<le> v" "v \<le> 0xff"
    using i32 [OF i] n [OF i] v
    by (simp add: writeUInt8_def Let_def asserting_ok checkInt_ok put_overwrite_start le_bytes_lists stored_def)
  show "writeUInt16LE ta b v (int off) na = Inr (overwrite b off (le_bytes 2 v), int off + 2)"
    if i: "in_buffer b off 2" and v: "0 \<le> v" "v \<le> 0xffff"
    using i32 [OF i] n [OF i] v objectWriteUInt16_bytes [of off b v True]
    by (auto simp: writeUInt16LE_def Let_def asserting_ok checkInt_ok put_two le_bytes_lists stored_def js_ushr_bytes)
  show "writeUInt16BE ta b v (int off) na = Inr (overwrite b off (rev (le_bytes 2 v)), int off + 2)"
    if i: "in_buffer b off 2" and v: "0 \<le> v" "v \<le> 0xffff"
    using i32 [OF i] n [OF i] v objectWriteUInt16_bytes [of off b v False]
    by (auto simp: writeUInt16BE_def Let_def asserting_ok checkInt_ok put_two le_bytes_lists stored_def js_ushr_bytes)
  show "writeUInt32LE ta b v (int off) na = Inr (overwrite b off (le_bytes 4 v), int off + 4)"
    if i: "in_buffer b off 4" and v: "0 \<le> v" "v \<le> 0xffffffff"
  proof -
    have s: "put True (put True (put True (put True b (int off + 3) d) (int off + 2) c) (int off + 1) a) (int off) e =
      put True (put True (put True (put True b (int off) e) (int off + 1) a) (int off + 2) c) (int off + 3) d" for a c d e
    proof -
      have "put True (put True (put True (put True b (int off + 3) d) (int off + 2) c) (int off + 1) a) (int off) e =
        put True (put True (put True (put True b (int off + 3) d) (int off + 2) c) (int off) e) (int off + 1) a"
        by (rule put_swap) simp
      also have "\<dots> = put True (put True (put True (put True b (int off + 3) d) (int off) e) (int off + 2) c) (int off + 1) a"
        by (subst put_swap [of "int off + 2"]) simp_all
      also have "\<dots> = put True (put True (put True (put True b (int off) e) (int off + 3) d) (int off + 2) c) (int off + 1) a"
        by (subst put_swap [of "int off + 3"]) simp_all
      also have "\<dots> = put True (put True (put True (put True b (int off) e) (int off + 3) d) (int off + 1) a) (int off + 2) c"
        by (subst put_swap [of "int off + 2"]) simp_all
      also have "\<dots> = put True (put True (put True (put True b (int off) e) (int off + 1) a) (int off + 3) d) (int off + 2) c"
        by (subst put_swap [of "int off + 3"]) simp_all
      finally show ?thesis by (subst (asm) put_swap [of "int off + 3"]) simp_all
    qed
    show ?thesis
      using i32 [OF i] n [OF i] v objectWriteUInt32_bytes [of off b v True]
      by (auto simp: writeUInt32LE_def Let_def asserting_ok checkInt_ok s put_four le_bytes_lists stored_def js_ushr_bytes)
  qed
  show "writeUInt32BE ta b v (int off) na = Inr (overwrite b off (rev (le_bytes 4 v)), int off + 4)"
    if i: "in_buffer b off 4" and v: "0 \<le> v" "v \<le> 0xffffffff"
    using i32 [OF i] n [OF i] v objectWriteUInt32_bytes [of off b v False]
    by (auto simp: writeUInt32BE_def Let_def asserting_ok checkInt_ok put_four le_bytes_lists stored_def js_ushr_bytes)
qed

lemma write_signed_fixed:
  "in_buffer b off 1 \<Longrightarrow> - 0x80 \<le> v \<Longrightarrow> v \<le> 0x7f \<Longrightarrow>
     writeInt8 ta b v (int off) na = Inr (overwrite b off (le_bytes 1 v), int off + 1)"
  "in_buffer b off 2 \<Longrightarrow> - 0x8000 \<le> v \<Longrightarrow> v \<le> 0x7fff \<Longrightarrow>
     writeInt16LE ta b v (int off) na = Inr (overwrite b off (le_bytes 2 v), int off + 2)"
  "in_buffer b off 2 \<Longrightarrow> - 0x8000 \<le> v \<Longrightarrow> v \<le> 0x7fff \<Longrightarrow>
     writeInt16BE ta b v (int off) na = Inr (overwrite b off (rev (le_bytes 2 v)), int off + 2)"
  "in_buffer b off 4 \<Longrightarrow> - 0x80000000 \<le> v \<Longrightarrow> v \<le> 0x7fffffff \<Longrightarrow>
     writeInt32LE ta b v (int off) na = Inr (overwrite b off (le_bytes 4 v), int off + 4)"
  "in_buffer b off 4 \<Longrightarrow> - 0x80000000 \<le> v \<Longrightarrow> v \<le> 0x7fffffff \<Longrightarrow>
     writeInt32BE ta b v (int off) na = Inr (overwrite b off (rev (le_bytes 4 v)), int off + 4)"
proof -
  note i32 = in_buffer_int32(1)
  have n: "off + n \<le> length b" if "in_buffer b off n" for n using that by (simp add: in_buffer_def)
  show "writeInt8 ta b v (int off) na = Inr (overwrite b off (le_bytes 1 v), int off + 1)"
    if i: "in_buffer b off 1" and v: "- 0x80 \<le> v" "v \<le> 0x7f"
  proof -
    have "stored ta (if v < 0 then 0xff + v + 1 else v) = v mod 256"
      using v mod_pos_pos_trivial [of "v + 256" 256] by (auto simp: stored_def)
    then show ?thesis using i32 [OF i] n [OF i] v
      by (simp add: writeInt8_def Let_def asserting_ok checkInt_ok put_overwrite_start le_bytes_lists)
  qed
  show "writeInt16LE ta b v (int off) na = Inr (overwrite b off (le_bytes 2 v), int off + 2)"
    if i: "in_buffer b off 2" and v: "- 0x8000 \<le> v" "v \<le> 0x7fff"
    using i32 [OF i] n [OF i] v objectWriteUInt16_bytes [of off b v True]
    by (auto simp: writeInt16LE_def Let_def asserting_ok checkInt_ok put_two le_bytes_lists stored_def js_ushr_bytes)
  show "writeInt16BE ta b v (int off) na = Inr (overwrite b off (rev (le_bytes 2 v)), int off + 2)"
    if i: "in_buffer b off 2" and v: "- 0x8000 \<le> v" "v \<le> 0x7fff"
    using i32 [OF i] n [OF i] v objectWriteUInt16_bytes [of off b v False]
    by (auto simp: writeInt16BE_def Let_def asserting_ok checkInt_ok put_two le_bytes_lists stored_def js_ushr_bytes)
  show "writeInt32LE ta b v (int off) na = Inr (overwrite b off (le_bytes 4 v), int off + 4)"
    if i: "in_buffer b off 4" and v: "- 0x80000000 \<le> v" "v \<le> 0x7fffffff"
    using i32 [OF i] n [OF i] v objectWriteUInt32_bytes [of off b v True]
    by (auto simp: writeInt32LE_def Let_def asserting_ok checkInt_ok put_four le_bytes_lists stored_def js_ushr_bytes)
  show "writeInt32BE ta b v (int off) na = Inr (overwrite b off (rev (le_bytes 4 v)), int off + 4)"
    if i: "in_buffer b off 4" and v: "- 0x80000000 \<le> v" "v \<le> 0x7fffffff"
  proof -
    define u where "u = (if v < 0 then 0xffffffff + v + 1 else v)"
    have s: "js_ushr u k = js_ushr v k" for k
    proof -
      have "take_bit 32 u = take_bit 32 v" by (simp add: u_def take_bit_eq_mod)
      then show ?thesis by (simp add: js_ushr_def)
    qed
    have m: "u mod 256 = v mod 256"
    proof (cases "v < 0")
      case True
      then have "u = v + 16777216 * 256" by (simp add: u_def)
      then show ?thesis by (simp only: mod_mult_self1)
    qed (simp add: u_def)
    have l: "le_bytes 4 u = le_bytes 4 v"
      unfolding le_bytes_lists js_ushr_bytes(2-4) [symmetric] s m by (rule refl)
    show ?thesis
      using i32 [OF i] n [OF i] v objectWriteUInt32_bytes [of off b u False] l
      by (auto simp: writeInt32BE_def Let_def asserting_ok checkInt_ok put_four le_bytes_lists stored_def js_ushr_bytes s m
        u_def [symmetric])
  qed
qed

subsection \<open>The generic signed writers\<close>

lemma int_byte_mod: "int_byte v mul sub = (trunc_div v mul - sub) mod 256"
proof -
  have "take_bit 8 (to_int32 (trunc_div v mul)) = take_bit 8 (trunc_div v mul)"
    by (rule take_bit_to_int32) simp
  then have t: "to_int32 (trunc_div v mul) mod 256 = trunc_div v mul mod 256"
    by (simp add: take_bit_eq_mod)
  have "(to_int32 (trunc_div v mul) - sub) mod 256 = (to_int32 (trunc_div v mul) mod 256 - sub) mod 256"
    by (rule mod_diff_left_eq [symmetric])
  then show ?thesis
    unfolding t by (simp add: int_byte_def js_and_byte js_shr_def mod_diff_left_eq)
qed

text \<open>
  The values the borrow of 1 in every byte but the first is right for: the others are the
  negative multiples of 256, written in two bytes or more.
\<close>

definition borrow_ok :: "nat \<Rightarrow> int \<Rightarrow> bool" where
  "borrow_ok n v \<longleftrightarrow> n \<le> 1 \<or> 0 \<le> v \<or> v mod 256 \<noteq> 0"

lemma trunc_div_borrow:
  assumes "0 \<le> v \<or> v mod m \<noteq> 0" "0 < m"
  shows "trunc_div v m - (if v < 0 then 1 else 0) = v div m"
  using assms div_minus_minus [of v m] zdiv_zminus1_eq_if [of m v]
  by (auto simp: trunc_div_def div_minus_right zdiv_zminus1_eq_if)

lemma int_byte_borrow:
  assumes "0 \<le> v \<or> v mod 256 \<noteq> 0" "0 < k"
  shows "int_byte v (256 ^ k) (if v < 0 then 1 else 0) = v div 256 ^ k mod 256"
proof -
  have "v mod 256 ^ k mod 256 = v mod 256" using assms(2) by (intro mod_mod_cancel) (simp add: dvd_power)
  then have "0 \<le> v \<or> v mod 256 ^ k \<noteq> 0" using assms(1) by force
  then show ?thesis unfolding int_byte_mod by (simp add: trunc_div_borrow)
qed

definition int_bytes :: "nat \<Rightarrow> int \<Rightarrow> int list" where
  "int_bytes n v = v mod 256 # map (\<lambda>k. int_byte v (256 ^ k) (if v < 0 then 1 else 0)) [1..<n]"

lemma length_int_bytes: "0 < n \<Longrightarrow> length (int_bytes n v) = n"
  by (simp add: int_bytes_def)

lemma int_bytes_le_bytes: "0 < n \<Longrightarrow> borrow_ok n v \<Longrightarrow> int_bytes n v = le_bytes n v"
  using int_byte_borrow [of v] by (auto simp: int_bytes_def le_bytes_def borrow_ok_def upt_conv_Cons [of 0])

lemma pow2_limit: "0 < n \<Longrightarrow> pow2 (8 * int n - 1) = 128 * 256 ^ (n - 1)"
proof -
  assume "0 < n"
  then have "nat (8 * int n - 1) = 7 + 8 * (n - 1)" by auto
  then have "(2::int) ^ nat (8 * int n - 1) = 2 ^ 7 * (2 ^ 8) ^ (n - 1)" by (simp only: power_add power_mult)
  then show ?thesis using \<open>0 < n\<close> by (simp add: pow2_def)
qed

definition in_range :: "nat \<Rightarrow> int \<Rightarrow> bool" where
  "in_range n v \<longleftrightarrow> - (128 * 256 ^ (n - 1)) \<le> v \<and> v < 128 * 256 ^ (n - 1)"

lemma writeIntLE_bytes:
  assumes "in_buffer b off n" "in_range n v"
  shows "writeIntLE ta b v (int off) (int n) noAssert =
    Inr (overwrite b off (int_bytes n v), int off + int n)"
proof -
  have n: "0 < n" "off + n \<le> length b" "off < length b" using assms(1) by (auto simp: in_buffer_def)
  have "writeIntLE_loop ta (put ta b (int off) (js_and v 0xFF)) v (if v < 0 then 1 else 0) (int off) (int n) 0 1 =
      overwrite b off (int_bytes n v)"
    using fold_put_up [of "[v mod 256]" 1 n off b ta "\<lambda>k. int_byte v (256 ^ k) (if v < 0 then 1 else 0)"] n
    by (simp add: writeIntLE_loop_fold put_overwrite_start js_and_byte int_bytes_def int_byte_mod)
  then show ?thesis
    using n assms(2) by (simp add: writeIntLE_def in_buffer_int32 [OF assms(1)] asserting_ok
      checkInt_ok pow2_limit in_range_def)
qed

lemma writeIntBE_bytes:
  assumes "in_buffer b off n" "in_range n v"
  shows "writeIntBE ta b v (int off) (int n) noAssert =
    Inr (overwrite b off (rev (int_bytes n v)), int off + int n)"
proof -
  have n: "0 < n" "off + n \<le> length b" "off + (n - 1) < length b" using assms(1) by (auto simp: in_buffer_def)
  have i: "int off + (int n - 1) = int (off + (n - 1))" "Suc (off + (n - 1)) = off + n" using n by auto
  have s: "put ta b (int off + (int n - 1)) (v mod 256) = overwrite b (off + n - 1) [v mod 256]"
    unfolding i using put_overwrite_start [OF n(3)] n(1) by simp
  have "writeIntBE_loop ta (put ta b (int off + (int n - 1)) (js_and v 0xFF)) v (if v < 0 then 1 else 0)
      (int off) (int n - 1) 1 = overwrite b off (rev (int_bytes n v))"
    using fold_put_down [of "[v mod 256]" 1 n off b ta "\<lambda>k. int_byte v (256 ^ k) (if v < 0 then 1 else 0)"] n
    by (simp add: writeIntBE_loop_fold [where k = 0 and n = n] js_and_byte s int_bytes_def int_byte_mod)
  then show ?thesis
    using n assms(2) by (simp add: writeIntBE_def in_buffer_int32 [OF assms(1)] asserting_ok
      checkInt_ok pow2_limit in_range_def)
qed

subsection \<open>Values and their bytes\<close>

lemma le_value_Cons: "le_value (x # xs) = x + 256 * le_value xs"
  unfolding le_value_def length_Cons sum.lessThan_Suc_shift
  by (simp add: sum_distrib_left mult_ac)

lemma le_bytes_Suc: "le_bytes (Suc n) v = v mod 256 # le_bytes n (v div 256)"
  by (simp add: le_bytes_def upt_conv_Cons [of 0] map_Suc_upt [symmetric] del: upt_Suc map_Suc_upt)
     (simp add: zdiv_zmult2_eq)

lemma le_bytes_le_value: "is_bytes bs \<Longrightarrow> le_bytes (length bs) (le_value bs) = bs"
proof (induction bs)
  case (Cons x xs)
  then have "(x + 256 * le_value xs) mod 256 = x" "(x + 256 * le_value xs) div 256 = le_value xs"
    using div_mod_unique by auto
  then show ?case using Cons by (simp add: le_bytes_Suc le_value_Cons)
qed (simp add: le_bytes_def)

lemma is_bytes_le_bytes: "is_bytes (le_bytes n v)"
  by (auto simp: is_bytes_def le_bytes_def)

lemma is_bytes_int_bytes: "is_bytes (int_bytes n v)"
  by (auto simp: is_bytes_def int_bytes_def int_byte_mod)

lemma signed_value_mod:
  assumes "0 < n" "in_range n v"
  shows "signed_value n (v mod 256 ^ n) = v"
proof -
  have p: "(256::int) ^ n = 2 * (128 * 256 ^ (n - 1))" using assms(1) by (cases n) simp_all
  define h :: int where "h = 128 * 256 ^ (n - 1)"
  have v: "- h \<le> v" "v < h" using assms(2) by (simp_all add: in_range_def h_def)
  have "v mod (2 * h) = (if v < 0 then v + 2 * h else v)"
    using v mod_pos_pos_trivial [of "v + 2 * h" "2 * h"] by auto
  then show ?thesis using v unfolding signed_value_def p h_def [symmetric] by auto
qed

lemma signed_value_inj:
  assumes "0 \<le> x" "x < 256 ^ n" "0 \<le> y" "y < 256 ^ n" "signed_value n x = signed_value n y"
  shows "x = y"
  using assms by (auto simp: signed_value_def split: if_splits)

lemma le_value_bound: "is_bytes bs \<Longrightarrow> 0 \<le> le_value bs \<and> le_value bs < 256 ^ length bs"
  using le_value_le_bytes [of "length bs" "le_value bs"] le_bytes_le_value [of bs]
  by (metis pos_mod_bound pos_mod_sign zero_less_numeral zero_less_power)

lemma int_bytes_value_iff:
  assumes "0 < n" "in_range n v"
  shows "signed_value n (le_value (int_bytes n v)) = v \<longleftrightarrow> borrow_ok n v"
proof
  assume "borrow_ok n v"
  then show "signed_value n (le_value (int_bytes n v)) = v"
    by (simp add: int_bytes_le_bytes assms le_value_le_bytes signed_value_mod)
next
  let ?bs = "int_bytes n v"
  assume "signed_value n (le_value ?bs) = v"
  then have "signed_value n (le_value ?bs) = signed_value n (v mod 256 ^ n)"
    using assms by (simp add: signed_value_mod)
  then have "le_value ?bs = v mod 256 ^ n"
    using le_value_bound [OF is_bytes_int_bytes [of n v]] signed_value_inj [of "le_value ?bs" n "v mod 256 ^ n"]
    by (simp add: length_int_bytes [OF assms(1)])
  then have e: "le_value ?bs = le_value (le_bytes n v)" by (simp only: le_value_le_bytes)
  have "?bs = le_bytes (length ?bs) (le_value ?bs)" by (rule le_bytes_le_value [OF is_bytes_int_bytes, symmetric])
  also have "\<dots> = le_bytes (length (le_bytes n v)) (le_value (le_bytes n v))"
    by (simp only: e length_int_bytes [OF assms(1)] length_le_bytes)
  also have "\<dots> = le_bytes n v" by (rule le_bytes_le_value [OF is_bytes_le_bytes])
  finally have bs: "?bs = le_bytes n v" .
  show "borrow_ok n v"
  proof (rule ccontr)
    assume "\<not> borrow_ok n v"
    then have v: "1 < n" "v < 0" "v mod 256 = 0" by (auto simp: borrow_ok_def)
    then have "trunc_div v 256 = v div 256" by (simp add: trunc_div_def zdiv_zminus1_eq_if)
    then have "?bs ! 1 = (v div 256 - 1) mod 256" using v by (simp add: int_bytes_def int_byte_mod)
    moreover have "le_bytes n v ! 1 = v div 256 mod 256" using v by (simp add: le_bytes_def)
    ultimately have "(v div 256 - 1) mod 256 = v div 256 mod 256" by (simp add: bs)
    then have "256 dvd (1::int)" by (simp add: mod_eq_dvd_iff)
    then show False by simp
  qed
qed

lemma is_bytes_overwrite: "is_bytes b \<Longrightarrow> is_bytes bs \<Longrightarrow> is_bytes (overwrite b off bs)"
  by (auto simp: overwrite_def)

lemma overwrite_outside:
  assumes "off + length bs \<le> length b" "i < off \<or> off + length bs \<le> i"
  shows "overwrite b off bs ! i = b ! i"
  using assms by (auto simp: overwrite_def nth_append)

lemma overwrite_twice:
  assumes "off + length bs \<le> length b" "length cs = length bs"
  shows "overwrite (overwrite b off bs) off cs = overwrite b off cs"
  using assms by (simp add: overwrite_def)

section \<open>The contract of an accessor pair\<close>

text \<open>
  What a reader and a writer of the same width promise: the writer replaces exactly the
  window at the offset by the encoding of the value, the reader decodes that window. The
  values \<open>valid\<close> holds of are those the pair stores faithfully.
\<close>

locale accessor_pair =
  fixes width :: nat
    and enc :: "int \<Rightarrow> int list"
    and dec :: "int list \<Rightarrow> int"
    and valid :: "int \<Rightarrow> bool"
    and wr :: "int list \<Rightarrow> int \<Rightarrow> int \<Rightarrow> (int list \<times> int) res"
    and rd :: "int list \<Rightarrow> int \<Rightarrow> int option res"
  assumes length_enc: "valid v \<Longrightarrow> length (enc v) = width"
    and bytes_enc: "valid v \<Longrightarrow> is_bytes (enc v)"
    and write_window: "in_buffer b off width \<Longrightarrow> valid v \<Longrightarrow>
      wr b v (int off) = Inr (overwrite b off (enc v), int off + int width)"
    and read_window: "in_buffer b off width \<Longrightarrow> is_bytes b \<Longrightarrow>
      rd b (int off) = Inr (Some (dec (take width (drop off b))))"
    and dec_enc: "valid v \<Longrightarrow> dec (enc v) = v"
begin

lemma roundtrip:
  assumes "in_buffer b off width" "is_bytes b" "valid v"
  shows "\<exists>b'. wr b v (int off) = Inr (b', int off + int width) \<and> is_bytes b' \<and>
    rd b' (int off) = Inr (Some v) \<and> length b' = length b \<and>
    (\<forall>i. i < off \<or> off + width \<le> i \<longrightarrow> b' ! i = b ! i)"
proof (intro exI conjI)
  let ?b = "overwrite b off (enc v)"
  have le: "off + length (enc v) \<le> length b"
    using assms by (simp add: in_buffer_def length_enc)
  show "wr b v (int off) = Inr (?b, int off + int width)" by (rule write_window) fact+
  show ok: "is_bytes ?b" by (rule is_bytes_overwrite) (use assms bytes_enc in auto)
  have "rd ?b (int off) = Inr (Some (dec (take width (drop off ?b))))"
    by (rule read_window) (use assms ok length_enc in \<open>auto intro: in_buffer_overwrite\<close>)
  then show "rd ?b (int off) = Inr (Some v)"
    using take_drop_overwrite [OF le] length_enc [OF assms(3)] dec_enc [OF assms(3)] by simp
  show "length ?b = length b" using le by simp
  show "\<forall>i. i < off \<or> off + width \<le> i \<longrightarrow> ?b ! i = b ! i"
    using overwrite_outside [OF le] length_enc [OF assms(3)] by simp
qed

lemma read_elsewhere:
  assumes "in_buffer b off width" "in_buffer b off' width" "is_bytes b" "valid v"
    "off' + width \<le> off \<or> off + width \<le> off'"
    "wr b v (int off) = Inr (b', p)"
  shows "rd b' (int off') = rd b (int off')"
proof -
  have le: "off + length (enc v) \<le> length b"
    using assms by (simp add: in_buffer_def length_enc)
  have b': "b' = overwrite b off (enc v)" using assms write_window by simp
  have i: "in_buffer b' off' width" using assms(2) le by (simp add: b' in_buffer_def)
  have "take width (drop off' b') = take width (drop off' b)"
    using overwrite_outside [OF le] length_enc [OF assms(4)] assms(2,5) le
    by (intro nth_equalityI) (auto simp: b' in_buffer_def)
  moreover have "is_bytes b'" unfolding b' by (rule is_bytes_overwrite) (use assms bytes_enc in auto)
  ultimately show ?thesis using assms(2,3) i by (simp add: read_window)
qed

lemma last_write_wins:
  assumes "in_buffer b off width" "valid v" "valid w"
    "wr b v (int off) = Inr (b', p)"
  shows "wr b' w (int off) = wr b w (int off)"
proof -
  have b': "b' = overwrite b off (enc v)" using assms write_window by simp
  have "overwrite b' off (enc w) = overwrite b off (enc w)"
    unfolding b' by (rule overwrite_twice) (use assms in \<open>auto simp: length_enc in_buffer_def\<close>)
  moreover have "in_buffer b' off width" unfolding b' using assms length_enc by (auto intro: in_buffer_overwrite)
  ultimately show ?thesis using assms(1,3) by (simp add: write_window)
qed

end


text \<open>Every pair of the code, little- and big-endian, in both store modes, with and without assertions.\<close>

definition uint_ok :: "nat \<Rightarrow> int \<Rightarrow> bool" where
  "uint_ok n v \<longleftrightarrow> 0 \<le> v \<and> v < 256 ^ n"

definition sint_ok :: "nat \<Rightarrow> int \<Rightarrow> bool" where
  "sint_ok n v \<longleftrightarrow> 0 < n \<and> in_range n v"

lemma sint_dec: "sint_ok n v \<Longrightarrow> signed_value n (le_value (le_bytes n v)) = v"
  by (simp add: sint_ok_def le_value_le_bytes signed_value_mod)

lemma uint_dec: "uint_ok n v \<Longrightarrow> le_value (le_bytes n v) = v"
  by (simp add: uint_ok_def le_value_le_bytes)

lemma is_bytes_rev [simp]: "is_bytes (rev b) = is_bytes b"
  by (simp add: is_bytes_def)

text \<open>Two's complement codings of a width, from the windows an accessor reads and writes.\<close>

lemma unsigned_pair:
  assumes "\<And>b off v. in_buffer b off n \<Longrightarrow> uint_ok n v \<Longrightarrow>
      wr b v (int off) = Inr (overwrite b off (f (le_bytes n v)), int off + int n)"
    and "\<And>b off. in_buffer b off n \<Longrightarrow> is_bytes b \<Longrightarrow>
      rd b (int off) = Inr (Some (le_value (f (take n (drop off b)))))"
    and "\<And>xs. length (f xs) = length xs" "\<And>xs. is_bytes (f xs) \<longleftrightarrow> is_bytes xs" "\<And>xs. f (f xs) = xs"
  shows "accessor_pair n (\<lambda>v. f (le_bytes n v)) (\<lambda>w. le_value (f w)) (uint_ok n) wr rd"
  by unfold_locales (use assms uint_dec in \<open>auto simp: is_bytes_le_bytes\<close>)

lemma signed_pair:
  assumes "\<And>b off v. in_buffer b off n \<Longrightarrow> sint_ok n v \<Longrightarrow> ok v \<Longrightarrow>
      wr b v (int off) = Inr (overwrite b off (f (le_bytes n v)), int off + int n)"
    and "\<And>b off. in_buffer b off n \<Longrightarrow> is_bytes b \<Longrightarrow>
      rd b (int off) = Inr (Some (signed_value n (le_value (f (take n (drop off b))))))"
    and "\<And>xs. length (f xs) = length xs" "\<And>xs. is_bytes (f xs) \<longleftrightarrow> is_bytes xs" "\<And>xs. f (f xs) = xs"
  shows "accessor_pair n (\<lambda>v. f (le_bytes n v)) (\<lambda>w. signed_value n (le_value (f w))) (\<lambda>v. sint_ok n v \<and> ok v) wr rd"
  by unfold_locales (use assms sint_dec in \<open>auto simp: is_bytes_le_bytes\<close>)

interpretation uint_le: accessor_pair n "\<lambda>v. le_bytes n v" "\<lambda>w. le_value w" "uint_ok n"
    "\<lambda>b v off. writeUIntLE ta b v off (int n) na" "\<lambda>b off. readUIntLE b off (int n) na'" for n ta na na'
  by (rule unsigned_pair) (simp_all add: writeUIntLE_bytes readUIntLE_value uint_ok_def)

interpretation uint_be: accessor_pair n "\<lambda>v. rev (le_bytes n v)" "\<lambda>w. le_value (rev w)" "uint_ok n"
    "\<lambda>b v off. writeUIntBE ta b v off (int n) na" "\<lambda>b off. readUIntBE b off (int n) na'" for n ta na na'
  by (rule unsigned_pair) (simp_all add: writeUIntBE_bytes readUIntBE_value uint_ok_def)

interpretation int_le: accessor_pair n "\<lambda>v. le_bytes n v" "\<lambda>w. signed_value n (le_value w)"
    "\<lambda>v. sint_ok n v \<and> borrow_ok n v" "\<lambda>b v off. writeIntLE ta b v off (int n) na" "\<lambda>b off. readIntLE b off (int n) na'" for n ta na na'
  by (rule signed_pair) (simp_all add: writeIntLE_bytes readIntLE_value sint_ok_def int_bytes_le_bytes)

interpretation int_be: accessor_pair n "\<lambda>v. rev (le_bytes n v)" "\<lambda>w. signed_value n (le_value (rev w))"
    "\<lambda>v. sint_ok n v \<and> borrow_ok n v" "\<lambda>b v off. writeIntBE ta b v off (int n) na" "\<lambda>b off. readIntBE b off (int n) na'" for n ta na na'
  by (rule signed_pair) (simp_all add: writeIntBE_bytes readIntBE_value sint_ok_def int_bytes_le_bytes)

text \<open>
  The fixed-width pairs have the codings of the generic pairs of their width, for every
  signed value: nothing is borrowed.
\<close>

lemmas pair_facts = write_fixed read_fixed write_signed_fixed read_signed_fixed uint_ok_def sint_ok_def in_range_def

interpretation u8: accessor_pair 1 "\<lambda>v. le_bytes 1 v" "\<lambda>w. le_value w" "uint_ok 1"
    "\<lambda>b v off. writeUInt8 ta b v off na" "\<lambda>b off. readUInt8 b off na'" for ta na na'
  by (rule unsigned_pair) (simp_all add: pair_facts del: One_nat_def)

interpretation s8: accessor_pair 1 "\<lambda>v. le_bytes 1 v" "\<lambda>w. signed_value 1 (le_value w)"
    "\<lambda>v. sint_ok 1 v \<and> (\<lambda>_. True) v" "\<lambda>b v off. writeInt8 ta b v off na" "\<lambda>b off. readInt8 b off na'" for ta na na'
  by (rule signed_pair) (simp_all add: pair_facts del: One_nat_def)

interpretation u16LE: accessor_pair 2 "\<lambda>v. le_bytes 2 v" "\<lambda>w. le_value w" "uint_ok 2"
    "\<lambda>b v off. writeUInt16LE ta b v off na" "\<lambda>b off. readUInt16LE b off na'" for ta na na'
  by (rule unsigned_pair) (simp_all add: pair_facts)

interpretation s16LE: accessor_pair 2 "\<lambda>v. le_bytes 2 v" "\<lambda>w. signed_value 2 (le_value w)"
    "\<lambda>v. sint_ok 2 v \<and> (\<lambda>_. True) v" "\<lambda>b v off. writeInt16LE ta b v off na" "\<lambda>b off. readInt16LE b off na'" for ta na na'
  by (rule signed_pair) (simp_all add: pair_facts)

interpretation u16BE: accessor_pair 2 "\<lambda>v. rev (le_bytes 2 v)" "\<lambda>w. le_value (rev w)" "uint_ok 2"
    "\<lambda>b v off. writeUInt16BE ta b v off na" "\<lambda>b off. readUInt16BE b off na'" for ta na na'
  by (rule unsigned_pair) (simp_all add: pair_facts)

interpretation s16BE: accessor_pair 2 "\<lambda>v. rev (le_bytes 2 v)" "\<lambda>w. signed_value 2 (le_value (rev w))"
    "\<lambda>v. sint_ok 2 v \<and> (\<lambda>_. True) v" "\<lambda>b v off. writeInt16BE ta b v off na" "\<lambda>b off. readInt16BE b off na'" for ta na na'
  by (rule signed_pair) (simp_all add: pair_facts)

interpretation u32LE: accessor_pair 4 "\<lambda>v. le_bytes 4 v" "\<lambda>w. le_value w" "uint_ok 4"
    "\<lambda>b v off. writeUInt32LE ta b v off na" "\<lambda>b off. readUInt32LE b off na'" for ta na na'
  by (rule unsigned_pair) (simp_all add: pair_facts)

interpretation s32LE: accessor_pair 4 "\<lambda>v. le_bytes 4 v" "\<lambda>w. signed_value 4 (le_value w)"
    "\<lambda>v. sint_ok 4 v \<and> (\<lambda>_. True) v" "\<lambda>b v off. writeInt32LE ta b v off na" "\<lambda>b off. readInt32LE b off na'" for ta na na'
  by (rule signed_pair) (simp_all add: pair_facts)

interpretation u32BE: accessor_pair 4 "\<lambda>v. rev (le_bytes 4 v)" "\<lambda>w. le_value (rev w)" "uint_ok 4"
    "\<lambda>b v off. writeUInt32BE ta b v off na" "\<lambda>b off. readUInt32BE b off na'" for ta na na'
  by (rule unsigned_pair) (simp_all add: pair_facts)

interpretation s32BE: accessor_pair 4 "\<lambda>v. rev (le_bytes 4 v)" "\<lambda>w. signed_value 4 (le_value (rev w))"
    "\<lambda>v. sint_ok 4 v \<and> (\<lambda>_. True) v" "\<lambda>b v off. writeInt32BE ta b v off na" "\<lambda>b off. readInt32BE b off na'" for ta na na'
  by (rule signed_pair) (simp_all add: pair_facts)

lemma le_bytes_mod: "le_bytes n (v mod 256 ^ n) = le_bytes n v"
proof -
  have "le_bytes n (v mod 256 ^ n) = le_bytes n (le_value (le_bytes n v))"
    by (simp only: le_value_le_bytes)
  also have "\<dots> = le_bytes n v" using le_bytes_le_value [OF is_bytes_le_bytes [of n v]] by simp
  finally show ?thesis .
qed

lemma generic_writes:
  assumes "in_buffer b off n" "m = int n"
  shows "0 \<le> v \<Longrightarrow> v < 256 ^ n \<Longrightarrow> writeUIntLE ta b v (int off) m na = Inr (overwrite b off (le_bytes n v), int off + m)"
    "0 \<le> v \<Longrightarrow> v < 256 ^ n \<Longrightarrow> writeUIntBE ta b v (int off) m na = Inr (overwrite b off (rev (le_bytes n v)), int off + m)"
    "writeUIntLE ta b (v mod 256 ^ n) (int off) m na = Inr (overwrite b off (le_bytes n v), int off + m)"
    "writeUIntBE ta b (v mod 256 ^ n) (int off) m na = Inr (overwrite b off (rev (le_bytes n v)), int off + m)"
  unfolding assms(2) using writeUIntLE_bytes [OF assms(1)] writeUIntBE_bytes [OF assms(1)]
  by (simp_all add: le_bytes_mod less_imp_le)

lemmas fixed_read_defs = readUInt8_def readInt8_def readUInt16LE_def readUInt16BE_def readInt16LE_def
  readInt16BE_def readUInt32LE_def readUInt32BE_def readInt32LE_def readInt32BE_def

lemmas fixed_write_defs = writeUInt8_def writeInt8_def writeUInt16LE_def writeUInt16BE_def writeInt16LE_def
  writeInt16BE_def writeUInt32LE_def writeUInt32BE_def writeInt32LE_def writeInt32BE_def

section \<open>Properties\<close>

text \<open>
  C1: an unsigned integer of up to six bytes that \<open>writeUIntLE\<close> or \<open>writeUIntBE\<close>
  stores at a window of the buffer is the one \<open>readUIntLE\<close>, \<open>readUIntBE\<close> reads
  back from it; the write returns the offset after the window, and changes no other element
  and not the length. This holds in both store modes and with or without assertions.
\<close>

theorem uint_write_read:
  assumes "in_buffer b off n" "n \<le> 6" "is_bytes b" "0 \<le> v" "v < 256 ^ n"
  shows "(\<exists>b'. writeUIntLE ta b v (int off) (int n) na = Inr (b', int off + int n) \<and> is_bytes b' \<and>
      readUIntLE b' (int off) (int n) na' = Inr (Some v) \<and> length b' = length b \<and>
      (\<forall>i. i < off \<or> off + n \<le> i \<longrightarrow> b' ! i = b ! i)) \<and>
    (\<exists>b'. writeUIntBE ta b v (int off) (int n) na = Inr (b', int off + int n) \<and> is_bytes b' \<and>
      readUIntBE b' (int off) (int n) na' = Inr (Some v) \<and> length b' = length b \<and>
      (\<forall>i. i < off \<or> off + n \<le> i \<longrightarrow> b' ! i = b ! i))"
  using uint_le.roundtrip [where b = b and off = off and v = v] uint_be.roundtrip [where b = b and off = off and v = v] assms
  by (auto simp: uint_ok_def)

theorem uint_write_read_witness:
  "\<exists>b'. writeUIntBE True [9, 9, 9, 9, 9] 0x010203 1 3 False = Inr (b', 4) \<and> is_bytes b' \<and>
      readUIntBE b' 1 3 False = Inr (Some 0x010203) \<and> length b' = length [9, 9, 9, 9, 9::int] \<and>
      (\<forall>i. i < 1 \<or> 4 \<le> i \<longrightarrow> b' ! i = [9, 9, 9, 9, 9] ! i)"
  using uint_write_read [of "[9, 9, 9, 9, 9]" 1 3 "0x010203" True False False] by (simp add: in_buffer_def)

text \<open>
  C8: a signed integer of one to six bytes written by \<open>writeIntLE\<close> or
  \<open>writeIntBE\<close> is read back by \<open>readIntLE\<close>, \<open>readIntBE\<close> exactly when it is not
  a negative multiple of 256 written in two or more bytes: those come back as another number,
  because the code borrows 1 from every byte after the first whenever the value is negative.
\<close>

theorem int_write_read:
  assumes "in_buffer b off n" "n \<le> 6" "is_bytes b" "- (2 ^ (8 * n - 1)) \<le> v" "v < 2 ^ (8 * n - 1)"
  shows "(\<exists>b' r. writeIntLE ta b v (int off) (int n) na = Inr (b', int off + int n) \<and>
      readIntLE b' (int off) (int n) na' = Inr (Some r) \<and> (r = v \<longleftrightarrow> n = 1 \<or> 0 \<le> v \<or> v mod 256 \<noteq> 0)) \<and>
    (\<exists>b' r. writeIntBE ta b v (int off) (int n) na = Inr (b', int off + int n) \<and>
      readIntBE b' (int off) (int n) na' = Inr (Some r) \<and> (r = v \<longleftrightarrow> n = 1 \<or> 0 \<le> v \<or> v mod 256 \<noteq> 0))"
proof -
  have n: "0 < n" using assms(1) by (simp add: in_buffer_def)
  then have "8 * n - 1 = 7 + 8 * (n - 1)" by simp
  then have "(2::int) ^ (8 * n - 1) = 2 ^ 7 * (2 ^ 8) ^ (n - 1)" by (simp only: power_add power_mult)
  then have v: "in_range n v" using assms(4,5) by (simp add: in_range_def)
  have b: "borrow_ok n v \<longleftrightarrow> n = 1 \<or> 0 \<le> v \<or> v mod 256 \<noteq> 0" using n by (auto simp: borrow_ok_def)
  have l: "off + length (int_bytes n v) \<le> length b" using assms(1) n by (simp add: in_buffer_def length_int_bytes)
  have w: "take n (drop off (overwrite b off (int_bytes n v))) = int_bytes n v"
    "take n (drop off (overwrite b off (rev (int_bytes n v)))) = rev (int_bytes n v)"
    using take_drop_overwrite [OF l] take_drop_overwrite [of off "rev (int_bytes n v)" b] l n
    by (simp_all add: length_int_bytes)
  show ?thesis
    using writeIntLE_bytes [OF assms(1) v] writeIntBE_bytes [OF assms(1) v] int_bytes_value_iff [OF n v] w
      readIntLE_value [OF in_buffer_overwrite [OF assms(1) length_int_bytes [OF n]]]
      readIntBE_value [OF in_buffer_overwrite [OF assms(1), of "rev (int_bytes n v)"]] length_int_bytes [OF n] b by simp
qed

theorem int_write_read_witness:
  "\<exists>b' r. writeIntLE True [0, 0] (- 256) 0 2 False = Inr (b', 2) \<and>
     readIntLE b' 0 2 False = Inr (Some r) \<and> (r = - 256 \<longleftrightarrow> (2::nat) = 1 \<or> 0 \<le> (- 256 :: int) \<or> - 256 mod 256 \<noteq> (0::int))"
  using int_write_read [of "[0, 0]" 0 2 "- 256"] by (simp add: in_buffer_def)

text \<open>
  C10: the hand-unrolled readers of 8, 16 and 32 bits return what the generic loops return
  for 1, 2 and 4 bytes, on every buffer of bytes and at every window in it; the bitwise
  combinations, and the sign tests and extensions of the signed ones, lose nothing.
\<close>

theorem fixed_reads_generic:
  assumes "is_bytes b"
  shows "(in_buffer b off 1 \<longrightarrow> readUInt8 b (int off) na = readUIntLE b (int off) 1 na') \<and>
    (in_buffer b off 1 \<longrightarrow> readInt8 b (int off) na = readIntLE b (int off) 1 na') \<and>
    (in_buffer b off 2 \<longrightarrow> readUInt16LE b (int off) na = readUIntLE b (int off) 2 na') \<and>
    (in_buffer b off 2 \<longrightarrow> readUInt16BE b (int off) na = readUIntBE b (int off) 2 na') \<and>
    (in_buffer b off 2 \<longrightarrow> readInt16LE b (int off) na = readIntLE b (int off) 2 na') \<and>
    (in_buffer b off 2 \<longrightarrow> readInt16BE b (int off) na = readIntBE b (int off) 2 na') \<and>
    (in_buffer b off 4 \<longrightarrow> readUInt32LE b (int off) na = readUIntLE b (int off) 4 na') \<and>
    (in_buffer b off 4 \<longrightarrow> readUInt32BE b (int off) na = readUIntBE b (int off) 4 na') \<and>
    (in_buffer b off 4 \<longrightarrow> readInt32LE b (int off) na = readIntLE b (int off) 4 na') \<and>
    (in_buffer b off 4 \<longrightarrow> readInt32BE b (int off) na = readIntBE b (int off) 4 na')"
  using read_fixed [OF assms, of off na] read_signed_fixed [OF assms, of off na]
    readUIntLE_value(1) [of b off 1 na'] readUIntLE_value(1) [of b off 2 na'] readUIntLE_value(1) [of b off 4 na']
    readUIntBE_value(1) [of b off 2 na'] readUIntBE_value(1) [of b off 4 na']
    readIntLE_value [of b off 1 na'] readIntLE_value [of b off 2 na'] readIntLE_value [of b off 4 na']
    readIntBE_value [of b off 2 na'] readIntBE_value [of b off 4 na']
  by simp

theorem fixed_reads_generic_witness:
  "readInt16BE [0xFF, 0xFE, 0, 0] 0 False = readIntBE [0xFF, 0xFE, 0, 0] 0 2 False"
  using fixed_reads_generic [of "[0xFF, 0xFE, 0, 0]" 0 False False] by (simp add: in_buffer_def)

text \<open>
  C9: the fixed-width writers store the bytes that the generic unsigned writer stores for the
  two's complement of the value, whether elements are typed or plain (\<open>ta\<close>), although the
  code takes a different path for each; so a buffer's contents do not depend on the browser.
\<close>

theorem fixed_writes_generic:
  shows "(in_buffer b off 1 \<longrightarrow> uint_ok 1 v \<longrightarrow> writeUInt8 ta b v (int off) na = writeUIntLE ta' b v (int off) 1 na') \<and>
    (in_buffer b off 2 \<longrightarrow> uint_ok 2 v \<longrightarrow> writeUInt16LE ta b v (int off) na = writeUIntLE ta' b v (int off) 2 na') \<and>
    (in_buffer b off 2 \<longrightarrow> uint_ok 2 v \<longrightarrow> writeUInt16BE ta b v (int off) na = writeUIntBE ta' b v (int off) 2 na') \<and>
    (in_buffer b off 4 \<longrightarrow> uint_ok 4 v \<longrightarrow> writeUInt32LE ta b v (int off) na = writeUIntLE ta' b v (int off) 4 na') \<and>
    (in_buffer b off 4 \<longrightarrow> uint_ok 4 v \<longrightarrow> writeUInt32BE ta b v (int off) na = writeUIntBE ta' b v (int off) 4 na') \<and>
    (in_buffer b off 1 \<longrightarrow> sint_ok 1 v \<longrightarrow> writeInt8 ta b v (int off) na = writeUIntLE ta' b (v mod 256 ^ 1) (int off) 1 na') \<and>
    (in_buffer b off 2 \<longrightarrow> sint_ok 2 v \<longrightarrow> writeInt16LE ta b v (int off) na = writeUIntLE ta' b (v mod 256 ^ 2) (int off) 2 na') \<and>
    (in_buffer b off 2 \<longrightarrow> sint_ok 2 v \<longrightarrow> writeInt16BE ta b v (int off) na = writeUIntBE ta' b (v mod 256 ^ 2) (int off) 2 na') \<and>
    (in_buffer b off 4 \<longrightarrow> sint_ok 4 v \<longrightarrow> writeInt32LE ta b v (int off) na = writeUIntLE ta' b (v mod 256 ^ 4) (int off) 4 na') \<and>
    (in_buffer b off 4 \<longrightarrow> sint_ok 4 v \<longrightarrow> writeInt32BE ta b v (int off) na = writeUIntBE ta' b (v mod 256 ^ 4) (int off) 4 na')"
  using le_bytes_mod [of 1 v] le_bytes_mod [of 2 v] le_bytes_mod [of 4 v]
  by (simp add: generic_writes write_fixed write_signed_fixed uint_ok_def sint_ok_def in_range_def del: One_nat_def power_Suc)

theorem fixed_writes_generic_witness:
  "writeInt32LE True [0, 0, 0, 0, 0] (- 2) 1 False = writeUIntLE False [0, 0, 0, 0, 0] (- 2 mod 256 ^ 4) 1 4 False"
  using fixed_writes_generic [of "[0, 0, 0, 0, 0]" 1 "- 2" True False False False]
  by (simp add: in_buffer_def sint_ok_def in_range_def)

text \<open>
  C11: with assertions on, a reader throws a \<open>RangeError\<close> exactly when its window does not
  lie within the buffer, so it never returns \<open>undefined\<close> or \<open>NaN\<close>; with
  assertions off it never throws.
\<close>

theorem read_bounds:
  "(\<forall>rd n. (rd, n) \<in> {(readUInt8, 1), (readInt8, 1), (readUInt16LE, 2), (readUInt16BE, 2), (readInt16LE, 2),
       (readInt16BE, 2), (readUInt32LE, 4), (readUInt32BE, 4), (readInt32LE, 4), (readInt32BE, 4)} \<longrightarrow>
     (isl (rd b off False) \<longleftrightarrow> off < 0 \<or> off + n > int (length b)) \<and> rd b off False \<noteq> Inr None \<and> \<not> isl (rd b off True))"
  using at_None_iff [of b off] by (auto simp: fixed_read_defs asserting_def checkOffset_def bind_res_def at_def)

theorem read_bounds_witness:
  "isl (readUInt16LE [1, 2, 3] 2 False) \<and> readUInt32BE [1, 2, 3, 4] 0 False \<noteq> Inr None"
  using read_bounds [of "[1, 2, 3]" 2, rule_format, of readUInt16LE 2]
    read_bounds [of "[1, 2, 3, 4]" 0, rule_format, of readUInt32BE 4] by simp

text \<open>
  C12: the check of the ten writers of a fixed width. Such a writer with assertions on throws
  exactly when the value is out of its range or the window ends after the buffer, and without
  assertions it never throws. (The writers of a given width accept one value too many, see
  \<open>write_limit_accepted\<close>.) Nothing tests for a negative offset: there
  the write succeeds, and the bytes before the buffer are lost.
\<close>

theorem write_bounds:
  "(\<forall>wr n lo hi. (wr, n, lo, hi) \<in> {(writeUInt8 ta, 1, 0, 0xff), (writeInt8 ta, 1, - 0x80, 0x7f),
       (writeUInt16LE ta, 2, 0, 0xffff), (writeUInt16BE ta, 2, 0, 0xffff), (writeInt16LE ta, 2, - 0x8000, 0x7fff),
       (writeInt16BE ta, 2, - 0x8000, 0x7fff), (writeUInt32LE ta, 4, 0, 0xffffffff), (writeUInt32BE ta, 4, 0, 0xffffffff),
       (writeInt32LE ta, 4, - 0x80000000, 0x7fffffff), (writeInt32BE ta, 4, - 0x80000000, 0x7fffffff)} \<longrightarrow>
     (isl (wr b v off False) \<longleftrightarrow> v < lo \<or> v > hi \<or> to_int32 off + n > int (length b)) \<and> \<not> isl (wr b v off True))"
  by (auto simp: fixed_write_defs Let_def asserting_def checkInt_def bind_res_def)

theorem write_bounds_witness:
  "isl (writeUInt8 True [0, 0] 256 1 False) \<and> \<not> isl (writeUInt8 True [0, 0] 7 (- 1) False)"
  using write_bounds [of True "[0, 0]" 256 1, rule_format, of "writeUInt8 True" 1 0 "0xff"]
    write_bounds [of True "[0, 0]" 7 "- 1", rule_format, of "writeUInt8 True" 1 0 "0xff"]
    to_int32_id [of "- 1"] to_int32_id [of 1] by simp

lemma negative_offset_write: "writeUInt8 ta [5] 7 (- 1) False = Inr ([5], 0)"
  using to_int32_id [of "- 1"] by (simp add: writeUInt8_def Let_def asserting_def checkInt_def put_def)

lemma write_limit_accepted: "writeUIntLE ta [5] 256 0 1 False = Inr ([0], 1)"
  using writeUIntLE_bytes [of "[5]" 0 1 256 ta False] by (simp add: in_buffer_def le_bytes_lists overwrite_def)

end
