(* ===== verification/BufferOps.thy ===== *)
theory BufferOps
  imports BufferCodecs BufferInts "HOL-Library.List_Lexorder"
begin

text \<open>
  The rest of \<open>Buffer\<close> (module 14 of \<open>swagger-ui.js\<close>): construction, conversion to
  and from strings in the encodings of \<open>BufferCodecs\<close>, comparison, search, concatenation,
  slices, copies, fills and writes.

  A buffer is the list of its elements; an operation that stores into a buffer returns the new
  list. \<open>slice\<close> gives the elements of the view; that a view of a typed array shares its
  memory with the parent is outside the model, as are the \<open>parent\<close> links that only keep
  the parent alive. A fresh object buffer has no elements before they are stored; they are 0
  in the model, which no operation can tell apart, since every constructor stores all of them.
\<close>

section \<open>Arguments\<close>

text \<open>The arguments a method takes in several roles: \<open>undefined\<close>, a number, a string.\<close>

datatype jsarg = AUndef | ANum int | AStr jsstring

text \<open>\<open>String.prototype.toLowerCase\<close>, on the letters that occur in the names of encodings.\<close>

definition toLowerCase :: "jsstring \<Rightarrow> jsstring" where
  "toLowerCase s = map (\<lambda>c. if 65 \<le> c \<and> c \<le> 90 then c + 32 else c) s"

text \<open>
  The number a string converts to: white space is 0, decimal digits their value, and the rest
  \<open>NaN\<close>. (Signed, fractional and hexadecimal literals, which no encoding is named like,
  are left out.)
\<close>

definition is_digit :: "int \<Rightarrow> bool" where
  "is_digit c \<longleftrightarrow> 48 \<le> c \<and> c \<le> 57"

definition decimal :: "jsstring \<Rightarrow> int" where
  "decimal s = foldl (\<lambda>n c. n * 10 + (c - 48)) 0 s"

definition arg_number :: "jsarg \<Rightarrow> int option" where
  "arg_number a = (case a of AUndef \<Rightarrow> None | ANum n \<Rightarrow> Some n
     | AStr s \<Rightarrow> (let t = stringtrim s in if list_all is_digit t then Some (decimal t) else None))"

definition isFinite :: "jsarg \<Rightarrow> bool" where
  "isFinite a \<longleftrightarrow> arg_number a \<noteq> None"

text \<open>\<open>a | 0\<close>.\<close>

definition arg_int32 :: "jsarg \<Rightarrow> int" where
  "arg_int32 a = to_int32 (bits_of (arg_number a))"

section \<open>Encodings by name\<close>

datatype encoding = Hex | Utf8 | Ascii | Binary | Base64 | Raw | Raws | Ucs2

text \<open>The case labels of the \<open>switch\<close> statements.\<close>

definition encoding_names :: "(jsstring \<times> encoding) list" where
  "encoding_names =
     [(jstr ''hex'', Hex), (jstr ''utf8'', Utf8), (jstr ''utf-8'', Utf8), (jstr ''ascii'', Ascii),
      (jstr ''binary'', Binary), (jstr ''base64'', Base64), (jstr ''raw'', Raw), (jstr ''raws'', Raws),
      (jstr ''ucs2'', Ucs2), (jstr ''ucs-2'', Ucs2), (jstr ''utf16le'', Ucs2), (jstr ''utf-16le'', Ucs2)]"

definition switch_encoding :: "jsstring \<Rightarrow> encoding option" where
  "switch_encoding s = map_of encoding_names s"

definition isEncoding :: "jsstring \<Rightarrow> bool" where
  "isEncoding encoding =
     (case switch_encoding (toLowerCase encoding) of None \<Rightarrow> False | Some Raws \<Rightarrow> False | Some _ \<Rightarrow> True)"

section \<open>Allocation and construction from numbers and arrays\<close>

definition kMaxLength :: "bool \<Rightarrow> int" where
  "kMaxLength ta = (if ta then 0x7fffffff else 0x3fffffff)"

definition checked :: "bool \<Rightarrow> int \<Rightarrow> int res" where
  "checked ta length' =
     (if length' \<ge> kMaxLength ta then Inl (RangeError ''Attempt to allocate Buffer larger than maximum size'')
      else Inr (to_int32 length'))"

definition allocate :: "int \<Rightarrow> int list" where
  "allocate length' = replicate (nat length') 0"

definition fromNumber :: "bool \<Rightarrow> int \<Rightarrow> int list res" where
  "fromNumber ta length' =
     bind_res (if length' < 0 then Inr 0 else checked ta length') (\<lambda>n. Inr (allocate (to_int32 n)))"

text \<open>
  \<open>fromArray\<close>, and its duplicates \<open>fromTypedArray\<close> and \<open>fromArrayLike\<close>:
  element \<open>i\<close> becomes \<open>array[i] & 255\<close>.
\<close>

definition fromArray :: "bool \<Rightarrow> int option list \<Rightarrow> int list res" where
  "fromArray ta array =
     bind_res (checked ta (int (length array))) (\<lambda>n.
       Inr (fold (\<lambda>i that. put ta that i (js_and (bits_of (Option.bind (at array i) (\<lambda>x. x))) 255)) [0..n - 1] (allocate n)))"

section \<open>Byte lengths of strings\<close>

function byteLength_loop :: "jsstring \<Rightarrow> jsstring \<Rightarrow> bool \<Rightarrow> int res" where
  "byteLength_loop string encoding loweredCase =
     (let len = int (length string);
          utf8_len = bind_res (utf8ToBytes string None) (\<lambda>bs. Inr (int (length bs)))
      in case switch_encoding encoding of
           Some Ascii \<Rightarrow> Inr len
         | Some Binary \<Rightarrow> Inr len
         | Some Raw \<Rightarrow> Inr len
         | Some Raws \<Rightarrow> Inr len
         | Some Utf8 \<Rightarrow> utf8_len
         | Some Ucs2 \<Rightarrow> Inr (len * 2)
         | Some Hex \<Rightarrow> Inr (js_ushr len 1)
         | Some Base64 \<Rightarrow> bind_res (base64ToBytes string) (\<lambda>bs. Inr (int (length bs)))
         | None \<Rightarrow> if loweredCase then utf8_len
                   else byteLength_loop string (toLowerCase encoding) True)"
  by pat_completeness auto
termination by (relation "measure (\<lambda>(s, e, l). if l then 0 else 1)") auto

declare byteLength_loop.simps [simp del]

definition byteLength :: "jsstring \<Rightarrow> jsstring \<Rightarrow> int res" where
  "byteLength string encoding =
     (if string = [] then Inr 0 else byteLength_loop string encoding False)"

section \<open>Slices and conversion to strings\<close>

text \<open>The bounds of \<open>slice(start, end)\<close>; \<open>None\<close> is \<open>undefined\<close>.\<close>

definition clamp_bound :: "int \<Rightarrow> int \<Rightarrow> int" where
  "clamp_bound len i =
     (if i < 0 then (let i = i + len in if i < 0 then 0 else i) else if i > len then len else i)"

definition slice_bounds :: "int \<Rightarrow> int option \<Rightarrow> int option \<Rightarrow> int \<times> int" where
  "slice_bounds len start end' =
     (let start = clamp_bound len (to_int32 (bits_of start));
          end' = clamp_bound len (case end' of None \<Rightarrow> len | Some e \<Rightarrow> to_int32 e)
      in (start, if end' < start then start else end'))"

definition slice :: "int list \<Rightarrow> int option \<Rightarrow> int option \<Rightarrow> int list" where
  "slice buf start end' =
     (let (s, e) = slice_bounds (int (length buf)) start end' in js_slice buf s e)"

definition base64Slice :: "int list \<Rightarrow> int \<Rightarrow> int \<Rightarrow> jsstring" where
  "base64Slice buf start end' =
     (if start = 0 \<and> end' = int (length buf) then uint8ToBase64 buf
      else uint8ToBase64 (slice buf (Some start) (Some end')))"

text \<open>
  The last byte of an odd number is paired with \<open>undefined\<close>: the sum is \<open>NaN\<close>, and
  \<open>String.fromCharCode(NaN)\<close> is the code unit 0.
\<close>

fun utf16le_units :: "int list \<Rightarrow> int list" where
  "utf16le_units (lo # hi # bytes) = (lo + hi * 256) # utf16le_units bytes"
| "utf16le_units [lo] = [0]"
| "utf16le_units [] = []"

definition utf16leSlice :: "int list \<Rightarrow> int \<Rightarrow> int \<Rightarrow> jsstring" where
  "utf16leSlice buf start end' = fromCharCode (utf16le_units (slice buf (Some start) (Some end')))"

function slowToString_loop :: "int list \<Rightarrow> jsstring \<Rightarrow> int \<Rightarrow> int \<Rightarrow> bool \<Rightarrow> jsstring res" where
  "slowToString_loop this encoding start end' loweredCase =
     (let unknown = (if loweredCase then Inl (TypeError ''Unknown encoding: '')
                     else slowToString_loop this (toLowerCase encoding) start end' True)
      in case switch_encoding encoding of
           Some Hex \<Rightarrow> Inr (hexSlice this (Some start) (Some end'))
         | Some Utf8 \<Rightarrow> Inr (utf8Slice this start end')
         | Some Ascii \<Rightarrow> Inr (asciiSlice this start end')
         | Some Binary \<Rightarrow> Inr (binarySlice this start end')
         | Some Base64 \<Rightarrow> Inr (base64Slice this start end')
         | Some Ucs2 \<Rightarrow> Inr (utf16leSlice this start end')
         | Some Raw \<Rightarrow> unknown
         | Some Raws \<Rightarrow> unknown
         | None \<Rightarrow> unknown)"
  by pat_completeness auto
termination by (relation "measure (\<lambda>(b, e, s, t, l). if l then 0 else 1)") auto

declare slowToString_loop.simps [simp del]

definition slowToString :: "int list \<Rightarrow> jsstring option \<Rightarrow> int option \<Rightarrow> int option \<Rightarrow> jsstring res" where
  "slowToString this encoding start end' =
     (let len = int (length this);
          start = to_int32 (bits_of start);
          end' = (case end' of None \<Rightarrow> len | Some e \<Rightarrow> to_int32 e);
          encoding = (case encoding of None \<Rightarrow> jstr ''utf8'' | Some e \<Rightarrow> if e = [] then jstr ''utf8'' else e);
          start = (if start < 0 then 0 else start);
          end' = (if end' > len then len else end')
      in if end' \<le> start then Inr [] else slowToString_loop this encoding start end' False)"

text \<open>\<open>buf.toString(encoding, start, end)\<close>; without arguments, \<open>buf.toString()\<close>.\<close>

definition toString :: "int list \<Rightarrow> jsstring option \<Rightarrow> int option \<Rightarrow> int option \<Rightarrow> jsstring res" where
  "toString this encoding start end' =
     (if this = [] then Inr [] else slowToString this encoding start end')"

definition toString0 :: "int list \<Rightarrow> jsstring" where
  "toString0 this = (if this = [] then [] else utf8Slice this 0 (int (length this)))"

text \<open>\<open>match(/.{2}/g).join(' ')\<close> on a string of hexadecimal digits.\<close>

fun join_pairs :: "jsstring \<Rightarrow> jsstring" where
  "join_pairs (a # b # c # s) = a # b # 32 # join_pairs (c # s)"
| "join_pairs s = s"

definition INSPECT_MAX_BYTES :: int where "INSPECT_MAX_BYTES = 50"

definition inspect :: "int list \<Rightarrow> jsstring res" where
  "inspect this =
     bind_res
       (if this \<noteq> [] then
          bind_res (toString this (Some (jstr ''hex'')) (Some 0) (Some INSPECT_MAX_BYTES)) (\<lambda>hex.
            Inr (join_pairs hex @ (if int (length this) > INSPECT_MAX_BYTES then jstr '' ... '' else [])))
        else Inr [])
       (\<lambda>str. Inr (jstr ''<Buffer '' @ str @ jstr ''>''))"

section \<open>Comparison\<close>

text \<open>The index where the loop of \<open>Buffer.compare\<close> stops.\<close>

function compare_loop :: "int list \<Rightarrow> int list \<Rightarrow> int \<Rightarrow> int \<Rightarrow> int" where
  "compare_loop a b i len =
     (if i < len then (if at a i \<noteq> at b i then i else compare_loop a b (i + 1) len) else i)"
  by pat_completeness auto
termination by (relation "measure (\<lambda>(a, b, i, len). nat (len - i))") auto

declare compare_loop.simps [simp del]

definition buffer_compare :: "int list \<Rightarrow> int list \<Rightarrow> int" where
  "buffer_compare a b =
     (let x = int (length a);
          y = int (length b);
          len = min x y;
          i = compare_loop a b 0 len;
          (x, y) = (if i \<noteq> len then (bits_of (at a i), bits_of (at b i)) else (x, y))
      in if x < y then - 1 else if y < x then 1 else 0)"

definition equals :: "int list \<Rightarrow> int list \<Rightarrow> bool" where
  "equals this b \<longleftrightarrow> buffer_compare this b = 0"

section \<open>Copies, concatenation, fills\<close>

text \<open>
  The loops of \<open>copy\<close>. \<open>same\<close> says that source and target are one buffer: then
  every read is from the elements as stored so far.
\<close>

definition copy_step :: "bool \<Rightarrow> bool \<Rightarrow> int list \<Rightarrow> int \<Rightarrow> int \<Rightarrow> int \<Rightarrow> int list \<Rightarrow> int list" where
  "copy_step ta same this targetStart start i target =
     put ta target (i + targetStart) (bits_of (at (if same then target else this) (i + start)))"

definition copy_descending :: "bool \<Rightarrow> bool \<Rightarrow> int list \<Rightarrow> int \<Rightarrow> int \<Rightarrow> int \<Rightarrow> int list \<Rightarrow> int list" where
  "copy_descending ta same this targetStart start len target =
     fold (copy_step ta same this targetStart start) (rev [0..len - 1]) target"

definition copy_ascending :: "bool \<Rightarrow> bool \<Rightarrow> int list \<Rightarrow> int \<Rightarrow> int \<Rightarrow> int \<Rightarrow> int list \<Rightarrow> int list" where
  "copy_ascending ta same this targetStart start len target =
     fold (copy_step ta same this targetStart start) [0..len - 1] target"

text \<open>\<open>TypedArray.prototype.set\<close> stores a snapshot of the source.\<close>

definition typed_set :: "int list \<Rightarrow> int list \<Rightarrow> int \<Rightarrow> int list" where
  "typed_set target source i = overwrite target (nat i) source"

text \<open>The choice of the loop: \<open>targetStart < end\<close> for the \<open>end\<close> of \<open>len\<close> elements.\<close>

definition copy_elements :: "bool \<Rightarrow> bool \<Rightarrow> int list \<Rightarrow> int list \<Rightarrow> int \<Rightarrow> int \<Rightarrow> int \<Rightarrow> int list" where
  "copy_elements ta same this target targetStart start len =
     (if same \<and> start < targetStart \<and> targetStart < start + len
      then copy_descending ta same this targetStart start len target
      else if len < 1000 \<or> \<not> ta
      then copy_ascending ta same this targetStart start len target
      else typed_set target (js_slice this start (start + len)) targetStart)"

text \<open>
  \<open>copy(target, targetStart, start, end)\<close>: the target after the copy and the number
  returned. When \<open>same\<close>, \<open>target\<close> and \<open>this\<close> are the same list.
\<close>

definition copy :: "bool \<Rightarrow> bool \<Rightarrow> int list \<Rightarrow> int list \<Rightarrow> int option \<Rightarrow> int option \<Rightarrow> int option \<Rightarrow> (int list \<times> int) res" where
  "copy ta same this target targetStart start end' =
     (let thisLen = int (length this); targetLen = int (length target);
          start = bits_of start;
          end' = (case end' of None \<Rightarrow> thisLen | Some e \<Rightarrow> e);
          targetStart = (case targetStart of None \<Rightarrow> 0 | Some t \<Rightarrow> if t \<ge> targetLen then targetLen else t);
          end' = (if end' > 0 \<and> end' < start then start else end')
      in if end' = start then Inr (target, 0)
         else if targetLen = 0 \<or> thisLen = 0 then Inr (target, 0)
         else if targetStart < 0 then Inl (RangeError ''targetStart out of bounds'')
         else if start < 0 \<or> start \<ge> thisLen then Inl (RangeError ''sourceStart out of bounds'')
         else if end' < 0 then Inl (RangeError ''sourceEnd out of bounds'')
         else
           (let end' = (if end' > thisLen then thisLen else end');
                end' = (if targetLen - targetStart < end' - start then targetLen - targetStart + start else end');
                len = end' - start
            in Inr (copy_elements ta same this target targetStart start len, len)))"

text \<open>\<open>fromBuffer\<close>, the copying constructor.\<close>

definition fromBuffer :: "bool \<Rightarrow> int list \<Rightarrow> int list res" where
  "fromBuffer ta buffer =
     bind_res (checked ta (int (length buffer))) (\<lambda>n.
       bind_res (copy ta False buffer (allocate n) (Some 0) (Some 0) (Some n)) (\<lambda>(that, _). Inr that))"

fun concat_loop :: "bool \<Rightarrow> int list list \<Rightarrow> int list \<Rightarrow> int \<Rightarrow> int list res" where
  "concat_loop ta [] buf pos = Inr buf"
| "concat_loop ta (item # list) buf pos =
     bind_res (copy ta False item buf (Some pos) None None) (\<lambda>(buf, _).
       concat_loop ta list buf (pos + int (length item)))"

definition buffer_concat :: "bool \<Rightarrow> int list list \<Rightarrow> int option \<Rightarrow> int list res" where
  "buffer_concat ta list length' =
     (if list = [] then fromNumber ta 0
      else (let length' = (case length' of None \<Rightarrow> sum_list (map (\<lambda>b. int (length b)) list) | Some n \<Rightarrow> n)
            in bind_res (fromNumber ta length') (\<lambda>buf. concat_loop ta list buf 0)))"

text \<open>
  \<open>fill(value, start, end)\<close>: \<open>undefined\<close>, 0 and the empty string are falsy. The
  first three arguments of the error cases are tested in the order of the code.
\<close>

definition buffer_fill :: "bool \<Rightarrow> int list \<Rightarrow> jsarg \<Rightarrow> int option \<Rightarrow> int option \<Rightarrow> int list res" where
  "buffer_fill ta this value start end' =
     (let len = int (length this);
          value = (if value = AUndef \<or> value = AStr [] then ANum 0 else value);
          start = bits_of start;
          end' = (case end' of None \<Rightarrow> len | Some e \<Rightarrow> if e = 0 then len else e)
      in if end' < start then Inl (RangeError ''end < start'')
         else if end' = start then Inr this
         else if len = 0 then Inr this
         else if start < 0 \<or> start \<ge> len then Inl (RangeError ''start out of bounds'')
         else if end' < 0 \<or> end' > len then Inl (RangeError ''end out of bounds'')
         else case value of
                AStr s \<Rightarrow>
                  bind_res (utf8ToBytes s None) (\<lambda>bytes.
                    Inr (fold (\<lambda>i b. put ta b i (bits_of (at bytes (i mod int (length bytes))))) [start..end' - 1] this))
              | ANum v \<Rightarrow> Inr (fold (\<lambda>i b. put ta b i v) [start..end' - 1] this)
              | AUndef \<Rightarrow> Inr this)"

section \<open>Search\<close>

text \<open>
  The scan of \<open>arrayIndexOf\<close> from index \<open>i\<close> beyond the offset; an index outside
  \<open>val\<close> gives \<open>undefined\<close>, which no element equals.
\<close>

function arrayIndexOf_loop :: "int list \<Rightarrow> int list \<Rightarrow> int \<Rightarrow> int \<Rightarrow> int \<Rightarrow> int" where
  "arrayIndexOf_loop arr val byteOffset foundIndex i =
     (if byteOffset + i < int (length arr) then
        (if at arr (byteOffset + i) = at val (if foundIndex = - 1 then 0 else i - foundIndex) then
           (let foundIndex = (if foundIndex = - 1 then i else foundIndex)
            in if i - foundIndex + 1 = int (length val) then byteOffset + foundIndex
               else arrayIndexOf_loop arr val byteOffset foundIndex (i + 1))
         else arrayIndexOf_loop arr val byteOffset (- 1) (i + 1))
      else - 1)"
  by pat_completeness auto
termination by (relation "measure (\<lambda>(arr, val, off, f, i). nat (int (length arr) - (off + i)))") auto

declare arrayIndexOf_loop.simps [simp del]

definition arrayIndexOf :: "int list \<Rightarrow> int list \<Rightarrow> int \<Rightarrow> int" where
  "arrayIndexOf arr val byteOffset = arrayIndexOf_loop arr val byteOffset (- 1) 0"

text \<open>\<open>String.prototype.indexOf\<close>.\<close>

definition string_indexOf :: "jsstring \<Rightarrow> jsstring \<Rightarrow> int \<Rightarrow> int" where
  "string_indexOf s val pos =
     (case filter (\<lambda>k. take (length val) (drop k s) = val) [nat (max 0 (min pos (int (length s))))..<length s + 1] of
        [] \<Rightarrow> - 1 | k # _ \<Rightarrow> int k)"

datatype needle = NString jsstring | NBuffer "int list" | NNumber int | NOther

text \<open>
  The comparison \<open>Uint8Array.prototype.indexOf === 'function'\<close> is of a function and a
  string, so the branch it guards is never taken.
\<close>

definition indexOf :: "int list \<Rightarrow> needle \<Rightarrow> int option \<Rightarrow> int res" where
  "indexOf this val byteOffset =
     (let len = int (length this);
          byteOffset = bits_of byteOffset;
          byteOffset = (if byteOffset > 0x7fffffff then 0x7fffffff
                        else if byteOffset < - 0x80000000 then - 0x80000000 else byteOffset);
          byteOffset = js_shr byteOffset 0
      in if len = 0 then Inr (- 1)
         else if byteOffset \<ge> len then Inr (- 1)
         else (let byteOffset = (if byteOffset < 0 then max (len + byteOffset) 0 else byteOffset)
               in case val of
                    NString s \<Rightarrow> if s = [] then Inr (- 1) else Inr (string_indexOf (toString0 this) s byteOffset)
                  | NBuffer b \<Rightarrow> Inr (arrayIndexOf this b byteOffset)
                  | NNumber n \<Rightarrow> Inr (arrayIndexOf this [n] byteOffset)
                  | NOther \<Rightarrow> Inl (TypeError ''val must be string, number or Buffer'')))"

section \<open>Writing strings\<close>

text \<open>\<open>parseInt(s, 16)\<close>: the longest numeral at the start of the string, if any.\<close>

definition hex_value :: "int \<Rightarrow> int option" where
  "hex_value c = (if 48 \<le> c \<and> c \<le> 57 then Some (c - 48)
     else if 97 \<le> c \<and> c \<le> 102 then Some (c - 87)
     else if 65 \<le> c \<and> c \<le> 70 then Some (c - 55) else None)"

fun hex_prefix :: "jsstring \<Rightarrow> int list" where
  "hex_prefix [] = []"
| "hex_prefix (c # s) = (case hex_value c of None \<Rightarrow> [] | Some d \<Rightarrow> d # hex_prefix s)"

definition parseInt16 :: "jsstring \<Rightarrow> int option" where
  "parseInt16 s =
     (let s = dropWhile is_trim_space s;
          (neg, s) = (case s of c # t \<Rightarrow> if c = 45 then (True, t) else if c = 43 then (False, t) else (False, s)
                      | [] \<Rightarrow> (False, s));
          s = (case s of a # b # t \<Rightarrow> if a = 48 \<and> (b = 120 \<or> b = 88) then t else s | _ \<Rightarrow> s);
          ds = hex_prefix s
      in if ds = [] then None
         else Some ((if neg then - 1 else 1) * foldl (\<lambda>n d. n * 16 + d) 0 ds))"

text \<open>
  The writers give the buffer they leave and the number of bytes written; a failing
  \<open>hexWrite\<close> has already stored the bytes before the offending digits. A length
  \<open>None\<close> is \<open>NaN\<close>.
\<close>

function hexWrite_loop :: "bool \<Rightarrow> int list \<Rightarrow> jsstring \<Rightarrow> int \<Rightarrow> int \<Rightarrow> int \<Rightarrow> int list \<times> int res" where
  "hexWrite_loop ta buf string offset length' i =
     (if i < length' then
        (case parseInt16 (js_slice string (i * 2) (i * 2 + 2)) of
           None \<Rightarrow> (buf, Inl (PlainError ''Invalid hex string''))
         | Some parsed \<Rightarrow> hexWrite_loop ta (put ta buf (offset + i) parsed) string offset length' (i + 1))
      else (buf, Inr i))"
  by pat_completeness auto
termination by (relation "measure (\<lambda>(ta, b, s, off, n, i). nat (n - i))") auto

declare hexWrite_loop.simps [simp del]

definition hexWrite :: "bool \<Rightarrow> int list \<Rightarrow> jsstring \<Rightarrow> int \<Rightarrow> int option \<Rightarrow> int list \<times> int res" where
  "hexWrite ta buf string offset length' =
     (let remaining = int (length buf) - offset;
          length' = (case length' of None \<Rightarrow> remaining
             | Some n \<Rightarrow> if n = 0 then remaining else if n > remaining then remaining else n);
          strLen = int (length string)
      in if strLen mod 2 \<noteq> 0 then (buf, Inl (PlainError ''Invalid hex string''))
         else hexWrite_loop ta buf string offset (if length' > strLen div 2 then strLen div 2 else length') 0)"

function blitBuffer_loop :: "bool \<Rightarrow> int list \<Rightarrow> int list \<Rightarrow> int \<Rightarrow> int \<Rightarrow> int \<Rightarrow> int list \<times> int" where
  "blitBuffer_loop ta src dst offset length' i =
     (if i < length' then
        (if i + offset \<ge> int (length dst) \<or> i \<ge> int (length src) then (dst, i)
         else blitBuffer_loop ta src (put ta dst (i + offset) (bits_of (at src i))) offset length' (i + 1))
      else (dst, i))"
  by pat_completeness auto
termination by (relation "measure (\<lambda>(ta, s, d, off, n, i). nat (n - i))") auto

declare blitBuffer_loop.simps [simp del]

text \<open>No index is below \<open>NaN\<close>.\<close>

definition blitBuffer :: "bool \<Rightarrow> int list \<Rightarrow> int list \<Rightarrow> int \<Rightarrow> int option \<Rightarrow> int list \<times> int" where
  "blitBuffer ta src dst offset length' =
     (case length' of None \<Rightarrow> (dst, 0) | Some n \<Rightarrow> blitBuffer_loop ta src dst offset n 0)"

definition blit_res :: "bool \<Rightarrow> int list res \<Rightarrow> int list \<Rightarrow> int \<Rightarrow> int option \<Rightarrow> int list \<times> int res" where
  "blit_res ta src dst offset length' =
     (case src of Inl e \<Rightarrow> (dst, Inl e)
      | Inr bs \<Rightarrow> (let (b, n) = blitBuffer ta bs dst offset length' in (b, Inr n)))"

definition utf8Write :: "bool \<Rightarrow> int list \<Rightarrow> jsstring \<Rightarrow> int \<Rightarrow> int option \<Rightarrow> int list \<times> int res" where
  "utf8Write ta buf string offset length' =
     blit_res ta (utf8ToBytes string (Some (int (length buf) - offset))) buf offset length'"

definition asciiWrite :: "bool \<Rightarrow> int list \<Rightarrow> jsstring \<Rightarrow> int \<Rightarrow> int option \<Rightarrow> int list \<times> int res" where
  "asciiWrite ta buf string offset length' = blit_res ta (Inr (asciiToBytes string)) buf offset length'"

definition binaryWrite :: "bool \<Rightarrow> int list \<Rightarrow> jsstring \<Rightarrow> int \<Rightarrow> int option \<Rightarrow> int list \<times> int res" where
  "binaryWrite ta buf string offset length' = asciiWrite ta buf string offset length'"

definition base64Write :: "bool \<Rightarrow> int list \<Rightarrow> jsstring \<Rightarrow> int \<Rightarrow> int option \<Rightarrow> int list \<times> int res" where
  "base64Write ta buf string offset length' = blit_res ta (base64ToBytes string) buf offset length'"

definition ucs2Write :: "bool \<Rightarrow> int list \<Rightarrow> jsstring \<Rightarrow> int \<Rightarrow> int option \<Rightarrow> int list \<times> int res" where
  "ucs2Write ta buf string offset length' =
     blit_res ta (Inr (utf16leToBytes string (Some (int (length buf) - offset)))) buf offset length'"

function write_loop :: "bool \<Rightarrow> int list \<Rightarrow> jsstring \<Rightarrow> int \<Rightarrow> int option \<Rightarrow> jsstring \<Rightarrow> bool \<Rightarrow> int list \<times> int res" where
  "write_loop ta this string offset length' encoding loweredCase =
     (let unknown = (if loweredCase then (this, Inl (TypeError ''Unknown encoding: ''))
                     else write_loop ta this string offset length' (toLowerCase encoding) True)
      in case switch_encoding encoding of
           Some Hex \<Rightarrow> hexWrite ta this string offset length'
         | Some Utf8 \<Rightarrow> utf8Write ta this string offset length'
         | Some Ascii \<Rightarrow> asciiWrite ta this string offset length'
         | Some Binary \<Rightarrow> binaryWrite ta this string offset length'
         | Some Base64 \<Rightarrow> base64Write ta this string offset length'
         | Some Ucs2 \<Rightarrow> ucs2Write ta this string offset length'
         | Some Raw \<Rightarrow> unknown
         | Some Raws \<Rightarrow> unknown
         | None \<Rightarrow> unknown)"
  by pat_completeness auto
termination by (relation "measure (\<lambda>(ta, b, s, off, n, e, l). if l then 0 else 1)") auto

declare write_loop.simps [simp del]

text \<open>
  How \<open>write\<close> tells its call forms apart: the encoding, the offset and the length, where
  the length stays \<open>undefined\<close> in the third form without a length.
\<close>

definition write_arguments :: "int \<Rightarrow> jsarg \<Rightarrow> jsarg \<Rightarrow> jsarg \<Rightarrow> jsarg \<times> int \<times> jsarg" where
  "write_arguments thisLen offset length' encoding =
     (if offset = AUndef then (AStr (jstr ''utf8''), 0, ANum thisLen)
      else if length' = AUndef \<and> (case offset of AStr _ \<Rightarrow> True | _ \<Rightarrow> False) then (offset, 0, ANum thisLen)
      else if isFinite offset then
        (if isFinite length' then
           (if encoding = AUndef then AStr (jstr ''utf8'') else encoding, arg_int32 offset, ANum (arg_int32 length'))
         else (length', arg_int32 offset, AUndef))
      else (offset, arg_int32 length', encoding))"

text \<open>\<open>if (!encoding) encoding = 'utf8'\<close>; a number other than 0 names no encoding.\<close>

definition write_encoding :: "jsarg \<Rightarrow> jsstring" where
  "write_encoding encoding =
     (case encoding of AUndef \<Rightarrow> jstr ''utf8'' | AStr s \<Rightarrow> if s = [] then jstr ''utf8'' else s
      | ANum n \<Rightarrow> if n = 0 then jstr ''utf8'' else jstr ''number'')"

definition buffer_write :: "bool \<Rightarrow> int list \<Rightarrow> jsstring \<Rightarrow> jsarg \<Rightarrow> jsarg \<Rightarrow> jsarg \<Rightarrow> int list \<times> int res" where
  "buffer_write ta this string offset length' encoding =
     (let (encoding, offset, length') = write_arguments (int (length this)) offset length' encoding;
          remaining = int (length this) - offset;
          length' = (case length' of AUndef \<Rightarrow> Some remaining | _ \<Rightarrow> arg_number length');
          length' = (case length' of None \<Rightarrow> None | Some n \<Rightarrow> if n > remaining then Some remaining else Some n)
      in if string \<noteq> [] \<and> ((case length' of None \<Rightarrow> False | Some n \<Rightarrow> n < 0) \<or> offset < 0) \<or> offset > int (length this)
         then (this, Inl (RangeError ''attempt to write outside buffer bounds''))
         else write_loop ta this string offset length' (write_encoding encoding) False)"

section \<open>Construction from strings and objects\<close>

definition fromString :: "bool \<Rightarrow> jsstring \<Rightarrow> jsarg \<Rightarrow> int list res" where
  "fromString ta string encoding =
     (let encoding = (case encoding of AStr e \<Rightarrow> if e = [] then jstr ''utf8'' else e | _ \<Rightarrow> jstr ''utf8'')
      in bind_res (byteLength string encoding) (\<lambda>n.
           case buffer_write ta (allocate (to_int32 n)) string (AStr encoding) AUndef AUndef of
             (that, Inl e) \<Rightarrow> Inl e | (that, Inr _) \<Rightarrow> Inr that))"

text \<open>The objects \<open>fromObject\<close> distinguishes.\<close>

datatype jsobject =
    OBuffer "int list"                       \<comment> \<open>\<open>Buffer.isBuffer\<close>\<close>
  | OArray "int option list"                 \<comment> \<open>an array, a typed array or something with a length\<close>
  | OArrayBuffer "int list"
  | ONull
  | OJson jsstring "int option list option"  \<comment> \<open>\<open>type\<close>, and \<open>data\<close> when it is an array\<close>

definition fromJsonObject :: "bool \<Rightarrow> jsstring \<Rightarrow> int option list option \<Rightarrow> int list res" where
  "fromJsonObject ta typ data =
     (case data of
        Some array \<Rightarrow> if typ = jstr ''Buffer'' then fromArray ta array else Inr (allocate 0)
      | None \<Rightarrow> Inr (allocate 0))"

definition fromArrayBuffer :: "bool \<Rightarrow> int list \<Rightarrow> int list res" where
  "fromArrayBuffer ta array = (if ta then Inr array else fromArray ta (map Some array))"

definition fromObject :: "bool \<Rightarrow> jsobject \<Rightarrow> int list res" where
  "fromObject ta object =
     (case object of
        OBuffer b \<Rightarrow> fromBuffer ta b
      | OArray a \<Rightarrow> fromArray ta a
      | ONull \<Rightarrow> Inl (TypeError ''must start with number, buffer, array or string'')
      | OArrayBuffer a \<Rightarrow> fromArrayBuffer ta a
      | OJson typ data \<Rightarrow> fromJsonObject ta typ data)"

definition toJSON :: "int list \<Rightarrow> jsobject" where
  "toJSON this = OJson (jstr ''Buffer'') (Some (map Some this))"

section \<open>Comparison is lexicographic\<close>

lemma compare_loop_Cons:
  "0 \<le> i \<Longrightarrow> compare_loop (x # a) (y # b) (i + 1) (len + 1) = compare_loop a b i len + 1"
proof (induction a b i len rule: compare_loop.induct)
  case (1 a b i len)
  have s: "at (x # a) (i + 1) = at a i" "at (y # b) (i + 1) = at b i"
    using "1.prems" by (simp_all add: at_def nat_add_distrib)
  show ?case
  proof (cases "i < len \<and> at a i = at b i")
    case True
    then have "compare_loop (x # a) (y # b) (i + 1) (len + 1) = compare_loop (x # a) (y # b) (i + 1 + 1) (len + 1)"
      by (subst compare_loop.simps) (simp add: s)
    also have "\<dots> = compare_loop a b (i + 1) len + 1" using True "1.prems" by (intro "1.IH") auto
    also have "compare_loop a b (i + 1) len = compare_loop a b i len"
      using True by (subst (2) compare_loop.simps) simp
    finally show ?thesis .
  next
    case False
    then show ?thesis by (subst (1 2) compare_loop.simps) (auto simp: s)
  qed
qed

lemma compare_loop_range: "i \<le> len \<Longrightarrow> i \<le> compare_loop a b i len \<and> compare_loop a b i len \<le> len"
proof (induction a b i len rule: compare_loop.induct)
  case (1 a b i len)
  then show ?case by (subst (1 2) compare_loop.simps) auto
qed

lemma buffer_compare_rec:
  "buffer_compare [] [] = 0" "buffer_compare [] (y # b) = - 1" "buffer_compare (x # a) [] = 1"
  "buffer_compare (x # a) (y # b) = (if x < y then - 1 else if y < x then 1 else buffer_compare a b)"
proof -
  show "buffer_compare [] [] = 0" "buffer_compare [] (y # b) = - 1" "buffer_compare (x # a) [] = 1"
    by (simp_all add: buffer_compare_def compare_loop.simps)
  define l where "l = min (int (length a)) (int (length b))"
  have l: "min (int (length (x # a))) (int (length (y # b))) = l + 1" "0 \<le> l" by (simp_all add: l_def)
  show "buffer_compare (x # a) (y # b) = (if x < y then - 1 else if y < x then 1 else buffer_compare a b)"
  proof (cases "x = y")
    case True
    define k where "k = compare_loop a b 0 l"
    have "compare_loop (x # a) (y # b) 0 (l + 1) = compare_loop (x # a) (y # b) (0 + 1) (l + 1)"
      using True l(2) by (subst compare_loop.simps) (simp add: at_def)
    also have "\<dots> = k + 1" unfolding k_def by (rule compare_loop_Cons) simp
    finally have "compare_loop (x # a) (y # b) 0 (l + 1) = k + 1" .
    moreover have "0 \<le> k" using compare_loop_range [of 0 l a b] l(2) by (simp add: k_def)
    moreover have "at (x # a) (k + 1) = at a k" "at (y # b) (k + 1) = at b k"
      using \<open>0 \<le> k\<close> by (simp_all add: at_def nat_add_distrib)
    ultimately show ?thesis
      using True unfolding buffer_compare_def l(1) l_def [symmetric] Let_def by (simp add: k_def)
  next
    case False
    have "compare_loop (x # a) (y # b) 0 (l + 1) = 0"
      using False l(2) by (subst compare_loop.simps) (simp add: at_def)
    then show ?thesis using False l(2) unfolding buffer_compare_def l(1) Let_def by (simp add: at_def)
  qed
qed

lemma buffer_compare_lex: "buffer_compare a b = (if a < b then - 1 else if b < a then 1 else 0)"
proof (induction a arbitrary: b)
  case Nil
  show ?case by (cases b) (simp_all add: buffer_compare_rec)
next
  case (Cons x a)
  then show ?case by (cases b) (auto simp: buffer_compare_rec)
qed

section \<open>Loops over a range of a buffer\<close>

lemma upto_int: "[0..int n - 1] = map int [0..<n]"
proof (induction n)
  case (Suc n)
  have "[0..int (Suc n) - 1] = [0..int n - 1] @ [int n]" using upto_rec2 [of 0 "int n"] by simp
  then show ?case using Suc by simp
qed simp

lemma overwrite_nth:
  assumes "off + length bs \<le> length b"
  shows "overwrite b off bs ! i = (if off \<le> i \<and> i < off + length bs then bs ! (i - off) else b ! i)"
  using assms by (auto simp: overwrite_def nth_append)

lemma stored_bytes: "is_bytes bs \<Longrightarrow> map (stored ta) bs = bs"
  by (induction bs) (auto simp: stored_def)

text \<open>Storing the elements of a list, from the first index up.\<close>

lemma fold_put_range:
  assumes "off + n \<le> length b"
  shows "fold (\<lambda>i b. put ta b (int off + i) (f i)) [0..int n - 1] b =
    overwrite b off (map (\<lambda>k. stored ta (f (int k))) [0..<n])"
  using fold_put_up [of "[]" 0 n off b ta "\<lambda>k. f (int k)"] assms
  by (simp add: upto_int fold_map o_def)

section \<open>\<open>copy\<close> moves the window\<close>

lemma copy_ascending_spec:
  assumes "is_bytes this" "same \<Longrightarrow> target = this" "same \<Longrightarrow> t \<le> s \<or> s + n \<le> t"
    "s + n \<le> length this" "t + n \<le> length target"
  shows "copy_ascending ta same this (int t) (int s) (int n) target = overwrite target t (take n (drop s this))"
proof -
  have "fold (copy_step ta same this (int t) (int s)) (map int [0..<k]) target = overwrite target t (take k (drop s this))"
    if "k \<le> n" for k
    using that
  proof (induction k)
    case (Suc k)
    let ?b = "overwrite target t (take k (drop s this))"
    have k: "s + k < length this" "t + k < length target" "length (take k (drop s this)) = k" using Suc.prems assms by auto
    have "at (if same then ?b else this) (int k + int s) = Some (this ! (s + k))"
    proof (cases same)
      case True
      then have "target = this" "t \<le> s \<or> s + n \<le> t" using assms by auto
      then have "?b ! (s + k) = this ! (s + k)" using k Suc.prems by (subst overwrite_nth) auto
      moreover have "s + k < length ?b" using k \<open>target = this\<close> by simp
      ultimately show ?thesis using at_in [of "s + k" ?b] True by (simp add: add.commute)
    qed (use k at_in [of "s + k" this] in \<open>simp add: add.commute\<close>)
    moreover have "stored ta (this ! (s + k)) = this ! (s + k)"
      using is_bytes_nth [OF assms(1) k(1)] by (simp add: stored_def)
    moreover have "take (Suc k) (drop s this) = take k (drop s this) @ [this ! (s + k)]"
      using k by (simp add: take_Suc_conv_app_nth)
    moreover have "put ta ?b (int k + int t) (this ! (s + k)) = overwrite target t (take k (drop s this) @ [stored ta (this ! (s + k))])"
      using put_overwrite_back [of t "take k (drop s this)" target ta "this ! (s + k)"] k by (simp add: add.commute)
    ultimately have "copy_step ta same this (int t) (int s) (int k) ?b = overwrite target t (take (Suc k) (drop s this))"
      by (simp only: copy_step_def bits_of_simps)
    then show ?case using Suc by simp
  qed simp
  then show ?thesis by (simp add: copy_ascending_def upto_int)
qed

lemma copy_descending_spec:
  assumes "is_bytes this" "same \<Longrightarrow> target = this" "s \<le> t" "s + n \<le> length this" "t + n \<le> length target"
  shows "copy_descending ta same this (int t) (int s) (int n) target = overwrite target t (take n (drop s this))"
proof -
  have "fold (copy_step ta same this (int t) (int s)) (rev (map int [n - k..<n])) target =
      overwrite target (t + (n - k)) (drop (n - k) (take n (drop s this)))" if "k \<le> n" for k
    using that
  proof (induction k)
    case (Suc k)
    let ?w = "take n (drop s this)"
    let ?b = "overwrite target (t + (n - k)) (drop (n - k) ?w)"
    define i where "i = n - Suc k"
    have i: "n - k = Suc i" "i < n" using Suc.prems by (auto simp: i_def)
    have w: "length ?w = n" "?w ! i = this ! (s + i)" using assms i by auto
    have l: "t + Suc i + length (drop (Suc i) ?w) \<le> length target" using w i assms by simp
    have "at (if same then ?b else this) (int i + int s) = Some (this ! (s + i))"
    proof (cases same)
      case True
      then have "?b ! (s + i) = this ! (s + i)" using l assms(2,3) unfolding i(1) by (subst overwrite_nth) auto
      moreover have "s + i < length ?b" using l True assms(2,4) i unfolding i(1) by simp
      ultimately show ?thesis using at_in [of "s + i" ?b] True by (simp add: add.commute)
    qed (use i assms at_in [of "s + i" this] in \<open>simp add: add.commute\<close>)
    moreover have "stored ta (this ! (s + i)) = this ! (s + i)"
      using is_bytes_nth [OF assms(1), of "s + i"] assms i by (simp add: stored_def)
    moreover have "drop i ?w = this ! (s + i) # drop (Suc i) ?w"
      using Cons_nth_drop_Suc [of i ?w] w i by simp
    moreover have "put ta (overwrite target (t + Suc i) (drop (Suc i) ?w)) (int i + int t) (this ! (s + i)) =
        overwrite target (t + i) (stored ta (this ! (s + i)) # drop (Suc i) ?w)"
      using put_overwrite_front [of "t + i" "drop (Suc i) ?w" target ta "this ! (s + i)"] l by (simp add: add.commute del: take_drop)
    ultimately have st: "copy_step ta same this (int t) (int s) (int i) ?b = overwrite target (t + i) (drop i ?w)"
      unfolding i(1) by (simp only: copy_step_def bits_of_simps)
    have r: "rev (map int [i..<n]) = rev (map int [Suc i..<n]) @ [int i]" using upt_conv_Cons [OF i(2)] by simp
    show ?case
      using Suc.IH Suc.prems st unfolding i_def [symmetric] i(1) r by simp
  qed (use assms in simp)
  from this [of n] show ?thesis by (simp add: copy_descending_def upto_int)
qed

text \<open>What a copy does, whichever loop it takes.\<close>

lemma copy_spec:
  assumes "is_bytes this" "same \<Longrightarrow> target = this" "target \<noteq> []"
    "0 \<le> t" "s < length this" "int s < e"
  defines "t' \<equiv> min (nat t) (length target)"
  defines "n \<equiv> min (min (nat e) (length this) - s) (length target - t')"
  shows "copy ta same this target (Some t) (Some (int s)) (Some e) = Inr (overwrite target t' (take n (drop s this)), int n)"
proof -
  have t': "(if t \<ge> int (length target) then int (length target) else t) = int t'"
    using assms(4) by (auto simp: t'_def)
  define e1 where "e1 = (if e > int (length this) then int (length this) else e)"
  define e2 where "e2 = (if int (length target) - int t' < e1 - int s then int (length target) - int t' + int s else e1)"
  have le: "t' \<le> length target" by (simp add: t'_def)
  have e2: "e2 = int s + int n"
    using assms(5,6) le by (auto simp: e2_def e1_def n_def min_def nat_le_iff)
  have n: "s + n \<le> length this" "t' + n \<le> length target" using assms(5) le by (auto simp: n_def)
  have nonempty: "this \<noteq> []" using assms(5) by auto
  have "copy ta same this target (Some t) (Some (int s)) (Some e) =
      Inr (copy_elements ta same this target (int t') (int s) (e2 - int s), e2 - int s)"
  proof -
    have "(if e > 0 \<and> e < int s then int s else e) = e" "e \<noteq> int s" "\<not> int t' < 0" "\<not> int s < 0" "\<not> e < 0"
      "\<not> int s \<ge> int (length this)" "\<not> (int (length target) = 0 \<or> int (length this) = 0)"
      using assms(3,5,6) nonempty by auto
    then show ?thesis
      by (simp only: copy_def Let_def option.case bits_of_simps t' e1_def [symmetric] e2_def [symmetric]
        if_False HOL.simp_thms)
  qed
  also have "e2 - int s = int n" by (simp add: e2)
  also have "copy_elements ta same this target (int t') (int s) (int n) = overwrite target t' (take n (drop s this))"
  proof (cases "same \<and> int s < int t' \<and> int t' < int s + int n")
    case True
    then show ?thesis using copy_descending_spec [of this same target s t' n ta] assms(1,2) n
      by (simp add: copy_elements_def)
  next
    case False
    then have "same \<Longrightarrow> t' \<le> s \<or> s + n \<le> t'" by auto
    then show ?thesis using copy_ascending_spec [of this same target t' s n ta] assms(1,2) n False
      by (auto simp: copy_elements_def typed_set_def js_slice_def drop_take nat_add_distrib)
  qed
  finally show ?thesis .
qed

section \<open>Concatenation\<close>

text \<open>\<open>splice b p xs\<close>: the elements of \<open>b\<close> from \<open>p\<close> replaced by \<open>xs\<close>, as far as they go.\<close>

definition splice :: "'a list \<Rightarrow> nat \<Rightarrow> 'a list \<Rightarrow> 'a list" where
  "splice b p xs = take (length b) (take p b @ xs @ drop (p + length xs) b)"

lemma length_splice [simp]: "length (splice b p xs) = length b"
  by (auto simp: splice_def)

lemma splice_nth: "i < length b \<Longrightarrow> splice b p xs ! i = (if p \<le> i \<and> i < p + length xs then xs ! (i - p) else b ! i)"
  by (auto simp: splice_def nth_append min_def)

lemma overwrite_splice:
  "p' = min p (length b) \<Longrightarrow> n = min (length xs) (length b - p') \<Longrightarrow> overwrite b p' (take n xs) = splice b p xs"
  by (rule nth_equalityI) (auto simp: overwrite_nth splice_nth min_def split: if_splits)

lemma splice_splice: "splice (splice b p xs) (p + length xs) ys = splice b p (xs @ ys)"
  by (rule nth_equalityI) (auto simp: splice_nth nth_append)

lemma copy_item:
  assumes "is_bytes item"
  shows "\<exists>n. copy ta False item buf (Some (int pos)) None None = Inr (splice buf pos item, n)"
proof (cases "item = [] \<or> buf = []")
  case True
  have "splice buf pos [] = buf" by (rule nth_equalityI) (auto simp: splice_nth)
  moreover have "splice [] pos item = []" by (simp add: splice_def)
  ultimately show ?thesis using True by (auto simp: copy_def Let_def)
next
  case False
  have d: "copy ta False item buf (Some (int pos)) None None = copy ta False item buf (Some (int pos)) (Some (int 0)) (Some (int (length item)))"
    by (simp add: copy_def)
  show ?thesis
    unfolding d using False assms copy_spec [of item False buf "int pos" 0 "int (length item)" ta]
      overwrite_splice [OF refl refl, of buf pos item] by simp
qed

lemma concat_loop_spec:
  "\<forall>b \<in> set list. is_bytes b \<Longrightarrow> concat_loop ta list buf (int pos) = Inr (splice buf pos (concat list))"
proof (induction list arbitrary: buf pos)
  case Nil
  have "splice buf pos [] = buf" by (rule nth_equalityI) (auto simp: splice_nth)
  then show ?case by simp
next
  case (Cons item list)
  from copy_item [of item ta buf pos] Cons.prems obtain n where
    c: "copy ta False item buf (Some (int pos)) None None = Inr (splice buf pos item, n)" by auto
  have "concat_loop ta list (splice buf pos item) (int (pos + length item)) =
      Inr (splice (splice buf pos item) (pos + length item) (concat list))"
    using Cons.prems by (intro Cons.IH) simp
  then show ?case by (simp add: c splice_splice)
qed

lemma fromNumber_ok: "0 \<le> n \<Longrightarrow> n < kMaxLength ta \<Longrightarrow> fromNumber ta n = Inr (replicate (nat n) 0)"
  using to_int32_id [of n] by (auto simp: fromNumber_def checked_def allocate_def kMaxLength_def split: if_splits)

lemma buffer_concat_spec:
  assumes "\<forall>b \<in> set list. is_bytes b" "n < kMaxLength ta" "0 \<le> n"
  shows "list \<noteq> [] \<Longrightarrow> buffer_concat ta list (Some n) = Inr (take (nat n) (concat list @ replicate (nat n) 0))"
    "n = int (length (concat list)) \<Longrightarrow> buffer_concat ta list None = Inr (concat list)"
proof -
  have s: "concat_loop ta list (replicate (nat n) 0) 0 = Inr (splice (replicate (nat n) 0) 0 (concat list))"
    using concat_loop_spec [OF assms(1), of ta "replicate (nat n) 0" 0] by simp
  have e: "splice (replicate (nat n) 0) 0 (concat list) = take (nat n) (concat list @ replicate (nat n) 0)"
    by (rule nth_equalityI) (auto simp: splice_nth nth_append)
  show "buffer_concat ta list (Some n) = Inr (take (nat n) (concat list @ replicate (nat n) 0))" if "list \<noteq> []"
    using that s e assms(2,3) by (simp add: buffer_concat_def fromNumber_ok)
  have l: "sum_list (map (\<lambda>b. int (length b)) list) = int (length (concat list))" by (induction list) simp_all
  show "buffer_concat ta list None = Inr (concat list)" if "n = int (length (concat list))"
  proof (cases "list = []")
    case True
    then show ?thesis by (simp add: buffer_concat_def fromNumber_ok kMaxLength_def)
  next
    case False
    have "n = sum_list (map (\<lambda>b. int (length b)) list)" "nat n = length (concat list)" using that l by simp_all
    then show ?thesis using s e assms(2,3) False by (simp add: buffer_concat_def fromNumber_ok)
  qed
qed

section \<open>Writing at an offset\<close>

lemma blitBuffer_loop_spec:
  assumes "off \<le> length dst" "k \<le> m" "m \<le> length src" "off + m \<le> length dst" "int m \<le> n"
    "int m = n \<or> m = length src \<or> off + m = length dst"
  shows "blitBuffer_loop ta src (overwrite dst off (map (stored ta) (take k src))) (int off) n (int k) =
     (overwrite dst off (map (stored ta) (take m src)), int m)"
  using assms(2)
proof (induction k rule: inc_induct)
  case base
  then show ?case using assms by (subst blitBuffer_loop.simps) (auto simp: min_def)
next
  case (step k)
  let ?b = "overwrite dst off (map (stored ta) (take k src))"
  have k: "length ?b = length dst" "int k < n" "int k + int off < int (length dst)" "int k < int (length src)"
    using step.hyps assms by auto
  have "put ta ?b (int k + int off) (src ! k) = overwrite dst off (map (stored ta) (take k src) @ [stored ta (src ! k)])"
    using put_overwrite_back [of off "map (stored ta) (take k src)" dst ta "src ! k"] step.hyps assms
    by (simp add: add.commute)
  also have "map (stored ta) (take k src) @ [stored ta (src ! k)] = map (stored ta) (take (Suc k) src)"
    using step.hyps assms by (simp add: take_Suc_conv_app_nth)
  finally have p: "put ta ?b (int k + int off) (src ! k) = overwrite dst off (map (stored ta) (take (Suc k) src))" .
  have "blitBuffer_loop ta src ?b (int off) n (int k) = blitBuffer_loop ta src
      (put ta ?b (int k + int off) (src ! k)) (int off) n (int k + 1)"
    using k by (subst blitBuffer_loop.simps) simp
  then show ?case using step.IH p by (simp add: add.commute)
qed

text \<open>The count of a blit: what fits into the length given, the source and the target.\<close>

lemma blitBuffer_spec:
  fixes src dst :: "int list"
  assumes "off \<le> length dst" "0 \<le> n"
  defines "m \<equiv> min (nat n) (min (length src) (length dst - off))"
  shows "blitBuffer ta src dst (int off) (Some n) = (overwrite dst off (map (stored ta) (take m src)), int m)"
  using blitBuffer_loop_spec [of off dst 0 m src n ta] assms
  by (auto simp: blitBuffer_def m_def min_def split: if_splits)

lemma blit_res_bytes:
  assumes "off \<le> length dst" "0 \<le> n" "is_bytes bs"
  defines "m \<equiv> min (nat n) (min (length bs) (length dst - off))"
  shows "blit_res ta (Inr bs) dst (int off) (Some n) = (overwrite dst off (take m bs), Inr (int m))"
  using blitBuffer_spec [OF assms(1,2), of ta bs] stored_bytes [of "take m bs" ta] is_bytes_take [OF assms(3), of m]
  by (auto simp: blit_res_def m_def simp flip: take_map)

lemma hexWrite_loop_frame:
  assumes "hexWrite_loop ta buf s (int off) n (int i) = (buf', r)"
  shows "length buf' = length buf \<and> (\<forall>j. j < off \<or> int off + n \<le> int j \<longrightarrow> buf' ! j = buf ! j) \<and>
    (\<forall>k. r = Inr k \<longrightarrow> k = max n (int i))"
  using assms
proof (induction ta buf s "int off" n "int i" arbitrary: i rule: hexWrite_loop.induct)
  case (1 ta buf s n)
  show ?case
  proof (cases "int i < n")
    case False
    then show ?thesis using "1.prems" by (subst (asm) hexWrite_loop.simps) auto
  next
    case True
    show ?thesis
    proof (cases "parseInt16 (js_slice s (int i * 2) (int i * 2 + 2))")
      case None
      then show ?thesis using "1.prems" True by (subst (asm) hexWrite_loop.simps) auto
    next
      case (Some v)
      have e: "hexWrite_loop ta (put ta buf (int off + int i) v) s (int off) n (int (Suc i)) = (buf', r)"
        using "1.prems" True Some by (subst (asm) hexWrite_loop.simps) (simp add: add.commute)
      have "int i + 1 = int (Suc i)" by simp
      note IH = "1.hyps" [OF True Some this e]
      have "put ta buf (int off + int i) v ! j = buf ! j" if "j < off \<or> int off + n \<le> int j" for j
        using that True by (auto simp: put_def nat_add_distrib nth_list_update)
      then show ?thesis using IH True by auto
    qed
  qed
qed

end
