(* ===== verification/BufferStrings.thy ===== *)
theory BufferStrings
  imports BufferOps
begin

text \<open>
  The correctness of \<open>Buffer\<close> as a container of text: what every encoding stores and
  shows, the contracts \<open>string_codec\<close> and \<open>byte_codec\<close> with their interpretations on
  the code's encodings, the window a write stays in, the occurrences a search finds, and the
  properties of \<open>BufferOps\<close>.
\<close>

section \<open>Strings into buffers and back\<close>

text \<open>The bytes an encoding gives for a string, without a limit.\<close>

fun encode_string :: "encoding \<Rightarrow> jsstring \<Rightarrow> int list res" where
  "encode_string Utf8 s = utf8ToBytes s None"
| "encode_string Ucs2 s = Inr (utf16leToBytes s None)"
| "encode_string Base64 s = base64ToBytes s"
| "encode_string _ s = Inr (asciiToBytes s)"

subsection \<open>The budget of bytes\<close>

lemma units_sub_None [simp]: "units_sub None n = None" "\<not> units_out None"
  by (simp_all add: units_sub_def units_out_def)

lemma units_Some [simp]: "units_sub (Some u) n = Some (u - n)" "units_out (Some u) \<longleftrightarrow> u < 0"
  by (simp_all add: units_sub_def units_out_def)

lemma utf8_emit_budget:
  assumes "utf8_emit None cp bs = Inr (Some (None, bs'))"
  shows "utf8_emit (Some u) cp bs =
     (let n = int (length bs' - length bs) in if u < n then Inr None else Inr (Some (Some (u - n), bs')))"
    "\<exists>x. bs' = bs @ x"
  using assms by (auto simp: utf8_emit_def Let_def split: if_splits)

lemma utf8_emit_no_budget: "utf8_emit None cp bs \<noteq> Inr None"
  "utf8_emit None cp bs = Inr (Some (u, bs')) \<Longrightarrow> u = None"
  by (auto simp: utf8_emit_def Let_def split: if_splits)

lemma utf8_replace_None [simp]: "utf8_replace None bs = bs @ [0xEF, 0xBF, 0xBD]"
  by (simp add: utf8_replace_def)

definition utf8_then :: "jsstring \<Rightarrow> int option \<Rightarrow> int \<Rightarrow> int list \<Rightarrow> int list res" where
  "utf8_then rest units c b = (case utf8_emit units c b of Inl e \<Rightarrow> Inl e | Inr None \<Rightarrow> Inr b
    | Inr (Some (units, b)) \<Rightarrow> utf8_loop rest units None b)"

text \<open>The equations of the loop, by the kind of unit and the lead before it.\<close>

lemma utf8_loop_cases:
  "cp \<le> 0xD7FF \<or> 0xE000 \<le> cp \<Longrightarrow> utf8_loop (cp # rest) units None bs = utf8_then rest units cp bs"
  "cp \<le> 0xD7FF \<or> 0xE000 \<le> cp \<Longrightarrow> utf8_loop (cp # rest) units (Some l) bs =
     utf8_then rest (units_sub units 3) cp (utf8_replace (units_sub units 3) bs)"
  "0xD7FF < cp \<Longrightarrow> cp < 0xE000 \<Longrightarrow> 0xDBFF < cp \<or> rest = [] \<Longrightarrow> utf8_loop (cp # rest) units None bs =
     utf8_loop rest (units_sub units 3) None (utf8_replace (units_sub units 3) bs)"
  "0xD7FF < cp \<Longrightarrow> cp \<le> 0xDBFF \<Longrightarrow> rest \<noteq> [] \<Longrightarrow> utf8_loop (cp # rest) units None bs =
     utf8_loop rest units (Some cp) bs"
  "0xD7FF < cp \<Longrightarrow> cp < 0xDC00 \<Longrightarrow> utf8_loop (cp # rest) units (Some l) bs =
     utf8_loop rest (units_sub units 3) (Some cp) (utf8_replace (units_sub units 3) bs)"
  "0xDC00 \<le> cp \<Longrightarrow> cp < 0xE000 \<Longrightarrow> utf8_loop (cp # rest) units (Some l) bs =
     utf8_then rest units (js_or (js_or (js_shl (l - 0xD800) 10) (cp - 0xDC00)) 0x10000) bs"
  by (auto simp: utf8_then_def Let_def)

lemma utf8_loop_budget:
  "utf8_loop s None lead bs = Inr out \<Longrightarrow> (\<exists>x. out = bs @ x) \<and>
     (\<forall>u. int (length out) \<le> u + int (length bs) \<longrightarrow> utf8_loop s (Some u) lead bs = Inr out)"
proof (induction s arbitrary: lead bs out)
  case (Cons cp rest)
  note IH = Cons.IH
  let ?ok = "\<lambda>b f. (\<exists>x. out = b @ x) \<and> (\<forall>u. int (length out) \<le> u + int (length b) \<longrightarrow> f (Some u) = Inr out)"
  let ?rep = "bs @ [0xEF, 0xBF, 0xBD]"
  have enc: "?ok b (\<lambda>u. utf8_then rest u c b)" if e: "utf8_then rest None c b = Inr out" for b c
  proof -
    from e utf8_emit_no_budget [of c b] obtain b' where
      b: "utf8_emit None c b = Inr (Some (None, b'))" "utf8_loop rest None None b' = Inr out"
      by (cases "utf8_emit None c b") (auto simp: utf8_then_def split: option.splits)
    obtain y where y: "b' = b @ y" using utf8_emit_budget(2) [OF b(1)] by auto
    note i = IH [OF b(2)]
    then obtain x where x: "out = b' @ x" by auto
    have "utf8_then rest (Some u) c b = Inr out" if "int (length out) \<le> u + int (length b)" for u
      using utf8_emit_budget(1) [OF b(1), of u] that i x y by (simp add: Let_def utf8_then_def)
    then show ?thesis using x y by simp
  qed
  have rep: "?ok bs (\<lambda>u. f (units_sub u 3) (utf8_replace (units_sub u 3) bs))" if r: "?ok ?rep (\<lambda>u. f u ?rep)" for f
  proof -
    obtain x where x: "out = ?rep @ x" using r by auto
    have "f (Some (u - 3)) (utf8_replace (Some (u - 3)) bs) = Inr out" if u: "int (length out) \<le> u + int (length bs)" for u
    proof -
      have "\<not> u - 3 < 0" using u x by simp
      then have "utf8_replace (Some (u - 3)) bs = ?rep" by (simp add: utf8_replace_def)
      then show ?thesis using r u x by simp
    qed
    then show ?thesis using x by simp
  qed
  note P = Cons.prems
  consider (plain) "cp \<le> 0xD7FF \<or> 0xE000 \<le> cp" "lead = None"
    | (plain_lead) l where "cp \<le> 0xD7FF \<or> 0xE000 \<le> cp" "lead = Some l"
    | (alone) "0xD7FF < cp" "cp < 0xE000" "0xDBFF < cp \<or> rest = []" "lead = None"
    | (lead) "0xD7FF < cp" "cp \<le> 0xDBFF" "rest \<noteq> []" "lead = None"
    | (leads) l where "0xD7FF < cp" "cp < 0xDC00" "lead = Some l"
    | (pair) l where "0xDC00 \<le> cp" "cp < 0xE000" "lead = Some l"
    by (cases lead) force+
  then show ?case
  proof cases
    case plain
    show ?thesis using enc [of cp bs] P unfolding plain(2) utf8_loop_cases(1) [OF plain(1)] by simp
  next
    case (plain_lead l)
    show ?thesis using rep [of "\<lambda>u b. utf8_then rest u cp b"] enc [of cp ?rep] P
      unfolding plain_lead(2) utf8_loop_cases(2) [OF plain_lead(1)] by simp
  next
    case alone
    show ?thesis using rep [of "\<lambda>u b. utf8_loop rest u None b"] IH [of None ?rep out] P
      unfolding alone(4) utf8_loop_cases(3) [OF alone(1-3)] by simp
  next
    case lead
    show ?thesis using IH [of "Some cp" bs out] P
      unfolding lead(4) utf8_loop_cases(4) [OF lead(1-3)] by simp
  next
    case (leads l)
    show ?thesis using rep [of "\<lambda>u b. utf8_loop rest u (Some cp) b"] IH [of "Some cp" ?rep out] P
      unfolding leads(3) utf8_loop_cases(5) [OF leads(1-2)] by simp
  next
    case (pair l)
    show ?thesis using enc P unfolding pair(3) utf8_loop_cases(6) [OF pair(1-2)] by blast
  qed
qed simp

subsection \<open>What each encoding stores\<close>

lemma utf16leToBytes_spec:
  assumes "\<forall>c \<in> set s. 0 \<le> c \<and> c < 65536" "case u of None \<Rightarrow> True | Some n \<Rightarrow> 2 * int (length s) \<le> n"
  shows "utf16leToBytes s u = concat (map (\<lambda>c. [c mod 256, c div 256]) s)"
proof -
  have "utf16le_loop s u bs = bs @ concat (map (\<lambda>c. [c mod 256, c div 256]) s)" for bs
    using assms
  proof (induction s arbitrary: u bs)
    case (Cons c s)
    have "js_shr c 8 = c div 256" using Cons.prems js_shr_div [of c 8] by simp
    moreover have "\<not> units_out (units_sub u 2)" using Cons.prems by (auto split: option.splits)
    moreover have "case units_sub u 2 of None \<Rightarrow> True | Some n \<Rightarrow> 2 * int (length s) \<le> n"
      using Cons.prems(2) by (cases u) auto
    ultimately show ?case using Cons by (simp add: Let_def)
  qed simp
  then show ?thesis by (simp add: utf16leToBytes_def)
qed

lemma utf16le_units_bytes:
  "\<forall>c \<in> set s. 0 \<le> c \<and> c < 65536 \<Longrightarrow> utf16le_units (concat (map (\<lambda>c. [c mod 256, c div 256]) s)) = s"
  by (induction s) simp_all

lemma bytes_utf16le: "\<forall>c \<in> set s. 0 \<le> c \<and> c < 65536 \<Longrightarrow> is_bytes (concat (map (\<lambda>c. [c mod 256, c div 256]) s))"
  by (induction s) auto

lemma length_utf16le: "length (concat (map (\<lambda>c. [c mod 256, c div 256]) (s :: int list))) = 2 * length s"
  by (induction s) simp_all

lemma utf16le_units_inverse:
  "is_bytes b \<Longrightarrow> even (length b) \<Longrightarrow> concat (map (\<lambda>c. [c mod 256, c div 256]) (utf16le_units b)) = b \<and>
     (\<forall>c \<in> set (utf16le_units b). 0 \<le> c \<and> c < 65536) \<and> 2 * length (utf16le_units b) = length b"
proof (induction b rule: utf16le_units.induct)
  case (1 lo hi bytes)
  have r: "0 \<le> lo" "lo < 256" "0 \<le> hi" "hi < 256" using "1.prems"(1) by simp_all
  have "lo + hi * 256 = 256 * hi + lo" by simp
  note d = div_mod_unique [OF this r(1,2)]
  have "0 \<le> lo + hi * 256" "lo + hi * 256 < 65536" using r by linarith+
  then show ?case using 1 d by simp
qed simp_all

lemma asciiToBytes_id: "is_bytes s \<Longrightarrow> asciiToBytes s = s"
  unfolding asciiToBytes_def js_and_byte is_bytes_def by (intro map_idI mod_pos_pos_trivial) auto

subsection \<open>What each encoding shows\<close>

lemma range_concat_all: "range_concat (\<lambda>i. f (bits_of (at b i))) 0 (int (length b)) = concat (map f b)"
proof -
  have "map (\<lambda>i. f (bits_of (at b i))) (map int [0..<length b]) = map (\<lambda>i. f (b ! i)) [0..<length b]"
    by simp
  also have "\<dots> = map f b" by (rule nth_equalityI) simp_all
  finally show ?thesis by (simp add: range_concat_def upto_int)
qed

lemma fromCharCode_bytes: "is_bytes b \<Longrightarrow> fromCharCode b = b"
  by (auto simp: fromCharCode_def is_bytes_def intro!: map_idI)

lemma binarySlice_all: "is_bytes b \<Longrightarrow> binarySlice b 0 (int (length b)) = b"
proof -
  assume b: "is_bytes b"
  have "binarySlice b 0 (int (length b)) = concat (map (\<lambda>c. fromCharCode [c]) b)"
    unfolding binarySlice_def using range_concat_all [of "\<lambda>c. fromCharCode [c]" b] by simp
  also have "\<dots> = fromCharCode b" by (induction b) (simp_all add: fromCharCode_def)
  finally show ?thesis using fromCharCode_bytes [OF b] by simp
qed

lemma asciiSlice_all: "asciiSlice b 0 (int (length b)) = map (\<lambda>c. c mod 128) b"
proof -
  have "asciiSlice b 0 (int (length b)) = concat (map (\<lambda>c. fromCharCode [js_and c 0x7F]) b)"
    unfolding asciiSlice_def using range_concat_all [of "\<lambda>c. fromCharCode [js_and c 0x7F]" b] by simp
  also have "\<dots> = map (\<lambda>c. c mod 128) b"
  proof (induction b)
    case (Cons c b)
    have "0 \<le> c mod 128" "c mod 128 < 128" by simp_all
    then have "c mod 128 mod 65536 = c mod 128" by (intro mod_pos_pos_trivial) linarith+
    then show ?case using Cons by (simp add: fromCharCode_def js_ops)
  qed simp
  finally show ?thesis .
qed

lemma hexSlice_all: "hexSlice b (Some 0) (Some (int (length b))) = concat (map toHex b)"
  using range_concat_all [of toHex b] by (simp add: hexSlice_def Let_def)

lemma js_slice_all: "js_slice b 0 (int (length b)) = b"
  by (simp add: js_slice_def)

lemma slice_all:
  assumes "length b < 2 ^ 31"
  shows "slice b (Some 0) (Some (int (length b))) = b"
  using assms to_int32_id [of "int (length b)"] to_int32_id [of 0]
  by (simp add: slice_def slice_bounds_def clamp_bound_def Let_def js_slice_all)

text \<open>The string an encoding shows for a whole buffer.\<close>

fun decode_bytes :: "encoding \<Rightarrow> int list \<Rightarrow> jsstring" where
  "decode_bytes Hex b = concat (map toHex b)"
| "decode_bytes Utf8 b = utf8Slice b 0 (int (length b))"
| "decode_bytes Ascii b = map (\<lambda>c. c mod 128) b"
| "decode_bytes Binary b = b"
| "decode_bytes Base64 b = b64_spec b"
| "decode_bytes Ucs2 b = fromCharCode (utf16le_units b)"
| "decode_bytes _ b = []"

subsection \<open>Encodings in any case of letters\<close>

lemma toLowerCase_idem [simp]: "toLowerCase (toLowerCase s) = toLowerCase s"
  by (simp add: toLowerCase_def)

lemma switch_encoding_lower: "switch_encoding s = Some e \<Longrightarrow> toLowerCase s = s"
proof -
  assume "switch_encoding s = Some e"
  then have "(s, e) \<in> set encoding_names" unfolding switch_encoding_def by (rule map_of_SomeD)
  moreover have "\<forall>p \<in> set encoding_names. toLowerCase (fst p) = fst p"
    by (simp add: encoding_names_def toLowerCase_def)
  ultimately show ?thesis by fastforce
qed

lemma switch_encoding_known:
  assumes "switch_encoding (toLowerCase name) = Some e"
  shows "switch_encoding name = Some e \<and> toLowerCase name = name \<or> switch_encoding name = None"
  using assms switch_encoding_lower [of name] by (cases "switch_encoding name") auto

lemma loops_lower:
  "switch_encoding name = None \<Longrightarrow> byteLength_loop s name False = byteLength_loop s (toLowerCase name) True"
  "switch_encoding name = None \<Longrightarrow> write_loop ta b s off n name False = write_loop ta b s off n (toLowerCase name) True"
  "switch_encoding name = None \<Longrightarrow> slowToString_loop b name start end' False = slowToString_loop b (toLowerCase name) start end' True"
  by (simp_all add: byteLength_loop.simps [of s name] write_loop.simps [of _ _ _ _ _ name] slowToString_loop.simps [of _ name])

lemma loops_known:
  assumes "switch_encoding name = Some e" "e \<noteq> Raw" "e \<noteq> Raws"
  shows "byteLength_loop s name False = byteLength_loop s name True"
    "write_loop ta b s off n name False = write_loop ta b s off n name True"
    "slowToString_loop b name start end' False = slowToString_loop b name start end' True"
  using assms by (cases e; simp add: Let_def byteLength_loop.simps write_loop.simps slowToString_loop.simps)+

lemma loops_resolve:
  assumes "switch_encoding (toLowerCase name) = Some e" "e \<noteq> Raw" "e \<noteq> Raws"
  shows "byteLength_loop s name False = byteLength_loop s (toLowerCase name) True"
    "write_loop ta b s off n name False = write_loop ta b s off n (toLowerCase name) True"
    "slowToString_loop b name start end' False = slowToString_loop b (toLowerCase name) start end' True"
  using switch_encoding_known [OF assms(1)] loops_lower [of name] loops_known [of name e] assms(2,3) by auto

lemma toString_known:
  assumes "switch_encoding (toLowerCase name) = Some e" "e \<noteq> Raw" "e \<noteq> Raws" "is_bytes b" "length b < 2 ^ 31"
  shows "toString b (Some name) None None = Inr (decode_bytes e b)"
proof (cases "b = []")
  case True
  have "utf8Slice [] 0 0 = []" by (simp add: utf8Slice_def utf8_slice_loop.simps decodeCodePointsArray_spec fromCharCode_def)
  then show ?thesis using True by (cases e) (simp_all add: toString_def fromCharCode_def)
next
  case False
  have "name \<noteq> []" using assms(1) by (auto simp: switch_encoding_def encoding_names_def toLowerCase_def)
  then have "toString b (Some name) None None = slowToString_loop b (toLowerCase name) 0 (int (length b)) True"
    using False loops_resolve(3) [OF assms(1-3)] to_int32_id [of 0]
    by (simp add: toString_def slowToString_def Let_def)
  also have "\<dots> = Inr (decode_bytes e b)"
    using assms by (subst slowToString_loop.simps)
      (cases e; simp add: hexSlice_all asciiSlice_all binarySlice_all base64Slice_def uint8ToBase64_spec utf16leSlice_def slice_all)
  finally show ?thesis .
qed

subsection \<open>Base64 text is kept by the cleaning\<close>

lemma sextet_valid: "0 \<le> k \<Longrightarrow> k < 64 \<Longrightarrow> valid_base64_char (sextet k)"
proof -
  assume k: "0 \<le> k" "k < 64"
  have "list_all valid_base64_char lookup" by (simp add: lookup_def valid_base64_char_def)
  moreover have "length lookup = 64" by (simp add: lookup_def)
  then have "sextet k \<in> set lookup" unfolding sextet_def using k by (intro nth_mem) simp
  ultimately show ?thesis by (simp add: list_all_iff)
qed

lemma sextet_args:
  fixes a b c :: int
  assumes "0 \<le> a" "a < 256" "0 \<le> b" "b < 256" "0 \<le> c" "c < 256"
  shows "0 \<le> a div 4" "a div 4 < 64" "0 \<le> a mod 4 * 16 + b div 16" "a mod 4 * 16 + b div 16 < 64"
    "0 \<le> b mod 16 * 4 + c div 64" "b mod 16 * 4 + c div 64 < 64" "0 \<le> c mod 64" "c mod 64 < 64"
    "0 \<le> a mod 4 * 16" "a mod 4 * 16 < 64" "0 \<le> b mod 16 * 4" "b mod 16 * 4 < 64"
proof -
  have m: "0 \<le> a mod 4" "a mod 4 < 4" "0 \<le> b mod 16" "b mod 16 < 16" "0 \<le> c mod 64" "c mod 64 < 64" by simp_all
  have d: "0 \<le> a div 4" "a div 4 < 64" "0 \<le> b div 16" "b div 16 < 16" "0 \<le> c div 64" "c div 64 < 4"
    using assms by (simp_all add: pos_imp_zdiv_nonneg_iff div_less_iff_less_mult)
  show "0 \<le> a div 4" "a div 4 < 64" "0 \<le> a mod 4 * 16 + b div 16" "a mod 4 * 16 + b div 16 < 64"
    "0 \<le> b mod 16 * 4 + c div 64" "b mod 16 * 4 + c div 64 < 64" "0 \<le> c mod 64" "c mod 64 < 64"
    "0 \<le> a mod 4 * 16" "a mod 4 * 16 < 64" "0 \<le> b mod 16 * 4" "b mod 16 * 4 < 64"
    using m d by linarith+
qed

text \<open>The text without its padding, and the padding.\<close>

lemma b64_spec_core:
  "is_bytes xs \<Longrightarrow> \<exists>core n. b64_spec xs = core @ replicate n 61 \<and> list_all valid_base64_char core \<and> n < 3 \<and>
     (length core + n) mod 4 = 0 \<and> (xs \<noteq> [] \<longrightarrow> 2 \<le> length core)"
proof (induction xs rule: b64_spec.induct)
  case (1 a b c xs)
  then obtain core n where c: "b64_spec xs = core @ replicate n 61" "list_all valid_base64_char core" "n < 3"
    "(length core + n) mod 4 = 0" by auto
  have r: "0 \<le> a" "a < 256" "0 \<le> b" "b < 256" "0 \<le> c" "c < 256" using "1.prems" by simp_all
  let ?g = "[sextet (a div 4), sextet (a mod 4 * 16 + b div 16), sextet (b mod 16 * 4 + c div 64), sextet (c mod 64)]"
  have 1: "b64_spec (a # b # c # xs) = (?g @ core) @ replicate n 61" using c(1) by simp
  have 2: "list_all valid_base64_char (?g @ core)" by (simp add: sextet_valid sextet_args [OF r] c(2))
  have "length (?g @ core) + n = (length core + n) + 4" by simp
  then have 3: "(length (?g @ core) + n) mod 4 = 0" by (simp only: mod_add_self2 c(4))
  have 4: "a # b # c # xs \<noteq> [] \<longrightarrow> 2 \<le> length (?g @ core)" by simp
  show ?case by (intro exI conjI) (rule 1, rule 2, rule c(3), rule 3, rule 4)
next
  case (2 a b)
  then have r: "0 \<le> a" "a < 256" "0 \<le> b" "b < 256" by simp_all
  show ?case
    by (intro exI [of _ "[sextet (a div 4), sextet (a mod 4 * 16 + b div 16), sextet (b mod 16 * 4)]"] exI [of _ 1])
      (simp add: sextet_valid sextet_args [OF r, of 0])
next
  case (3 a)
  then have r: "0 \<le> a" "a < 256" by simp_all
  show ?case
    by (intro exI [of _ "[sextet (a div 4), sextet (a mod 4 * 16)]"] exI [of _ 2])
      (simp add: sextet_valid sextet_args [OF r, of 0 0] numeral_2_eq_2)
qed simp

lemma valid_not_space: "valid_base64_char c \<or> c = 61 \<Longrightarrow> \<not> is_trim_space c"
  by (auto simp: valid_base64_char_def is_trim_space_def)

lemma stringtrim_id: "list_all (\<lambda>c. \<not> is_trim_space c) s \<Longrightarrow> stringtrim s = s"
proof -
  assume "list_all (\<lambda>c. \<not> is_trim_space c) s"
  then have "\<forall>c \<in> set s. \<not> is_trim_space c" by (simp add: list_all_iff)
  then have "dropWhile is_trim_space s = s" "dropWhile is_trim_space (rev s) = rev s"
    unfolding dropWhile_eq_self_iff by (metis hd_in_set, metis hd_in_set set_rev)
  then show ?thesis by (simp add: stringtrim_def)
qed

lemma base64_pad_core: "n < 4 \<Longrightarrow> (length core + n) mod 4 = 0 \<Longrightarrow> base64_pad core = core @ replicate n 61"
proof (induction n arbitrary: core)
  case 0
  then show ?case by (simp add: base64_pad.simps)
next
  case (Suc n)
  then have "length core mod 4 \<noteq> 0" by presburger
  then have "base64_pad core = base64_pad (core @ [61])" by (subst base64_pad.simps) simp
  also have "\<dots> = (core @ [61]) @ replicate n 61" using Suc by (intro Suc.IH) simp_all
  finally show ?case by simp
qed

lemma base64clean_text:
  assumes "is_bytes xs"
  shows "base64clean (b64_spec xs) = b64_spec xs"
proof (cases "xs = []")
  case True
  then show ?thesis by (simp add: base64clean_def stringtrim_def)
next
  case False
  with b64_spec_core [OF assms] obtain core n where c: "b64_spec xs = core @ replicate n 61"
    "list_all valid_base64_char core" "n < 3" "(length core + n) mod 4 = 0" "2 \<le> length core" by auto
  have "list_all (\<lambda>c. \<not> is_trim_space c) (core @ replicate n 61)"
    using c(2) valid_not_space by (auto simp: list_all_iff)
  moreover have "filter valid_base64_char (core @ replicate n 61) = core"
    using c(2) by (simp add: list_all_iff valid_base64_char_def [of 61])
  ultimately show ?thesis using c base64_pad_core [of n core] by (simp add: base64clean_def stringtrim_id Let_def)
qed

lemma base64ToBytes_text: "is_bytes xs \<Longrightarrow> base64ToBytes (b64_spec xs) = Inr xs"
  by (simp add: base64ToBytes_def base64clean_text b64ToByteArray_spec)

subsection \<open>Constructing a buffer from a string\<close>

definition code_units :: "jsstring \<Rightarrow> bool" where
  "code_units s \<longleftrightarrow> (\<forall>c \<in> set s. 0 \<le> c \<and> c < 65536)"

lemma write_all:
  assumes "switch_encoding (toLowerCase name) = Some e" "e \<noteq> Raw" "e \<noteq> Raws"
  shows "buffer_write ta (replicate n 0) s (AStr name) AUndef AUndef =
    write_loop ta (replicate n 0) s 0 (Some (int n)) (toLowerCase name) True"
proof -
  have "name \<noteq> []" using assms(1) by (auto simp: switch_encoding_def encoding_names_def toLowerCase_def)
  then show ?thesis
    using loops_resolve(2) [OF assms]
    by (simp add: buffer_write_def write_arguments_def write_encoding_def arg_number_def)
qed

lemma blit_all: "is_bytes bs \<Longrightarrow> blit_res ta (Inr bs) (replicate (length bs) 0) 0 (Some (int (length bs))) = (bs, Inr (int (length bs)))"
  using blit_res_bytes [of 0 "replicate (length bs) 0" "int (length bs)" bs ta] by (simp add: overwrite_def)

lemma budgets:
  assumes "code_units s" "encode_string e s = Inr bs"
  shows "e = Utf8 \<Longrightarrow> utf8ToBytes s (Some (int (length bs))) = Inr bs"
    "e = Ucs2 \<Longrightarrow> utf16leToBytes s (Some (int (length bs))) = bs \<and> length bs = 2 * length s"
proof -
  show "utf8ToBytes s (Some (int (length bs))) = Inr bs" if "e = Utf8"
    using assms(2) that utf8_loop_budget [of s None "[]" bs] by (auto simp: utf8ToBytes_def)
  have u: "\<forall>c \<in> set s. 0 \<le> c \<and> c < 65536" using assms(1) by (simp add: code_units_def)
  show "utf16leToBytes s (Some (int (length bs))) = bs \<and> length bs = 2 * length s" if "e = Ucs2"
    using assms(2) that utf16leToBytes_spec [OF u] length_utf16le [of s] by auto
qed

lemma byteLength_known:
  assumes "switch_encoding (toLowerCase name) = Some e" "e \<in> {Utf8, Ucs2, Ascii, Binary, Base64}"
    "code_units s" "encode_string e s = Inr bs"
  shows "byteLength s name = Inr (int (length bs))"
proof (cases "s = []")
  case True
  have "base64ToBytes [] = Inr []" using base64ToBytes_text [of "[]"] by simp
  then have "bs = []" using True assms(2,4) by (auto simp: utf8ToBytes_def utf16leToBytes_def asciiToBytes_def)
  then show ?thesis using True by (simp add: byteLength_def)
next
  case False
  have "byteLength s name = byteLength_loop s (toLowerCase name) True"
    using False loops_resolve(1) [OF assms(1)] assms(2) by (auto simp: byteLength_def)
  also have "\<dots> = Inr (int (length bs))"
    using assms budgets(2) [OF assms(3,4)]
    by (subst byteLength_loop.simps) (auto simp: Let_def asciiToBytes_def)
  finally show ?thesis .
qed

lemma fromString_known:
  assumes "switch_encoding (toLowerCase name) = Some e" "e \<in> {Utf8, Ucs2, Ascii, Binary, Base64}"
    "code_units s" "encode_string e s = Inr bs" "is_bytes bs" "length bs < 2 ^ 31"
  shows "fromString ta s (AStr name) = Inr bs"
proof -
  have e: "e \<noteq> Raw" "e \<noteq> Raws" using assms(2) by auto
  have n: "name \<noteq> []" using assms(1) by (auto simp: switch_encoding_def encoding_names_def toLowerCase_def)
  have "buffer_write ta (replicate (length bs) 0) s (AStr name) AUndef AUndef = (bs, Inr (int (length bs)))"
    unfolding write_all [OF assms(1) e]
    using assms(1,2,4) budgets [OF assms(3,4)] blit_all [OF assms(5), of ta]
    by (subst write_loop.simps)
      (auto simp: utf8Write_def ucs2Write_def asciiWrite_def binaryWrite_def base64Write_def)
  then show ?thesis
    using byteLength_known [OF assms(1-4)] n to_int32_id [of "int (length bs)"] assms(6)
    by (simp add: fromString_def allocate_def)
qed

subsection \<open>Hexadecimal text\<close>

fun hex_text :: "jsstring \<Rightarrow> bool" where
  "hex_text (a # b # s) = (hex_value a \<noteq> None \<and> hex_value b \<noteq> None \<and> hex_text s)"
| "hex_text [] = True"
| "hex_text [a] = False"

fun hex_bytes :: "jsstring \<Rightarrow> int list" where
  "hex_bytes (a # b # s) = (the (hex_value a) * 16 + the (hex_value b)) # hex_bytes s"
| "hex_bytes _ = []"

lemma hex_value_range: "hex_value c = Some d \<Longrightarrow> 0 \<le> d \<and> d < 16"
  by (auto simp: hex_value_def split: if_splits)

lemma hex_value_digit: "hex_value c = Some d \<Longrightarrow> hex_digit d = (if 65 \<le> c \<and> c \<le> 70 then c + 32 else c)"
  by (auto simp: hex_value_def hex_digit_def split: if_splits)

lemma hex_value_inverse: "0 \<le> d \<Longrightarrow> d < 16 \<Longrightarrow> hex_value (hex_digit d) = Some d"
  by (auto simp: hex_value_def hex_digit_def)

lemma parseInt16_pair:
  assumes "hex_value a = Some x" "hex_value b = Some y"
  shows "parseInt16 [a, b] = Some (x * 16 + y)"
proof -
  have "\<not> is_trim_space a" "a \<noteq> 45" "a \<noteq> 43" "b \<noteq> 120" "b \<noteq> 88"
    using assms by (auto simp: is_trim_space_def hex_value_def split: if_splits)
  then show ?thesis using assms by (simp add: parseInt16_def)
qed

lemma hex_text_split: "hex_text s \<Longrightarrow> 2 * k < length s \<Longrightarrow>
   Suc (2 * k) < length s \<and> hex_value (s ! (2 * k)) \<noteq> None \<and> hex_value (s ! Suc (2 * k)) \<noteq> None \<and>
   k < length (hex_bytes s) \<and> hex_bytes s ! k = the (hex_value (s ! (2 * k))) * 16 + the (hex_value (s ! Suc (2 * k)))"
proof (induction s arbitrary: k rule: hex_text.induct)
  case (1 a b s)
  then show ?case by (cases k) auto
qed auto

lemma length_hex_bytes: "hex_text s \<Longrightarrow> 2 * length (hex_bytes s) = length s"
  by (induction s rule: hex_text.induct) auto

lemma is_bytes_hex: "hex_text s \<Longrightarrow> is_bytes (hex_bytes s)"
proof (induction s rule: hex_text.induct)
  case (1 a b s)
  then obtain x y where "hex_value a = Some x" "hex_value b = Some y" by auto
  then show ?case using 1 hex_value_range [of a x] hex_value_range [of b y] by simp
qed simp_all

lemma hexWrite_loop_text:
  assumes "hex_text s" "k \<le> m" "m = length (hex_bytes s)" "m = length b"
  shows "hexWrite_loop ta (overwrite b 0 (take k (hex_bytes s))) s 0 (int m) (int k) = (overwrite b 0 (hex_bytes s), Inr (int m))"
  using assms(2)
proof (induction k rule: inc_induct)
  case base
  then show ?case using assms by (subst hexWrite_loop.simps) simp
next
  case (step k)
  have k: "2 * k < length s" using step.hyps assms(3) length_hex_bytes [OF assms(1)] by simp
  note sp = hex_text_split [OF assms(1) k]
  then obtain x y where xy: "hex_value (s ! (2 * k)) = Some x" "hex_value (s ! Suc (2 * k)) = Some y" by auto
  have "js_slice s (int k * 2) (int k * 2 + 2) = drop (2 * k) (take (2 * k + 2) s)"
    by (simp add: js_slice_def nat_add_distrib nat_mult_distrib mult.commute)
  also have "\<dots> = [s ! (2 * k), s ! Suc (2 * k)]"
    using sp by (simp add: drop_take take_drop_Suc numeral_2_eq_2)
  finally have p: "parseInt16 (js_slice s (int k * 2) (int k * 2 + 2)) = Some (hex_bytes s ! k)"
    using parseInt16_pair [OF xy] sp xy by simp
  have "0 \<le> hex_bytes s ! k \<and> hex_bytes s ! k < 256" using is_bytes_nth [OF is_bytes_hex [OF assms(1)], of k] sp by blast
  then have "put ta (overwrite b 0 (take k (hex_bytes s))) (int k) (hex_bytes s ! k) = overwrite b 0 (take (Suc k) (hex_bytes s))"
    using put_overwrite_back [of 0 "take k (hex_bytes s)" b ta "hex_bytes s ! k"] step.hyps assms(3,4)
    by (simp add: take_Suc_conv_app_nth stored_def)
  then show ?case using step.IH step.hyps p by (subst hexWrite_loop.simps) (simp add: add.commute)
qed

lemma fromString_hex:
  assumes "switch_encoding (toLowerCase name) = Some Hex" "hex_text s" "length s < 2 ^ 31"
  shows "fromString ta s (AStr name) = Inr (hex_bytes s)"
proof -
  let ?n = "length (hex_bytes s)"
  have n: "name \<noteq> []" using assms(1) by (auto simp: switch_encoding_def encoding_names_def toLowerCase_def)
  have l: "int (length s) = 2 * int ?n" using length_hex_bytes [OF assms(2)] by linarith
  have "js_ushr (int (length s)) 1 = int ?n" using js_ushr_div [of "int (length s)" 1] assms(3) l by simp
  then have bl: "byteLength s name = Inr (int ?n)"
    using loops_resolve(1) [OF assms(1)] l assms(1) byteLength_loop.simps [of s "toLowerCase name" True]
    by (cases "s = []") (simp_all add: byteLength_def Let_def)
  have "hexWrite_loop ta (replicate ?n 0) s 0 (int ?n) 0 = (hex_bytes s, Inr (int ?n))"
    using hexWrite_loop_text [OF assms(2), of 0 ?n "replicate ?n 0" ta] by (simp add: overwrite_def)
  then have "hexWrite ta (replicate ?n 0) s 0 (Some (int ?n)) = (hex_bytes s, Inr (int ?n))"
    using l by (auto simp: hexWrite_def Let_def)
  then have "buffer_write ta (replicate ?n 0) s (AStr name) AUndef AUndef = (hex_bytes s, Inr (int ?n))"
    unfolding write_all [OF assms(1) encoding.distinct(9) encoding.distinct(11)]
    using assms(1) by (subst write_loop.simps) simp
  then show ?thesis
    using bl n to_int32_id [of "int ?n"] assms(3) l by (simp add: fromString_def allocate_def)
qed

lemma toHex_pair: "0 \<le> n \<Longrightarrow> n < 256 \<Longrightarrow> toHex n = [hex_digit (n div 16), hex_digit (n mod 16)]"
  using mod_pos_pos_trivial [of n 16] div_pos_pos_trivial [of n 16] by (auto simp: toHex_def hex_digit_def)

lemma hex_bytes_text: "is_bytes b \<Longrightarrow> hex_text (concat (map toHex b)) \<and> hex_bytes (concat (map toHex b)) = b"
proof (induction b)
  case (Cons n b)
  then have n: "0 \<le> n" "n < 256" by simp_all
  then have "0 \<le> n div 16" "n div 16 < 16" "0 \<le> n mod 16" "n mod 16 < 16" by presburger+
  then show ?case using Cons n by (simp add: toHex_pair hex_value_inverse)
qed simp

lemma text_hex_bytes: "hex_text s \<Longrightarrow> concat (map toHex (hex_bytes s)) = toLowerCase s"
proof (induction s rule: hex_text.induct)
  case (1 a b s)
  then obtain x y where xy: "hex_value a = Some x" "hex_value b = Some y" by auto
  have r: "0 \<le> x" "x < 16" "0 \<le> y" "y < 16" using hex_value_range xy by blast+
  have "x * 16 + y = 16 * x + y" by simp
  note d = div_mod_unique [OF this r(3,4)]
  have "0 \<le> x * 16 + y" "x * 16 + y < 256" using r by linarith+
  moreover have "hex_digit x = (if 65 \<le> a \<and> a \<le> 90 then a + 32 else a)" "hex_digit y = (if 65 \<le> b \<and> b \<le> 90 then b + 32 else b)"
    using xy by (auto simp: hex_value_def hex_digit_def split: if_splits)
  ultimately show ?case using 1 xy d by (simp add: toHex_pair toLowerCase_def)
qed (simp_all add: toLowerCase_def)

subsection \<open>UTF-8 as bytes\<close>

lemma utf8_bytes_range: "scalar_value cp \<Longrightarrow> is_bytes (utf8_bytes cp) \<and> length (utf8_bytes cp) \<le> 4"
proof -
  assume "scalar_value cp"
  then have r: "0 \<le> cp" "cp < 0x110000" by (auto simp: scalar_value_def)
  have "x mod 64 < 128" for x :: int by (rule less_trans [of _ 64]) simp_all
  moreover have "cp < 0x800 \<Longrightarrow> cp div 64 < 64" "cp < 0x10000 \<Longrightarrow> cp div 4096 < 32" "cp div 262144 < 16"
    "0 \<le> cp div 64" "0 \<le> cp div 4096" "0 \<le> cp div 262144"
    using r by (auto simp: pos_imp_zdiv_nonneg_iff)
  ultimately show ?thesis using r by (simp add: utf8_bytes_def)
qed

definition utf8_text :: "jsstring \<Rightarrow> int list" where
  "utf8_text s = concat (map utf8_bytes (code_points16 s))"

lemma utf8_text_bytes:
  assumes "wf_utf16 s"
  shows "is_bytes (utf8_text s)" "length (utf8_text s) \<le> 4 * length s"
proof -
  have sc: "\<forall>cp \<in> set (code_points16 s). scalar_value cp" using code_points16_scalar [OF assms] by (simp add: list_all_iff)
  have "is_bytes (concat (map utf8_bytes cps)) \<and> length (concat (map utf8_bytes cps)) \<le> 4 * length cps"
    if "\<forall>cp \<in> set cps. scalar_value cp" for cps
    using that
  proof (induction cps)
    case (Cons cp cps)
    then show ?case using utf8_bytes_range [of cp] by simp
  qed simp
  moreover have "length (code_points16 s) \<le> length s" by (induction s rule: code_points16.induct) auto
  ultimately show "is_bytes (utf8_text s)" "length (utf8_text s) \<le> 4 * length s"
    using sc by (force simp: utf8_text_def)+
qed

lemma utf8_text_encode: "wf_utf16 s \<Longrightarrow> utf8ToBytes s None = Inr (utf8_text s)"
  using utf8_loop_wf [of s "[]"] by (simp add: utf8ToBytes_def utf8_text_def)

lemma utf8_text_decode: "wf_utf16 s \<Longrightarrow> utf8Slice (utf8_text s) 0 (int (length (utf8_text s))) = map clear_plane_bit s"
  using utf8_encode_decode [of s] utf8_text_encode [of s] by auto

section \<open>The contract of an encoding\<close>

text \<open>
  What an encoding promises about the strings it is made for: a buffer constructed from the
  string has the bytes of the encoding, and shows the string again, up to a normal form.
\<close>

locale string_codec =
  fixes name :: jsstring
    and is_text :: "jsstring \<Rightarrow> bool"
    and enc :: "jsstring \<Rightarrow> int list"
    and canon :: "jsstring \<Rightarrow> jsstring"
  assumes construct: "is_text s \<Longrightarrow> length s < 2 ^ 28 \<Longrightarrow> fromString ta s (AStr name) = Inr (enc s)"
    and enc_bytes: "is_text s \<Longrightarrow> is_bytes (enc s)"
    and shown: "is_text s \<Longrightarrow> length s < 2 ^ 28 \<Longrightarrow> toString (enc s) (Some name) None None = Inr (canon s)"
begin

lemma roundtrip:
  assumes "is_text s" "length s < 2 ^ 28"
  shows "\<exists>b. fromString ta s (AStr name) = Inr b \<and> is_bytes b \<and> toString b (Some name) None None = Inr (canon s)"
  using assms construct enc_bytes shown by blast

lemma buffers_equal:
  assumes "is_text s" "is_text t" "length s < 2 ^ 28" "length t < 2 ^ 28" "canon s = s" "canon t = t"
    "fromString ta s (AStr name) = Inr a" "fromString ta t (AStr name) = Inr b"
  shows "equals a b \<longleftrightarrow> s = t"
proof
  have ab: "a = enc s" "b = enc t" using assms construct by auto
  show "equals a b" if "s = t" using that ab by (simp add: equals_def buffer_compare_lex)
  show "s = t" if "equals a b"
  proof -
    have "enc s = enc t" using that ab by (auto simp: equals_def buffer_compare_lex split: if_splits)
    then have "Inr (canon s) = (Inr (canon t) :: jsstring res)" using assms shown by metis
    then show ?thesis using assms by simp
  qed
qed

end

text \<open>What an encoding of bytes as text promises: every buffer survives being shown and read.\<close>

locale byte_codec =
  fixes name :: jsstring
    and covers :: "int list \<Rightarrow> bool"
    and text_of :: "int list \<Rightarrow> jsstring"
  assumes shows_text: "covers b \<Longrightarrow> is_bytes b \<Longrightarrow> length b < 2 ^ 28 \<Longrightarrow> toString b (Some name) None None = Inr (text_of b)"
    and reads_text: "covers b \<Longrightarrow> is_bytes b \<Longrightarrow> length b < 2 ^ 28 \<Longrightarrow> fromString ta (text_of b) (AStr name) = Inr b"
begin

lemma survives:
  assumes "covers b" "is_bytes b" "length b < 2 ^ 28"
  shows "\<exists>s. toString b (Some name) None None = Inr s \<and> fromString ta s (AStr name) = Inr b"
  using assms shows_text reads_text by blast

lemma text_identifies:
  assumes "covers a" "is_bytes a" "length a < 2 ^ 28" "covers b" "is_bytes b" "length b < 2 ^ 28"
    "toString a (Some name) None None = toString b (Some name) None None"
  shows "a = b"
proof -
  have "Inr (text_of a) = (Inr (text_of b) :: jsstring res)"
    using assms(7) unfolding shows_text [OF assms(1-3)] shows_text [OF assms(4-6)] .
  then have "text_of a = text_of b" by simp
  then have "Inr a = (Inr b :: int list res)"
    unfolding reads_text [OF assms(1-3), of True, symmetric] reads_text [OF assms(4-6), of True, symmetric] by simp
  then show ?thesis by simp
qed

end

lemma name_hex: "switch_encoding (toLowerCase (jstr ''hex'')) = Some Hex"
  by code_simp

lemma name_utf8: "switch_encoding (toLowerCase (jstr ''utf8'')) = Some Utf8"
  by code_simp

lemma name_binary: "switch_encoding (toLowerCase (jstr ''binary'')) = Some Binary"
  by code_simp

lemma name_base64: "switch_encoding (toLowerCase (jstr ''base64'')) = Some Base64"
  by code_simp

lemma name_ucs2: "switch_encoding (toLowerCase (jstr ''ucs2'')) = Some Ucs2"
  by code_simp

lemma name_ascii: "switch_encoding (toLowerCase (jstr ''ascii'')) = Some Ascii"
  by code_simp

lemmas names_known = name_hex name_utf8 name_binary name_base64 name_ucs2 name_ascii

lemma codec_bounds: "length s < 2 ^ 28 \<Longrightarrow> n \<le> 4 * length s \<Longrightarrow> n < (2 ^ 31 :: nat)"
  by simp

interpretation utf8: string_codec "jstr ''utf8''" wf_utf16 utf8_text "map clear_plane_bit"
proof
  fix s ta
  assume s: "wf_utf16 s" "length s < 2 ^ 28"
  have l: "length (utf8_text s) < 2 ^ 31" using codec_bounds [OF s(2) utf8_text_bytes(2) [OF s(1)]] .
  have u: "code_units s" using wf_utf16_range [OF s(1)] by (simp add: code_units_def)
  show "fromString ta s (AStr (jstr ''utf8'')) = Inr (utf8_text s)"
    by (rule fromString_known [OF names_known(2) _ u _ utf8_text_bytes(1) [OF s(1)] l]) (simp_all add: utf8_text_encode s)
  show "toString (utf8_text s) (Some (jstr ''utf8'')) None None = Inr (map clear_plane_bit s)"
    using toString_known [OF names_known(2) _ _ utf8_text_bytes(1) [OF s(1)] l] utf8_text_decode [OF s(1)] by simp
qed (rule utf8_text_bytes(1))

interpretation ucs2: string_codec "jstr ''ucs2''" code_units "\<lambda>s. concat (map (\<lambda>c. [c mod 256, c div 256]) s)" "\<lambda>s. s"
proof
  fix s :: jsstring and ta
  let ?e = "concat (map (\<lambda>c. [c mod 256, c div 256]) s)"
  assume u: "code_units s"
  then have u': "\<forall>c \<in> set s. 0 \<le> c \<and> c < 65536" by (simp add: code_units_def)
  show b: "is_bytes ?e" by (rule bytes_utf16le [OF u'])
  assume s: "length s < 2 ^ 28"
  have l: "length ?e < 2 ^ 31" unfolding length_utf16le by (rule codec_bounds [OF s]) simp
  show "fromString ta s (AStr (jstr ''ucs2'')) = Inr ?e"
    by (rule fromString_known [OF names_known(5) _ u _ b l]) (simp_all add: utf16leToBytes_spec [OF u'])
  show "toString ?e (Some (jstr ''ucs2'')) None None = Inr s"
    using toString_known [OF names_known(5) _ _ b l] utf16le_units_bytes [OF u'] u'
    by (simp add: fromCharCode_def map_idI)
qed

interpretation binary: string_codec "jstr ''binary''" is_bytes "\<lambda>s. s" "\<lambda>s. s"
proof
  fix s ta
  assume s: "is_bytes s" "length s < 2 ^ 28"
  have u: "code_units s" using s(1) by (auto simp: code_units_def is_bytes_def)
  show "fromString ta s (AStr (jstr ''binary'')) = Inr s"
    by (rule fromString_known [OF names_known(3) _ u _ s(1)]) (use s in \<open>simp_all add: asciiToBytes_id\<close>)
  show "toString s (Some (jstr ''binary'')) None None = Inr s"
    using toString_known [OF names_known(3) _ _ s(1)] s by simp
qed

interpretation hex: string_codec "jstr ''hex''" hex_text hex_bytes toLowerCase
proof
  fix s ta
  assume t: "hex_text s"
  show b: "is_bytes (hex_bytes s)" by (rule is_bytes_hex [OF t])
  assume s: "length s < 2 ^ 28"
  show "fromString ta s (AStr (jstr ''hex'')) = Inr (hex_bytes s)"
    by (rule fromString_hex [OF names_known(1) t]) (use s in simp)
  show "toString (hex_bytes s) (Some (jstr ''hex'')) None None = Inr (toLowerCase s)"
    using toString_known [OF names_known(1) _ _ b] text_hex_bytes [OF t] length_hex_bytes [OF t] s by simp
qed

interpretation hex_bytes: byte_codec "jstr ''hex''" "\<lambda>b. True" "\<lambda>b. concat (map toHex b)"
proof
  fix b ta
  assume b: "is_bytes b" "length b < 2 ^ 28"
  note t = hex_bytes_text [OF b(1)]
  show "toString b (Some (jstr ''hex'')) None None = Inr (concat (map toHex b))"
    using toString_known [OF names_known(1) _ _ b(1)] b by simp
  show "fromString ta (concat (map toHex b)) (AStr (jstr ''hex'')) = Inr b"
    using fromString_hex [OF names_known(1), of "concat (map toHex b)" ta] t length_hex_bytes [of "concat (map toHex b)"] b by simp
qed

interpretation base64_bytes: byte_codec "jstr ''base64''" "\<lambda>b. True" b64_spec
proof
  fix b ta
  assume b: "is_bytes b" "length b < 2 ^ 28"
  show "toString b (Some (jstr ''base64'')) None None = Inr (b64_spec b)"
    using toString_known [OF names_known(4) _ _ b(1)] b by simp
  have "\<forall>c \<in> set (b64_spec b). 0 \<le> c \<and> c < 65536"
  proof -
    have "0 \<le> c \<and> c < 65536" if "valid_base64_char c \<or> c = 61" for c using that by (auto simp: valid_base64_char_def)
    then show ?thesis using b64_spec_core [OF b(1)] by (auto simp: list_all_iff)
  qed
  then show "fromString ta (b64_spec b) (AStr (jstr ''base64'')) = Inr b"
    using fromString_known [OF names_known(4), of "b64_spec b" b ta] base64ToBytes_text [OF b(1)] b
    by (simp add: code_units_def)
qed

interpretation ucs2_bytes: byte_codec "jstr ''ucs2''" "\<lambda>b. even (length b)" utf16le_units
proof
  fix b ta
  assume b: "even (length b)" "is_bytes b" "length b < 2 ^ 28"
  note u = utf16le_units_inverse [OF b(2,1)]
  then have t: "code_units (utf16le_units b)" "length (utf16le_units b) < 2 ^ 28" using b by (auto simp: code_units_def)
  show "toString b (Some (jstr ''ucs2'')) None None = Inr (utf16le_units b)"
    using ucs2.shown [OF t] u by simp
  show "fromString ta (utf16le_units b) (AStr (jstr ''ucs2'')) = Inr b"
    using ucs2.construct [OF t] u by simp
qed

interpretation binary_bytes: byte_codec "jstr ''binary''" "\<lambda>b. True" "\<lambda>b. b"
  using binary.shown binary.construct by unfold_locales

section \<open>Writes stay within their window\<close>

definition write_frame :: "int list \<Rightarrow> nat \<Rightarrow> int \<Rightarrow> int list \<times> int res \<Rightarrow> bool" where
  "write_frame b off n w \<longleftrightarrow> length (fst w) = length b \<and>
     (\<forall>j. j < off \<or> int off + n \<le> int j \<longrightarrow> fst w ! j = b ! j) \<and>
     (\<forall>k. snd w = Inr k \<longrightarrow> 0 \<le> k \<and> k \<le> n)"

lemma write_frame_error: "write_frame b off n (b, Inl e)"
  by (simp add: write_frame_def)

lemma blit_res_frame:
  assumes "off \<le> length b" "0 \<le> n"
  shows "write_frame b off n (blit_res ta src b (int off) (Some n))"
proof (cases src)
  case (Inl e)
  then show ?thesis by (simp add: blit_res_def write_frame_error)
next
  case (Inr bs)
  define m where "m = min (nat n) (min (length bs) (length b - off))"
  have m: "m \<le> length bs" "off + m \<le> length b" "int m \<le> n" using assms by (auto simp: m_def)
  have "blit_res ta src b (int off) (Some n) = (overwrite b off (map (stored ta) (take m bs)), Inr (int m))"
    using blitBuffer_spec [OF assms, of ta bs] Inr by (simp add: blit_res_def m_def)
  then show ?thesis
    using m overwrite_nth [of off "map (stored ta) (take m bs)" b] by (auto simp: write_frame_def)
qed

lemma hexWrite_frame:
  assumes "off \<le> length b" "0 < n" "int off + n \<le> int (length b)"
  shows "write_frame b off n (hexWrite ta b s (int off) (Some n))"
proof (cases "length s mod 2 = 0")
  case False
  then have "int (length s) mod 2 \<noteq> 0" by presburger
  then show ?thesis by (simp add: hexWrite_def Let_def write_frame_error)
next
  case True
  then have e: "int (length s) mod 2 = 0" by presburger
  define n' where "n' = (if n > int (length s) div 2 then int (length s) div 2 else n)"
  have n': "n' \<le> n" "0 \<le> n'" using assms(2) by (auto simp: n'_def)
  obtain b' r where h: "hexWrite_loop ta b s (int off) n' 0 = (b', r)" by fastforce
  have "hexWrite ta b s (int off) (Some n) = (b', r)"
    using assms h e by (auto simp: hexWrite_def Let_def n'_def)
  then show ?thesis
    using hexWrite_loop_frame [of ta b s off n' 0 b' r] h n' by (auto simp: write_frame_def)
qed

lemma write_loop_frame:
  assumes "off \<le> length b" "0 < n" "int off + n \<le> int (length b)"
  shows "write_frame b off n (write_loop ta b s (int off) (Some n) name lowered)"
proof -
  note f = hexWrite_frame [OF assms] blit_res_frame [OF assms(1) less_imp_le [OF assms(2)]] write_frame_error
  have t: "write_frame b off n (write_loop ta b s (int off) (Some n) name True)" for name
    by (subst write_loop.simps) (auto simp: Let_def utf8Write_def asciiWrite_def binaryWrite_def base64Write_def ucs2Write_def
      intro: f split: option.splits encoding.splits)
  then show ?thesis
    by (cases lowered; subst write_loop.simps) (auto simp: Let_def utf8Write_def asciiWrite_def binaryWrite_def base64Write_def
      ucs2Write_def intro: f split: option.splits encoding.splits)
qed

section \<open>Search finds occurrences\<close>

lemma arrayIndexOf_loop_sound:
  assumes "arrayIndexOf_loop arr val (int off) f (int i) = r" "0 \<le> r"
    "f = - 1 \<or> (0 \<le> f \<and> f < int i \<and> int i - f < int (length val) \<and>
       (\<forall>j. int j < int i - f \<longrightarrow> off + nat f + j < length arr \<and> j < length val \<and> arr ! (off + nat f + j) = val ! j))"
  shows "off \<le> nat r \<and> nat r + length val \<le> length arr \<and> take (length val) (drop (nat r) arr) = val \<and> val \<noteq> []"
  using assms
proof (induction arr val "int off" f "int i" arbitrary: i rule: arrayIndexOf_loop.induct)
  case (1 arr val f)
  have eq: "arrayIndexOf_loop arr val (int off) f (int i) =
     (if int off + int i < int (length arr) then
        (if at arr (int off + int i) = at val (if f = - 1 then 0 else int i - f) then
           (if int i - (if f = - 1 then int i else f) + 1 = int (length val) then int off + (if f = - 1 then int i else f)
            else arrayIndexOf_loop arr val (int off) (if f = - 1 then int i else f) (int (Suc i)))
         else arrayIndexOf_loop arr val (int off) (- 1) (int (Suc i)))
      else - 1)"
    by (subst arrayIndexOf_loop.simps) (simp add: Let_def add.commute)
  have i: "int off + int i < int (length arr)" using 1(3,4) eq by (auto split: if_splits)
  define g where "g = (if f = - 1 then int i else f)"
  have g: "0 \<le> g" "g \<le> int i" using 1(5) by (auto simp: g_def)
  show ?case
  proof (cases "at arr (int off + int i) = at val (int i - g)")
    case False
    have "at arr (int off + int i) \<noteq> at val (if f = - 1 then 0 else int i - f)" using False by (auto simp: g_def)
    then show ?thesis using 1(2) [OF i, of "Suc i"] 1(3,4) eq i by simp
  next
    case True
    then have t: "at arr (int off + int i) = at val (if f = - 1 then 0 else int i - f)" by (auto simp: g_def)
    define k where "k = nat (int i - g)"
    have k: "int k = int i - g" "off + nat g + k = off + i" using g by (auto simp: k_def)
    have ai: "at arr (int off + int i) = Some (arr ! (off + i))" using i by (simp add: at_def nat_add_distrib)
    then have v: "k < length val" "val ! k = arr ! (off + i)"
      using True g by (auto simp: at_Some_iff k_def dest: sym)
    have m: "\<forall>j. int j < int i + 1 - g \<longrightarrow> off + nat g + j < length arr \<and> j < length val \<and> arr ! (off + nat g + j) = val ! j"
    proof (intro allI impI)
      fix j assume j: "int j < int i + 1 - g"
      show "off + nat g + j < length arr \<and> j < length val \<and> arr ! (off + nat g + j) = val ! j"
      proof (cases "j = k")
        case True
        show ?thesis unfolding True k(2) using v i by simp
      next
        case False
        then have "int j < int i - g" using j k by linarith
        then show ?thesis using 1(5) by (auto simp: g_def split: if_splits)
      qed
    qed
    show ?thesis
    proof (cases "int i - g + 1 = int (length val)")
      case True
      then have r: "r = int off + g" using eq t i 1(3) by (simp add: g_def)
      have n: "length val = Suc k" using True k by linarith
      have "nat r + length val \<le> length arr" using m [rule_format, of k] k g n r by (simp add: nat_add_distrib)
      moreover have "take (length val) (drop (nat r) arr) = val"
        using m n k g r \<open>nat r + length val \<le> length arr\<close> by (intro nth_equalityI) (auto simp: nat_add_distrib)
      ultimately show ?thesis using r g n by auto
    next
      case False
      have s: "arrayIndexOf_loop arr val (int off) g (int (Suc i)) = r" using eq t i False 1(3) by (simp add: g_def)
      have "int (Suc i) - g < int (length val)" using v k False by linarith
      then show ?thesis
        using 1(1) [OF i t g_def, of "Suc i"] False s 1(4) g m by (simp add: add.commute)
    qed
  qed
qed

section \<open>Properties\<close>

text \<open>
  C2: a buffer constructed from a string shows the string again in the same encoding. For
  \<open>ucs2\<close> this holds of every string, for \<open>binary\<close> of strings of bytes, for
  \<open>hex\<close> of even strings of hexadecimal digits, up to the case of the letters, and for
  \<open>utf8\<close> of well-formed strings, up to one bit of each lead surrogate that the encoder
  loses (see \<open>utf8_loses_plane_bit\<close>).
\<close>

theorem text_roundtrip:
  assumes "length s < 2 ^ 28"
  shows "(code_units s \<longrightarrow> (\<exists>b. fromString ta s (AStr (jstr ''ucs2'')) = Inr b \<and> toString b (Some (jstr ''ucs2'')) None None = Inr s)) \<and>
    (is_bytes s \<longrightarrow> (\<exists>b. fromString ta s (AStr (jstr ''binary'')) = Inr b \<and> toString b (Some (jstr ''binary'')) None None = Inr s)) \<and>
    (hex_text s \<longrightarrow> (\<exists>b. fromString ta s (AStr (jstr ''hex'')) = Inr b \<and> toString b (Some (jstr ''hex'')) None None = Inr (toLowerCase s))) \<and>
    (wf_utf16 s \<longrightarrow> (\<exists>b. fromString ta s (AStr (jstr ''utf8'')) = Inr b \<and> toString b (Some (jstr ''utf8'')) None None = Inr (map clear_plane_bit s)))"
  using ucs2.roundtrip [OF _ assms] binary.roundtrip [OF _ assms] hex.roundtrip [OF _ assms] utf8.roundtrip [OF _ assms] by blast

theorem text_roundtrip_witness:
  "\<exists>b. fromString True [0x48, 0x20AC, 0xD83D, 0xDE00] (AStr (jstr ''utf8'')) = Inr b \<and>
     toString b (Some (jstr ''utf8'')) None None = Inr (map clear_plane_bit [0x48, 0x20AC, 0xD83D, 0xDE00])"
  using text_roundtrip [of "[0x48, 0x20AC, 0xD83D, 0xDE00]" True] by simp

text \<open>
  C3: every buffer of bytes survives being shown as a string and constructed from it again in
  \<open>hex\<close>, \<open>base64\<close> and \<open>binary\<close>, and in \<open>ucs2\<close> when its length is
  even; for \<open>base64\<close> this goes through the cleaning of the string that drops the padding
  and adds it again.
\<close>

theorem bytes_roundtrip:
  assumes "is_bytes b" "length b < 2 ^ 28" "name \<in> {jstr ''hex'', jstr ''base64'', jstr ''binary''} \<or> name = jstr ''ucs2'' \<and> even (length b)"
  shows "\<exists>s. toString b (Some name) None None = Inr s \<and> fromString ta s (AStr name) = Inr b"
  using hex_bytes.survives [OF TrueI assms(1,2)] base64_bytes.survives [OF TrueI assms(1,2)]
    binary_bytes.survives [OF TrueI assms(1,2)] ucs2_bytes.survives [OF _ assms(1,2)] assms(3) by blast

theorem bytes_roundtrip_witness:
  "\<exists>s. toString [0, 255, 16, 7] (Some (jstr ''base64'')) None None = Inr s \<and> fromString False s (AStr (jstr ''base64'')) = Inr [0, 255, 16, 7]"
  using bytes_roundtrip [of "[0, 255, 16, 7]" "jstr ''base64''" False] by simp

text \<open>
  C14: \<open>compare\<close> is the lexicographic order of the contents, a proper prefix being the
  smaller; so \<open>equals\<close> is equality of the contents, and \<open>compare\<close> is
  antisymmetric and transitive, as the comparator of a sort has to be.
\<close>

theorem compare_lexicographic:
  "buffer_compare a b = (if a < b then - 1 else if b < a then 1 else 0) \<and> (equals a b \<longleftrightarrow> a = b) \<and>
   buffer_compare b a = - buffer_compare a b \<and>
   (buffer_compare a b = - 1 \<longrightarrow> buffer_compare b c = - 1 \<longrightarrow> buffer_compare a c = - 1)"
  by (auto simp: buffer_compare_lex equals_def)

theorem compare_lexicographic_witness: "buffer_compare [1, 2] [1, 3, 0] = - 1"
  using compare_lexicographic [of "[1, 2]" "[1, 3, 0]" "[]"] by simp

text \<open>
  C4: \<open>copy\<close> stores in the target exactly the elements the source had in its window before
  the call, as many as fit, and returns their number. This includes a copy within one buffer
  whose windows overlap, where the code picks the direction of its loop.
\<close>

theorem copy_window:
  assumes "is_bytes this" "same \<Longrightarrow> target = this" "target \<noteq> []" "t \<le> length target" "s < length this" "s < e"
  shows "\<exists>n. n = min (min e (length this) - s) (length target - t) \<and>
    copy ta same this target (Some (int t)) (Some (int s)) (Some (int e)) =
      Inr (take t target @ take n (drop s this) @ drop (t + n) target, int n)"
proof -
  define n where "n = min (min e (length this) - s) (length target - t)"
  have n: "s + n \<le> length this" using assms(5) by (auto simp: n_def)
  have "copy ta same this target (Some (int t)) (Some (int s)) (Some (int e)) = Inr (overwrite target t (take n (drop s this)), int n)"
    using copy_spec [where this = this and same = same and target = target and t = "int t" and s = s and e = "int e" and ta = ta,
      OF assms(1) assms(2) assms(3)] assms(4-6)
    by (simp add: n_def min_absorb1)
  then show ?thesis using n by (auto simp: overwrite_def n_def [symmetric])
qed

theorem copy_window_witness:
  "\<exists>n. n = min (min 4 5 - 0) (5 - 1) \<and> copy True True [1, 2, 3, 4, 5] [1, 2, 3, 4, 5] (Some 1) (Some 0) (Some 4) = Inr ([1, 1, 2, 3, 4], int n)"
  using copy_window [of "[1, 2, 3, 4, 5]" True "[1, 2, 3, 4, 5]" 1 0 4 True] by simp



text \<open>
  C13: a write of a string into a window of positive length that lies in the buffer changes no element outside the
  window of that length, keeps the length of the buffer and returns at most that length,
  in every encoding and also when it fails; an unknown encoding changes nothing.
\<close>

theorem write_within_window:
  assumes "off < length b" "0 < n" "int off + n \<le> int (length b)" "length b < 2 ^ 31"
    "buffer_write ta b s (ANum (int off)) (ANum n) (AStr name) = (b', r)"
  shows "length b' = length b \<and> (\<forall>j. j < off \<or> int off + n \<le> int j \<longrightarrow> b' ! j = b ! j) \<and>
    (\<forall>k. r = Inr k \<longrightarrow> 0 \<le> k \<and> k \<le> n)"
proof -
  have i: "to_int32 (int off) = int off" "to_int32 n = n" using assms by (auto intro!: to_int32_id)
  have "buffer_write ta b s (ANum (int off)) (ANum n) (AStr name) =
      write_loop ta b s (int off) (Some n) (write_encoding (AStr name)) False"
    using assms i by (simp add: buffer_write_def write_arguments_def isFinite_def arg_number_def arg_int32_def)
  then have w: "write_loop ta b s (int off) (Some n) (write_encoding (AStr name)) False = (b', r)"
    using assms(5) by (simp only:)
  show ?thesis
    using write_loop_frame [of off b n ta s "write_encoding (AStr name)" False] assms unfolding w write_frame_def by simp
qed

theorem write_within_window_witness:
  "length (fst (buffer_write True [9, 9, 9, 9] [0x31, 0x32, 0x33] (ANum 1) (ANum 2) (AStr (jstr ''ascii'')))) = 4"
  using write_within_window [of 1 "[9, 9, 9, 9]" 2 True "[0x31, 0x32, 0x33]" "jstr ''ascii''"
    "fst (buffer_write True [9, 9, 9, 9] [0x31, 0x32, 0x33] (ANum 1) (ANum 2) (AStr (jstr ''ascii'')))"
    "snd (buffer_write True [9, 9, 9, 9] [0x31, 0x32, 0x33] (ANum 1) (ANum 2) (AStr (jstr ''ascii'')))"] by simp

text \<open>
  C16: an index \<open>indexOf\<close> returns for a buffer is that of an occurrence of it, at or after
  the offset. The converse fails: an occurrence that overlaps a partial match is missed.
\<close>

theorem indexOf_occurrence:
  assumes "indexOf this (NBuffer val) (Some (int off)) = Inr r" "0 \<le> r" "off < 2 ^ 31"
  shows "off \<le> nat r \<and> nat r + length val \<le> length this \<and> take (length val) (drop (nat r) this) = val \<and> val \<noteq> []"
proof -
  have "js_shr (int off) 0 = int off" using js_shr_div [of "int off" 0] assms(3) by simp
  moreover have "\<not> int off > 0x7fffffff" using assms(3) by simp
  ultimately have "arrayIndexOf_loop this val (int off) (- 1) (int 0) = r"
    using assms(1,2) by (auto simp: indexOf_def Let_def arrayIndexOf_def split: if_splits)
  then show ?thesis by (rule arrayIndexOf_loop_sound) (use assms(2) in simp_all)
qed

lemma indexOf_misses_overlap: "indexOf [97, 97, 97, 98] (NBuffer [97, 97, 98]) (Some 0) = Inr (- 1)"
  by (simp add: indexOf_def Let_def arrayIndexOf_def js_shr_def to_int32_def arrayIndexOf_loop.simps at_def)

theorem indexOf_occurrence_witness:
  "take (length [98, 99 :: int]) (drop (nat 2) [97, 97, 98, 99, 97 :: int]) = [98, 99]"
  using indexOf_occurrence [of "[97, 97, 98, 99, 97]" "[98, 99]" 0 2]
  by (simp add: indexOf_def Let_def arrayIndexOf_def js_shr_def to_int32_def arrayIndexOf_loop.simps at_def)

subsection \<open>Deviations\<close>

lemma isEncoding_raw: "isEncoding (jstr ''raw'') \<and> toString [1] (Some (jstr ''raw'')) None None = Inl (TypeError ''Unknown encoding: '')"
  by code_simp

lemma hexWrite_accepts_garbage: "buffer_write True [0] (jstr ''1g'') (AStr (jstr ''hex'')) AUndef AUndef = ([1], Inr 1)"
  by code_simp

lemma copy_negative_count: "copy True False [1, 2, 3] [0, 0] (Some 0) (Some 2) (Some 0) = Inr ([0, 0], - 2)"
  by code_simp

lemma fill_end_zero: "buffer_fill True [1, 2] (ANum 7) (Some 0) (Some 0) = Inr [7, 7]"
  by code_simp

lemma write_zero_length_hex: "buffer_write True [0, 0] (jstr ''ffff'') (ANum 0) (ANum 0) (AStr (jstr ''hex'')) = ([255, 255], Inr 2)"
  by code_simp

end
