(* ===== verification/YamlValues.thy ===== *)
theory YamlValues
  imports Complex_Main JsPrelude
begin

text \<open>
  The values that js-yaml reads and writes (modules 20 to 48 of \<open>swagger-ui.js\<close>):
  JavaScript values over a heap of objects, because anchors and aliases make the aliasing of
  objects observable; numbers as exact rationals with the special values of a double and the
  rounding of the operations written out; regular expressions with a matcher; and the helpers
  of \<open>js-yaml/common.js\<close>.
\<close>

section \<open>Values, objects, errors\<close>

text \<open>A double: \<open>Fin q\<close> is the finite value \<open>q\<close>, \<open>Fin 0\<close> the positive zero.\<close>

datatype jsnum = NaN | PosInf | NegInf | NegZero | Fin rat

datatype jsval = Undef | Null | Bool bool | Num jsnum | Str jsstring | Ref nat

text \<open>
  The objects: arrays, plain objects with their own properties in the order of
  \<open>Object.keys\<close>, dates by their time value, regular expressions by source and flags,
  functions by parameters and body.
\<close>

datatype cell =
    Arr "jsval list"
  | Obj "(jsstring \<times> jsval) list"
  | Date int
  | RegExp jsstring jsstring
  | Func "jsstring list" jsstring

type_synonym heap = "cell list"

text \<open>A position in a text, as error messages show it (\<open>js-yaml/mark.js\<close>).\<close>

record mark =
  mname :: "jsstring option"
  mbuffer :: jsstring
  mposition :: nat
  mline :: nat
  mcolumn :: int

text \<open>
  What a call may end with instead of a value: an exception of the library, one of the
  language, a loop that does not end (\<open>Diverges\<close>, also the value of a function that has
  used up its fuel), or a point where the behaviour is not part of the model.
\<close>

datatype yaml_error =
    YAMLException jsstring "mark option"
  | JsError js_error
  | SyntaxError jsstring
  | Diverges
  | Unmodelled string

type_synonym 'a yres = "yaml_error + 'a"

abbreviation type_error :: "string \<Rightarrow> 'a yres" where
  "type_error s \<equiv> Inl (JsError (TypeError s))"

text \<open>
  What the code takes from its surroundings: the parser \<open>window.esprima\<close> (\<open>None\<close>
  where it throws or is missing), the texts the engine gives for dates and functions, and its
  judgement of regular expressions.
\<close>

record esp_ast =
  ast_type :: jsstring
  ast_body :: "(jsstring \<times> jsstring \<times> jsstring list \<times> nat \<times> nat) list"

record host =
  esprima_parse :: "jsstring \<Rightarrow> esp_ast option"
  date_text :: "int \<Rightarrow> jsstring"
  function_text :: "jsstring list \<Rightarrow> jsstring \<Rightarrow> jsstring"
  regexp_valid :: "jsstring \<Rightarrow> jsstring \<Rightarrow> bool"
  regexp_source :: "jsstring \<Rightarrow> jsstring"

section \<open>Own properties\<close>

text \<open>
  \<open>Object.keys\<close> lists the array indices in ascending order before the other keys, which
  keep the order in which they were added.
\<close>

definition dec_digit :: "int \<Rightarrow> bool" where
  "dec_digit c \<longleftrightarrow> 0x30 \<le> c \<and> c \<le> 0x39"

definition dec_value :: "jsstring \<Rightarrow> int" where
  "dec_value s = foldl (\<lambda>v c. v * 10 + (c - 0x30)) 0 s"

definition array_index :: "jsstring \<Rightarrow> int option" where
  "array_index s =
     (if s \<noteq> [] \<and> list_all dec_digit s \<and> (hd s \<noteq> 0x30 \<or> length s = 1) \<and> dec_value s < 2 ^ 32 - 1
      then Some (dec_value s) else None)"

definition has_own :: "('k \<times> 'v) list \<Rightarrow> 'k \<Rightarrow> bool" where
  "has_own ps k \<longleftrightarrow> k \<in> set (map fst ps)"

definition prop_insert :: "(jsstring \<times> 'v) list \<Rightarrow> jsstring \<Rightarrow> 'v \<Rightarrow> (jsstring \<times> 'v) list" where
  "prop_insert ps k v =
     (case array_index k of
        None \<Rightarrow> ps @ [(k, v)]
      | Some i \<Rightarrow>
          (let earlier = (\<lambda>(k', _). case array_index k' of None \<Rightarrow> False | Some j \<Rightarrow> j < i)
           in takeWhile earlier ps @ (k, v) # dropWhile earlier ps))"

definition prop_set :: "(jsstring \<times> 'v) list \<Rightarrow> jsstring \<Rightarrow> 'v \<Rightarrow> (jsstring \<times> 'v) list" where
  "prop_set ps k v =
     (if has_own ps k then map (\<lambda>(k', v'). (k', if k' = k then v else v')) ps
      else prop_insert ps k v)"

definition prop_delete :: "(jsstring \<times> 'v) list \<Rightarrow> jsstring \<Rightarrow> (jsstring \<times> 'v) list" where
  "prop_delete ps k = filter (\<lambda>(k', _). k' \<noteq> k) ps"

definition cell_of :: "heap \<Rightarrow> jsval \<Rightarrow> cell option" where
  "cell_of h v = (case v of Ref r \<Rightarrow> (if r < length h then Some (h ! r) else None) | _ \<Rightarrow> None)"

text \<open>The own enumerable keys of an object and the value of a key.\<close>

definition digit_char :: "int \<Rightarrow> int" where
  "digit_char d = (if d < 10 then 0x30 + d else 0x61 + d - 10)"

function radix_str :: "int \<Rightarrow> int \<Rightarrow> jsstring" where
  "radix_str b n =
     (if b < 2 \<or> n < b then [digit_char n] else radix_str b (n div b) @ [digit_char (n mod b)])"
  by pat_completeness auto
termination
proof (relation "measure (\<lambda>(b, n). nat n)")
  fix b n :: int
  assume "\<not> (b < 2 \<or> n < b)"
  then have "n div b < n" using int_div_less_self [of n b] by simp
  with \<open>\<not> (b < 2 \<or> n < b)\<close> show "((b, n div b), b, n) \<in> measure (\<lambda>(b, n). nat n)" by simp
qed simp

declare radix_str.simps [simp del]

abbreviation decimal_str :: "int \<Rightarrow> jsstring" where
  "decimal_str \<equiv> radix_str 10"

fun own_props :: "cell \<Rightarrow> (jsstring \<times> jsval) list" where
  "own_props (Arr vs) = zip (map (\<lambda>i. decimal_str (int i)) [0..<length vs]) vs"
| "own_props (Obj ps) = ps"
| "own_props _ = []"

lemma has_own_simps [simp]:
  "\<not> has_own [] k" "has_own (p # ps) k \<longleftrightarrow> fst p = k \<or> has_own ps k"
  "has_own (ps @ qs) k \<longleftrightarrow> has_own ps k \<or> has_own qs k"
  by (auto simp: has_own_def)

lemma has_own_map_of: "has_own ps k \<longleftrightarrow> map_of ps k \<noteq> None"
  by (induction ps) auto

lemma prop_insert_split:
  obtains xs ys where "ps = xs @ ys" "prop_insert ps k v = xs @ (k, v) # ys"
proof (cases "array_index k")
  case None
  then have "ps = ps @ []" "prop_insert ps k v = ps @ (k, v) # []" by (simp_all add: prop_insert_def)
  then show thesis by (rule that)
next
  case (Some i)
  let ?p = "\<lambda>(k', _). case array_index k' of None \<Rightarrow> False | Some j \<Rightarrow> j < i"
  have "ps = takeWhile ?p ps @ dropWhile ?p ps"
    "prop_insert ps k v = takeWhile ?p ps @ (k, v) # dropWhile ?p ps"
    using Some by (simp_all add: prop_insert_def Let_def)
  then show thesis by (rule that)
qed

lemma map_of_split: "\<not> has_own (xs @ ys) k \<Longrightarrow> map_of (xs @ (k, v) # ys) = (map_of (xs @ ys))(k \<mapsto> v)"
  by (induction xs) auto

lemma map_of_update: "has_own ps k \<Longrightarrow>
    map_of (map (\<lambda>(k', v'). (k', if k' = k then v else v')) ps) = (map_of ps)(k \<mapsto> v)"
proof -
  have "map_of (map (\<lambda>(k', v'). (k', if k' = k then v else v')) ps) x =
      (if x = k then (if has_own ps k then Some v else None) else map_of ps x)" for x
    by (induction ps) auto
  moreover assume "has_own ps k"
  ultimately show ?thesis by auto
qed

lemma map_of_prop_set [simp]: "map_of (prop_set ps k v) = (map_of ps)(k \<mapsto> v)"
proof (cases "has_own ps k")
  case True
  then show ?thesis by (simp add: prop_set_def map_of_update)
next
  case False
  obtain xs ys where "ps = xs @ ys" "prop_insert ps k v = xs @ (k, v) # ys"
    by (rule prop_insert_split)
  with False show ?thesis by (simp add: prop_set_def map_of_split del: map_of_append)
qed

lemma has_own_prop_set [simp]: "has_own (prop_set ps k v) k' \<longleftrightarrow> k' = k \<or> has_own ps k'"
  by (auto simp: has_own_map_of)

lemma map_of_prop_delete [simp]: "map_of (prop_delete ps k) = (map_of ps)(k := None)"
proof -
  have "map_of (prop_delete ps k) x = (if x = k then None else map_of ps x)" for x
    by (induction ps) (auto simp: prop_delete_def)
  then show ?thesis by auto
qed

lemma has_own_prop_delete [simp]: "has_own (prop_delete ps k) k' \<longleftrightarrow> k' \<noteq> k \<and> has_own ps k'"
  by (auto simp: has_own_map_of)

lemma map_fst_update:
  "map fst (map (\<lambda>(k', v'). (k', if k' = k then v else v')) ps) = map fst ps"
  by (induction ps) auto

lemma distinct_prop_set:
  assumes "distinct (map fst ps)"
  shows "distinct (map fst (prop_set ps k v))"
proof (cases "has_own ps k")
  case True
  with assms show ?thesis unfolding prop_set_def by (simp only: if_True map_fst_update)
next
  case False
  obtain xs ys where "ps = xs @ ys" "prop_insert ps k v = xs @ (k, v) # ys"
    by (rule prop_insert_split)
  with False assms show ?thesis by (auto simp: prop_set_def has_own_def)
qed

section \<open>Numbers\<close>

text \<open>
  Rounding to a double: 53 significant bits, halves to the even neighbour, exponents from
  \<open>-1074\<close> on, infinities from \<open>2 ^ 1024\<close> on.
\<close>

definition round_half_even :: "rat \<Rightarrow> int" where
  "round_half_even q =
     (let f = \<lfloor>q\<rfloor>; d = q - of_int f in
      if d < 1 / 2 then f else if 1 / 2 < d then f + 1 else if even f then f else f + 1)"

definition pow2r :: "int \<Rightarrow> rat" where
  "pow2r e = (if 0 \<le> e then 2 ^ nat e else 1 / 2 ^ nat (- e))"

function bit_length :: "int \<Rightarrow> nat" where
  "bit_length n = (if n \<le> 0 then 0 else Suc (bit_length (n div 2)))"
  by pat_completeness auto
termination by (relation "measure nat") auto

declare bit_length.simps [simp del]

text \<open>The exponent \<open>e\<close> with \<open>2 ^ e \<le> q < 2 ^ (e + 1)\<close>, for a positive \<open>q\<close>.\<close>

definition exponent :: "rat \<Rightarrow> int" where
  "exponent q =
     (let (a, b) = quotient_of q;
          e = int (bit_length a) - int (bit_length b)
      in if pow2r e \<le> q then e else e - 1)"

definition round_magnitude :: "rat \<Rightarrow> rat" where
  "round_magnitude q =
     (let u = pow2r (max (exponent q - 52) (- 1074)) in of_int (round_half_even (q / u)) * u)"

definition to_double :: "rat \<Rightarrow> jsnum" where
  "to_double q =
     (if q = 0 then Fin 0
      else let m = round_magnitude \<bar>q\<bar> in
        if 2 ^ 1024 \<le> m then (if q < 0 then NegInf else PosInf)
        else if m = 0 then (if q < 0 then NegZero else Fin 0)
        else Fin (if q < 0 then - m else m))"

fun num_neg :: "jsnum \<Rightarrow> jsnum" where
  "num_neg NaN = NaN"
| "num_neg PosInf = NegInf"
| "num_neg NegInf = PosInf"
| "num_neg NegZero = Fin 0"
| "num_neg (Fin q) = (if q = 0 then NegZero else Fin (- q))"

text \<open>\<open>sign * x\<close> where the sign is 1 or -1.\<close>

definition num_signed :: "int \<Rightarrow> jsnum \<Rightarrow> jsnum" where
  "num_signed sign x = (if sign = 1 then x else num_neg x)"

definition num_value :: "jsnum \<Rightarrow> rat" where
  "num_value x = (case x of Fin q \<Rightarrow> q | _ \<Rightarrow> 0)"

fun num_plus :: "jsnum \<Rightarrow> jsnum \<Rightarrow> jsnum" where
  "num_plus NaN y = NaN"
| "num_plus x NaN = NaN"
| "num_plus PosInf NegInf = NaN"
| "num_plus NegInf PosInf = NaN"
| "num_plus PosInf y = PosInf"
| "num_plus x PosInf = PosInf"
| "num_plus NegInf y = NegInf"
| "num_plus x NegInf = NegInf"
| "num_plus NegZero NegZero = NegZero"
| "num_plus x y = to_double (num_value x + num_value y)"

text \<open>\<open>x * y\<close> for a positive finite \<open>y\<close>.\<close>

fun num_scale :: "jsnum \<Rightarrow> rat \<Rightarrow> jsnum" where
  "num_scale (Fin q) b = to_double (q * b)"
| "num_scale x b = x"

subsection \<open>Integers of at most 53 bits are exact\<close>

lemma round_half_even_of_int [simp]: "round_half_even (of_int n) = n"
  by (simp add: round_half_even_def)

lemma pow2r_pos [simp]: "0 < pow2r e"
  by (simp add: pow2r_def)

lemma pow2r_int: "0 \<le> e \<Longrightarrow> pow2r e = of_int (2 ^ nat e)"
  by (simp add: pow2r_def)

lemma pow2r_minus: "pow2r (- e) * pow2r e = 1"
  by (cases "0 \<le> e"; cases "0 \<le> - e") (auto simp: pow2r_def)

lemma pow2r_div: "x / pow2r e = x * pow2r (- e)"
  by (cases "0 \<le> e"; cases "0 \<le> - e") (auto simp: pow2r_def)

lemma bit_length_bounds: "0 < n \<Longrightarrow> 0 < bit_length n \<and> 2 ^ (bit_length n - 1) \<le> n \<and> n < 2 ^ bit_length n"
proof (induction n rule: bit_length.induct)
  case (1 n)
  show ?case
  proof (cases "n = 1")
    case True
    then show ?thesis by (simp add: bit_length.simps)
  next
    case False
    with 1 have "0 < bit_length (n div 2)" "2 ^ (bit_length (n div 2) - 1) \<le> n div 2"
      "n div 2 < 2 ^ bit_length (n div 2)" by auto
    moreover have "bit_length n = Suc (bit_length (n div 2))"
      using 1(2) by (simp add: bit_length.simps [of n])
    ultimately show ?thesis by (cases "bit_length (n div 2)") auto
  qed
qed

lemma exponent_of_int:
  assumes "0 < n"
  shows "exponent (of_int n) = int (bit_length n) - 1"
proof -
  have one: "bit_length 1 = 1" by (simp add: bit_length.simps)
  have "(2 :: rat) ^ (bit_length n - 1) \<le> of_int n"
    using bit_length_bounds [OF assms] of_int_le_iff [where 'a=rat, of "2 ^ (bit_length n - 1)" n]
    by simp
  with bit_length_bounds [OF assms] one show ?thesis
    by (simp add: exponent_def Let_def quotient_of_int pow2r_def nat_diff_distrib)
qed

lemma round_magnitude_int:
  assumes "0 < n" "n < 2 ^ 53"
  shows "round_magnitude (of_int n) = of_int n"
proof -
  let ?e = "max (exponent (of_int n) - 52) (- 1074)"
  have "(2 :: int) ^ (bit_length n - 1) < 2 ^ 53"
    using bit_length_bounds [OF assms(1)] assms(2) by linarith
  then have "bit_length n - 1 < 53" by (rule power_less_imp_less_exp [rotated]) simp
  then have e: "?e \<le> 0" using assms by (simp add: exponent_of_int)
  have "of_int n / pow2r ?e = of_int n * pow2r (- ?e)"
    by (rule pow2r_div)
  also have "\<dots> = of_int (n * 2 ^ nat (- ?e))"
    using e by (simp add: pow2r_int)
  finally have "round_half_even (of_int n / pow2r ?e) = n * 2 ^ nat (- ?e)"
    by (simp only: round_half_even_of_int)
  moreover have "of_int (n * 2 ^ nat (- ?e)) * pow2r ?e = (of_int n :: rat)"
    using e pow2r_minus [of ?e] by (simp add: pow2r_int)
  ultimately show ?thesis by (simp add: round_magnitude_def Let_def)
qed

lemma to_double_int:
  assumes "\<bar>n\<bar> < 2 ^ 53"
  shows "to_double (of_int n) = Fin (of_int n)"
proof (cases "n = 0")
  case False
  have "round_magnitude (of_int \<bar>n\<bar>) = of_int \<bar>n\<bar>"
    by (rule round_magnitude_int) (use assms False in auto)
  moreover have "(of_int \<bar>n\<bar> :: rat) < 2 ^ 1024"
  proof -
    have "\<bar>n\<bar> < 2 ^ 1024" using assms by (rule less_trans) simp
    then show ?thesis using of_int_less_iff [where 'a=rat, of "\<bar>n\<bar>" "2 ^ 1024"] by simp
  qed
  ultimately show ?thesis using False by (simp add: to_double_def Let_def)
qed (simp add: to_double_def)

end
