(* ===== verification/YamlText.thy ===== *)
theory YamlText
  imports YamlValues
begin

text \<open>
  The functions of the language that turn texts into numbers and back, regular expressions
  with a matcher, the conversion \<open>String(v)\<close>, and \<open>js-yaml/common.js\<close>.
\<close>

section \<open>Characters and code units\<close>

text \<open>\<open>s.charCodeAt(i)\<close>; \<open>None\<close> is \<open>NaN\<close>.\<close>

definition charCodeAt :: "jsstring \<Rightarrow> nat \<Rightarrow> int option" where
  "charCodeAt s i = (if i < length s then Some (s ! i) else None)"

definition digit_value :: "int \<Rightarrow> int option" where
  "digit_value c =
     (if 0x30 \<le> c \<and> c \<le> 0x39 then Some (c - 0x30)
      else if 0x61 \<le> c \<and> c \<le> 0x7A then Some (c - 0x61 + 10)
      else if 0x41 \<le> c \<and> c \<le> 0x5A then Some (c - 0x41 + 10) else None)"

definition is_radix_digit :: "int \<Rightarrow> int \<Rightarrow> bool" where
  "is_radix_digit r c = (case digit_value c of None \<Rightarrow> False | Some d \<Rightarrow> d < r)"

definition radix_value :: "int \<Rightarrow> jsstring \<Rightarrow> int" where
  "radix_value r s = foldl (\<lambda>v c. v * r + the (digit_value c)) 0 s"

definition js_space :: "int \<Rightarrow> bool" where
  "js_space c \<longleftrightarrow> c \<in> {0x09, 0x0A, 0x0B, 0x0C, 0x0D, 0x20, 0xA0, 0x1680, 0x2028, 0x2029,
                     0x202F, 0x205F, 0x3000, 0xFEFF} \<or> (0x2000 \<le> c \<and> c \<le> 0x200A)"

definition strip_sign :: "jsstring \<Rightarrow> int \<times> jsstring" where
  "strip_sign s = (case s of c # r \<Rightarrow> if c = 0x2D then (- 1, r) else if c = 0x2B then (1, r) else (1, s)
                   | [] \<Rightarrow> (1, []))"

text \<open>A value with a sign, where minus zero is a number of its own.\<close>

definition signed_double :: "int \<Rightarrow> rat \<Rightarrow> jsnum" where
  "signed_double sign q = num_signed sign (to_double q)"

text \<open>\<open>parseInt(s, r)\<close> for a radix \<open>r\<close> from 2 to 36.\<close>

definition parseInt :: "jsstring \<Rightarrow> int \<Rightarrow> jsnum" where
  "parseInt s r =
     (let (sign, t) = strip_sign (dropWhile js_space s);
          u = (if r = 16 \<and> (take 2 t = [0x30, 0x78] \<or> take 2 t = [0x30, 0x58]) then drop 2 t else t);
          ds = takeWhile (is_radix_digit r) u
      in if ds = [] then NaN else signed_double sign (of_int (radix_value r ds)))"

text \<open>\<open>parseFloat(s)\<close>: the longest prefix that is a decimal literal.\<close>

definition decimal_exponent :: "jsstring \<Rightarrow> int" where
  "decimal_exponent s =
     (case s of
        c # r \<Rightarrow>
          if c = 0x65 \<or> c = 0x45 then
            (let (sign, t) = strip_sign r in sign * dec_value (takeWhile dec_digit t))
          else 0
      | [] \<Rightarrow> 0)"

definition scale10 :: "int \<Rightarrow> rat" where
  "scale10 e = (if 0 \<le> e then 10 ^ nat e else 1 / 10 ^ nat (- e))"

definition parseFloat :: "jsstring \<Rightarrow> jsnum" where
  "parseFloat s =
     (let (sign, t) = strip_sign (dropWhile js_space s);
          ds = takeWhile dec_digit t;
          u = dropWhile dec_digit t;
          fs = (if u \<noteq> [] \<and> hd u = 0x2E then takeWhile dec_digit (tl u) else []);
          w = (if u \<noteq> [] \<and> hd u = 0x2E then dropWhile dec_digit (tl u) else u)
      in if take 8 t = jstr ''Infinity'' then num_signed sign PosInf
         else if ds @ fs = [] then NaN
         else signed_double sign
                (of_int (dec_value (ds @ fs)) * scale10 (decimal_exponent w - int (length fs))))"

text \<open>
  \<open>x.toString(10)\<close>: the fewest digits that read back as \<open>x\<close>, and of those the
  closest to it; \<open>n\<close> is the position of the decimal point. Integers below
  \<open>2 ^ 53\<close> are their own decimal expansion.
\<close>

definition decimal_point :: "rat \<Rightarrow> int" where
  "decimal_point q =
     (let (a, b) = quotient_of q;
          n = int (length (decimal_str a)) - int (length (decimal_str b))
      in if scale10 n \<le> q then n + 1 else n)"

definition digit_candidate :: "rat \<Rightarrow> int \<Rightarrow> nat \<Rightarrow> (int \<times> int) option" where
  "digit_candidate q n k =
     (let y = q * scale10 (int k - n); lo = \<lfloor>y\<rfloor>;
          ok = (\<lambda>s. to_double (of_int s * scale10 (n - int k)) = Fin q);
          norm = (\<lambda>s. if s = 10 ^ k then (10 ^ (k - 1), n + 1) else (s, n));
          (near, far) = (if y - of_int lo \<le> 1 / 2 then (lo, lo + 1) else (lo + 1, lo))
      in if ok near then Some (norm near) else if ok far then Some (norm far) else None)"

definition shortest_digits :: "rat \<Rightarrow> int \<times> int" where
  "shortest_digits q =
     (let n = decimal_point q in
      case List.find (\<lambda>k. digit_candidate q n k \<noteq> None) [1..<18] of
        Some k \<Rightarrow> the (digit_candidate q n k)
      | None \<Rightarrow> (\<lfloor>q * scale10 (17 - n)\<rfloor>, n))"

definition zeros :: "int \<Rightarrow> jsstring" where
  "zeros n = replicate (nat n) 0x30"

definition layout_decimal :: "jsstring \<Rightarrow> int \<Rightarrow> jsstring" where
  "layout_decimal ds n =
     (let k = int (length ds);
          e = n - 1;
          ex = [0x65, if e < 0 then 0x2D else 0x2B] @ decimal_str \<bar>e\<bar>
      in if k \<le> n \<and> n \<le> 21 then ds @ zeros (n - k)
         else if 0 < n \<and> n \<le> 21 then take (nat n) ds @ [0x2E] @ drop (nat n) ds
         else if - 6 < n \<and> n \<le> 0 then [0x30, 0x2E] @ zeros (- n) @ ds
         else if k = 1 then ds @ ex
         else [hd ds, 0x2E] @ tl ds @ ex)"

definition positive_to_string :: "rat \<Rightarrow> jsstring" where
  "positive_to_string q =
     (if of_int \<lfloor>q\<rfloor> = q \<and> q < 2 ^ 53 then decimal_str \<lfloor>q\<rfloor>
      else let (s, n) = shortest_digits q in layout_decimal (decimal_str s) n)"

definition num_to_string :: "jsnum \<Rightarrow> jsstring" where
  "num_to_string x =
     (case x of
        NaN \<Rightarrow> jstr ''NaN''
      | PosInf \<Rightarrow> jstr ''Infinity''
      | NegInf \<Rightarrow> jstr ''-Infinity''
      | NegZero \<Rightarrow> jstr ''0''
      | Fin q \<Rightarrow> if q < 0 then 0x2D # positive_to_string (- q) else positive_to_string q)"

text \<open>\<open>n.toString(r)\<close> of an integral number, below \<open>2 ^ 53\<close> exactly its digits.\<close>

definition int_to_radix :: "int \<Rightarrow> int \<Rightarrow> jsstring" where
  "int_to_radix r n = (if n < 0 then [0x2D] else []) @ radix_str r \<bar>n\<bar>"

text \<open>Case conversion of ASCII letters, \<open>split\<close> at a character, \<open>replace\<close> by nothing.\<close>

definition upper_ascii :: "jsstring \<Rightarrow> jsstring" where
  "upper_ascii s = map (\<lambda>c. if 0x61 \<le> c \<and> c \<le> 0x7A then c - 0x20 else c) s"

definition lower_ascii :: "jsstring \<Rightarrow> jsstring" where
  "lower_ascii s = map (\<lambda>c. if 0x41 \<le> c \<and> c \<le> 0x5A then c + 0x20 else c) s"

fun split_at :: "int \<Rightarrow> jsstring \<Rightarrow> jsstring list" where
  "split_at d [] = [[]]"
| "split_at d (c # s) =
     (if c = d then [] # split_at d s
      else case split_at d s of w # ws \<Rightarrow> (c # w) # ws | [] \<Rightarrow> [[c]])"

lemma split_at_break: "d \<notin> set a \<Longrightarrow> split_at d (a @ d # b) = a # split_at d b"
  by (induction a) (auto split: list.split)

lemma split_at_single: "d \<notin> set a \<Longrightarrow> split_at d a = [a]"
  by (induction a) (auto split: list.split)

definition remove_all :: "int \<Rightarrow> jsstring \<Rightarrow> jsstring" where
  "remove_all d s = filter (\<lambda>c. c \<noteq> d) s"

section \<open>Regular expressions\<close>

text \<open>
  The expressions of the code are matched against a whole string (\<open>^...$\<close>); a character
  class is a predicate on code units. Matching is by derivatives.
\<close>

datatype regex = Empty | Epsilon | Cls "int \<Rightarrow> bool" | Seq regex regex | Alt regex regex | Star regex

fun nullable :: "regex \<Rightarrow> bool" where
  "nullable Empty = False"
| "nullable Epsilon = True"
| "nullable (Cls p) = False"
| "nullable (Seq r q) = (nullable r \<and> nullable q)"
| "nullable (Alt r q) = (nullable r \<or> nullable q)"
| "nullable (Star r) = True"

definition mk_seq :: "regex \<Rightarrow> regex \<Rightarrow> regex" where
  "mk_seq r q = (case r of Empty \<Rightarrow> Empty | Epsilon \<Rightarrow> q | _ \<Rightarrow> Seq r q)"

definition mk_alt :: "regex \<Rightarrow> regex \<Rightarrow> regex" where
  "mk_alt r q = (case r of Empty \<Rightarrow> q | _ \<Rightarrow> (case q of Empty \<Rightarrow> r | _ \<Rightarrow> Alt r q))"

fun after :: "int \<Rightarrow> regex \<Rightarrow> regex" where
  "after c Empty = Empty"
| "after c Epsilon = Empty"
| "after c (Cls p) = (if p c then Epsilon else Empty)"
| "after c (Seq r q) =
     (if nullable r then mk_alt (mk_seq (after c r) q) (after c q) else mk_seq (after c r) q)"
| "after c (Alt r q) = mk_alt (after c r) (after c q)"
| "after c (Star r) = mk_seq (after c r) (Star r)"

fun re_test :: "regex \<Rightarrow> jsstring \<Rightarrow> bool" where
  "re_test r [] = nullable r"
| "re_test r (c # s) = re_test (after c r) s"

definition chr :: "int \<Rightarrow> regex" where
  "chr x = Cls (\<lambda>c. c = x)"

definition lit :: "string \<Rightarrow> regex" where
  "lit s = foldr (\<lambda>c r. Seq (chr (of_char c)) r) s Epsilon"

definition any_of :: "string \<Rightarrow> regex" where
  "any_of s = Cls (\<lambda>c. c \<in> set (jstr s))"

definition opt :: "regex \<Rightarrow> regex" where
  "opt r = Alt r Epsilon"

definition re_plus :: "regex \<Rightarrow> regex" where
  "re_plus r = Seq r (Star r)"

definition seqs :: "regex list \<Rightarrow> regex" where
  "seqs rs = foldr Seq rs Epsilon"

definition re_digit :: regex where
  "re_digit = Cls dec_digit"

text \<open>What an expression means.\<close>

inductive in_re :: "regex \<Rightarrow> jsstring \<Rightarrow> bool" where
  eps: "in_re Epsilon []"
| cls: "p c \<Longrightarrow> in_re (Cls p) [c]"
| seq: "in_re r s \<Longrightarrow> in_re q t \<Longrightarrow> in_re (Seq r q) (s @ t)"
| alt1: "in_re r s \<Longrightarrow> in_re (Alt r q) s"
| alt2: "in_re q s \<Longrightarrow> in_re (Alt r q) s"
| star0: "in_re (Star r) []"
| star1: "in_re r s \<Longrightarrow> in_re (Star r) t \<Longrightarrow> in_re (Star r) (s @ t)"

declare in_re.intros [intro]

inductive_simps in_re_simps [simp]:
  "in_re Empty s" "in_re Epsilon s" "in_re (Cls p) s" "in_re (Alt r q) s"

inductive_cases in_re_seqE: "in_re (Seq r q) s"

lemma in_re_Seq: "in_re (Seq r q) s \<longleftrightarrow> (\<exists>u v. s = u @ v \<and> in_re r u \<and> in_re q v)"
  by (blast elim: in_re_seqE)

lemma nullable_iff: "nullable r \<longleftrightarrow> in_re r []"
  by (induction r) (auto simp: in_re_Seq)

lemma in_re_mk_seq [simp]: "in_re (mk_seq r q) s \<longleftrightarrow> in_re (Seq r q) s"
  by (cases r) (simp_all add: mk_seq_def in_re_Seq)

lemma in_re_mk_alt [simp]: "in_re (mk_alt r q) s \<longleftrightarrow> in_re r s \<or> in_re q s"
  by (cases r; cases q) (simp_all add: mk_alt_def)

lemma star_cons:
  "in_re (Star r) s \<Longrightarrow> s = c # t \<Longrightarrow> \<exists>u v. t = u @ v \<and> in_re r (c # u) \<and> in_re (Star r) v"
proof (induction "Star r" s arbitrary: t rule: in_re.induct)
  case (star1 s v)
  then show ?case by (cases s) auto
qed auto

lemma in_re_after: "in_re (after c r) s \<longleftrightarrow> in_re r (c # s)"
proof (induction r arbitrary: s)
  case (Seq r q)
  have "in_re (Seq r q) (c # s) \<longleftrightarrow>
      (\<exists>u v. s = u @ v \<and> in_re r (c # u) \<and> in_re q v) \<or> in_re r [] \<and> in_re q (c # s)"
    by (auto simp: in_re_Seq Cons_eq_append_conv)
  with Seq show ?case by (auto simp: nullable_iff in_re_Seq)
next
  case (Star r)
  have "in_re (Star r) (c # s) \<longleftrightarrow> (\<exists>u v. s = u @ v \<and> in_re r (c # u) \<and> in_re (Star r) v)"
    using star_cons [of r "c # s" c s] star1 [of r "c # u" v for u v] by auto
  with Star show ?case by (simp add: in_re_Seq)
qed auto

lemma re_test_iff: "re_test r s \<longleftrightarrow> in_re r s"
  by (induction s arbitrary: r) (simp_all add: nullable_iff in_re_after)

lemma star_class: "in_re (Star (Cls p)) s \<longleftrightarrow> list_all p s"
proof
  show "list_all p s" if "in_re (Star (Cls p)) s"
    using that by (induction s rule: list.induct) (auto dest: star_cons)
  show "in_re (Star (Cls p)) s" if "list_all p s"
    using that
  proof (induction s)
    case (Cons c s)
    then have "in_re (Star (Cls p)) ([c] @ s)" by (intro star1) auto
    then show ?case by simp
  qed auto
qed

lemma split_Cons: "(\<exists>u v. c # s = u @ v \<and> P u \<and> Q v) \<longleftrightarrow>
    P [] \<and> Q (c # s) \<or> (\<exists>u v. s = u @ v \<and> P (c # u) \<and> Q v)"
proof
  assume "\<exists>u v. c # s = u @ v \<and> P u \<and> Q v"
  then obtain u v where uv: "c # s = u @ v" "P u" "Q v" by blast
  then show "P [] \<and> Q (c # s) \<or> (\<exists>u v. s = u @ v \<and> P (c # u) \<and> Q v)"
  proof (cases u)
    case (Cons x u')
    with uv have "s = u' @ v" "P (c # u')" by simp_all
    with uv(3) show ?thesis by blast
  qed simp
next
  assume "P [] \<and> Q (c # s) \<or> (\<exists>u v. s = u @ v \<and> P (c # u) \<and> Q v)"
  then show "\<exists>u v. c # s = u @ v \<and> P u \<and> Q v"
  proof
    assume "P [] \<and> Q (c # s)"
    then have "c # s = [] @ (c # s) \<and> P [] \<and> Q (c # s)" by simp
    then show ?thesis by blast
  next
    assume "\<exists>u v. s = u @ v \<and> P (c # u) \<and> Q v"
    then obtain u v where "c # s = (c # u) @ v \<and> P (c # u) \<and> Q v" by auto
    then show ?thesis by blast
  qed
qed

text \<open>
  The equations that evaluate a match on a given text, character by character; the
  conditionals keep the simplifier from looking at what a failed character leaves.
\<close>

lemma re_eval:
  "re_test Epsilon s \<longleftrightarrow> s = []"
  "re_test Empty s \<longleftrightarrow> False"
  "re_test (Cls p) s \<longleftrightarrow> (\<exists>c. s = [c] \<and> p c)"
  "re_test (Alt r q) s \<longleftrightarrow> (if re_test r s then True else re_test q s)"
  "re_test (Seq Epsilon r) s \<longleftrightarrow> re_test r s"
  "re_test (Seq Empty r) s \<longleftrightarrow> False"
  "re_test (Seq (Cls p) r) [] \<longleftrightarrow> False"
  "re_test (Seq (Cls p) r) (c # s) \<longleftrightarrow> (if p c then re_test r s else False)"
  "re_test (Seq (Alt r q) t) s \<longleftrightarrow> (if re_test (Seq r t) s then True else re_test (Seq q t) s)"
  "re_test (Seq (Seq r q) t) s \<longleftrightarrow> re_test (Seq r (Seq q t)) s"
  "re_test (Seq (Star (Cls p)) t) [] \<longleftrightarrow> re_test t []"
  "re_test (Seq (Star (Cls p)) t) (c # s) \<longleftrightarrow>
     (if re_test t (c # s) then True else if p c then re_test (Seq (Star (Cls p)) t) s else False)"
proof -
  show "re_test (Seq (Seq r q) t) s \<longleftrightarrow> re_test (Seq r (Seq q t)) s"
    unfolding re_test_iff in_re_Seq by (metis append.assoc)
  show "re_test (Seq (Star (Cls p)) t) (c # s) \<longleftrightarrow>
      (if re_test t (c # s) then True else if p c then re_test (Seq (Star (Cls p)) t) s else False)"
    unfolding re_test_iff in_re_Seq star_class split_Cons by auto
  show "re_test (Seq (Star (Cls p)) t) [] \<longleftrightarrow> re_test t []"
    unfolding re_test_iff in_re_Seq star_class by auto
  show "re_test (Seq (Cls p) r) (c # s) \<longleftrightarrow> (if p c then re_test r s else False)"
    unfolding re_test_iff in_re_Seq split_Cons by auto
qed (auto simp: re_test_iff in_re_Seq)

lemmas re_abbrevs = seqs_def re_digit_def chr_def opt_def any_of_def re_plus_def lit_def

section \<open>Conversion to a string\<close>

fun traverse :: "('a \<Rightarrow> 'e + 'b) \<Rightarrow> 'a list \<Rightarrow> 'e + 'b list" where
  "traverse f [] = Inr []"
| "traverse f (x # xs) = bind_res (f x) (\<lambda>y. bind_res (traverse f xs) (\<lambda>ys. Inr (y # ys)))"

fun join_with :: "jsstring \<Rightarrow> jsstring list \<Rightarrow> jsstring" where
  "join_with d [] = []"
| "join_with d [s] = s"
| "join_with d (s # t # ts) = s @ d @ join_with d (t # ts)"

lemma split_at_join:
  assumes "list_all (\<lambda>s. d \<notin> set s) (s # ss)" "d \<notin> set e"
  shows "split_at d (join_with (d # e) (s # ss)) = s # map ((@) e) ss"
proof -
  have "split_at d (u @ join_with (d # e) (s # ss)) = (u @ s) # map ((@) e) ss" if "d \<notin> set u" for u
    using assms(1) that
  proof (induction ss arbitrary: s u)
    case (Cons t ss)
    have "split_at d ((u @ s) @ d # (e @ join_with (d # e) (t # ss))) = (u @ s) # split_at d (e @ join_with (d # e) (t # ss))"
      using Cons.prems by (intro split_at_break) simp
    with Cons.IH [of t e] Cons.prems assms(2) show ?case by simp
  qed (simp add: split_at_single)
  from this [of "[]"] show ?thesis by simp
qed

definition is_func :: "heap \<Rightarrow> jsval \<Rightarrow> bool" where
  "is_func h v = (case cell_of h v of Some (Func ps b) \<Rightarrow> True | _ \<Rightarrow> False)"

text \<open>
  A plain object without a \<open>toString\<close> of its own is \<open>[object Object]\<close>; one that is
  not a function makes the conversion fail. An array joins its elements; inside itself it is the
  empty string. The depth of nested arrays is bounded by the number of objects.
\<close>

definition object_string :: "heap \<Rightarrow> (jsstring \<times> jsval) list \<Rightarrow> jsstring yres" where
  "object_string h ps =
     (case map_of ps (jstr ''toString'') of
        None \<Rightarrow> Inr (jstr ''[object Object]'')
      | Some f \<Rightarrow>
          if is_func h f \<or> (case map_of ps (jstr ''valueOf'') of Some g \<Rightarrow> is_func h g | None \<Rightarrow> False)
          then Inl (Unmodelled ''a method of a loaded object'')
          else type_error ''Cannot convert object to primitive value'')"

primrec string_of :: "nat \<Rightarrow> host \<Rightarrow> heap \<Rightarrow> nat list \<Rightarrow> jsval \<Rightarrow> jsstring yres" where
  "string_of 0 = (\<lambda>w h seen v. Inl Diverges)"
| "string_of (Suc n) = (\<lambda>w h seen v.
     case v of
       Undef \<Rightarrow> Inr (jstr ''undefined'')
     | Null \<Rightarrow> Inr (jstr ''null'')
     | Bool b \<Rightarrow> Inr (if b then jstr ''true'' else jstr ''false'')
     | Num x \<Rightarrow> Inr (num_to_string x)
     | Str s \<Rightarrow> Inr s
     | Ref r \<Rightarrow>
         (case cell_of h (Ref r) of
            None \<Rightarrow> Inl (Unmodelled ''a dangling reference'')
          | Some (Arr vs) \<Rightarrow>
              if r \<in> set seen then Inr []
              else bind_res (traverse (\<lambda>e. if e = Undef \<or> e = Null then Inr []
                                           else string_of n w h (r # seen) e) vs)
                     (\<lambda>ss. Inr (join_with [0x2C] ss))
          | Some (Obj ps) \<Rightarrow> object_string h ps
          | Some (Date t) \<Rightarrow> Inr (date_text w t)
          | Some (RegExp s f) \<Rightarrow> Inr ([0x2F] @ regexp_source w s @ [0x2F] @ f)
          | Some (Func ps b) \<Rightarrow> Inr (function_text w ps b)))"

definition js_String :: "host \<Rightarrow> heap \<Rightarrow> jsval \<Rightarrow> jsstring yres" where
  "js_String w h v = string_of (length h + 2) w h [] v"

lemma js_String_simps [simp]:
  "js_String w h Undef = Inr (jstr ''undefined'')"
  "js_String w h Null = Inr (jstr ''null'')"
  "js_String w h (Bool b) = Inr (if b then jstr ''true'' else jstr ''false'')"
  "js_String w h (Num x) = Inr (num_to_string x)"
  "js_String w h (Str s) = Inr s"
  by (simp_all add: js_String_def)

section \<open>js-yaml/common.js\<close>

definition isNothing :: "jsval \<Rightarrow> bool" where
  "isNothing subject \<longleftrightarrow> subject = Undef \<or> subject = Null"

definition isObject :: "heap \<Rightarrow> jsval \<Rightarrow> bool" where
  "isObject h subject =
     (case cell_of h subject of None \<Rightarrow> False | Some (Func ps b) \<Rightarrow> False | Some _ \<Rightarrow> True)"

definition toArray :: "heap \<Rightarrow> jsval \<Rightarrow> jsval list" where
  "toArray h s =
     (case cell_of h s of Some (Arr vs) \<Rightarrow> vs | _ \<Rightarrow> if isNothing s then [] else [s])"

definition extend :: "(jsstring \<times> 'v) list \<Rightarrow> (jsstring \<times> 'v) list option \<Rightarrow> (jsstring \<times> 'v) list" where
  "extend target source =
     (case source of
        None \<Rightarrow> target
      | Some src \<Rightarrow> foldl (\<lambda>t (key, v). prop_set t key v) target src)"

definition repeat :: "jsstring \<Rightarrow> int \<Rightarrow> jsstring" where
  "repeat s count = concat (replicate (nat count) s)"

definition isNegativeZero :: "jsnum \<Rightarrow> bool" where
  "isNegativeZero x \<longleftrightarrow> x = NegZero"

lemma repeat_le_0 [simp]: "n \<le> 0 \<Longrightarrow> repeat s n = []"
  by (simp add: repeat_def)

lemma repeat_char: "repeat [c] n = replicate (nat n) c"
  by (simp add: repeat_def)

end
