(* ===== verification/YamlSchema.thy ===== *)
theory YamlSchema
  imports YamlText
begin

text \<open>
  \<open>js-yaml/type.js\<close> and \<open>js-yaml/schema.js\<close> (modules 26 and 32): the types of
  nodes with their operations, and the compilation of the types of a schema and of the schemas
  it includes into the lists that the loader and the dumper search.
\<close>

section \<open>Types\<close>

datatype ykind = Scalar | Sequence | Mapping

definition kind_name :: "ykind \<Rightarrow> jsstring" where
  "kind_name k = (case k of Scalar \<Rightarrow> jstr ''scalar'' | Sequence \<Rightarrow> jstr ''sequence''
                          | Mapping \<Rightarrow> jstr ''mapping'')"

definition yaml_node_kinds :: "jsstring list" where
  "yaml_node_kinds = map kind_name [Scalar, Sequence, Mapping]"

definition type_constructor_options :: "jsstring list" where
  "type_constructor_options =
     map jstr [''kind'', ''resolve'', ''construct'', ''instanceOf'', ''predicate'', ''represent'',
               ''defaultStyle'', ''styleAliases'']"

text \<open>A representation is a function, or one function for each style.\<close>

datatype represent =
    RepFun "host \<Rightarrow> heap \<Rightarrow> jsval \<Rightarrow> jsstring option \<Rightarrow> jsval yres"
  | RepStyles "(jsstring \<times> (host \<Rightarrow> heap \<Rightarrow> jsval \<Rightarrow> jsval yres)) list"

record ytype =
  ty_tag :: jsstring
  ty_kind :: "ykind option"
  ty_resolve :: "host \<Rightarrow> heap \<Rightarrow> jsval \<Rightarrow> bool yres"
  ty_construct :: "host \<Rightarrow> heap \<Rightarrow> jsval \<Rightarrow> (heap \<times> jsval) yres"
  ty_instanceOf :: "(heap \<Rightarrow> jsval \<Rightarrow> bool) option"
  ty_predicate :: "(heap \<Rightarrow> jsval \<Rightarrow> bool) option"
  ty_represent :: "represent option"
  ty_defaultStyle :: "jsstring option"
  ty_styleAliases :: "(jsstring \<times> jsstring) list"

text \<open>
  The options of the constructor: their names as given, \<open>None\<close> for a missing option. A kind
  other than the three is any other string. The aliases are given as \<open>String(alias)\<close>.
\<close>

record type_options =
  o_names :: "jsstring list"
  o_kind :: "jsstring option"
  o_resolve :: "(host \<Rightarrow> heap \<Rightarrow> jsval \<Rightarrow> bool yres) option"
  o_construct :: "(host \<Rightarrow> heap \<Rightarrow> jsval \<Rightarrow> (heap \<times> jsval) yres) option"
  o_instanceOf :: "(heap \<Rightarrow> jsval \<Rightarrow> bool) option"
  o_predicate :: "(heap \<Rightarrow> jsval \<Rightarrow> bool) option"
  o_represent :: "represent option"
  o_defaultStyle :: "jsstring option"
  o_styleAliases :: "(jsstring \<times> jsstring list) list option"

definition yaml_exception :: "jsstring \<Rightarrow> 'a yres" where
  "yaml_exception m = Inl (YAMLException m None)"

definition compileStyleAliases :: "(jsstring \<times> jsstring list) list option \<Rightarrow> (jsstring \<times> jsstring) list" where
  "compileStyleAliases m =
     (case m of
        None \<Rightarrow> []
      | Some ps \<Rightarrow>
          foldl (\<lambda>result (style, aliases). foldl (\<lambda>r alias. prop_set r alias style) result aliases)
            [] ps)"

definition kind_of_name :: "jsstring option \<Rightarrow> ykind option" where
  "kind_of_name n =
     (case n of None \<Rightarrow> None
      | Some s \<Rightarrow> if s = kind_name Scalar then Some Scalar
                  else if s = kind_name Sequence then Some Sequence
                  else if s = kind_name Mapping then Some Mapping else None)"

text \<open>The fields of a new type, with their defaults.\<close>

definition type_object :: "jsstring \<Rightarrow> type_options \<Rightarrow> ytype" where
  "type_object tag options =
   \<lparr>ty_tag = tag, ty_kind = kind_of_name (o_kind options),
     ty_resolve = (case o_resolve options of Some f \<Rightarrow> f | None \<Rightarrow> (\<lambda>w h d. Inr True)),
     ty_construct = (case o_construct options of Some f \<Rightarrow> f | None \<Rightarrow> (\<lambda>w h d. Inr (h, d))),
     ty_instanceOf = o_instanceOf options, ty_predicate = o_predicate options,
     ty_represent = o_represent options, ty_defaultStyle = o_defaultStyle options,
     ty_styleAliases = compileStyleAliases (o_styleAliases options)\<rparr>"

definition Type :: "jsstring \<Rightarrow> type_options \<Rightarrow> ytype yres" where
  "Type tag options =
     (case List.find (\<lambda>name. name \<notin> set type_constructor_options) (o_names options) of
        Some name \<Rightarrow>
          yaml_exception (jstr ''Unknown option '' @ [0x22] @ name @ [0x22] @ jstr '' is met in definition of ''
            @ [0x22] @ tag @ [0x22] @ jstr '' YAML type.'')
      | None \<Rightarrow>
          if kind_of_name (o_kind options) = None
          then yaml_exception (jstr ''Unknown kind '' @ [0x22]
                 @ (case o_kind options of None \<Rightarrow> jstr ''null'' | Some k \<Rightarrow> k) @ [0x22]
                 @ jstr '' is specified for '' @ [0x22] @ tag @ [0x22] @ jstr '' YAML type.'')
          else Inr (type_object tag options))"

section \<open>Schemas\<close>

datatype schema = Schema (s_include: "schema list") (s_implicit: "ytype list") (s_explicit: "ytype list")

text \<open>
  One type list of a schema. \<open>exclude\<close> collects the positions of the types that a later type
  with the same tag replaces; \<open>keep_unlisted\<close> is the final \<open>filter\<close>.
\<close>

fun indices_from :: "nat \<Rightarrow> (ytype \<Rightarrow> bool) \<Rightarrow> ytype list \<Rightarrow> nat list" where
  "indices_from i p [] = []"
| "indices_from i p (t # ts) = (if p t then i # indices_from (Suc i) p ts else indices_from (Suc i) p ts)"

definition append_types :: "ytype list \<Rightarrow> ytype list \<Rightarrow> nat list \<times> ytype list" where
  "append_types ts result =
     foldl (\<lambda>(exclude, result) currentType.
              (exclude @ indices_from 0 (\<lambda>previousType. ty_tag previousType = ty_tag currentType) result,
               result @ [currentType])) ([], result) ts"

fun keep_unlisted :: "nat \<Rightarrow> nat list \<Rightarrow> ytype list \<Rightarrow> ytype list" where
  "keep_unlisted i exclude [] = []"
| "keep_unlisted i exclude (t # ts) =
     (if i \<in> set exclude then keep_unlisted (Suc i) exclude ts
      else t # keep_unlisted (Suc i) exclude ts)"

fun compileList :: "(schema \<Rightarrow> ytype list) \<Rightarrow> schema \<Rightarrow> ytype list \<Rightarrow> ytype list" where
  "compileList name (Schema inc im ex) result =
     (let result1 = foldl (\<lambda>r includedSchema. compileList name includedSchema r) result inc;
          (exclude, result2) = append_types (name (Schema inc im ex)) result1
      in keep_unlisted 0 exclude result2)"

definition compileMap :: "ytype list list \<Rightarrow> (jsstring \<times> ytype) list" where
  "compileMap ls =
     foldl (\<lambda>result types. foldl (\<lambda>r t. prop_set r (ty_tag t) t) result types) [] ls"

definition compiledImplicit :: "schema \<Rightarrow> ytype list" where
  "compiledImplicit s = compileList s_implicit s []"

definition compiledExplicit :: "schema \<Rightarrow> ytype list" where
  "compiledExplicit s = compileList s_explicit s []"

definition compiledTypeMap :: "schema \<Rightarrow> (jsstring \<times> ytype) list" where
  "compiledTypeMap s = compileMap [compiledImplicit s, compiledExplicit s]"

text \<open>
  The constructor looks at a property \<open>loadKind\<close> of the implicit types, which no object of
  the constructor \<open>Type\<close> has.
\<close>

definition loadKind :: "ytype \<Rightarrow> jsstring option" where
  "loadKind t = None"

definition new_schema :: "schema list \<Rightarrow> ytype list \<Rightarrow> ytype list \<Rightarrow> schema yres" where
  "new_schema inc im ex =
     (if \<exists>t \<in> set im. loadKind t \<noteq> None \<and> loadKind t \<noteq> Some (kind_name Scalar)
      then yaml_exception (jstr (''There is a non-scalar type in the implicit list of a schema. '' @
             ''Implicit resolving of such types is not supported.''))
      else Inr (Schema inc im ex))"

text \<open>
  The arguments of \<open>Schema.create\<close>: a list, or a single object, or nothing; \<open>None\<close>
  stands for an object of another kind.
\<close>

datatype 'a several = Nothing | Single "'a option" | Several "'a option list"

definition several_list :: "'a several \<Rightarrow> 'a option list" where
  "several_list a = (case a of Nothing \<Rightarrow> [] | Single x \<Rightarrow> [x] | Several xs \<Rightarrow> xs)"

datatype create_args = OneArg "ytype several" | TwoArgs "schema several" "ytype several" | OtherArgs

definition createSchema :: "schema option \<Rightarrow> create_args \<Rightarrow> schema yres" where
  "createSchema DEFAULT args =
     (case args of
        OtherArgs \<Rightarrow> yaml_exception (jstr ''Wrong number of arguments for Schema.create function'')
      | _ \<Rightarrow>
        (let (schemas, types) =
               (case args of
                  OneArg t \<Rightarrow> ((case DEFAULT of None \<Rightarrow> [] | Some s \<Rightarrow> [Some s]), several_list t)
                | TwoArgs s t \<Rightarrow> (several_list s, several_list t)
                | OtherArgs \<Rightarrow> ([], []))
         in if None \<in> set schemas
            then yaml_exception (jstr (''Specified list of super schemas (or a single Schema object) '' @
                   ''contains a non-Schema object.''))
            else if None \<in> set types
            then yaml_exception (jstr (''Specified list of YAML types (or a single Type object) '' @
                   ''contains a non-Type object.''))
            else new_schema (map the schemas) [] (map the types)))"

section \<open>The compiled list is the last definition of every tag\<close>

text \<open>
  The reference: all types of a schema in the order in which they are met, each replacing the
  earlier ones with its tag.
\<close>

fun types_of :: "(schema \<Rightarrow> ytype list) \<Rightarrow> schema \<Rightarrow> ytype list" where
  "types_of name (Schema inc im ex) = concat (map (types_of name) inc) @ name (Schema inc im ex)"

definition replace_type :: "ytype list \<Rightarrow> ytype \<Rightarrow> ytype list" where
  "replace_type ts t = filter (\<lambda>u. ty_tag u \<noteq> ty_tag t) ts @ [t]"

lemma keep_unlisted_append:
  "keep_unlisted i ex (xs @ ys) = keep_unlisted i ex xs @ keep_unlisted (i + length xs) ex ys"
  by (induction xs arbitrary: i) auto

lemma keep_unlisted_all: "\<forall>j \<in> set ex. j < i \<Longrightarrow> keep_unlisted i ex xs = xs"
  by (induction xs arbitrary: i) (auto simp: less_Suc_eq)

lemma indices_from_ge: "j \<in> set (indices_from i p xs) \<Longrightarrow> i \<le> j \<and> j < i + length xs"
proof (induction xs arbitrary: i)
  case (Cons x xs)
  show ?case using Cons.IH [of "Suc i"] Cons.prems by (auto split: if_splits)
qed simp

lemma keep_unlisted_indices:
  "keep_unlisted i (ex @ indices_from i p xs) xs = filter (\<lambda>t. \<not> p t) (keep_unlisted i ex xs)"
proof (induction xs arbitrary: i ex)
  case (Cons t ts)
  have later: "i \<notin> set (indices_from (Suc i) p ts)" using indices_from_ge [of i "Suc i" p ts] by auto
  have "keep_unlisted (Suc i) (ex @ i # indices_from (Suc i) p ts) ts =
      keep_unlisted (Suc i) (ex @ indices_from (Suc i) p ts) ts"
  proof -
    have "keep_unlisted k (a @ i # b) us = keep_unlisted k (a @ b) us" if "i < k" for k a b us
      using that by (induction us arbitrary: k) auto
    then show ?thesis by simp
  qed
  with Cons later show ?case by auto
qed simp

lemma keep_append_types:
  assumes "\<forall>j \<in> set ex. j < length r"
  shows "case foldl (\<lambda>(exclude, result) t.
            (exclude @ indices_from 0 (\<lambda>u. ty_tag u = ty_tag t) result, result @ [t])) (ex, r) ts of
          (ex', r') \<Rightarrow> keep_unlisted 0 ex' r' = foldl replace_type (keep_unlisted 0 ex r) ts"
  using assms
proof (induction ts arbitrary: ex r)
  case (Cons t ts)
  let ?ex = "ex @ indices_from 0 (\<lambda>u. ty_tag u = ty_tag t) r"
  have bound: "\<forall>j \<in> set ?ex. j < length r"
    using Cons.prems indices_from_ge [of _ 0 _ r] by auto
  have "keep_unlisted 0 ?ex (r @ [t]) = replace_type (keep_unlisted 0 ex r) t"
    using bound
    by (auto simp: keep_unlisted_append keep_unlisted_indices replace_type_def)
  moreover have "\<forall>j \<in> set ?ex. j < length (r @ [t])"
    using bound by (metis length_append_singleton less_SucI)
  ultimately show ?case using Cons.IH [of ?ex "r @ [t]"] by simp
qed simp

lemma compileList_eq: "compileList name s r = foldl replace_type r (types_of name s)"
proof (induction name s r rule: compileList.induct)
  case (1 name inc im ex r)
  have "foldl (\<lambda>r s. compileList name s r) r ss = foldl replace_type r (concat (map (types_of name) ss))"
    if "set ss \<subseteq> set inc" for ss
    using that 1 by (induction ss arbitrary: r) auto
  then have inc: "foldl (\<lambda>r s. compileList name s r) r inc =
      foldl replace_type r (concat (map (types_of name) inc))" by simp
  let ?r = "foldl replace_type r (concat (map (types_of name) inc))"
  show ?case
    using keep_append_types [of "[]" ?r "name (Schema inc im ex)"]
    by (simp add: inc append_types_def split_beta keep_unlisted_all)
qed

lemma set_replace_type: "t \<in> set (replace_type ts u) \<longleftrightarrow> t = u \<or> t \<in> set ts \<and> ty_tag t \<noteq> ty_tag u"
  by (auto simp: replace_type_def)

lemma distinct_replace_type:
  "distinct (map ty_tag ts) \<Longrightarrow> distinct (map ty_tag (replace_type ts t))"
  by (auto simp: replace_type_def distinct_map_filter)

lemma distinct_foldl_replace:
  "distinct (map ty_tag r) \<Longrightarrow> distinct (map ty_tag (foldl replace_type r ts))"
  by (induction ts arbitrary: r) (simp_all add: distinct_replace_type)

lemma set_foldl_replace:
  "t \<in> set (foldl replace_type r ts) \<longleftrightarrow>
     t \<in> set r \<and> ty_tag t \<notin> ty_tag ` set ts \<or> (\<exists>us vs. ts = us @ t # vs \<and> ty_tag t \<notin> ty_tag ` set vs)"
proof (induction ts rule: rev_induct)
  case (snoc u ts)
  have "(\<exists>us vs. ts @ [u] = us @ t # vs \<and> ty_tag t \<notin> ty_tag ` set vs) \<longleftrightarrow>
      t = u \<or> ty_tag t \<noteq> ty_tag u \<and> (\<exists>us vs. ts = us @ t # vs \<and> ty_tag t \<notin> ty_tag ` set vs)"
  proof (intro iffI)
    assume "\<exists>us vs. ts @ [u] = us @ t # vs \<and> ty_tag t \<notin> ty_tag ` set vs"
    then obtain us vs where *: "ts @ [u] = us @ t # vs" "ty_tag t \<notin> ty_tag ` set vs" by auto
    show "t = u \<or> ty_tag t \<noteq> ty_tag u \<and> (\<exists>us vs. ts = us @ t # vs \<and> ty_tag t \<notin> ty_tag ` set vs)"
    proof (cases vs rule: rev_cases)
      case (snoc vs' v)
      with * have "ts = us @ t # vs'" "v = u" by auto
      with * snoc show ?thesis by auto
    qed (use * in auto)
  next
    assume "t = u \<or> ty_tag t \<noteq> ty_tag u \<and> (\<exists>us vs. ts = us @ t # vs \<and> ty_tag t \<notin> ty_tag ` set vs)"
    then show "\<exists>us vs. ts @ [u] = us @ t # vs \<and> ty_tag t \<notin> ty_tag ` set vs"
    proof
      assume "ty_tag t \<noteq> ty_tag u \<and> (\<exists>us vs. ts = us @ t # vs \<and> ty_tag t \<notin> ty_tag ` set vs)"
      then obtain us vs where "ts = us @ t # vs" "ty_tag t \<notin> ty_tag ` set vs" "ty_tag t \<noteq> ty_tag u"
        by auto
      then have "ts @ [u] = us @ t # (vs @ [u])" "ty_tag t \<notin> ty_tag ` set (vs @ [u])" by auto
      then show ?thesis by blast
    qed fastforce
  qed
  with snoc show ?case by (auto simp: set_replace_type)
qed simp

text \<open>
  C17: Whatever schemas a schema includes, its compiled list holds every tag at most once, and
  for each tag exactly the type that is met last when the included schemas are walked in order
  and the schema's own types come at the end.
\<close>

theorem compile_last_wins:
  "distinct (map ty_tag (compileList name s [])) \<and>
   set (compileList name s []) =
     {t. \<exists>us vs. types_of name s = us @ t # vs \<and> ty_tag t \<notin> ty_tag ` set vs}"
proof
  show "distinct (map ty_tag (compileList name s []))"
    by (simp add: compileList_eq distinct_foldl_replace)
  show "set (compileList name s []) =
      {t. \<exists>us vs. types_of name s = us @ t # vs \<and> ty_tag t \<notin> ty_tag ` set vs}"
    by (simp only: set_eq_iff compileList_eq set_foldl_replace mem_Collect_eq) simp
qed

end
