(* ===== verification/YamlTypes.thy ===== *)
theory YamlTypes
  imports YamlSchema
begin

text \<open>
  The node types of js-yaml (modules 33 to 48) and the schemas made of them (modules 27 to 31).
  Each type has the operations of its module: \<open>resolve\<close> decides whether a node has the
  type, \<open>construct\<close> makes its value, \<open>predicate\<close> recognises values when dumping and
  \<open>represent\<close> writes them. The operations receive any value, because the loader may hand a
  node that was resolved before to a second type; a missing property or method then shows as a
  \<open>TypeError\<close>.
\<close>

definition alloc :: "heap \<Rightarrow> cell \<Rightarrow> heap \<times> jsval" where
  "alloc h c = (h @ [c], Ref (length h))"

text \<open>\<open>data.length\<close>: \<open>None\<close> is \<open>undefined\<close>.\<close>

definition length_of :: "heap \<Rightarrow> jsval \<Rightarrow> nat option yres" where
  "length_of h v =
     (case v of
        Undef \<Rightarrow> type_error ''Cannot read property length of undefined''
      | Null \<Rightarrow> type_error ''Cannot read property length of null''
      | Str s \<Rightarrow> Inr (Some (length s))
      | _ \<Rightarrow>
        (case cell_of h v of
           Some (Arr vs) \<Rightarrow> Inr (Some (length vs))
         | Some (Func ps b) \<Rightarrow> Inr (Some (length ps))
         | Some (Obj ps) \<Rightarrow>
             if has_own ps (jstr ''length'') then Inl (Unmodelled ''a loaded object with a length'')
             else Inr None
         | _ \<Rightarrow> Inr None))"

abbreviation not_a_method :: "'a yres" where
  "not_a_method \<equiv> type_error ''not a function''"

section \<open>str, seq, map, null, merge\<close>

definition construct_str :: "host \<Rightarrow> heap \<Rightarrow> jsval \<Rightarrow> (heap \<times> jsval) yres" where
  "construct_str w h data = Inr (h, if data \<noteq> Null then data else Str [])"

definition construct_seq :: "host \<Rightarrow> heap \<Rightarrow> jsval \<Rightarrow> (heap \<times> jsval) yres" where
  "construct_seq w h data = Inr (if data \<noteq> Null then (h, data) else alloc h (Arr []))"

definition construct_map :: "host \<Rightarrow> heap \<Rightarrow> jsval \<Rightarrow> (heap \<times> jsval) yres" where
  "construct_map w h data = Inr (if data \<noteq> Null then (h, data) else alloc h (Obj []))"

definition resolveYamlMerge :: "host \<Rightarrow> heap \<Rightarrow> jsval \<Rightarrow> bool yres" where
  "resolveYamlMerge w h data = Inr (data = Str (jstr ''<<'') \<or> data = Null)"

definition resolveYamlNull :: "host \<Rightarrow> heap \<Rightarrow> jsval \<Rightarrow> bool yres" where
  "resolveYamlNull w h data =
     (if data = Null then Inr True
      else bind_res (length_of h data) (\<lambda>max. Inr (
             max = Some 1 \<and> data = Str (jstr ''~'') \<or>
             max = Some 4 \<and> (data = Str (jstr ''null'') \<or> data = Str (jstr ''Null'')
                             \<or> data = Str (jstr ''NULL'')))))"

definition constructYamlNull :: "host \<Rightarrow> heap \<Rightarrow> jsval \<Rightarrow> (heap \<times> jsval) yres" where
  "constructYamlNull w h data = Inr (h, Null)"

definition isNull :: "heap \<Rightarrow> jsval \<Rightarrow> bool" where
  "isNull h v \<longleftrightarrow> v = Null"

definition represent_null :: represent where
  "represent_null =
     RepStyles (map (\<lambda>(st, t). (jstr st, \<lambda>w h v. Inr (Str (jstr t))))
       [(''canonical'', ''~''), (''lowercase'', ''null''), (''uppercase'', ''NULL''),
        (''camelcase'', ''Null'')])"

section \<open>bool\<close>

definition resolveYamlBoolean :: "host \<Rightarrow> heap \<Rightarrow> jsval \<Rightarrow> bool yres" where
  "resolveYamlBoolean w h data =
     (if data = Null then Inr False
      else bind_res (length_of h data) (\<lambda>max. Inr (
             max = Some 4 \<and> (data = Str (jstr ''true'') \<or> data = Str (jstr ''True'')
                             \<or> data = Str (jstr ''TRUE'')) \<or>
             max = Some 5 \<and> (data = Str (jstr ''false'') \<or> data = Str (jstr ''False'')
                             \<or> data = Str (jstr ''FALSE'')))))"

definition constructYamlBoolean :: "host \<Rightarrow> heap \<Rightarrow> jsval \<Rightarrow> (heap \<times> jsval) yres" where
  "constructYamlBoolean w h data =
     Inr (h, Bool (data = Str (jstr ''true'') \<or> data = Str (jstr ''True'')
                   \<or> data = Str (jstr ''TRUE'')))"

definition isBoolean :: "heap \<Rightarrow> jsval \<Rightarrow> bool" where
  "isBoolean h v = (case v of Bool b \<Rightarrow> True | _ \<Rightarrow> False)"

definition truthy :: "jsval \<Rightarrow> bool" where
  "truthy v = (case v of Undef \<Rightarrow> False | Null \<Rightarrow> False | Bool b \<Rightarrow> b
     | Num x \<Rightarrow> \<not> (x = NaN \<or> x = NegZero \<or> x = Fin 0) | Str s \<Rightarrow> s \<noteq> [] | Ref r \<Rightarrow> True)"

definition represent_bool :: represent where
  "represent_bool =
     RepStyles (map (\<lambda>(st, t, f). (jstr st, \<lambda>w h v. Inr (Str (jstr (if truthy v then t else f)))))
       [(''lowercase'', ''true'', ''false''), (''uppercase'', ''TRUE'', ''FALSE''),
        (''camelcase'', ''True'', ''False'')])"

section \<open>int\<close>

definition isHexCode :: "int \<Rightarrow> bool" where
  "isHexCode c \<longleftrightarrow> (0x30 \<le> c \<and> c \<le> 0x39) \<or> (0x41 \<le> c \<and> c \<le> 0x46) \<or> (0x61 \<le> c \<and> c \<le> 0x66)"

definition isOctCode :: "int \<Rightarrow> bool" where
  "isOctCode c \<longleftrightarrow> 0x30 \<le> c \<and> c \<le> 0x37"

definition isDecCode :: "int \<Rightarrow> bool" where
  "isDecCode c \<longleftrightarrow> 0x30 \<le> c \<and> c \<le> 0x39"

definition isBinCode :: "int \<Rightarrow> bool" where
  "isBinCode c \<longleftrightarrow> c = 0x30 \<or> c = 0x31"

text \<open>The loops over the digits of bases 2, 8 and 16; \<open>_\<close> is skipped.\<close>

fun based_digits :: "(int \<Rightarrow> bool) \<Rightarrow> bool \<Rightarrow> jsstring \<Rightarrow> bool" where
  "based_digits p hasDigits [] = hasDigits"
| "based_digits p hasDigits (ch # s) =
     (if ch = 0x5F then based_digits p hasDigits s
      else if \<not> p ch then False else based_digits p True s)"

definition base60_tail :: regex where
  "base60_tail = re_plus (seqs [chr 0x3A, opt (Cls (\<lambda>c. 0x30 \<le> c \<and> c \<le> 0x35)), re_digit])"

text \<open>
  The loop over a decimal number, up to a colon. The test after the loop looks at the last
  character read, which is the colon only if the loop stopped there.
\<close>

fun decimal_digits :: "bool \<Rightarrow> jsstring \<Rightarrow> bool" where
  "decimal_digits hasDigits [] = hasDigits"
| "decimal_digits hasDigits (ch # s) =
     (if ch = 0x5F then decimal_digits hasDigits s
      else if ch = 0x3A then hasDigits \<and> re_test base60_tail (ch # s)
      else if \<not> isDecCode ch then False else decimal_digits True s)"

definition resolve_integer :: "jsstring \<Rightarrow> bool" where
  "resolve_integer data =
     (if data = [] then False
      else
        let s = (if hd data = 0x2D \<or> hd data = 0x2B then tl data else data) in
        case s of
          [] \<Rightarrow> False
        | ch # s1 \<Rightarrow>
          if ch = 0x30 then
            (case s1 of
               [] \<Rightarrow> True
             | ch1 # s2 \<Rightarrow>
                 if ch1 = 0x62 then based_digits isBinCode False s2
                 else if ch1 = 0x78 then based_digits isHexCode False s2
                 else based_digits isOctCode False s1)
          else decimal_digits False s)"

definition has_string_element :: "heap \<Rightarrow> jsval \<Rightarrow> bool" where
  "has_string_element h v =
     (case cell_of h v of Some (Arr vs) \<Rightarrow> \<not> list_all (\<lambda>e. case e of Str s \<Rightarrow> False | _ \<Rightarrow> True) vs
      | _ \<Rightarrow> False)"

definition resolveYamlInteger :: "host \<Rightarrow> heap \<Rightarrow> jsval \<Rightarrow> bool yres" where
  "resolveYamlInteger w h data =
     (case data of
        Null \<Rightarrow> Inr False
      | Str s \<Rightarrow> Inr (resolve_integer s)
      | _ \<Rightarrow> bind_res (length_of h data)
               (\<lambda>max. if max = None \<or> max = Some 0 then Inr False
                      else if has_string_element h data then Inl (Unmodelled ''an array of characters'')
                      else not_a_method))"

text \<open>
  The value of the parts of a number in base 60: the parts in reverse order, weighted by powers
  of 60.
\<close>

fun base60_sum :: "jsnum \<Rightarrow> rat \<Rightarrow> jsnum list \<Rightarrow> jsnum" where
  "base60_sum value base [] = value"
| "base60_sum value base (d # ds) =
     base60_sum (num_plus value (num_scale d base)) (num_value (to_double (base * 60))) ds"

definition construct_integer :: "jsstring \<Rightarrow> jsnum" where
  "construct_integer data =
     (let v1 = remove_all 0x5F data;
          sign = (if v1 \<noteq> [] \<and> hd v1 = 0x2D then - 1 else 1);
          value = (if v1 \<noteq> [] \<and> (hd v1 = 0x2D \<or> hd v1 = 0x2B) then tl v1 else v1)
      in if value = [0x30] then Fin 0
         else if value \<noteq> [] \<and> hd value = 0x30 then
           (if charCodeAt value 1 = Some 0x62 then num_signed sign (parseInt (drop 2 value) 2)
            else if charCodeAt value 1 = Some 0x78 then num_signed sign (parseInt value 16)
            else num_signed sign (parseInt value 8))
         else if 0x3A \<in> set value then
           num_signed sign
             (base60_sum (Fin 0) 1 (rev (map (\<lambda>v. parseInt v 10) (split_at 0x3A value))))
         else num_signed sign (parseInt value 10))"

definition constructYamlInteger :: "host \<Rightarrow> heap \<Rightarrow> jsval \<Rightarrow> (heap \<times> jsval) yres" where
  "constructYamlInteger w h data =
     (case data of
        Str s \<Rightarrow> Inr (h, Num (construct_integer s))
      | Ref r \<Rightarrow> Inl (Unmodelled ''an object in place of a text'')
      | _ \<Rightarrow> not_a_method)"

definition is_integral :: "jsnum \<Rightarrow> bool" where
  "is_integral x = (case x of Fin q \<Rightarrow> of_int \<lfloor>q\<rfloor> = q | _ \<Rightarrow> False)"

definition isInteger :: "heap \<Rightarrow> jsval \<Rightarrow> bool" where
  "isInteger h v =
     (case v of Num x \<Rightarrow> (is_integral x \<or> x = NegZero) \<and> \<not> isNegativeZero x | _ \<Rightarrow> False)"

definition represent_integer :: "jsstring \<Rightarrow> int \<Rightarrow> jsnum \<Rightarrow> jsstring" where
  "represent_integer prefix r x =
     prefix @ (if r = 10 then num_to_string x else int_to_radix r \<lfloor>num_value x\<rfloor>)"

definition represent_int :: represent where
  "represent_int =
     (let rep = (\<lambda>f w h v. case v of Num x \<Rightarrow> Inr (Str (f x)) | _ \<Rightarrow> Inl (Unmodelled ''not a number'')) in
      RepStyles
        [(jstr ''binary'', rep (represent_integer (jstr ''0b'') 2)),
         (jstr ''octal'', rep (represent_integer (jstr ''0'') 8)),
         (jstr ''decimal'', rep (represent_integer [] 10)),
         (jstr ''hexadecimal'', rep (\<lambda>x. jstr ''0x'' @ upper_ascii (represent_integer [] 16 x)))])"

definition int_aliases :: "(jsstring \<times> jsstring list) list" where
  "int_aliases =
     [(jstr ''binary'', [decimal_str 2, jstr ''bin'']), (jstr ''octal'', [decimal_str 8, jstr ''oct'']),
      (jstr ''decimal'', [decimal_str 10, jstr ''dec'']),
      (jstr ''hexadecimal'', [decimal_str 16, jstr ''hex''])]"

section \<open>float\<close>

definition yaml_float_pattern :: regex where
  "yaml_float_pattern =
     (let sign = opt (any_of ''-+'');
          digs = Star (Cls (\<lambda>c. dec_digit c \<or> c = 0x5F));
          ex = opt (seqs [any_of ''eE'', any_of ''-+'', re_plus re_digit])
      in foldr Alt
        [seqs [sign, re_digit, digs, chr 0x2E, digs, ex],
         seqs [chr 0x2E, re_plus (Cls (\<lambda>c. dec_digit c \<or> c = 0x5F)), ex],
         seqs [sign, re_digit, digs,
               re_plus (seqs [chr 0x3A, opt (Cls (\<lambda>c. 0x30 \<le> c \<and> c \<le> 0x35)), re_digit]),
               chr 0x2E, digs],
         seqs [sign, chr 0x2E, foldr Alt [lit ''inf'', lit ''Inf'', lit ''INF''] Empty],
         seqs [chr 0x2E, foldr Alt [lit ''nan'', lit ''NaN'', lit ''NAN''] Empty]] Empty)"

text \<open>\<open>test\<close> converts its argument to a string.\<close>

definition resolveYamlFloat :: "host \<Rightarrow> heap \<Rightarrow> jsval \<Rightarrow> bool yres" where
  "resolveYamlFloat w h data =
     (if data = Null then Inr False
      else bind_res (js_String w h data) (\<lambda>s. Inr (re_test yaml_float_pattern s)))"

definition construct_float :: "jsstring \<Rightarrow> jsnum" where
  "construct_float data =
     (let v1 = lower_ascii (remove_all 0x5F data);
          sign = (if v1 \<noteq> [] \<and> hd v1 = 0x2D then - 1 else 1);
          value = (if v1 \<noteq> [] \<and> (hd v1 = 0x2D \<or> hd v1 = 0x2B) then tl v1 else v1)
      in if value = jstr ''.inf'' then (if sign = 1 then PosInf else NegInf)
         else if value = jstr ''.nan'' then NaN
         else if 0x3A \<in> set value then
           num_signed sign (base60_sum (Fin 0) 1 (rev (map parseFloat (split_at 0x3A value))))
         else num_signed sign (parseFloat value))"

definition constructYamlFloat :: "host \<Rightarrow> heap \<Rightarrow> jsval \<Rightarrow> (heap \<times> jsval) yres" where
  "constructYamlFloat w h data =
     (case data of Str s \<Rightarrow> Inr (h, Num (construct_float s)) | _ \<Rightarrow> not_a_method)"

definition scientific_without_dot :: "jsstring \<Rightarrow> bool" where
  "scientific_without_dot s =
     (let t = snd (strip_sign s); r = dropWhile dec_digit t
      in r \<noteq> t \<and> r \<noteq> [] \<and> hd r = 0x65)"

fun replace_first :: "int \<Rightarrow> jsstring \<Rightarrow> jsstring \<Rightarrow> jsstring" where
  "replace_first d r [] = []"
| "replace_first d r (c # s) = (if c = d then r @ s else c # replace_first d r s)"

definition float_style :: "jsstring option \<Rightarrow> string \<Rightarrow> string \<Rightarrow> string \<Rightarrow> jsstring option" where
  "float_style st l u c =
     (if st = Some (jstr ''lowercase'') then Some (jstr l)
      else if st = Some (jstr ''uppercase'') then Some (jstr u)
      else if st = Some (jstr ''camelcase'') then Some (jstr c) else None)"

definition represent_float :: "jsnum \<Rightarrow> jsstring option \<Rightarrow> jsstring" where
  "represent_float x st =
     (let special =
            (if x = NaN then float_style st ''.nan'' ''.NAN'' ''.NaN''
             else if x = PosInf then float_style st ''.inf'' ''.INF'' ''.Inf''
             else if x = NegInf then float_style st ''-.inf'' ''-.INF'' ''-.Inf''
             else if isNegativeZero x then Some (jstr ''-0.0'') else None);
          res = num_to_string x
      in case special of
           Some s \<Rightarrow> s
         | None \<Rightarrow> if scientific_without_dot res then replace_first 0x65 (jstr ''.e'') res else res)"

definition isFloat :: "heap \<Rightarrow> jsval \<Rightarrow> bool" where
  "isFloat h v =
     (case v of Num x \<Rightarrow> \<not> (is_integral x \<or> x = NegZero) \<or> isNegativeZero x | _ \<Rightarrow> False)"

definition representYamlFloat :: "host \<Rightarrow> heap \<Rightarrow> jsval \<Rightarrow> jsstring option \<Rightarrow> jsval yres" where
  "representYamlFloat w h v st =
     (case v of Num x \<Rightarrow> Inr (Str (represent_float x st)) | _ \<Rightarrow> Inl (Unmodelled ''not a number''))"

section \<open>js/undefined, js/regexp, js/function\<close>

definition resolveJavascriptUndefined :: "host \<Rightarrow> heap \<Rightarrow> jsval \<Rightarrow> bool yres" where
  "resolveJavascriptUndefined w h data = Inr True"

definition constructJavascriptUndefined :: "host \<Rightarrow> heap \<Rightarrow> jsval \<Rightarrow> (heap \<times> jsval) yres" where
  "constructJavascriptUndefined w h data = Inr (h, Undef)"

definition isUndefined :: "heap \<Rightarrow> jsval \<Rightarrow> bool" where
  "isUndefined h v \<longleftrightarrow> v = Undef"

definition representJavascriptUndefined :: "host \<Rightarrow> heap \<Rightarrow> jsval \<Rightarrow> jsstring option \<Rightarrow> jsval yres" where
  "representJavascriptUndefined w h v st = Inr (Str [])"

text \<open>
  \<open>/\/([gim]*)$/.exec(data)\<close>: the flags after the last slash, if nothing else follows it.
\<close>

definition is_flag :: "int \<Rightarrow> bool" where
  "is_flag c \<longleftrightarrow> c = 0x67 \<or> c = 0x69 \<or> c = 0x6D"

definition regexp_tail :: "jsstring \<Rightarrow> jsstring option" where
  "regexp_tail s =
     (let r = rev s in
      case dropWhile is_flag r of
        c # t \<Rightarrow> if c = 0x2F then Some (rev (takeWhile is_flag r)) else None
      | [] \<Rightarrow> None)"

definition regexp_modifiers :: "jsstring \<Rightarrow> jsstring" where
  "regexp_modifiers s = (case regexp_tail s of Some m \<Rightarrow> m | None \<Rightarrow> [])"

definition resolve_regexp :: "jsstring \<Rightarrow> bool" where
  "resolve_regexp s =
     (if s = [] then False
      else if hd s = 0x2F then
        (let modifiers = regexp_modifiers s in
         if length modifiers > 3 then False
         else s ! (length s - length modifiers - 1) = 0x2F)
      else True)"

definition resolveJavascriptRegExp :: "host \<Rightarrow> heap \<Rightarrow> jsval \<Rightarrow> bool yres" where
  "resolveJavascriptRegExp w h data =
     (case data of
        Null \<Rightarrow> Inr False
      | Str s \<Rightarrow> Inr (resolve_regexp s)
      | _ \<Rightarrow> bind_res (length_of h data)
               (\<lambda>l. if l = Some 0 then Inr False
                    else if has_string_element h data then Inl (Unmodelled ''an array of characters'')
                    else Inr True))"

text \<open>
  \<open>new RegExp(pattern, flags)\<close>; an engine lists the flags in alphabetical order.
\<close>

definition new_regexp :: "host \<Rightarrow> heap \<Rightarrow> jsstring \<Rightarrow> jsstring \<Rightarrow> (heap \<times> jsval) yres" where
  "new_regexp w h pattern flags =
     (if distinct flags \<and> list_all is_flag flags \<and> regexp_valid w pattern flags
      then Inr (alloc h (RegExp pattern (filter (\<lambda>c. c \<in> set flags) [0x67, 0x69, 0x6D])))
      else Inl (SyntaxError (jstr ''Invalid regular expression'')))"

definition constructJavascriptRegExp :: "host \<Rightarrow> heap \<Rightarrow> jsval \<Rightarrow> (heap \<times> jsval) yres" where
  "constructJavascriptRegExp w h data =
     (case data of
        Str s \<Rightarrow>
          if s \<noteq> [] \<and> hd s = 0x2F then
            (let modifiers = regexp_modifiers s in
             new_regexp w h (js_slice s 1 (int (length s) - int (length modifiers) - 1)) modifiers)
          else new_regexp w h s []
      | _ \<Rightarrow>
        (case cell_of h data of
           Some (RegExp p f) \<Rightarrow> new_regexp w h p []
         | Some (Arr vs) \<Rightarrow>
             if has_string_element h data then Inl (Unmodelled ''an array of characters'')
             else bind_res (js_String w h data) (\<lambda>s. new_regexp w h s [])
         | _ \<Rightarrow> bind_res (if data = Undef then Inr [] else js_String w h data)
                  (\<lambda>s. new_regexp w h s [])))"

definition representJavascriptRegExp :: "host \<Rightarrow> heap \<Rightarrow> jsval \<Rightarrow> jsstring option \<Rightarrow> jsval yres" where
  "representJavascriptRegExp w h v st =
     (case cell_of h v of
        Some (RegExp p f) \<Rightarrow>
          Inr (Str ([0x2F] @ regexp_source w p @ [0x2F]
                 @ (if 0x67 \<in> set f then [0x67] else []) @ (if 0x6D \<in> set f then [0x6D] else [])
                 @ (if 0x69 \<in> set f then [0x69] else [])))
      | _ \<Rightarrow> Inl (Unmodelled ''not a regular expression''))"

definition isRegExp :: "heap \<Rightarrow> jsval \<Rightarrow> bool" where
  "isRegExp h v = (case cell_of h v of Some (RegExp p f) \<Rightarrow> True | _ \<Rightarrow> False)"

text \<open>
  The parser esprima is the host's; a text that it rejects, or a missing parser, gives no tree.
\<close>

definition function_ast :: "host \<Rightarrow> heap \<Rightarrow> jsval \<Rightarrow> (jsstring \<times> jsstring list \<times> nat \<times> nat) option" where
  "function_ast w h data =
     (case js_String w h data of
        Inl e \<Rightarrow> None
      | Inr s \<Rightarrow>
          (let source = [0x28] @ s @ [0x29] in
           case esprima_parse w source of
             None \<Rightarrow> None
           | Some ast \<Rightarrow>
               (case ast_body ast of
                  [(ty, ety, params, a, b)] \<Rightarrow>
                    if ast_type ast = jstr ''Program'' \<and> ty = jstr ''ExpressionStatement''
                       \<and> ety = jstr ''FunctionExpression'' then Some (source, params, a, b) else None
                | _ \<Rightarrow> None)))"

definition resolveJavascriptFunction :: "host \<Rightarrow> heap \<Rightarrow> jsval \<Rightarrow> bool yres" where
  "resolveJavascriptFunction w h data = Inr (data \<noteq> Null \<and> function_ast w h data \<noteq> None)"

definition constructJavascriptFunction :: "host \<Rightarrow> heap \<Rightarrow> jsval \<Rightarrow> (heap \<times> jsval) yres" where
  "constructJavascriptFunction w h data =
     (case function_ast w h data of
        None \<Rightarrow> Inl (JsError (PlainError ''Failed to resolve function''))
      | Some (source, params, a, b) \<Rightarrow>
          Inr (alloc h (Func params (js_slice source (int a + 1) (int b - 1)))))"

definition representJavascriptFunction :: "host \<Rightarrow> heap \<Rightarrow> jsval \<Rightarrow> jsstring option \<Rightarrow> jsval yres" where
  "representJavascriptFunction w h v st =
     (case cell_of h v of
        Some (Func ps b) \<Rightarrow> Inr (Str (function_text w ps b))
      | _ \<Rightarrow> Inl (Unmodelled ''not a function''))"

section \<open>omap, pairs, set\<close>

text \<open>
  The elements of a sequence; other values without a length have none.
\<close>

definition elements_of :: "heap \<Rightarrow> jsval \<Rightarrow> jsval list yres" where
  "elements_of h v =
     (case v of
        Str s \<Rightarrow> Inr (map (\<lambda>c. Str [c]) s)
      | _ \<Rightarrow> bind_res (length_of h v)
               (\<lambda>l. Inr (case cell_of h v of Some (Arr vs) \<Rightarrow> vs
                         | Some (Func ps b) \<Rightarrow> replicate (length ps) Undef | _ \<Rightarrow> [])))"

definition plain_object :: "heap \<Rightarrow> jsval \<Rightarrow> (jsstring \<times> jsval) list option" where
  "plain_object h v = (case cell_of h v of Some (Obj ps) \<Rightarrow> Some ps | _ \<Rightarrow> None)"

fun resolve_omap :: "heap \<Rightarrow> jsstring list \<Rightarrow> jsval list \<Rightarrow> bool" where
  "resolve_omap h objectKeys [] = True"
| "resolve_omap h objectKeys (pair # rest) =
     (case plain_object h pair of
        None \<Rightarrow> False
      | Some ps \<Rightarrow>
          (case ps of
             [(pairKey, v)] \<Rightarrow>
               if pairKey \<notin> set objectKeys then resolve_omap h (objectKeys @ [pairKey]) rest
               else False
           | _ \<Rightarrow> False))"

definition resolveYamlOmap :: "host \<Rightarrow> heap \<Rightarrow> jsval \<Rightarrow> bool yres" where
  "resolveYamlOmap w h data =
     (if data = Null then Inr True
      else bind_res (elements_of h data) (\<lambda>vs. Inr (resolve_omap h [] vs)))"

definition constructYamlOmap :: "host \<Rightarrow> heap \<Rightarrow> jsval \<Rightarrow> (heap \<times> jsval) yres" where
  "constructYamlOmap w h data = Inr (if data \<noteq> Null then (h, data) else alloc h (Arr []))"

definition single_pair :: "heap \<Rightarrow> jsval \<Rightarrow> bool" where
  "single_pair h v = (case plain_object h v of Some ps \<Rightarrow> length ps = 1 | None \<Rightarrow> False)"

definition resolveYamlPairs :: "host \<Rightarrow> heap \<Rightarrow> jsval \<Rightarrow> bool yres" where
  "resolveYamlPairs w h data =
     (if data = Null then Inr True
      else bind_res (elements_of h data) (\<lambda>vs. Inr (list_all (single_pair h) vs)))"

text \<open>One pair of the result; \<open>keys[0]\<close> may be missing.\<close>

definition pair_cell :: "heap \<Rightarrow> jsval \<Rightarrow> cell yres" where
  "pair_cell h v =
     (case v of
        Undef \<Rightarrow> type_error ''Cannot convert undefined or null to object''
      | Null \<Rightarrow> type_error ''Cannot convert undefined or null to object''
      | Str s \<Rightarrow> (case s of [] \<Rightarrow> Inr (Arr [Undef, Undef])
                          | c # t \<Rightarrow> Inr (Arr [Str (decimal_str 0), Str [c]]))
      | _ \<Rightarrow>
        (case cell_of h v of
           None \<Rightarrow> Inr (Arr [Undef, Undef])
         | Some c \<Rightarrow> (case own_props c of
                        [] \<Rightarrow> Inr (Arr [Undef, Undef])
                      | (k, x) # ps \<Rightarrow> Inr (Arr [Str k, x]))))"

fun pair_cells :: "heap \<Rightarrow> heap \<Rightarrow> jsval list \<Rightarrow> (heap \<times> jsval list) yres" where
  "pair_cells h0 h [] = Inr (h, [])"
| "pair_cells h0 h (v # vs) =
     bind_res (pair_cell h0 v) (\<lambda>c.
       (let (h1, r) = alloc h c in
        bind_res (pair_cells h0 h1 vs) (\<lambda>(h2, rs). Inr (h2, r # rs))))"

definition constructYamlPairs :: "host \<Rightarrow> heap \<Rightarrow> jsval \<Rightarrow> (heap \<times> jsval) yres" where
  "constructYamlPairs w h data =
     (if data = Null then Inr (alloc h (Arr []))
      else bind_res (elements_of h data) (\<lambda>vs.
        bind_res (pair_cells h h vs) (\<lambda>(h1, rs). Inr (alloc h1 (Arr rs)))))"

text \<open>\<open>for (key in object)\<close> over the own properties.\<close>

definition resolveYamlSet :: "host \<Rightarrow> heap \<Rightarrow> jsval \<Rightarrow> bool yres" where
  "resolveYamlSet w h data =
     Inr (case data of
            Str s \<Rightarrow> s = []
          | _ \<Rightarrow> (case cell_of h data of
                    None \<Rightarrow> True
                  | Some c \<Rightarrow> list_all (\<lambda>(k, v). v = Null) (own_props c)))"

definition constructYamlSet :: "host \<Rightarrow> heap \<Rightarrow> jsval \<Rightarrow> (heap \<times> jsval) yres" where
  "constructYamlSet w h data = Inr (if data \<noteq> Null then (h, data) else alloc h (Obj []))"

end
