(* ===== verification/YamlBinary.thy ===== *)
theory YamlBinary
  imports Base64 YamlTypes
begin

text \<open>
  The binary type of js-yaml (module 33), which carries its own base 64 coder, and its agreement
  with the coder of the buffer library (module 15).
\<close>

section \<open>The code\<close>

definition base64_map :: jsstring where
  "base64_map = jstr ''ABCDEFGHIJKLMNOPQRSTUVWXYZabcdefghijklmnopqrstuvwxyz0123456789+/='' @ [0x0A, 0x0D]"

text \<open>\<open>map.indexOf(c)\<close>\<close>

fun index_from :: "int \<Rightarrow> int \<Rightarrow> jsstring \<Rightarrow> int" where
  "index_from i c [] = - 1"
| "index_from i c (d # s) = (if d = c then i else index_from (i + 1) c s)"

definition base64_index :: "int \<Rightarrow> int" where
  "base64_index c = index_from 0 c base64_map"

fun resolve_binary :: "int \<Rightarrow> jsstring \<Rightarrow> bool" where
  "resolve_binary bitlen [] = (bitlen mod 8 = 0)"
| "resolve_binary bitlen (c # s) =
     (let code = base64_index c in
      if code > 64 then resolve_binary bitlen s
      else if code < 0 then False
      else resolve_binary (bitlen + 6) s)"

definition resolveYamlBinary :: "host \<Rightarrow> heap \<Rightarrow> jsval \<Rightarrow> bool yres" where
  "resolveYamlBinary w h data =
     (case data of
        Null \<Rightarrow> Inr False
      | Str s \<Rightarrow> Inr (resolve_binary 0 s)
      | _ \<Rightarrow> bind_res (length_of h data)
               (\<lambda>max. if max = None \<or> max = Some 0 then Inr True else not_a_method))"

definition three_bytes :: "int \<Rightarrow> int list" where
  "three_bytes bits = [js_and (js_shr bits 16) 0xFF, js_and (js_shr bits 8) 0xFF, js_and bits 0xFF]"

fun construct_binary_loop :: "int \<Rightarrow> int \<Rightarrow> int list \<Rightarrow> jsstring \<Rightarrow> int \<times> int list" where
  "construct_binary_loop idx bits result [] = (bits, result)"
| "construct_binary_loop idx bits result (c # s) =
     (let result' = (if idx mod 4 = 0 \<and> idx \<noteq> 0 then result @ three_bytes bits else result)
      in construct_binary_loop (idx + 1) (js_or (js_shl bits 6) (base64_index c)) result' s)"

definition construct_tail :: "int \<Rightarrow> int \<Rightarrow> int list" where
  "construct_tail tailbits bits =
     (if tailbits = 0 then three_bytes bits
      else if tailbits = 18 then [js_and (js_shr bits 10) 0xFF, js_and (js_shr bits 2) 0xFF]
      else if tailbits = 12 then [js_and (js_shr bits 4) 0xFF] else [])"

definition construct_binary :: "jsstring \<Rightarrow> int list" where
  "construct_binary data =
     (let input = filter (\<lambda>c. c \<noteq> 0x0D \<and> c \<noteq> 0x0A \<and> c \<noteq> 0x3D) data;
          max = int (length input);
          (bits, result) = construct_binary_loop 0 0 [] input
      in result @ construct_tail (max mod 4 * 6) bits)"

text \<open>The bundle has no \<open>NodeBuffer\<close>: the bytes stay an array.\<close>

definition constructYamlBinary :: "host \<Rightarrow> heap \<Rightarrow> jsval \<Rightarrow> (heap \<times> jsval) yres" where
  "constructYamlBinary w h data =
     (case data of
        Str s \<Rightarrow> Inr (alloc h (Arr (map (\<lambda>b. Num (Fin (of_int b))) (construct_binary s))))
      | _ \<Rightarrow> not_a_method)"

definition base64_char :: "int \<Rightarrow> int" where
  "base64_char k = base64_map ! nat k"

definition four_chars :: "int \<Rightarrow> jsstring" where
  "four_chars bits =
     [base64_char (js_and (js_shr bits 18) 0x3F), base64_char (js_and (js_shr bits 12) 0x3F),
      base64_char (js_and (js_shr bits 6) 0x3F), base64_char (js_and bits 0x3F)]"

fun represent_binary_loop :: "int \<Rightarrow> int \<Rightarrow> jsstring \<Rightarrow> int list \<Rightarrow> int \<times> jsstring" where
  "represent_binary_loop idx bits result [] = (bits, result)"
| "represent_binary_loop idx bits result (x # xs) =
     (let result' = (if idx mod 3 = 0 \<and> idx \<noteq> 0 then result @ four_chars bits else result)
      in represent_binary_loop (idx + 1) (js_shl bits 8 + x) result' xs)"

definition represent_tail :: "int \<Rightarrow> int \<Rightarrow> jsstring" where
  "represent_tail tail bits =
     (if tail = 0 then four_chars bits
      else if tail = 2 then
        [base64_char (js_and (js_shr bits 10) 0x3F), base64_char (js_and (js_shr bits 4) 0x3F),
         base64_char (js_and (js_shl bits 2) 0x3F), base64_char 64]
      else if tail = 1 then
        [base64_char (js_and (js_shr bits 2) 0x3F), base64_char (js_and (js_shl bits 4) 0x3F),
         base64_char 64, base64_char 64]
      else [])"

definition represent_binary :: "int list \<Rightarrow> jsstring" where
  "represent_binary object =
     (let (bits, result) = represent_binary_loop 0 0 [] object
      in result @ represent_tail (int (length object) mod 3) bits)"

definition representYamlBinary :: "host \<Rightarrow> heap \<Rightarrow> jsval \<Rightarrow> jsstring option \<Rightarrow> jsval yres" where
  "representYamlBinary w h v st =
     (case cell_of h v of
        Some (Arr vs) \<Rightarrow>
          (if list_all (\<lambda>e. case e of Num (Fin q) \<Rightarrow> of_int \<lfloor>q\<rfloor> = q | _ \<Rightarrow> False) vs
           then Inr (Str (represent_binary (map (\<lambda>e. case e of Num x \<Rightarrow> \<lfloor>num_value x\<rfloor> | _ \<Rightarrow> 0) vs)))
           else Inl (Unmodelled ''not an array of integers''))
      | _ \<Rightarrow> Inl (Unmodelled ''not an array''))"

definition isBinary :: "heap \<Rightarrow> jsval \<Rightarrow> bool" where
  "isBinary h v = False"

section \<open>The accumulator\<close>

text \<open>
  \<open>bits\<close> is never masked: only its low 24 bits matter, and the shifts keep them as
  arithmetic modulo \<open>2 ^ 24\<close> would.
\<close>

lemma js_field:
  assumes "n + k \<le> 32" "k \<le> 31"
  shows "js_and (js_shr x n) (2 ^ k - 1) = x div 2 ^ n mod 2 ^ k"
proof -
  have "js_and (js_shr x n) (2 ^ k - 1) = take_bit k (drop_bit n (to_int32 x))"
    unfolding js_and_mask [OF assms(2)] js_shr_def by (simp add: take_bit_eq_mod)
  also have "\<dots> = take_bit k (drop_bit n x)"
    using assms by (intro bit_eqI) (auto simp: bit_simps to_int32_def)
  finally show ?thesis by (simp add: take_bit_eq_mod drop_bit_eq_div)
qed

lemma to_int32_mod: "k \<le> 32 \<Longrightarrow> to_int32 x mod 2 ^ k = x mod 2 ^ k"
  using take_bit_to_int32 [of k x] by (simp add: take_bit_eq_mod)

lemma mod_2_32: "k \<le> 32 \<Longrightarrow> x mod 2 ^ k = y mod 2 ^ k \<Longrightarrow> to_int32 x mod 2 ^ k = y mod 2 ^ k"
  by (simp add: to_int32_mod)

lemma js_shl_mod:
  assumes "k \<le> 32"
  shows "js_shl x n mod 2 ^ k = x * 2 ^ n mod 2 ^ k"
proof -
  have "js_shl x n mod 2 ^ k = to_int32 x * 2 ^ n mod 2 ^ k"
    using assms by (simp add: js_shl_def to_int32_mod push_bit_eq_mult)
  also have "\<dots> = (to_int32 x mod 2 ^ k) * 2 ^ n mod 2 ^ k" by (simp add: mod_mult_left_eq)
  also have "\<dots> = (x mod 2 ^ k) * 2 ^ n mod 2 ^ k" using assms by (simp add: to_int32_mod)
  finally show ?thesis by (simp add: mod_mult_left_eq)
qed

lemma js_or_shl6:
  assumes "0 \<le> v" "v < 2 ^ 6"
  shows "js_or (js_shl x 6) v = js_shl x 6 + v"
proof -
  have "(2 :: int) ^ 6 dvd js_shl x 6"
    using js_shl_mod [of 6 x 6] by (simp add: dvd_eq_mod_eq_0)
  then show ?thesis
    by (rule js_or_add [OF _ assms]) (use to_int32_range in \<open>auto simp: js_shl_def\<close>)
qed

lemma field_mod:
  fixes x :: int
  assumes "n + k \<le> m"
  shows "x mod 2 ^ m div 2 ^ n mod 2 ^ k = x div 2 ^ n mod 2 ^ k"
proof -
  have "take_bit k (drop_bit n (take_bit m x)) = take_bit k (drop_bit n x)"
    using assms by (intro bit_eqI) (auto simp: bit_simps)
  then show ?thesis by (simp add: take_bit_eq_mod drop_bit_eq_div)
qed

lemma fields_eq:
  assumes "x mod 2 ^ m = y mod 2 ^ m" "n + k \<le> m" "m \<le> 32" "k \<le> 31"
  shows "js_and (js_shr x n) (2 ^ k - 1) = js_and (js_shr y n) (2 ^ k - 1)"
  using assms field_mod [of n k m x] field_mod [of n k m y] by (simp add: js_field)

lemma base64_map_lookup: "base64_map = lookup @ [61, 10, 13]"
  by (simp add: base64_map_def lookup_def)

lemma base64_char_encode: "0 \<le> k \<Longrightarrow> k < 64 \<Longrightarrow> [base64_char k] = encode k"
  by (simp add: encode_def at_def base64_char_def base64_map_lookup nth_append_left length_lookup)

lemma base64_char_sextet: "0 \<le> k \<Longrightarrow> k < 64 \<Longrightarrow> base64_char k = sextet k"
  using base64_char_encode [of k] by (simp add: encode_sextet)

lemma masked_range: "0 \<le> js_and x 63 \<and> js_and x 63 < 64"
  by (simp add: js_ops)

lemma four_chars_triple:
  assumes "bits mod 2 ^ 24 = a * 65536 + b * 256 + c" "is_bytes [a, b, c]"
  shows "four_chars bits = b64_spec [a, b, c]"
proof -
  let ?t = "a * 65536 + b * 256 + c"
  have range: "0 \<le> ?t" "?t < 2 ^ 24" using assms(2) by auto
  then have eq: "bits mod 2 ^ 24 = ?t mod 2 ^ 24" using assms(1) by simp
  have "js_shl a 16 + js_shl b 8 + c = ?t" using assms(2) by (simp add: js_shl_mult)
  then have spec: "tripletToBase64 ?t = b64_spec [a, b, c]"
    using triplet_sextets [of a b c] assms(2) by simp
  have "js_shr bits 0 = to_int32 bits" "js_shr ?t 0 = to_int32 ?t" by (simp_all add: js_shr_def)
  then have last: "js_and bits 63 = js_and ?t 63"
    using fields_eq [OF eq, of 0 6] by (simp add: js_and_def)
  have "four_chars bits = tripletToBase64 ?t"
    using fields_eq [OF eq, of 18 6] fields_eq [OF eq, of 12 6] fields_eq [OF eq, of 6 6] last
      masked_range
    by (simp add: four_chars_def tripletToBase64_def flip: base64_char_encode)
  with spec show ?thesis by simp
qed

lemma three_bytes_value:
  assumes "bits mod 2 ^ 24 = a * 65536 + b * 256 + c" "is_bytes [a, b, c]"
  shows "three_bytes bits = [a, b, c]"
proof -
  let ?t = "a * 65536 + b * 256 + c"
  have f: "js_and (js_shr bits n) 255 = ?t div 2 ^ n mod 256" if "n + 8 \<le> 24" for n
    using that js_field [of n 8 bits] field_mod [of n 8 24 bits] assms(1) by simp
  have "js_and bits 255 = js_and (js_shr bits 0) 255" by (simp add: js_shr_def js_and_def)
  moreover have "js_and (js_shr bits 16) 255 = ?t div 2 ^ 16 mod 256" by (rule f) simp
  moreover have "js_and (js_shr bits 8) 255 = ?t div 2 ^ 8 mod 256" by (rule f) simp
  moreover have "js_and (js_shr bits 0) 255 = ?t div 2 ^ 0 mod 256" by (rule f) simp
  ultimately have "three_bytes bits = [?t div 2 ^ 16 mod 256, ?t div 2 ^ 8 mod 256, ?t div 2 ^ 0 mod 256]"
    by (simp only: three_bytes_def)
  moreover have "?t div 2 ^ 16 = a"
    by (rule div_mod_unique(1) [where r = "b * 256 + c"]) (use assms(2) in auto)
  moreover have "?t div 2 ^ 8 = a * 256 + b"
    by (rule div_mod_unique(1) [where r = c]) (use assms(2) in auto)
  moreover have "(a * 256 + b) mod 256 = b"
    by (rule div_mod_unique(2) [where q = a]) (use assms(2) in auto)
  moreover have "?t div 2 ^ 0 mod 256 = c"
    by (rule div_mod_unique(2) [where q = "a * 256 + b"]) (use assms(2) in auto)
  ultimately show ?thesis using assms(2) by simp
qed

text \<open>One more byte or sextet pushes the field up.\<close>

lemma push_field:
  fixes x v :: int
  assumes "0 \<le> v" "v < 2 ^ n" "n + k \<le> 32"
  shows "(js_shl x n + v) mod 2 ^ (n + k) = x mod 2 ^ k * 2 ^ n + v"
proof -
  have "js_shl x n mod 2 ^ (n + k) = x * 2 ^ n mod 2 ^ (n + k)" by (rule js_shl_mod [OF assms(3)])
  then have "(js_shl x n + v) mod 2 ^ (n + k) = (x * 2 ^ n + v) mod 2 ^ (n + k)"
    by (metis mod_add_left_eq)
  also have "\<dots> = x mod 2 ^ k * 2 ^ n + v"
  proof (rule div_mod_unique(2) [where q = "x div 2 ^ k"])
    obtain q r where x: "x div 2 ^ k = q" "x mod 2 ^ k = r" "x = 2 ^ k * q + r"
      using mult_div_mod_eq [of "2 ^ k" x] by metis
    show "x * 2 ^ n + v = 2 ^ (n + k) * (x div 2 ^ k) + (x mod 2 ^ k * 2 ^ n + v)"
      unfolding x(1,2) by (subst x(3)) (simp add: power_add algebra_simps)
    show "0 \<le> x mod 2 ^ k * 2 ^ n + v" using assms(1) by simp
    have "x mod 2 ^ k \<le> 2 ^ k - 1" using pos_mod_bound [of "2 ^ k" x] by simp
    then have "x mod 2 ^ k * 2 ^ n \<le> (2 ^ k - 1) * 2 ^ n" by (rule mult_right_mono) simp
    also have "\<dots> = 2 ^ (n + k) - 2 ^ n" by (simp add: power_add algebra_simps)
    finally show "x mod 2 ^ k * 2 ^ n + v < 2 ^ (n + k)" using assms(2) by linarith
  qed
  finally show ?thesis .
qed

section \<open>Writing\<close>

text \<open>The accumulator after three more bytes.\<close>

lemma three_steps:
  assumes "is_bytes [a, b, c]"
  shows "(js_shl x 8 + a) mod 2 ^ 8 = a"
    and "(js_shl (js_shl x 8 + a) 8 + b) mod 2 ^ 16 = a * 256 + b"
    and "(js_shl (js_shl (js_shl x 8 + a) 8 + b) 8 + c) mod 2 ^ 24 = a * 65536 + b * 256 + c"
proof -
  show 1: "(js_shl x 8 + a) mod 2 ^ 8 = a"
    using push_field [of a 8 0 x] assms by simp
  then show 2: "(js_shl (js_shl x 8 + a) 8 + b) mod 2 ^ 16 = a * 256 + b"
    using push_field [of b 8 8 "js_shl x 8 + a"] assms by simp
  then show "(js_shl (js_shl (js_shl x 8 + a) 8 + b) 8 + c) mod 2 ^ 24 = a * 65536 + b * 256 + c"
    using push_field [of c 8 16 "js_shl (js_shl x 8 + a) 8 + b"] assms by simp
qed

text \<open>The last one or two bytes, from the low bits of the accumulator.\<close>

lemma base64_char_pad: "base64_char 64 = 61"
  by (simp add: base64_char_def base64_map_lookup nth_append length_lookup)

lemma represent_tail_one:
  assumes "bits mod 2 ^ 8 = a" "is_bytes [a]"
  shows "represent_tail 1 bits = b64_spec [a]"
proof -
  have "js_and (js_shr bits 2) 63 = a div 4"
  proof -
    have "js_and (js_shr bits 2) 63 = bits div 2 ^ 2 mod 2 ^ 6" using js_field [of 2 6 bits] by simp
    also have "\<dots> = bits mod 2 ^ 8 div 2 ^ 2 mod 2 ^ 6" by (simp only: field_mod)
    finally show ?thesis using assms by simp
  qed
  moreover have "js_and (js_shl bits 4) 63 = a mod 4 * 16"
  proof -
    have "js_and (js_shl bits 4) 63 = js_shl bits 4 mod 2 ^ 6" by (simp add: js_ops)
    also have "\<dots> = bits mod 2 ^ 2 * 2 ^ 4"
      using push_field [of 0 4 2 bits] by simp
    also have "bits mod 2 ^ 2 = a mod 4"
      using field_mod [of 0 2 8 bits] assms(1) by simp
    finally show ?thesis by simp
  qed
  moreover have "0 \<le> a div 4" "a div 4 < 64" "0 \<le> a mod 4 * 16" "a mod 4 * 16 < 64"
    using assms(2) pos_mod_bound [of 4 a] by auto
  ultimately show ?thesis by (simp add: represent_tail_def base64_char_sextet base64_char_pad)
qed

lemma represent_tail_two:
  assumes "bits mod 2 ^ 16 = a * 256 + b" "is_bytes [a, b]"
  shows "represent_tail 2 bits = b64_spec [a, b]"
proof -
  let ?t = "a * 256 + b"
  have f: "js_and (js_shr bits n) 63 = ?t div 2 ^ n mod 64" if "n + 6 \<le> 16" for n
    using that js_field [of n 6 bits] field_mod [of n 6 16 bits] assms(1) by simp
  have t: "js_shl a 8 + b = ?t" using assms(2) by (simp add: js_shl_mult)
  have r: "- (2 ^ 31) \<le> ?t" "?t < 2 ^ 31" "?t < 65536" "0 \<le> ?t" using assms(2) by auto
  have "js_and (js_shr bits 10) 63 = js_shr ?t 10"
    using f [of 10] r js_shr_div [OF r(1,2), of 10] by simp
  moreover have "js_and (js_shr bits 4) 63 = js_and (js_shr ?t 4) 63"
    using f [of 4] js_shr_div [OF r(1,2), of 4] by (simp add: js_ops)
  moreover have "js_and (js_shl bits 2) 63 = js_and (js_shl ?t 2) 63"
  proof -
    have "js_shl x 2 mod 2 ^ 6 = x mod 2 ^ 4 * 2 ^ 2" for x
      using push_field [of 0 2 4 x] by simp
    moreover have "bits mod 2 ^ 4 = ?t mod 2 ^ 4" using field_mod [of 0 4 16 bits] assms(1) by simp
    ultimately show ?thesis by (simp add: js_ops)
  qed
  ultimately have "represent_tail 2 bits =
      encode (js_shr ?t 10) @ encode (js_and (js_shr ?t 4) 63) @ encode (js_and (js_shl ?t 2) 63) @ [61]"
    using masked_range [of "js_shr bits 10"] masked_range
    by (simp add: represent_tail_def base64_char_pad flip: base64_char_encode)
  then show ?thesis using tail_sextets [of a b] assms(2) t by simp
qed

lemma mod_add_small: "i mod m = 0 \<Longrightarrow> 0 \<le> k \<Longrightarrow> k < m \<Longrightarrow> (i + k) mod m = k" for i m k :: int
  by (simp add: mod_add_left_eq [symmetric, of i])

lemma represent_loop_group:
  assumes "idx mod 3 = 0" "idx > 0"
  shows "represent_binary_loop idx bits result [x] = (js_shl bits 8 + x, result @ four_chars bits)"
    "represent_binary_loop idx bits result [x, y] =
       (js_shl (js_shl bits 8 + x) 8 + y, result @ four_chars bits)"
    "represent_binary_loop idx bits result (x # y # z # xs) =
       represent_binary_loop (idx + 3) (js_shl (js_shl (js_shl bits 8 + x) 8 + y) 8 + z)
         (result @ four_chars bits) xs"
proof -
  have "(idx + 1) mod 3 = 1" "(idx + 2) mod 3 = 2" "(2 + idx) mod 3 = 2"
    using mod_add_small [OF assms(1), of 1] mod_add_small [OF assms(1), of 2]
    by (simp_all add: add.commute)
  then show "represent_binary_loop idx bits result [x] = (js_shl bits 8 + x, result @ four_chars bits)"
    "represent_binary_loop idx bits result [x, y] =
       (js_shl (js_shl bits 8 + x) 8 + y, result @ four_chars bits)"
    "represent_binary_loop idx bits result (x # y # z # xs) =
       represent_binary_loop (idx + 3) (js_shl (js_shl (js_shl bits 8 + x) 8 + y) 8 + z)
         (result @ four_chars bits) xs"
    using assms by (simp_all add: add.commute [of _ idx])
qed

lemma represent_loop_pending:
  assumes "bits mod 2 ^ 24 = a * 65536 + b * 256 + c" "is_bytes [a, b, c]" "is_bytes xs"
    "idx mod 3 = 0" "idx > 0"
  shows "(case represent_binary_loop idx bits result xs of
           (bits', r) \<Rightarrow> r @ represent_tail ((idx + int (length xs)) mod 3) bits') =
         result @ b64_spec (a # b # c # xs)"
  using assms
proof (induction xs arbitrary: idx bits result a b c rule: b64_spec.induct)
  case (1 x y z xs)
  have q: "four_chars bits = b64_spec [a, b, c]" by (rule four_chars_triple) fact+
  have len: "idx + int (length (x # y # z # xs)) = idx + 3 + int (length xs)" by simp
  have "is_bytes [x, y, z]" "is_bytes xs" "(idx + 3) mod 3 = 0" "idx + 3 > 0" using 1(4-6) by simp_all
  from 1(1) [OF three_steps(3) [OF this(1)] this, of bits "result @ four_chars bits"] show ?case
    unfolding len represent_loop_group [OF 1(5,6)] q by simp
next
  case (2 x y)
  have q: "four_chars bits = b64_spec [a, b, c]" by (rule four_chars_triple) fact+
  have bytes: "is_bytes [x, y, 0]" "is_bytes [x, y]" using 2 by simp_all
  have "(idx + int (length [x, y])) mod 3 = 2"
    using 2(4) by (simp add: mod_add_left_eq [symmetric, of idx])
  with represent_tail_two [OF three_steps(2) [OF bytes(1)] bytes(2)] show ?case
    unfolding represent_loop_group(2) [OF 2(4,5)] q by simp
next
  case (3 x)
  have q: "four_chars bits = b64_spec [a, b, c]" by (rule four_chars_triple) fact+
  have bytes: "is_bytes [x, 0, 0]" "is_bytes [x]" using 3 by simp_all
  have "(idx + int (length [x])) mod 3 = 1"
    using 3(4) by (simp add: mod_add_left_eq [symmetric, of idx])
  with represent_tail_one [OF three_steps(1) [OF bytes(1)] bytes(2)] show ?case
    unfolding represent_loop_group(1) [OF 3(4,5)] q by simp
next
  case 4
  have "four_chars bits = b64_spec [a, b, c]" by (rule four_chars_triple) fact+
  with 4 show ?case by (simp add: represent_tail_def)
qed

lemma represent_binary_spec:
  assumes "is_bytes xs" "xs \<noteq> []"
  shows "represent_binary xs = b64_spec xs"
proof (cases xs rule: b64_spec.cases)
  case (1 a b c ys)
  then have "(js_shl (js_shl (js_shl 0 8 + a) 8 + b) 8 + c) mod 2 ^ 24 = a * 65536 + b * 256 + c"
    using assms by (intro three_steps) auto
  from represent_loop_pending [OF this, of ys 3 "[]"] show ?thesis
    using 1 assms by (simp add: represent_binary_def split_beta add.commute)
next
  case (2 a b)
  have "(js_shl (js_shl 0 8 + a) 8 + b) mod 2 ^ 16 = a * 256 + b"
    using three_steps(2) [of a b 0] 2 assms by simp
  from represent_tail_two [OF this] show ?thesis using 2 assms by (simp add: represent_binary_def)
next
  case (3 a)
  have "(js_shl 0 8 + a) mod 2 ^ 8 = a" using three_steps(1) [of a 0 0] 3 assms by simp
  from represent_tail_one [OF this] show ?thesis using 3 assms by (simp add: represent_binary_def)
qed (use assms in simp)


section \<open>Reading\<close>

lemma base64_index_table: "map base64_index lookup = map int [0..<64]"
  by code_simp

lemma base64_index_sextet [simp]: "0 \<le> k \<Longrightarrow> k < 64 \<Longrightarrow> base64_index (sextet k) = k"
  using base64_index_table
  by (auto simp: list_eq_iff_nth_eq length_lookup sextet_def nat_less_iff dest!: spec [of _ "nat k"])

text \<open>The sextets of a text, without its padding.\<close>

fun sextets :: "int list \<Rightarrow> int list" where
  "sextets (a # b # c # xs) =
     a div 4 # (a mod 4 * 16 + b div 16) # (b mod 16 * 4 + c div 64) # c mod 64 # sextets xs"
| "sextets [a, b] = [a div 4, a mod 4 * 16 + b div 16, b mod 16 * 4]"
| "sextets [a] = [a div 4, a mod 4 * 16]"
| "sextets [] = []"

lemma sextet_ranges:
  assumes "is_bytes [a, b, c]"
  shows "0 \<le> a div 4 \<and> a div 4 < 64" "0 \<le> a mod 4 * 16 + b div 16 \<and> a mod 4 * 16 + b div 16 < 64"
    "0 \<le> b mod 16 * 4 + c div 64 \<and> b mod 16 * 4 + c div 64 < 64" "0 \<le> c mod 64 \<and> c mod 64 < 64"
    "0 \<le> a mod 4 * 16 \<and> a mod 4 * 16 < 64" "0 \<le> b mod 16 * 4 \<and> b mod 16 * 4 < 64"
proof -
  obtain b1 where b: "b div 16 = b1" "0 \<le> b1" "b1 < 16"
    by (rule byte_split [of b 16 16]) (use assms in auto)
  obtain c1 where c: "c div 64 = c1" "0 \<le> c1" "c1 < 4"
    by (rule byte_split [of c 64 4]) (use assms in auto)
  have a: "0 \<le> a mod 4" "a mod 4 < 4" "0 \<le> b mod 16" "b mod 16 < 16" by simp_all
  show "0 \<le> a mod 4 * 16 + b div 16 \<and> a mod 4 * 16 + b div 16 < 64"
    "0 \<le> b mod 16 * 4 + c div 64 \<and> b mod 16 * 4 + c div 64 < 64"
    "0 \<le> a mod 4 * 16 \<and> a mod 4 * 16 < 64" "0 \<le> b mod 16 * 4 \<and> b mod 16 * 4 < 64"
    unfolding b(1) c(1) using a b c by linarith+
  show "0 \<le> a div 4 \<and> a div 4 < 64" "0 \<le> c mod 64 \<and> c mod 64 < 64" using assms by auto
qed

lemma sextet_is_data:
  assumes "0 \<le> k" "k < 64"
  shows "sextet k \<noteq> 0x0D \<and> sextet k \<noteq> 0x0A \<and> sextet k \<noteq> 0x3D"
proof -
  have "base64_index 0x0D = 66" "base64_index 0x0A = 65" "base64_index 0x3D = 64" by code_simp+
  moreover have "sextet k \<noteq> c" if "base64_index c = m" "64 \<le> m" for c m
    using that base64_index_sextet [OF assms] assms by (metis not_less)
  ultimately show ?thesis by auto
qed

lemma b64_spec_input:
  assumes "is_bytes xs"
  shows "filter (\<lambda>c. c \<noteq> 0x0D \<and> c \<noteq> 0x0A \<and> c \<noteq> 0x3D) (b64_spec xs) = map sextet (sextets xs)"
  using assms
proof (induction xs rule: b64_spec.induct)
  case (1 a b c xs)
  then have "is_bytes [a, b, c]" by simp
  note this [THEN sextet_ranges(1)] this [THEN sextet_ranges(2)] this [THEN sextet_ranges(3)]
    this [THEN sextet_ranges(4)]
  with 1 show ?case by (simp add: sextet_is_data)
next
  case (2 a b)
  then have "is_bytes [a, b, b]" by simp
  note this [THEN sextet_ranges(1)] this [THEN sextet_ranges(2)] this [THEN sextet_ranges(6)]
  with 2 show ?case by (simp add: sextet_is_data)
next
  case (3 a)
  then have "is_bytes [a, a, a]" by simp
  note this [THEN sextet_ranges(1)] this [THEN sextet_ranges(5)]
  with 3 show ?case by (simp add: sextet_is_data)
qed simp

text \<open>The accumulator after the sextets of a group.\<close>

lemma four_steps:
  fixes x :: int
  assumes "0 \<le> p" "p < 64" "0 \<le> q" "q < 64" "0 \<le> r" "r < 64" "0 \<le> s" "s < 64"
  defines "x1 \<equiv> js_or (js_shl x 6) p"
  defines "x2 \<equiv> js_or (js_shl x1 6) q"
  defines "x3 \<equiv> js_or (js_shl x2 6) r"
  defines "x4 \<equiv> js_or (js_shl x3 6) s"
  shows "x2 mod 2 ^ 12 = p * 64 + q" "x3 mod 2 ^ 18 = (p * 64 + q) * 64 + r"
    "x4 mod 2 ^ 24 = ((p * 64 + q) * 64 + r) * 64 + s"
proof -
  have 1: "x1 mod 2 ^ 6 = p"
    using push_field [of p 6 0 x] assms by (simp add: js_or_shl6)
  show 2: "x2 mod 2 ^ 12 = p * 64 + q"
    using push_field [of q 6 6 x1] assms(3,4) 1 by (simp add: x2_def js_or_shl6)
  show 3: "x3 mod 2 ^ 18 = (p * 64 + q) * 64 + r"
    using push_field [of r 6 12 x2] assms(5,6) 2 by (simp add: x3_def js_or_shl6)
  show "x4 mod 2 ^ 24 = ((p * 64 + q) * 64 + r) * 64 + s"
    using push_field [of s 6 18 x3] assms(7,8) 3 by (simp add: x4_def js_or_shl6)
qed


lemma sextets_value_parts:
  fixes a b c :: int
  assumes "a = 4 * p + q" "b = 16 * r + s" "c = 64 * t + u"
  shows "((p * 64 + (q * 16 + r)) * 64 + (s * 4 + t)) * 64 + u = a * 65536 + b * 256 + c \<and>
         (p * 64 + (q * 16 + r)) * 64 + s * 4 = (a * 256 + b) * 4 \<and> p * 64 + q * 16 = a * 16"
  using assms by simp

lemmas sextets_value =
  sextets_value_parts [OF mult_div_mod_eq [symmetric] mult_div_mod_eq [symmetric]
      mult_div_mod_eq [symmetric], THEN conjunct1]
  sextets_value_parts [OF mult_div_mod_eq [symmetric] mult_div_mod_eq [symmetric]
      mult_div_mod_eq [symmetric], THEN conjunct2, THEN conjunct1]
  sextets_value_parts [OF mult_div_mod_eq [symmetric] mult_div_mod_eq [symmetric]
      mult_div_mod_eq [symmetric], THEN conjunct2, THEN conjunct2]

lemma construct_tail_two:
  assumes "bits mod 2 ^ 18 = (a * 256 + b) * 4" "is_bytes [a, b]"
  shows "construct_tail 18 bits = [a, b]"
proof -
  have f: "js_and (js_shr bits n) 255 = (a * 256 + b) * 4 div 2 ^ n mod 256" if "n + 8 \<le> 18" for n
    using that js_field [of n 8 bits] field_mod [of n 8 18 bits] assms(1) by simp
  have "(a * 256 + b) * 4 div 2 ^ 10 = a"
    by (rule div_mod_unique(1) [where r = "b * 4"]) (use assms(2) in auto)
  moreover have "(a * 256 + b) * 4 div 2 ^ 2 mod 256 = b"
    using div_mod_unique(2) [of "a * 256 + b" 256 a b] assms(2) by simp
  ultimately show ?thesis using f [of 10] f [of 2] assms(2) by (simp add: construct_tail_def)
qed

lemma construct_tail_one:
  assumes "bits mod 2 ^ 12 = a * 16" "is_bytes [a]"
  shows "construct_tail 12 bits = [a]"
  using js_field [of 4 8 bits] field_mod [of 4 8 12 bits] assms by (simp add: construct_tail_def)

abbreviation push6 :: "int \<Rightarrow> int \<Rightarrow> int" where
  "push6 x v \<equiv> js_or (js_shl x 6) v"

text \<open>The loop over one group, at its start and within the text.\<close>

lemma construct_loop_group:
  fixes bits :: int and result :: "int list"
  assumes "idx mod 4 = 0" "0 \<le> idx" "0 \<le> p \<and> p < 64" "0 \<le> q \<and> q < 64"
  defines "out \<equiv> (if idx = 0 then result else result @ three_bytes bits)"
  shows "construct_binary_loop idx bits result [sextet p, sextet q] = (push6 (push6 bits p) q, out)"
    "0 \<le> r \<and> r < 64 \<Longrightarrow> construct_binary_loop idx bits result [sextet p, sextet q, sextet r] =
       (push6 (push6 (push6 bits p) q) r, out)"
    "0 \<le> r \<and> r < 64 \<Longrightarrow> 0 \<le> s \<and> s < 64 \<Longrightarrow>
       construct_binary_loop idx bits result (sextet p # sextet q # sextet r # sextet s # cs) =
       construct_binary_loop (idx + 4) (push6 (push6 (push6 (push6 bits p) q) r) s) out cs"
proof -
  have "(idx + 1) mod 4 = 1" "(idx + 2) mod 4 = 2" "(idx + 3) mod 4 = 3"
    "(2 + idx) mod 4 = 2" "(3 + idx) mod 4 = 3"
    using mod_add_small [OF assms(1), of 1] mod_add_small [OF assms(1), of 2]
      mod_add_small [OF assms(1), of 3]
    by (simp_all add: add.commute)
  with assms(1-4) show
    "construct_binary_loop idx bits result [sextet p, sextet q] = (push6 (push6 bits p) q, out)"
    "0 \<le> r \<and> r < 64 \<Longrightarrow> construct_binary_loop idx bits result [sextet p, sextet q, sextet r] =
       (push6 (push6 (push6 bits p) q) r, out)"
    "0 \<le> r \<and> r < 64 \<Longrightarrow> 0 \<le> s \<and> s < 64 \<Longrightarrow>
       construct_binary_loop idx bits result (sextet p # sextet q # sextet r # sextet s # cs) =
       construct_binary_loop (idx + 4) (push6 (push6 (push6 (push6 bits p) q) r) s) out cs"
    by (simp_all add: out_def add.commute [of _ idx])
qed

text \<open>What the tail of the text leaves, after the groups before it.\<close>

lemma construct_last_two:
  assumes "is_bytes [x, y]"
  shows "construct_tail 18 (push6 (push6 (push6 bits (x div 4)) (x mod 4 * 16 + y div 16)) (y mod 16 * 4)) = [x, y]"
proof (rule construct_tail_two [OF _ assms])
  have "is_bytes [x, y, y]" using assms by simp
  note r = this [THEN sextet_ranges(1)] this [THEN sextet_ranges(2)] this [THEN sextet_ranges(6)]
  show "push6 (push6 (push6 bits (x div 4)) (x mod 4 * 16 + y div 16)) (y mod 16 * 4) mod 2 ^ 18
      = (x * 256 + y) * 4"
    by (rule trans [OF four_steps(2) [where s = 0] sextets_value(2)]) (use r in auto)
qed

lemma construct_last_one:
  assumes "is_bytes [x]"
  shows "construct_tail 12 (push6 (push6 bits (x div 4)) (x mod 4 * 16)) = [x]"
proof (rule construct_tail_one [OF _ assms])
  have "is_bytes [x, x, x]" using assms by simp
  note r = this [THEN sextet_ranges(1)] this [THEN sextet_ranges(5)]
  show "push6 (push6 bits (x div 4)) (x mod 4 * 16) mod 2 ^ 12 = x * 16"
    by (rule trans [OF four_steps(1) [where r = 0 and s = 0] sextets_value(3)]) (use r in auto)
qed

lemma construct_three:
  assumes "is_bytes [x, y, z]"
  shows "push6 (push6 (push6 (push6 bits (x div 4)) (x mod 4 * 16 + y div 16)) (y mod 16 * 4 + z div 64))
           (z mod 64) mod 2 ^ 24 = x * 65536 + y * 256 + z"
  by (rule trans [OF four_steps(3) sextets_value(1)]) (use sextet_ranges [OF assms] in auto)

text \<open>Two cases at once: the groups from the start, and those with a group pending.\<close>

lemma construct_loop_spec:
  assumes "idx mod 4 = 0" "0 \<le> idx" "is_bytes xs" "idx = 0 \<longrightarrow> xs \<noteq> [] \<and> p = []"
    "idx \<noteq> 0 \<longrightarrow> is_bytes p \<and> (\<exists>a b c. p = [a, b, c] \<and> bits mod 2 ^ 24 = a * 65536 + b * 256 + c)"
  shows "(case construct_binary_loop idx bits result (map sextet (sextets xs)) of
           (bits', r) \<Rightarrow> r @ construct_tail ((idx + int (length (sextets xs))) mod 4 * 6) bits') =
         result @ p @ xs"
  using assms
proof (induction xs arbitrary: idx bits result p rule: sextets.induct)
  case (1 x y z xs)
  have xyz: "is_bytes [x, y, z]" using 1(4) by simp
  have out: "(if idx = 0 then result else result @ three_bytes bits) = result @ p"
    using 1(5,6) three_bytes_value by fastforce
  have len: "idx + int (length (sextets (x # y # z # xs))) = idx + 4 + int (length (sextets xs))" by simp
  note step = construct_loop_group(3) [OF 1(2,3) sextet_ranges(1-4) [OF xyz], of bits result, unfolded out]
  have "(idx + 4) mod 4 = 0" "0 \<le> idx + 4" "is_bytes xs"
    "idx + 4 = 0 \<longrightarrow> xs \<noteq> [] \<and> [x, y, z] = []" using 1(2-4) by simp_all
  note ih = 1(1) [OF this, of _ "result @ p"]
  show ?case
    unfolding sextets.simps list.map step len [unfolded sextets.simps]
    by (subst ih) (use xyz construct_three [OF xyz] in auto)
next
  case (2 x y)
  have out: "(if idx = 0 then result else result @ three_bytes bits) = result @ p"
    using 2(4,5) three_bytes_value by fastforce
  have xy: "is_bytes [x, y, y]" "is_bytes [x, y]" using 2(3) by simp_all
  have "(idx + int (length (sextets [x, y]))) mod 4 * 6 = 18"
    using 2(1) by (simp add: mod_add_left_eq [symmetric, of idx])
  then show ?case
    using construct_loop_group(2) [OF 2(1,2) sextet_ranges(1,2,6) [OF xy(1)], of bits result, unfolded out]
      construct_last_two [OF xy(2)] by simp
next
  case (3 x)
  have out: "(if idx = 0 then result else result @ three_bytes bits) = result @ p"
    using 3(4,5) three_bytes_value by fastforce
  have x: "is_bytes [x, x, x]" "is_bytes [x]" using 3(3) by simp_all
  have "(idx + int (length (sextets [x]))) mod 4 * 6 = 12"
    using 3(1) by (simp add: mod_add_left_eq [symmetric, of idx])
  then show ?case
    using construct_loop_group(1) [OF 3(1,2) sextet_ranges(1,5) [OF x(1)], of bits result, unfolded out]
      construct_last_one [OF x(2)] by simp
next
  case 4
  then have "three_bytes bits = p" using three_bytes_value by fastforce
  with 4 show ?case by (simp add: construct_tail_def)
qed

lemma construct_binary_spec:
  assumes "is_bytes xs" "xs \<noteq> []"
  shows "construct_binary (b64_spec xs) = xs"
  using construct_loop_spec [of 0 xs "[]" 0 "[]"] assms
  by (simp add: construct_binary_def b64_spec_input split_beta)

lemma resolve_binary_counts:
  assumes "\<forall>c \<in> set s. 0 \<le> base64_index c \<and> base64_index c \<le> 64"
  shows "resolve_binary n s \<longleftrightarrow> (n + 6 * int (length s)) mod 8 = 0"
  using assms by (induction s arbitrary: n) (auto simp: algebra_simps)

lemma b64_spec_alphabet:
  assumes "is_bytes xs"
  shows "\<forall>c \<in> set (b64_spec xs). 0 \<le> base64_index c \<and> base64_index c \<le> 64"
proof -
  have pad: "base64_index 61 = 64" by code_simp
  show ?thesis
    using assms
  proof (induction xs rule: b64_spec.induct)
    case (1 a b c xs)
    then have "is_bytes [a, b, c]" by simp
    note this [THEN sextet_ranges(1)] this [THEN sextet_ranges(2)] this [THEN sextet_ranges(3)]
      this [THEN sextet_ranges(4)]
    with 1 show ?case by simp
  next
    case (2 a b)
    then have "is_bytes [a, b, b]" by simp
    note this [THEN sextet_ranges(1)] this [THEN sextet_ranges(2)] this [THEN sextet_ranges(6)]
    with 2 pad show ?case by simp
  next
    case (3 a)
    then have "is_bytes [a, a, a]" by simp
    note this [THEN sextet_ranges(1)] this [THEN sextet_ranges(5)]
    with 3 pad show ?case by simp
  qed simp
qed

lemma resolve_represented:
  assumes "is_bytes xs"
  shows "resolve_binary 0 (b64_spec xs)"
proof -
  have "6 * int (length (b64_spec xs)) mod 8 = 0"
    by (simp add: length_b64_spec mod_mult_left_eq)
  then show ?thesis by (simp add: resolve_binary_counts [OF b64_spec_alphabet [OF assms]])
qed

text \<open>
  C37: The coder of the binary type and the base 64 coder of the buffer library agree: on
  at least one byte they write the same text, the type accepts it, and both read the bytes
  back.
\<close>

theorem binary_roundtrip:
  assumes "is_bytes xs" and "xs \<noteq> []"
  shows "represent_binary xs = uint8ToBase64 xs \<and>
         b64ToByteArray (represent_binary xs) = Inr xs \<and>
         resolve_binary 0 (represent_binary xs) \<and>
         construct_binary (represent_binary xs) = xs"
  using assms
  by (simp add: represent_binary_spec uint8ToBase64_spec b64ToByteArray_spec resolve_represented
      construct_binary_spec)

lemma binary_roundtrip_witness:
  "construct_binary (represent_binary [77, 97, 110, 255]) = [77, 97, 110, 255]"
  by (rule binary_roundtrip [THEN conjunct2, THEN conjunct2, THEN conjunct2]) simp_all

text \<open>
  No bytes at all are not written as the empty text but as four characters, the
  text of three zero bytes; and the empty text, which the type accepts, is read as three zero
  bytes.
\<close>

theorem empty_binary:
  "represent_binary [] = jstr ''AAAA'' \<and> resolve_binary 0 [] \<and> construct_binary [] = [0, 0, 0]"
  by code_simp

text \<open>Texts without padding are rejected unless the bits of their characters add up.\<close>

lemma unpadded_binary_rejected: "\<not> resolve_binary 0 (jstr ''TQ'') \<and> resolve_binary 0 (jstr ''TWFu'')"
  by code_simp

end
