(* ===== verification/YamlDates.thy ===== *)
theory YamlDates
  imports YamlTypes
begin

text \<open>
  The timestamp type of js-yaml (module 48), with the calendar arithmetic of \<open>Date.UTC\<close>
  and \<open>toISOString\<close> that it relies on.
\<close>

section \<open>The calendar\<close>

text \<open>
  The day, counted from 1 January 1970, on which a year begins, in the proleptic Gregorian
  calendar.
\<close>

definition day_from_year :: "int \<Rightarrow> int" where
  "day_from_year y =
     365 * (y - 1970) + (y - 1969) div 4 - (y - 1901) div 100 + (y - 1601) div 400"

definition leap_year :: "int \<Rightarrow> bool" where
  "leap_year y \<longleftrightarrow> y mod 4 = 0 \<and> (y mod 100 \<noteq> 0 \<or> y mod 400 = 0)"

text \<open>The days of a year before its month \<open>m\<close>, counted from 0.\<close>

definition month_start :: "bool \<Rightarrow> int \<Rightarrow> int" where
  "month_start leap m =
     (if leap then [0, 31, 60, 91, 121, 152, 182, 213, 244, 274, 305, 335, 366]
      else [0, 31, 59, 90, 120, 151, 181, 212, 243, 273, 304, 334, 365]) ! nat m"

text \<open>
  \<open>Date.UTC(year, month, day, hour, minute, second, ms)\<close>: months out of range carry into
  the year, years from 0 to 99 are taken as 1900 to 1999.
\<close>

definition date_utc :: "int \<Rightarrow> int \<Rightarrow> int \<Rightarrow> int \<Rightarrow> int \<Rightarrow> int \<Rightarrow> int \<Rightarrow> int" where
  "date_utc year month day hour minute second ms =
     (let yr = (if 0 \<le> year \<and> year \<le> 99 then 1900 + year else year);
          ym = yr + month div 12;
          mn = month mod 12;
          days = day_from_year ym + month_start (leap_year ym) mn + (day - 1)
      in days * 86400000 + hour * 3600000 + minute * 60000 + second * 1000 + ms)"

text \<open>One year is 365 days long, or 366.\<close>

lemma div_bounds:
  fixes x m :: int
  assumes "0 < m"
  shows "m * (x div m) \<le> x" "x < m * (x div m) + m"
  using mult_div_mod_eq [of m x] pos_mod_sign [OF assms, of x] pos_mod_bound [OF assms, of x]
  by linarith+

lemma div_pred:
  fixes x m :: int
  assumes m: "0 < m" and x': "x' = x - 1"
  shows "x div m = x' div m + (if x mod m = 0 then 1 else 0)"
proof -
  have x: "x = m * (x div m) + x mod m" "0 \<le> x mod m" "x mod m < m" using m by simp_all
  show ?thesis
  proof (cases "x mod m = 0")
    case True
    then have "x' div m = x div m - 1"
      using x m x' by (intro div_mod_unique(1) [where r = "m - 1"]) (auto simp: algebra_simps)
    with True show ?thesis by simp
  next
    case False
    then have "0 < x mod m" using x(2) by linarith
    then have "x' div m = x div m"
      using x m x' by (intro div_mod_unique(1) [where r = "x mod m - 1"]) linarith+
    with False show ?thesis by simp
  qed
qed

lemma mod_400: "y mod 400 = 0 \<Longrightarrow> y mod 100 = 0" "y mod 100 = 0 \<Longrightarrow> y mod 4 = 0" for y :: int
  using dvd_trans [of 100 400 y] dvd_trans [of 4 100 y] by (simp_all add: mod_eq_0_iff_dvd)

lemma day_from_year_Suc: "day_from_year (y + 1) = day_from_year y + (if leap_year y then 366 else 365)"
proof -
  have "(y - 1968) div 4 = (y - 1969) div 4 + (if (y - 1968) mod 4 = 0 then 1 else 0)"
    "(y - 1900) div 100 = (y - 1901) div 100 + (if (y - 1900) mod 100 = 0 then 1 else 0)"
    "(y - 1600) div 400 = (y - 1601) div 400 + (if (y - 1600) mod 400 = 0 then 1 else 0)"
    by (rule div_pred; simp)+
  moreover have "(y - 1968) mod 4 = y mod 4" "(y - 1900) mod 100 = y mod 100"
    "(y - 1600) mod 400 = y mod 400"
    using mod_mult_self2 [of "y - 1968" 4 492] mod_mult_self2 [of "y - 1900" 100 19]
      mod_mult_self2 [of "y - 1600" 400 4] by simp_all
  ultimately have parts:
    "(y - 1968) div 4 = (y - 1969) div 4 + (if y mod 4 = 0 then 1 else 0)"
    "(y - 1900) div 100 = (y - 1901) div 100 + (if y mod 100 = 0 then 1 else 0)"
    "(y - 1600) div 400 = (y - 1601) div 400 + (if y mod 400 = 0 then 1 else 0)"
    by (simp_all only:)
  have "day_from_year (y + 1) =
      365 * (y - 1970) + 365 + (y - 1968) div 4 - (y - 1900) div 100 + (y - 1600) div 400"
    by (simp add: day_from_year_def)
  also have "\<dots> = day_from_year y + (if leap_year y then 366 else 365)"
    unfolding parts day_from_year_def leap_year_def using mod_400 [of y]
    by (cases "y mod 4 = 0"; cases "y mod 100 = 0"; cases "y mod 400 = 0") auto
  finally show ?thesis .
qed

text \<open>The year of a day: the last one that begins on it or before.\<close>

function year_from :: "int \<Rightarrow> int \<Rightarrow> int" where
  "year_from d y = (if day_from_year (y + 1) \<le> d then year_from d (y + 1) else y)"
  by pat_completeness auto
termination
proof (relation "measure (\<lambda>(d, y). nat (d - day_from_year y))")
  fix d y :: int
  assume "day_from_year (y + 1) \<le> d"
  moreover have "day_from_year y < day_from_year (y + 1)" by (simp add: day_from_year_Suc)
  ultimately show "((d, y + 1), d, y) \<in> measure (\<lambda>(d, y). nat (d - day_from_year y))" by simp
qed simp

declare year_from.simps [simp del]

definition year_of_day :: "int \<Rightarrow> int" where
  "year_of_day d = year_from d (1970 + (if 0 \<le> d then d div 366 else d div 365))"

definition month_of_day :: "bool \<Rightarrow> int \<Rightarrow> int" where
  "month_of_day leap d =
     int (length (takeWhile (\<lambda>m. month_start leap m \<le> d) (map int [1..<12])))"

text \<open>\<open>toISOString()\<close>\<close>

definition pad_digits :: "nat \<Rightarrow> int \<Rightarrow> jsstring" where
  "pad_digits n x = (let s = decimal_str x in replicate (n - length s) 0x30 @ s)"

definition iso_year :: "int \<Rightarrow> jsstring" where
  "iso_year y =
     (if 0 \<le> y \<and> y \<le> 9999 then pad_digits 4 y
      else (if y < 0 then 0x2D else 0x2B) # pad_digits 6 \<bar>y\<bar>)"

definition toISOString :: "int \<Rightarrow> jsstring" where
  "toISOString t =
     (let d = t div 86400000; ms = t mod 86400000;
          y = year_of_day d; yd = d - day_from_year y;
          m = month_of_day (leap_year y) yd;
          day = yd - month_start (leap_year y) m + 1
      in iso_year y @ [0x2D] @ pad_digits 2 (m + 1) @ [0x2D] @ pad_digits 2 day @ [0x54]
         @ pad_digits 2 (ms div 3600000) @ [0x3A] @ pad_digits 2 (ms div 60000 mod 60) @ [0x3A]
         @ pad_digits 2 (ms div 1000 mod 60) @ [0x2E] @ pad_digits 3 (ms mod 1000) @ [0x5A])"

section \<open>The code\<close>

definition yaml_date_regexp :: regex where
  "yaml_date_regexp =
     seqs [re_digit, re_digit, re_digit, re_digit, chr 0x2D, re_digit, re_digit, chr 0x2D,
           re_digit, re_digit]"

definition yaml_timestamp_regexp :: regex where
  "yaml_timestamp_regexp =
     (let two = Seq re_digit (opt re_digit); blank = Cls (\<lambda>c. c = 0x20 \<or> c = 0x09) in
      seqs [re_digit, re_digit, re_digit, re_digit, chr 0x2D, two, chr 0x2D, two,
            Alt (any_of ''Tt'') (re_plus blank),
            two, chr 0x3A, re_digit, re_digit, chr 0x3A, re_digit, re_digit,
            opt (Seq (chr 0x2E) (Star re_digit)),
            opt (Seq (Star blank)
                  (Alt (chr 0x5A)
                    (seqs [any_of ''-+'', two, opt (seqs [chr 0x3A, re_digit, re_digit])])))])"

text \<open>
  The groups of a match. \<open>time\<close> holds hour, minute, second and fraction, \<open>zone\<close> the
  sign, the hours and the minutes of an offset; a missing group is \<open>None\<close> or empty.
\<close>

record date_match =
  g_year :: jsstring
  g_month :: jsstring
  g_day :: jsstring
  g_time :: "(jsstring \<times> jsstring \<times> jsstring \<times> jsstring) option"
  g_zone :: "(int \<times> jsstring \<times> jsstring) option"

definition one_or_two :: "jsstring \<Rightarrow> jsstring" where
  "one_or_two s = takeWhile dec_digit (take 2 s)"

definition is_blank :: "int \<Rightarrow> bool" where
  "is_blank c \<longleftrightarrow> c = 0x20 \<or> c = 0x09"

definition zone_groups :: "jsstring \<Rightarrow> (int \<times> jsstring \<times> jsstring) option" where
  "zone_groups s =
     (case dropWhile is_blank s of
        c # r \<Rightarrow>
          if c = 0x2D \<or> c = 0x2B then
            (let h = one_or_two r; r1 = drop (length h) r
             in Some (c, h, if r1 \<noteq> [] \<and> hd r1 = 0x3A then take 2 (tl r1) else []))
          else None
      | [] \<Rightarrow> None)"

definition timestamp_groups :: "jsstring \<Rightarrow> date_match" where
  "timestamp_groups s =
     (let month = one_or_two (drop 5 s);
          s1 = drop (6 + length month) s;
          day = one_or_two s1;
          s2 = drop (length day) s1;
          s3 = (if s2 \<noteq> [] \<and> is_blank (hd s2) then dropWhile is_blank s2 else drop 1 s2);
          hour = one_or_two s3;
          s4 = drop (length hour + 1) s3;
          s5 = drop 5 s4;
          fraction = (if s5 \<noteq> [] \<and> hd s5 = 0x2E then takeWhile dec_digit (tl s5) else []);
          s6 = (if s5 \<noteq> [] \<and> hd s5 = 0x2E then dropWhile dec_digit (tl s5) else s5)
      in \<lparr>g_year = take 4 s, g_month = month, g_day = day,
          g_time = Some (hour, take 2 s4, take 2 (drop 3 s4), fraction), g_zone = zone_groups s6\<rparr>)"

definition date_groups :: "jsstring \<Rightarrow> date_match" where
  "date_groups s =
     \<lparr>g_year = take 4 s, g_month = take 2 (drop 5 s), g_day = take 2 (drop 8 s), g_time = None,
      g_zone = None\<rparr>"

definition exec_date :: "jsstring \<Rightarrow> date_match option" where
  "exec_date s =
     (if re_test yaml_date_regexp s then Some (date_groups s)
      else if re_test yaml_timestamp_regexp s then Some (timestamp_groups s) else None)"

definition resolveYamlTimestamp :: "host \<Rightarrow> heap \<Rightarrow> jsval \<Rightarrow> bool yres" where
  "resolveYamlTimestamp w h data =
     (if data = Null then Inr False
      else bind_res (js_String w h data) (\<lambda>s. Inr (exec_date s \<noteq> None)))"

text \<open>The fraction in milliseconds: three digits, filled with zeros.\<close>

definition fraction_ms :: "jsstring \<Rightarrow> int" where
  "fraction_ms f =
     (if f = [] then 0 else dec_value (take 3 f @ replicate (3 - length (take 3 f)) 0x30))"

definition zone_delta :: "(int \<times> jsstring \<times> jsstring) option \<Rightarrow> int" where
  "zone_delta z =
     (case z of
        None \<Rightarrow> 0
      | Some (sign, tz_hour, tz_minute) \<Rightarrow>
          (let delta = (dec_value tz_hour * 60 + dec_value tz_minute) * 60000
           in if sign = 0x2D then - delta else delta))"

definition date_of_match :: "date_match \<Rightarrow> int" where
  "date_of_match g =
     (let year = dec_value (g_year g); month = dec_value (g_month g) - 1; day = dec_value (g_day g)
      in case g_time g of
           None \<Rightarrow> date_utc year month day 0 0 0 0
         | Some (hour, minute, second, fraction) \<Rightarrow>
             date_utc year month day (dec_value hour) (dec_value minute) (dec_value second)
               (fraction_ms fraction) - zone_delta (g_zone g))"

definition constructYamlTimestamp :: "host \<Rightarrow> heap \<Rightarrow> jsval \<Rightarrow> (heap \<times> jsval) yres" where
  "constructYamlTimestamp w h data =
     bind_res (js_String w h data) (\<lambda>s.
       case exec_date s of
         None \<Rightarrow> Inl (JsError (PlainError ''Date resolve error''))
       | Some g \<Rightarrow> Inr (alloc h (Date (date_of_match g))))"

definition is_date :: "heap \<Rightarrow> jsval \<Rightarrow> bool" where
  "is_date h v = (case cell_of h v of Some (Date t) \<Rightarrow> True | _ \<Rightarrow> False)"

definition representYamlTimestamp :: "host \<Rightarrow> heap \<Rightarrow> jsval \<Rightarrow> jsstring option \<Rightarrow> jsval yres" where
  "representYamlTimestamp w h v st =
     (case cell_of h v of
        Some (Date t) \<Rightarrow> Inr (Str (toISOString t))
      | _ \<Rightarrow> Inl (Unmodelled ''not a date''))"


section \<open>The year of a day\<close>

lemma year_from_bounds:
  assumes "day_from_year y \<le> d"
  shows "day_from_year (year_from d y) \<le> d \<and> d < day_from_year (year_from d y + 1)"
  using assms
proof (induction d y rule: year_from.induct)
  case (1 d y)
  then show ?case by (cases "day_from_year (y + 1) \<le> d") (simp_all add: year_from.simps [of d y])
qed

lemma year_start_estimate:
  fixes d :: int
  defines "k \<equiv> (if 0 \<le> d then d div 366 else d div 365)"
  shows "day_from_year (1970 + k) \<le> d"
proof -
  define a b c where "a = (k + 1) div 4" and "b = (k + 69) div 100" and "c = (k + 369) div 400"
  have day: "day_from_year (1970 + k) = 365 * k + a - b + c"
    by (simp add: day_from_year_def a_def b_def c_def add.commute)
  have bounds: "4 * a \<le> k + 1" "100 * b \<le> k + 69" "k + 69 < 100 * b + 100" "400 * c \<le> k + 369"
    unfolding a_def b_def c_def by (rule div_bounds; simp)+
  show ?thesis
  proof (cases "0 \<le> d")
    case True
    then have "0 \<le> k" "366 * k \<le> d"
      using div_bounds(1) [of 366 d] by (auto simp: k_def)
    moreover have "0 \<le> b" using \<open>0 \<le> k\<close> by (simp add: b_def)
    moreover have "c \<le> b" using bounds \<open>0 \<le> b\<close> by linarith
    ultimately show ?thesis unfolding day using bounds(1) by linarith
  next
    case False
    then have "k < 0" by (simp add: k_def)
    have "365 * k \<le> d"
      using False div_bounds(1) [of 365 d] by (simp add: k_def)
    moreover have "a + c \<le> b"
    proof (cases "- 69 \<le> k")
      case True
      then have "b = 0" "c \<le> 0" "a \<le> 0" using bounds \<open>k < 0\<close> by linarith+
      then show ?thesis by simp
    next
      case False
      then show ?thesis using bounds by linarith
    qed
    ultimately show ?thesis unfolding day by linarith
  qed
qed

lemma year_of_day_bounds:
  "day_from_year (year_of_day d) \<le> d \<and> d < day_from_year (year_of_day d + 1)"
  unfolding year_of_day_def by (rule year_from_bounds [OF year_start_estimate])

lemma day_of_year_range:
  "0 \<le> d - day_from_year (year_of_day d) \<and>
   d - day_from_year (year_of_day d) < (if leap_year (year_of_day d) then 366 else 365)"
  using year_of_day_bounds [of d] day_from_year_Suc [of "year_of_day d"] by auto

text \<open>The month of a day of the year.\<close>

lemma month_of_day_props:
  assumes "0 \<le> d" "d < (if leap then 366 else 365)"
  defines "m \<equiv> month_of_day leap d"
  shows "0 \<le> m \<and> m < 12 \<and> 0 \<le> d - month_start leap m \<and> d - month_start leap m < 31"
proof -
  have "map int [1..<12] = [1, 2, 3, 4, 5, 6, 7, 8, 9, 10, 11]" by (simp add: upt_rec)
  then show ?thesis
    using assms(1,2) by (cases leap) (auto simp: m_def month_of_day_def month_start_def)
qed


section \<open>A date is read back as it is written\<close>

text \<open>Numbers with a fixed count of digits.\<close>

lemma decimal_str_step: "radix_str 10 n = (if n < 10 then [digit_char n] else radix_str 10 (n div 10) @ [digit_char (n mod 10)])"
  by (subst radix_str.simps) simp

lemma digit_char_decimal: "0 \<le> d \<Longrightarrow> d < 10 \<Longrightarrow> digit_char d = 0x30 + d"
  by (simp add: digit_char_def)

lemma pad_step:
  assumes "0 \<le> x" "0 < n"
  shows "pad_digits (Suc n) x = pad_digits n (x div 10) @ [0x30 + x mod 10]"
proof (cases "x < 10")
  case True
  then have "x div 10 = 0" "x mod 10 = x" using assms by simp_all
  moreover have "replicate n (48 :: int) = replicate (n - 1) 48 @ [48]"
    using assms(2) by (cases n) (simp_all add: replicate_append_same)
  ultimately show ?thesis
    using True assms
    by (simp add: pad_digits_def Let_def decimal_str_step [of x] decimal_str_step [of 0] digit_char_decimal)
next
  case False
  then show ?thesis
    using assms by (simp add: pad_digits_def Let_def decimal_str_step [of x] digit_char_decimal)
qed

lemma pad_one: "0 \<le> x \<Longrightarrow> x < 10 \<Longrightarrow> pad_digits 1 x = [0x30 + x]"
  by (simp add: pad_digits_def decimal_str_step digit_char_decimal)

lemma pad_props:
  assumes "0 \<le> x" "x < 10 ^ n" "0 < n"
  shows "length (pad_digits n x) = n" "list_all dec_digit (pad_digits n x)"
    "dec_value (pad_digits n x) = x"
proof -
  have "length (pad_digits n x) = n \<and> list_all dec_digit (pad_digits n x) \<and> dec_value (pad_digits n x) = x"
    using assms
  proof (induction n arbitrary: x)
    case (Suc n)
    show ?case
    proof (cases "n = 0")
      case True
      then show ?thesis using Suc.prems by (simp add: pad_one [simplified] dec_digit_def dec_value_def)
    next
      case False
      have "x div 10 < 10 ^ n" using Suc.prems by simp
      with Suc False show ?thesis
        by (simp add: pad_step dec_digit_def dec_value_def pos_imp_zdiv_nonneg_iff)
    qed
  qed simp
  then show "length (pad_digits n x) = n" "list_all dec_digit (pad_digits n x)"
    "dec_value (pad_digits n x) = x" by simp_all
qed

lemma length_2_cases: "length s = 2 \<Longrightarrow> \<exists>a b. s = [a, b]"
  by (auto simp: numeral_2_eq_2 length_Suc_conv)

lemma length_3_cases: "length s = 3 \<Longrightarrow> \<exists>a b c. s = [a, b, c]"
  by (auto simp: numeral_3_eq_3 length_Suc_conv)

lemma length_4_cases: "length s = 4 \<Longrightarrow> \<exists>a b c d. s = [a, b, c, d]"
  by (auto simp: eval_nat_numeral length_Suc_conv)

text \<open>A text in the format of \<open>toISOString\<close> and its groups.\<close>

definition iso_text :: "jsstring \<Rightarrow> jsstring \<Rightarrow> jsstring \<Rightarrow> jsstring \<Rightarrow> jsstring \<Rightarrow> jsstring \<Rightarrow> jsstring \<Rightarrow> jsstring" where
  "iso_text y m d hh mm ss ms =
     y @ [0x2D] @ m @ [0x2D] @ d @ [0x54] @ hh @ [0x3A] @ mm @ [0x3A] @ ss @ [0x2E] @ ms @ [0x5A]"

lemma timestamp_groups_eq:
  assumes "one_or_two (drop 5 s) = month" "drop (6 + length month) s = s1"
    "one_or_two s1 = day" "drop (length day) s1 = s2"
    "(if s2 \<noteq> [] \<and> is_blank (hd s2) then dropWhile is_blank s2 else drop 1 s2) = s3"
    "one_or_two s3 = hour" "drop (length hour + 1) s3 = s4" "drop 5 s4 = s5"
    "(if s5 \<noteq> [] \<and> hd s5 = 0x2E then takeWhile dec_digit (tl s5) else []) = fraction"
    "(if s5 \<noteq> [] \<and> hd s5 = 0x2E then dropWhile dec_digit (tl s5) else s5) = s6"
  shows "timestamp_groups s =
    \<lparr>g_year = take 4 s, g_month = month, g_day = day,
     g_time = Some (hour, take 2 s4, take 2 (drop 3 s4), fraction), g_zone = zone_groups s6\<rparr>"
  unfolding timestamp_groups_def Let_def assms ..

lemma exec_iso_text:
  assumes "length y = 4" "length m = 2" "length d = 2" "length hh = 2" "length mm = 2"
    "length ss = 2" "length ms = 3"
    "list_all dec_digit (y @ m @ d @ hh @ mm @ ss @ ms)"
  shows "exec_date (iso_text y m d hh mm ss ms) =
    Some \<lparr>g_year = y, g_month = m, g_day = d, g_time = Some (hh, mm, ss, ms), g_zone = None\<rparr>"
proof -
  obtain y1 y2 y3 y4 where y: "y = [y1, y2, y3, y4]" using length_4_cases [OF assms(1)] by auto
  obtain m1 m2 where m: "m = [m1, m2]" using length_2_cases [OF assms(2)] by auto
  obtain d1 d2 where d: "d = [d1, d2]" using length_2_cases [OF assms(3)] by auto
  obtain h1 h2 where h: "hh = [h1, h2]" using length_2_cases [OF assms(4)] by auto
  obtain n1 n2 where n: "mm = [n1, n2]" using length_2_cases [OF assms(5)] by auto
  obtain s1 s2 where s: "ss = [s1, s2]" using length_2_cases [OF assms(6)] by auto
  obtain f1 f2 f3 where f: "ms = [f1, f2, f3]" using length_3_cases [OF assms(7)] by auto
  have digits: "dec_digit y1" "dec_digit y2" "dec_digit y3" "dec_digit y4" "dec_digit m1"
    "dec_digit m2" "dec_digit d1" "dec_digit d2" "dec_digit h1" "dec_digit h2" "dec_digit n1"
    "dec_digit n2" "dec_digit s1" "dec_digit s2" "dec_digit f1" "dec_digit f2" "dec_digit f3"
    using assms(8) by (simp_all add: y m d h n s f)
  have no: "\<not> dec_digit 0x2D" "\<not> dec_digit 0x54" "\<not> dec_digit 0x3A" "\<not> dec_digit 0x2E" "\<not> dec_digit 0x5A"
    by (simp_all add: dec_digit_def)
  have neq: "c \<noteq> 0x2D \<and> c \<noteq> 0x54 \<and> c \<noteq> 0x3A \<and> c \<noteq> 0x2E \<and> c \<noteq> 0x5A \<and> c \<noteq> 0x20 \<and> c \<noteq> 0x09 \<and> c \<noteq> 0x74 \<and> c \<noteq> 0x2B"
    if "dec_digit c" for c
    using that by (auto simp: dec_digit_def)
  note neqs = digits [THEN neq]
  have "\<not> re_test yaml_date_regexp (iso_text y m d hh mm ss ms)"
    by (simp add: yaml_date_regexp_def iso_text_def y m d h n s f re_eval re_abbrevs
        del: re_test.simps)
  moreover have "re_test yaml_timestamp_regexp (iso_text y m d hh mm ss ms)"
    by (simp add: yaml_timestamp_regexp_def iso_text_def y m d h n s f re_eval re_abbrevs digits no
        neqs Let_def del: re_test.simps)
  moreover have "timestamp_groups (iso_text y m d hh mm ss ms) =
    \<lparr>g_year = take 4 (iso_text y m d hh mm ss ms), g_month = m, g_day = d,
     g_time = Some (hh, take 2 (mm @ 0x3A # ss @ 0x2E # ms @ [0x5A]),
       take 2 (drop 3 (mm @ 0x3A # ss @ 0x2E # ms @ [0x5A])), ms), g_zone = zone_groups [0x5A]\<rparr>"
    by (rule timestamp_groups_eq [where ?s1.0 = "d @ 0x54 # hh @ 0x3A # mm @ 0x3A # ss @ 0x2E # ms @ [0x5A]"
          and ?s2.0 = "0x54 # hh @ 0x3A # mm @ 0x3A # ss @ 0x2E # ms @ [0x5A]"
          and ?s3.0 = "hh @ 0x3A # mm @ 0x3A # ss @ 0x2E # ms @ [0x5A]"
          and ?s5.0 = "0x2E # ms @ [0x5A]"];
        simp add: iso_text_def y m d h n s f digits no one_or_two_def is_blank_def)
  moreover have "zone_groups [0x5A] = None" by (simp add: zone_groups_def is_blank_def)
  ultimately show ?thesis by (simp add: exec_date_def) (simp add: iso_text_def y n s f)
qed


text \<open>The parts of a time of day.\<close>

lemma time_parts:
  fixes ms :: int
  assumes "0 \<le> ms" "ms < 86400000"
  shows "0 \<le> ms div 3600000 \<and> ms div 3600000 < 24"
    and "ms div 3600000 * 3600000 + ms div 60000 mod 60 * 60000 + ms div 1000 mod 60 * 1000 + ms mod 1000 = ms"
proof -
  show "0 \<le> ms div 3600000 \<and> ms div 3600000 < 24"
    using assms div_bounds [of 3600000 ms] by (auto simp: pos_imp_zdiv_nonneg_iff)
  have 1: "ms = 1000 * (ms div 1000) + ms mod 1000" by simp
  have 2: "ms div 1000 = 60 * (ms div 60000) + ms div 1000 mod 60"
    using zdiv_zmult2_eq [of 60 ms 1000] mult_div_mod_eq [of 60 "ms div 1000"] by simp
  have 3: "ms div 60000 = 60 * (ms div 3600000) + ms div 60000 mod 60"
    using zdiv_zmult2_eq [of 60 ms 60000] mult_div_mod_eq [of 60 "ms div 60000"] by simp
  define a b c where "a = ms div 1000" and "b = ms div 60000" and "c = ms div 3600000"
  show "ms div 3600000 * 3600000 + ms div 60000 mod 60 * 60000 + ms div 1000 mod 60 * 1000 + ms mod 1000 = ms"
    using 1 2 3 unfolding a_def [symmetric] b_def [symmetric] c_def [symmetric] by linarith
qed

lemma iso_text_of:
  assumes "0 \<le> y" "y \<le> 9999" "y = year_of_day (t div 86400000)"
    "m = month_of_day (leap_year y) (t div 86400000 - day_from_year y)"
    "ms = t mod 86400000"
  shows "toISOString t =
    iso_text (pad_digits 4 y) (pad_digits 2 (m + 1))
      (pad_digits 2 (t div 86400000 - day_from_year y - month_start (leap_year y) m + 1))
      (pad_digits 2 (ms div 3600000)) (pad_digits 2 (ms div 60000 mod 60))
      (pad_digits 2 (ms div 1000 mod 60)) (pad_digits 3 (ms mod 1000))"
  using assms(1,2) unfolding assms(3-5) by (simp add: toISOString_def iso_text_def iso_year_def Let_def)

lemma fraction_ms_three: "length f = 3 \<Longrightarrow> fraction_ms f = dec_value f"
  by (auto simp: fraction_ms_def)

lemma exec_toISOString:
  assumes "100 \<le> year_of_day (t div 86400000)" "year_of_day (t div 86400000) \<le> 9999"
  shows "\<exists>g. exec_date (toISOString t) = Some g \<and> date_of_match g = t"
proof -
  define d y ms where "d = t div 86400000" and "y = year_of_day d" and "ms = t mod 86400000"
  define m where "m = month_of_day (leap_year y) (d - day_from_year y)"
  define k where "k = d - day_from_year y - month_start (leap_year y) m"
  have yr: "100 \<le> y" "y \<le> 9999" using assms by (simp_all add: y_def d_def)
  have ms: "0 \<le> ms" "ms < 86400000" by (simp_all add: ms_def)
  have m: "0 \<le> m" "m < 12" "0 \<le> k" "k < 31"
    using month_of_day_props [of "d - day_from_year y" "leap_year y"] day_of_year_range [of d]
    by (simp_all add: m_def k_def y_def)
  note hour = time_parts(1) [OF ms]
  have small: "0 \<le> x mod 60" "x mod 60 < 10 ^ 2" for x :: int
    using pos_mod_sign [of 60 x] pos_mod_bound [of 60 x] by simp_all
  have bounds: "0 \<le> y" "y < 10 ^ 4" "0 \<le> m + 1" "m + 1 < 10 ^ 2" "0 \<le> k + 1" "k + 1 < 10 ^ 2"
    "0 \<le> ms div 3600000" "ms div 3600000 < 10 ^ 2" "0 \<le> ms mod 1000" "ms mod 1000 < 10 ^ 3"
    using yr m hour pos_mod_sign [of 1000 ms] pos_mod_bound [of 1000 ms] by auto
  note pad = pad_props [OF bounds(1,2) zero_less_numeral] pad_props [OF bounds(3,4) zero_less_numeral]
    pad_props [OF bounds(5,6) zero_less_numeral] pad_props [OF bounds(7,8) zero_less_numeral]
    pad_props [OF small zero_less_numeral] pad_props [OF bounds(9,10) zero_less_numeral]
  let ?g = "\<lparr>g_year = pad_digits 4 y, g_month = pad_digits 2 (m + 1), g_day = pad_digits 2 (k + 1),
    g_time = Some (pad_digits 2 (ms div 3600000), pad_digits 2 (ms div 60000 mod 60),
      pad_digits 2 (ms div 1000 mod 60), pad_digits 3 (ms mod 1000)), g_zone = None\<rparr>"
  have iso: "toISOString t = iso_text (pad_digits 4 y) (pad_digits 2 (m + 1)) (pad_digits 2 (k + 1))
      (pad_digits 2 (ms div 3600000)) (pad_digits 2 (ms div 60000 mod 60))
      (pad_digits 2 (ms div 1000 mod 60)) (pad_digits 3 (ms mod 1000))"
    unfolding k_def d_def
    by (rule iso_text_of) (use yr in \<open>simp_all add: y_def d_def m_def ms_def\<close>)
  have "exec_date (toISOString t) = Some ?g"
    unfolding iso by (rule exec_iso_text) (simp_all only: pad list_all_append)
  moreover have "date_of_match ?g = t"
  proof -
    have "date_of_match ?g = date_utc y m (k + 1) (ms div 3600000) (ms div 60000 mod 60)
        (ms div 1000 mod 60) (ms mod 1000)"
      by (simp only: date_of_match_def fraction_ms_three zone_delta_def pad date_match.select_convs
          option.case prod.case Let_def) simp
    also have "\<dots> = d * 86400000 + (ms div 3600000 * 3600000 + ms div 60000 mod 60 * 60000
        + ms div 1000 mod 60 * 1000 + ms mod 1000)"
      using m(1,2) yr by (simp add: date_utc_def k_def)
    also have "\<dots> = t" unfolding time_parts(2) [OF ms] by (simp add: d_def ms_def)
    finally show ?thesis .
  qed
  ultimately show ?thesis by blast
qed


text \<open>
  C38: A date of the years 100 to 9999 is accepted in the form in which it is written and
  read back as the same instant, to the millisecond.
\<close>

theorem timestamp_roundtrip:
  assumes "100 \<le> year_of_day (t div 86400000)" and "year_of_day (t div 86400000) \<le> 9999"
    and "cell_of h v = Some (Date t)"
  shows "\<exists>s. representYamlTimestamp w h v st = Inr (Str s) \<and>
             resolveYamlTimestamp w h (Str s) = Inr True \<and>
             constructYamlTimestamp w h (Str s) = Inr (alloc h (Date t))"
  using exec_toISOString [OF assms(1,2)] assms(3)
  by (auto simp: representYamlTimestamp_def resolveYamlTimestamp_def constructYamlTimestamp_def)

lemma timestamp_roundtrip_witness:
  "\<forall>w. \<exists>s. representYamlTimestamp w [Date 1008367183100] (Ref 0) None = Inr (Str s) \<and>
       resolveYamlTimestamp w [Date 1008367183100] (Str s) = Inr True \<and>
       constructYamlTimestamp w [Date 1008367183100] (Str s) =
         Inr (alloc [Date 1008367183100] (Date 1008367183100))"
proof (intro allI timestamp_roundtrip)
  have "year_of_day 11670 = 2001" by code_simp
  then show "100 \<le> year_of_day (1008367183100 div 86400000)"
    "year_of_day (1008367183100 div 86400000) \<le> 9999" by simp_all
qed (simp add: cell_of_def)

text \<open>Years below 100 are read as years of the twentieth century.\<close>

lemma early_year_shifted:
  "map_option date_of_match (exec_date (jstr ''0050-01-01'')) = Some (date_utc 1950 0 1 0 0 0 0)"
  by code_simp

end
