(* ===== verification/YamlInts.thy ===== *)
theory YamlInts
  imports YamlTypes
begin

text \<open>
  The integer type of js-yaml (module 36): the texts that \<open>represent\<close> writes are accepted by
  \<open>resolve\<close> and read back by \<open>construct\<close>, in every base.
\<close>


section \<open>Integers are read back as they are written\<close>

lemma digit_value_char: "0 \<le> d \<Longrightarrow> d < 36 \<Longrightarrow> digit_value (digit_char d) = Some d"
  by (simp add: digit_value_def digit_char_def)

lemma is_radix_digit_char: "0 \<le> d \<Longrightarrow> d < b \<Longrightarrow> b \<le> 36 \<Longrightarrow> is_radix_digit b (digit_char d)"
  by (simp add: is_radix_digit_def digit_value_char)

lemma radix_value_snoc: "radix_value b (s @ [c]) = radix_value b s * b + the (digit_value c)"
  by (simp add: radix_value_def)

text \<open>What is known of the digits of a number.\<close>

lemma radix_str_props:
  assumes "2 \<le> b" "b \<le> 36" "0 \<le> n"
  shows "list_all (is_radix_digit b) (radix_str b n)" (is ?digits)
    and "radix_value b (radix_str b n) = n" (is ?val)
    and "radix_str b n \<noteq> []" (is ?nonempty)
    and "hd (radix_str b n) = 0x30 \<longleftrightarrow> n = 0" (is ?leading)
proof -
  have "?digits \<and> ?val \<and> ?nonempty \<and> ?leading"
    using assms
  proof (induction b n rule: radix_str.induct)
    case (1 b n)
    show ?case
    proof (cases "n < b")
      case True
      with 1(2-) have "radix_str b n = [digit_char n]" by (simp add: radix_str.simps)
      moreover have "digit_char n = 0x30 \<longleftrightarrow> n = 0" by (auto simp: digit_char_def)
      ultimately show ?thesis
        using True 1(2-) by (simp add: is_radix_digit_char radix_value_def digit_value_char)
    next
      case False
      with 1(2-) have step: "radix_str b n = radix_str b (n div b) @ [digit_char (n mod b)]"
        by (simp add: radix_str.simps [of b n])
      from False 1 have ih: "list_all (is_radix_digit b) (radix_str b (n div b))"
        "radix_value b (radix_str b (n div b)) = n div b"
        "radix_str b (n div b) \<noteq> []" "hd (radix_str b (n div b)) = 0x30 \<longleftrightarrow> n div b = 0"
        by (auto simp: pos_imp_zdiv_nonneg_iff)
      moreover have "n div b \<noteq> 0" using False 1(2-) by (simp add: zdiv_eq_0_iff)
      moreover have "n \<noteq> 0" using False 1(2-) by auto
      moreover have "0 \<le> n mod b" "n mod b < b" using 1(2-) by auto
      moreover have "digit_value (digit_char (n mod b)) = Some (n mod b)"
        using 1(2-) pos_mod_bound [of b n] pos_mod_sign [of b n]
        by (intro digit_value_char) linarith+
      ultimately show ?thesis
        using 1(2-) by (simp add: step radix_value_snoc is_radix_digit_char)
    qed
  qed
  then show ?digits ?val ?nonempty ?leading by auto
qed

lemma radix_digit_mono: "is_radix_digit b c \<Longrightarrow> b \<le> b' \<Longrightarrow> is_radix_digit b' c"
  by (auto simp: is_radix_digit_def split: option.splits)

lemma radix_digit_codes:
  "is_radix_digit 2 c \<Longrightarrow> isBinCode c" "is_radix_digit 8 c \<Longrightarrow> isOctCode c"
  "is_radix_digit 10 c \<Longrightarrow> isDecCode c" "is_radix_digit 16 c \<Longrightarrow> isHexCode c"
  by (auto simp: is_radix_digit_def digit_value_def isBinCode_def isOctCode_def isDecCode_def
      isHexCode_def split: if_splits)

lemma based_digits_all:
  "list_all p s \<Longrightarrow> \<not> p 0x5F \<Longrightarrow> based_digits p b s \<longleftrightarrow> b \<or> s \<noteq> []"
  by (induction s arbitrary: b) auto

lemma decimal_digits_all: "list_all isDecCode s \<Longrightarrow> decimal_digits b s \<longleftrightarrow> b \<or> s \<noteq> []"
  by (induction s arbitrary: b) (auto simp: isDecCode_def)

lemma takeWhile_all: "list_all p s \<Longrightarrow> takeWhile p s = s"
  by (induction s) auto

lemma remove_all_id: "d \<notin> set s \<Longrightarrow> remove_all d s = s"
  by (auto simp: remove_all_def intro: filter_True)

lemma not_space_digit: "is_radix_digit 36 c \<Longrightarrow> \<not> js_space c"
  by (auto simp: is_radix_digit_def digit_value_def js_space_def split: if_splits)

lemma parseInt_digits:
  assumes "list_all (is_radix_digit r) s" "s \<noteq> []" "r \<le> 36" "r = 16 \<Longrightarrow> charCodeAt s 1 \<noteq> Some 0x78 \<and> charCodeAt s 1 \<noteq> Some 0x58"
  shows "parseInt s r = to_double (of_int (radix_value r s))"
proof -
  obtain c t where s: "s = c # t" using assms(2) by (cases s) auto
  then have c: "is_radix_digit r c" using assms by simp
  then have "\<not> js_space c" "c \<noteq> 0x2D" "c \<noteq> 0x2B"
    using not_space_digit radix_digit_mono [OF _ assms(3)]
    by (auto simp: is_radix_digit_def digit_value_def split: if_splits)
  then have strip: "strip_sign (dropWhile js_space s) = (1, s)" by (simp add: s strip_sign_def)
  have "\<not> (r = 16 \<and> (take 2 s = [0x30, 0x78] \<or> take 2 s = [0x30, 0x58]))"
    using assms(4) by (cases t) (auto simp: s charCodeAt_def)
  then have "(if r = 16 \<and> (take 2 s = [0x30, 0x78] \<or> take 2 s = [0x30, 0x58])
      then drop 2 s else s) = s" by (rule if_not_P)
  then show ?thesis
    using assms(1,2)
    by (simp only: parseInt_def strip Let_def prod.case takeWhile_all)
      (simp add: signed_double_def num_signed_def)
qed

lemma parseInt_hex_prefix:
  assumes "list_all (is_radix_digit 16) s" "s \<noteq> []"
  shows "parseInt (0x30 # 0x78 # s) 16 = to_double (of_int (radix_value 16 s))"
  using assms
  by (simp add: parseInt_def js_space_def strip_sign_def takeWhile_all signed_double_def num_signed_def)

lemma digit_not_special:
  "is_radix_digit 16 c \<Longrightarrow> c \<noteq> 0x5F \<and> c \<noteq> 0x2D \<and> c \<noteq> 0x2B \<and> c \<noteq> 0x3A \<and> c \<noteq> 0x78 \<and> c \<noteq> 0x58"
  by (auto simp: is_radix_digit_def digit_value_def split: if_splits)

lemma digits_not_special:
  "list_all (is_radix_digit b) s \<Longrightarrow> b \<le> 16 \<Longrightarrow> c \<in> {0x5F, 0x2D, 0x2B, 0x3A, 0x78, 0x58} \<Longrightarrow> c \<notin> set s"
  using digit_not_special radix_digit_mono by (fastforce simp: list_all_iff)

lemma upper_digit: "is_radix_digit 16 c \<Longrightarrow>
    digit_value (if 0x61 \<le> c \<and> c \<le> 0x7A then c - 0x20 else c) = digit_value c"
  by (auto simp: is_radix_digit_def digit_value_def split: if_splits)

lemma upper_radix_digit: "is_radix_digit 16 c \<Longrightarrow>
    is_radix_digit 16 (if 0x61 \<le> c \<and> c \<le> 0x7A then c - 0x20 else c)"
  by (auto simp: is_radix_digit_def digit_value_def split: if_splits)

lemma upper_radix:
  assumes "list_all (is_radix_digit 16) s"
  shows "list_all (is_radix_digit 16) (upper_ascii s)"
    and "radix_value 16 (upper_ascii s) = radix_value 16 s"
proof -
  show "list_all (is_radix_digit 16) (upper_ascii s)"
    using assms upper_radix_digit by (induction s) (simp_all only: upper_ascii_def list.map list.pred_inject)
  have "foldl (\<lambda>v c. v * 16 + the (digit_value c)) a (upper_ascii s) =
      foldl (\<lambda>v c. v * 16 + the (digit_value c)) a s" for a
    using assms
    by (induction s arbitrary: a) (simp_all add: upper_ascii_def upper_digit)
  then show "radix_value 16 (upper_ascii s) = radix_value 16 s" by (simp add: radix_value_def)
qed

subsection \<open>Each base\<close>

lemma read_binary:
  assumes "list_all (is_radix_digit 2) s" "s \<noteq> []"
  shows "resolve_integer (jstr ''0b'' @ s)"
    and "construct_integer (jstr ''0b'' @ s) = to_double (of_int (radix_value 2 s))"
proof -
  have "list_all isBinCode s" using assms(1) by (auto simp: list_all_iff radix_digit_codes)
  then show "resolve_integer (jstr ''0b'' @ s)"
    using assms(2) by (simp add: resolve_integer_def based_digits_all isBinCode_def)
  have "0x5F \<notin> set s" using digits_not_special [OF assms(1)] by simp
  then show "construct_integer (jstr ''0b'' @ s) = to_double (of_int (radix_value 2 s))"
    using parseInt_digits [OF assms]
    by (simp add: construct_integer_def remove_all_id charCodeAt_def num_signed_def)
qed

lemma read_hex:
  assumes "list_all (is_radix_digit 16) s" "s \<noteq> []"
  shows "resolve_integer (jstr ''0x'' @ s)"
    and "construct_integer (jstr ''0x'' @ s) = to_double (of_int (radix_value 16 s))"
proof -
  have "list_all isHexCode s" using assms(1) by (auto simp: list_all_iff radix_digit_codes)
  then show "resolve_integer (jstr ''0x'' @ s)"
    using assms(2) by (simp add: resolve_integer_def based_digits_all isHexCode_def)
  have "0x5F \<notin> set s" using digits_not_special [OF assms(1)] by simp
  then show "construct_integer (jstr ''0x'' @ s) = to_double (of_int (radix_value 16 s))"
    using parseInt_hex_prefix [OF assms]
    by (simp add: construct_integer_def remove_all_id charCodeAt_def num_signed_def)
qed

lemma read_octal:
  assumes "list_all (is_radix_digit 8) s" "s \<noteq> []"
  shows "resolve_integer (jstr ''0'' @ s)"
    and "construct_integer (jstr ''0'' @ s) = to_double (of_int (radix_value 8 s))"
proof -
  obtain c t where s: "s = c # t" using assms(2) by (cases s) auto
  then have c: "c \<noteq> 0x62" "c \<noteq> 0x78"
    using assms(1) by (auto simp: is_radix_digit_def digit_value_def)
  have "list_all isOctCode s" using assms(1) by (auto simp: list_all_iff radix_digit_codes)
  then show "resolve_integer (jstr ''0'' @ s)"
    using c based_digits_all [of isOctCode s False]
    by (simp add: resolve_integer_def s isOctCode_def)
  have "0x5F \<notin> set s" using digits_not_special [OF assms(1)] by simp
  moreover have "list_all (is_radix_digit 8) (0x30 # s)"
    using assms(1) by (simp add: is_radix_digit_def digit_value_def)
  moreover have "radix_value 8 (0x30 # s) = radix_value 8 s"
    by (simp add: radix_value_def digit_value_def)
  ultimately show "construct_integer (jstr ''0'' @ s) = to_double (of_int (radix_value 8 s))"
    using c parseInt_digits [of 8 "0x30 # s"]
    by (simp add: construct_integer_def remove_all_id charCodeAt_def num_signed_def s)
qed

lemma read_decimal:
  assumes "list_all (is_radix_digit 10) s" "s \<noteq> []" "hd s \<noteq> 0x30" "sg = [] \<or> sg = [0x2D]"
  shows "resolve_integer (sg @ s)"
    and "construct_integer (sg @ s) =
           num_signed (if sg = [] then 1 else - 1) (to_double (of_int (radix_value 10 s)))"
proof -
  obtain c t where s: "s = c # t" using assms(2) by (cases s) auto
  have special: "0x5F \<notin> set s" "0x3A \<notin> set s" "0x2D \<notin> set s" "0x2B \<notin> set s"
    using digits_not_special [OF assms(1)] by simp_all
  have "list_all isDecCode s" using assms(1) by (auto simp: list_all_iff radix_digit_codes)
  then show "resolve_integer (sg @ s)"
    using assms(3,4) special decimal_digits_all [of s False]
    by (auto simp: resolve_integer_def s)
  show "construct_integer (sg @ s) =
      num_signed (if sg = [] then 1 else - 1) (to_double (of_int (radix_value 10 s)))"
    using parseInt_digits [OF assms(1,2)] assms(3,4) special
    by (auto simp: construct_integer_def remove_all_id s num_signed_def)
qed


subsection \<open>The representations of the type\<close>

definition represent_style :: "represent \<Rightarrow> jsstring \<Rightarrow> (host \<Rightarrow> heap \<Rightarrow> jsval \<Rightarrow> jsval yres) option" where
  "represent_style r st = (case r of RepStyles ps \<Rightarrow> map_of ps st | RepFun f \<Rightarrow> Some (\<lambda>w h v. f w h v (Some st)))"

lemma num_to_string_int:
  assumes "\<bar>n\<bar> < 2 ^ 53"
  shows "num_to_string (Fin (of_int n)) = (if n < 0 then [0x2D] else []) @ decimal_str \<bar>n\<bar>"
proof -
  have "(of_int \<bar>n\<bar> :: rat) < of_int (2 ^ 53)" using assms of_int_less_iff by blast
  then have "(of_int \<bar>n\<bar> :: rat) < 2 ^ 53" by simp
  moreover have "positive_to_string (of_int m) = decimal_str m" if "(of_int m :: rat) < 2 ^ 53" for m
    using that by (simp add: positive_to_string_def)
  ultimately have "positive_to_string (of_int \<bar>n\<bar>) = decimal_str \<bar>n\<bar>" by blast
  then show ?thesis by (cases "n < 0") (auto simp: num_to_string_def)
qed

text \<open>The text of an integer in one of the styles.\<close>

definition int_text :: "host \<Rightarrow> heap \<Rightarrow> jsstring \<Rightarrow> jsnum \<Rightarrow> jsstring option" where
  "int_text w h st x =
     (case represent_style represent_int st of
        None \<Rightarrow> None
      | Some f \<Rightarrow> (case f w h (Num x) of Inr (Str s) \<Rightarrow> Some s | _ \<Rightarrow> None))"

lemma int_text_styles:
  "int_text w h (jstr ''binary'') x = Some (represent_integer (jstr ''0b'') 2 x)"
  "int_text w h (jstr ''octal'') x = Some (represent_integer (jstr ''0'') 8 x)"
  "int_text w h (jstr ''decimal'') x = Some (represent_integer [] 10 x)"
  "int_text w h (jstr ''hexadecimal'') x = Some (jstr ''0x'' @ upper_ascii (represent_integer [] 16 x))"
  by (simp_all add: int_text_def represent_style_def represent_int_def Let_def)


lemma int_to_radix_nonneg: "0 \<le> n \<Longrightarrow> int_to_radix r n = radix_str r n"
  by (simp add: int_to_radix_def)

lemma int_roundtrip_nonneg:
  assumes "0 \<le> n" "n < 2 ^ 53" "st \<in> set (map fst int_aliases)"
  shows "\<exists>s. int_text w h st (Fin (of_int n)) = Some s \<and> resolve_integer s \<and>
             construct_integer s = Fin (of_int n)"
proof -
  have double: "to_double (of_int n) = Fin (of_int n)" using assms by (intro to_double_int) simp
  have rep: "represent_integer p r (Fin (of_int n)) = p @ radix_str r n" if "r \<noteq> 10" for p r
    using that assms by (simp add: represent_integer_def num_value_def int_to_radix_nonneg)
  have "num_to_string (Fin (of_int n)) = decimal_str n"
    using assms num_to_string_int [of n] by simp
  then have dec: "represent_integer [] 10 (Fin (of_int n)) = decimal_str n"
    by (simp add: represent_integer_def)
  note facts = radix_str_props [of 2 n, simplified, OF assms(1)]
    radix_str_props [of 8 n, simplified, OF assms(1)]
    radix_str_props [of 10 n, simplified, OF assms(1)]
    radix_str_props [of 16 n, simplified, OF assms(1)]
  note hex = upper_radix [OF facts(13)]
  consider "st = jstr ''binary''" | "st = jstr ''octal''" | "st = jstr ''decimal''"
    | "st = jstr ''hexadecimal''"
    using assms(3) by (auto simp: int_aliases_def)
  then show ?thesis
  proof cases
    case 1
    then show ?thesis
      using read_binary [OF facts(1) facts(3)] facts(2) by (simp add: int_text_styles rep double del: jstr_simps)
  next
    case 2
    then show ?thesis
      using read_octal [OF facts(5) facts(7)] facts(6) by (simp add: int_text_styles rep double del: jstr_simps)
  next
    case 3
    have "resolve_integer (decimal_str n) \<and> construct_integer (decimal_str n) = Fin (of_int n)"
    proof (cases "n = 0")
      case True
      then show ?thesis
        by (simp add: radix_str.simps digit_char_def resolve_integer_def construct_integer_def
            remove_all_def)
    next
      case False
      then show ?thesis
        using read_decimal [OF facts(9) facts(11), of "[]"] facts(10,12) double
        by (simp add: num_signed_def)
    qed
    with 3 show ?thesis by (simp add: int_text_styles dec del: jstr_simps)
  next
    case 4
    have "upper_ascii (radix_str 16 n) \<noteq> []" using facts(15) by (simp add: upper_ascii_def)
    with 4 show ?thesis
      using read_hex [OF hex(1)] hex(2) facts(14) by (simp add: int_text_styles rep double del: jstr_simps)
  qed
qed

lemma int_roundtrip_negative:
  assumes "- (2 ^ 53) < n" "n < 0"
  shows "\<exists>s. int_text w h (jstr ''decimal'') (Fin (of_int n)) = Some s \<and> resolve_integer s \<and>
             construct_integer s = Fin (of_int n)"
proof -
  have "to_double (of_int (- n)) = Fin (of_int (- n))" using assms by (intro to_double_int) simp
  then have double: "num_neg (to_double (of_int (- n))) = Fin (of_int n)" using assms by simp
  have "num_to_string (Fin (of_int n)) = 0x2D # decimal_str (- n)"
    using assms num_to_string_int [of n] by simp
  then have dec: "represent_integer [] 10 (Fin (of_int n)) = [0x2D] @ decimal_str (- n)"
    by (simp add: represent_integer_def)
  note facts = radix_str_props [of 10 "- n"]
  have "hd (decimal_str (- n)) \<noteq> 0x30" using facts assms by simp
  then have "resolve_integer ([0x2D] @ decimal_str (- n))"
    "construct_integer ([0x2D] @ decimal_str (- n)) = Fin (of_int n)"
    using read_decimal [of "decimal_str (- n)" "[0x2D]"] facts assms double
    by (simp_all add: num_signed_def)
  then show ?thesis by (simp add: int_text_styles dec del: jstr_simps)
qed

text \<open>
  C36: An integer below \<open>2 ^ 53\<close> in magnitude that is written in decimal, or that is not
  negative and written in any of the four styles, is accepted as an integer and read back as
  the same number.
\<close>

theorem int_roundtrip:
  assumes "st \<in> set (map fst int_aliases)" and "\<bar>n\<bar> < 2 ^ 53"
    and "0 \<le> n \<or> st = jstr ''decimal''"
  shows "\<exists>s. int_text w h st (Fin (of_int n)) = Some s \<and>
             resolveYamlInteger w h (Str s) = Inr True \<and>
             constructYamlInteger w h (Str s) = Inr (h, Num (Fin (of_int n)))"
proof (cases "0 \<le> n")
  case True
  then show ?thesis
    using int_roundtrip_nonneg [OF _ _ assms(1), of n w h] assms(2)
    by (auto simp: resolveYamlInteger_def constructYamlInteger_def)
next
  case False
  then show ?thesis
    using int_roundtrip_negative [of n w h] assms(2,3)
    by (auto simp: resolveYamlInteger_def constructYamlInteger_def)
qed

lemma int_roundtrip_witness:
  "\<forall>w h. \<exists>s. int_text w h (jstr ''hexadecimal'') (Fin (of_int 3054)) = Some s \<and>
       resolveYamlInteger w h (Str s) = Inr True \<and>
       constructYamlInteger w h (Str s) = Inr (h, Num (Fin (of_int 3054)))"
  by (intro allI int_roundtrip) (simp_all add: int_aliases_def)

text \<open>
  A negative integer written in binary, octal or hexadecimal is not accepted as an
  integer: the sign stands after the prefix.
\<close>

theorem negative_based_int_rejected:
  assumes "st \<in> {jstr ''binary'', jstr ''octal'', jstr ''hexadecimal''}" and "n < 0"
  shows "\<exists>s. int_text w h st (Fin (of_int n)) = Some s \<and>
             resolveYamlInteger w h (Str s) = Inr False"
proof -
  have "represent_integer p r (Fin (of_int n)) = p @ 0x2D # radix_str r (- n)" if "r \<noteq> 10" for p r
    using that assms(2) by (simp add: represent_integer_def num_value_def int_to_radix_def)
  then show ?thesis
    using assms(1)
    by (elim insertE emptyE)
      (simp_all add: int_text_styles resolveYamlInteger_def resolve_integer_def upper_ascii_def
        isBinCode_def isOctCode_def isHexCode_def del: jstr_simps,
        simp_all add: isBinCode_def isOctCode_def isHexCode_def)
qed

lemma negative_based_int_rejected_witness:
  "\<forall>w h. \<exists>s. int_text w h (jstr ''binary'') (Fin (of_int (- 5))) = Some s \<and>
       resolveYamlInteger w h (Str s) = Inr False"
  by (intro allI negative_based_int_rejected) simp_all

end
