(* ===== verification/YamlSchemas.thy ===== *)
theory YamlSchemas
  imports YamlBinary YamlDates YamlInts
begin

text \<open>
  The types of modules 33 to 48 as objects, and the schemas of modules 27 to 31 made of them,
  with the lists that the loader and the dumper search.
\<close>

definition yaml_tag :: "string \<Rightarrow> jsstring" where
  "yaml_tag s = jstr (''tag:yaml.org,2002:'' @ s)"

definition no_options :: "ykind \<Rightarrow> type_options" where
  "no_options k =
     \<lparr>o_names = [jstr ''kind''], o_kind = Some (kind_name k), o_resolve = None, o_construct = None,
      o_instanceOf = None, o_predicate = None, o_represent = None, o_defaultStyle = None,
      o_styleAliases = None\<rparr>"

section \<open>The types\<close>

definition str_options :: type_options where
  "str_options =
     (no_options Scalar)\<lparr>o_names := map jstr [''kind'', ''construct''], o_construct := Some construct_str\<rparr>"

definition str_type :: ytype where "str_type = type_object (yaml_tag ''str'') str_options"

definition seq_options :: type_options where
  "seq_options =
     (no_options Sequence)\<lparr>o_names := map jstr [''kind'', ''construct''], o_construct := Some construct_seq\<rparr>"

definition seq_type :: ytype where "seq_type = type_object (yaml_tag ''seq'') seq_options"

definition map_options :: type_options where
  "map_options =
     (no_options Mapping)\<lparr>o_names := map jstr [''kind'', ''construct''], o_construct := Some construct_map\<rparr>"

definition map_type :: ytype where "map_type = type_object (yaml_tag ''map'') map_options"

definition null_options :: type_options where
  "null_options =
     (no_options Scalar)\<lparr>
       o_names := map jstr [''kind'', ''resolve'', ''construct'', ''predicate'', ''represent'', ''defaultStyle''],
       o_resolve := Some resolveYamlNull, o_construct := Some constructYamlNull,
       o_predicate := Some isNull, o_represent := Some represent_null,
       o_defaultStyle := Some (jstr ''lowercase'')\<rparr>"

definition null_type :: ytype where "null_type = type_object (yaml_tag ''null'') null_options"

definition bool_options :: type_options where
  "bool_options =
     (no_options Scalar)\<lparr>
       o_names := map jstr [''kind'', ''resolve'', ''construct'', ''predicate'', ''represent'', ''defaultStyle''],
       o_resolve := Some resolveYamlBoolean, o_construct := Some constructYamlBoolean,
       o_predicate := Some isBoolean, o_represent := Some represent_bool,
       o_defaultStyle := Some (jstr ''lowercase'')\<rparr>"

definition bool_type :: ytype where "bool_type = type_object (yaml_tag ''bool'') bool_options"

definition int_options :: type_options where
  "int_options =
     (no_options Scalar)\<lparr>
       o_names := map jstr [''kind'', ''resolve'', ''construct'', ''predicate'', ''represent'', ''defaultStyle'',
         ''styleAliases''],
       o_resolve := Some resolveYamlInteger, o_construct := Some constructYamlInteger,
       o_predicate := Some isInteger, o_represent := Some represent_int,
       o_defaultStyle := Some (jstr ''decimal''), o_styleAliases := Some int_aliases\<rparr>"

definition int_type :: ytype where "int_type = type_object (yaml_tag ''int'') int_options"

definition float_options :: type_options where
  "float_options =
     (no_options Scalar)\<lparr>
       o_names := map jstr [''kind'', ''resolve'', ''construct'', ''predicate'', ''represent'', ''defaultStyle''],
       o_resolve := Some resolveYamlFloat, o_construct := Some constructYamlFloat,
       o_predicate := Some isFloat, o_represent := Some (RepFun representYamlFloat),
       o_defaultStyle := Some (jstr ''lowercase'')\<rparr>"

definition float_type :: ytype where "float_type = type_object (yaml_tag ''float'') float_options"

definition merge_options :: type_options where
  "merge_options =
     (no_options Scalar)\<lparr>o_names := map jstr [''kind'', ''resolve''], o_resolve := Some resolveYamlMerge\<rparr>"

definition merge_type :: ytype where "merge_type = type_object (yaml_tag ''merge'') merge_options"

definition timestamp_options :: type_options where
  "timestamp_options =
     (no_options Scalar)\<lparr>
       o_names := map jstr [''kind'', ''resolve'', ''construct'', ''instanceOf'', ''represent''],
       o_resolve := Some resolveYamlTimestamp, o_construct := Some constructYamlTimestamp,
       o_instanceOf := Some is_date, o_represent := Some (RepFun representYamlTimestamp)\<rparr>"

definition timestamp_type :: ytype where
  "timestamp_type = type_object (yaml_tag ''timestamp'') timestamp_options"

definition binary_options :: type_options where
  "binary_options =
     (no_options Scalar)\<lparr>
       o_names := map jstr [''kind'', ''resolve'', ''construct'', ''predicate'', ''represent''],
       o_resolve := Some resolveYamlBinary, o_construct := Some constructYamlBinary,
       o_predicate := Some isBinary, o_represent := Some (RepFun representYamlBinary)\<rparr>"

definition binary_type :: ytype where "binary_type = type_object (yaml_tag ''binary'') binary_options"

definition omap_options :: type_options where
  "omap_options =
     (no_options Sequence)\<lparr>o_names := map jstr [''kind'', ''resolve'', ''construct''],
       o_resolve := Some resolveYamlOmap, o_construct := Some constructYamlOmap\<rparr>"

definition omap_type :: ytype where "omap_type = type_object (yaml_tag ''omap'') omap_options"

definition pairs_options :: type_options where
  "pairs_options =
     (no_options Sequence)\<lparr>o_names := map jstr [''kind'', ''resolve'', ''construct''],
       o_resolve := Some resolveYamlPairs, o_construct := Some constructYamlPairs\<rparr>"

definition pairs_type :: ytype where "pairs_type = type_object (yaml_tag ''pairs'') pairs_options"

definition set_options :: type_options where
  "set_options =
     (no_options Mapping)\<lparr>o_names := map jstr [''kind'', ''resolve'', ''construct''],
       o_resolve := Some resolveYamlSet, o_construct := Some constructYamlSet\<rparr>"

definition set_type :: ytype where "set_type = type_object (yaml_tag ''set'') set_options"

definition undefined_options :: type_options where
  "undefined_options =
     (no_options Scalar)\<lparr>
       o_names := map jstr [''kind'', ''resolve'', ''construct'', ''predicate'', ''represent''],
       o_resolve := Some resolveJavascriptUndefined, o_construct := Some constructJavascriptUndefined,
       o_predicate := Some isUndefined, o_represent := Some (RepFun representJavascriptUndefined)\<rparr>"

definition undefined_type :: ytype where
  "undefined_type = type_object (yaml_tag ''js/undefined'') undefined_options"

definition regexp_options :: type_options where
  "regexp_options =
     (no_options Scalar)\<lparr>
       o_names := map jstr [''kind'', ''resolve'', ''construct'', ''predicate'', ''represent''],
       o_resolve := Some resolveJavascriptRegExp, o_construct := Some constructJavascriptRegExp,
       o_predicate := Some isRegExp, o_represent := Some (RepFun representJavascriptRegExp)\<rparr>"

definition regexp_type :: ytype where
  "regexp_type = type_object (yaml_tag ''js/regexp'') regexp_options"

definition function_options :: type_options where
  "function_options =
     (no_options Scalar)\<lparr>
       o_names := map jstr [''kind'', ''resolve'', ''construct'', ''predicate'', ''represent''],
       o_resolve := Some resolveJavascriptFunction, o_construct := Some constructJavascriptFunction,
       o_predicate := Some is_func, o_represent := Some (RepFun representJavascriptFunction)\<rparr>"

definition function_type :: ytype where
  "function_type = type_object (yaml_tag ''js/function'') function_options"

lemmas type_defs =
  str_type_def seq_type_def map_type_def null_type_def bool_type_def int_type_def float_type_def
  merge_type_def timestamp_type_def binary_type_def omap_type_def pairs_type_def set_type_def
  undefined_type_def regexp_type_def function_type_def

lemmas option_defs =
  str_options_def seq_options_def map_options_def null_options_def bool_options_def int_options_def
  float_options_def merge_options_def timestamp_options_def binary_options_def omap_options_def
  pairs_options_def set_options_def undefined_options_def regexp_options_def function_options_def
  no_options_def

section \<open>The schemas\<close>

definition failsafe_schema :: schema where
  "failsafe_schema = Schema [] [] [str_type, seq_type, map_type]"

definition json_schema :: schema where
  "json_schema = Schema [failsafe_schema] [null_type, bool_type, int_type, float_type] []"

definition core_schema :: schema where
  "core_schema = Schema [json_schema] [] []"

definition default_safe_schema :: schema where
  "default_safe_schema =
     Schema [core_schema] [timestamp_type, merge_type] [binary_type, omap_type, pairs_type, set_type]"

definition default_full_schema :: schema where
  "default_full_schema =
     Schema [default_safe_schema] [] [undefined_type, regexp_type, function_type]"

text \<open>\<open>Schema.DEFAULT\<close>\<close>

definition schema_DEFAULT :: "schema option" where
  "schema_DEFAULT = Some default_full_schema"

lemmas schema_defs = failsafe_schema_def json_schema_def core_schema_def default_safe_schema_def
  default_full_schema_def

lemma type_tags [simp]:
  "ty_tag str_type = yaml_tag ''str''" "ty_tag seq_type = yaml_tag ''seq''"
  "ty_tag map_type = yaml_tag ''map''" "ty_tag null_type = yaml_tag ''null''"
  "ty_tag bool_type = yaml_tag ''bool''" "ty_tag int_type = yaml_tag ''int''"
  "ty_tag float_type = yaml_tag ''float''" "ty_tag merge_type = yaml_tag ''merge''"
  "ty_tag timestamp_type = yaml_tag ''timestamp''" "ty_tag binary_type = yaml_tag ''binary''"
  "ty_tag omap_type = yaml_tag ''omap''" "ty_tag pairs_type = yaml_tag ''pairs''"
  "ty_tag set_type = yaml_tag ''set''" "ty_tag undefined_type = yaml_tag ''js/undefined''"
  "ty_tag regexp_type = yaml_tag ''js/regexp''" "ty_tag function_type = yaml_tag ''js/function''"
  by (simp_all add: type_defs type_object_def)

lemma yaml_tag_eq: "yaml_tag s = yaml_tag t \<longleftrightarrow> map (of_char :: char \<Rightarrow> int) s = map of_char t"
  by (simp add: yaml_tag_def jstr_def)

text \<open>
  The lists the loader searches: implicit types in the order null, bool, int, float, timestamp,
  merge.
\<close>

lemma compiled_implicit_safe:
  "compiledImplicit default_safe_schema =
     [null_type, bool_type, int_type, float_type, timestamp_type, merge_type]"
  by (simp add: compiledImplicit_def compileList_eq schema_defs replace_type_def yaml_tag_eq)

lemma compiled_implicit_full:
  "compiledImplicit default_full_schema =
     [null_type, bool_type, int_type, float_type, timestamp_type, merge_type]"
  by (simp add: compiledImplicit_def compileList_eq schema_defs replace_type_def yaml_tag_eq)

lemma compiled_explicit_safe:
  "compiledExplicit default_safe_schema =
     [str_type, seq_type, map_type, binary_type, omap_type, pairs_type, set_type]"
  by (simp add: compiledExplicit_def compileList_eq schema_defs replace_type_def yaml_tag_eq)

lemma compiled_explicit_full:
  "compiledExplicit default_full_schema =
     [str_type, seq_type, map_type, binary_type, omap_type, pairs_type, set_type, undefined_type,
      regexp_type, function_type]"
  by (simp add: compiledExplicit_def compileList_eq schema_defs replace_type_def yaml_tag_eq)

text \<open>
  The constructor accepts the options of every type of the library, so that the constants of
  the types are what it makes.
\<close>

lemma library_types_accepted:
  "list_all (\<lambda>(tag, options). Type (yaml_tag tag) options = Inr (type_object (yaml_tag tag) options))
     [(''str'', str_options), (''seq'', seq_options), (''map'', map_options), (''null'', null_options),
      (''bool'', bool_options), (''int'', int_options), (''float'', float_options),
      (''merge'', merge_options), (''timestamp'', timestamp_options), (''binary'', binary_options),
      (''omap'', omap_options), (''pairs'', pairs_options), (''set'', set_options),
      (''js/undefined'', undefined_options), (''js/regexp'', regexp_options),
      (''js/function'', function_options)]"
  by (simp add: Type_def option_defs type_constructor_options_def kind_of_name_def kind_name_def)

text \<open>
  An implicit type of another kind than scalar is not rejected: the constructor asks for a
  property that the types do not have.
\<close>

lemma implicit_mapping_accepted:
  "ty_kind set_type = Some Mapping \<and> new_schema [] [set_type] [] = Inr (Schema [] [set_type] [])"
  by (simp add: new_schema_def loadKind_def set_type_def type_object_def option_defs kind_of_name_def
      kind_name_def)

end
