(* ===== verification/YamlDumpText.thy ===== *)
theory YamlDumpText
  imports YamlSchemas
begin

text \<open>
  The part of \<open>js-yaml/dumper.js\<close> (module 22) that works on the text of one scalar: the
  classes of characters, the choice of a style, the escapes of the double-quoted style, the
  header, the indentation and the folding of block scalars. What these functions promise is
  proved in \<open>YamlStyles\<close> (the styles) and \<open>YamlQuotes\<close> (the quoted styles).
\<close>

section \<open>Characters\<close>

text \<open>\<open>string[i]\<close> and \<open>string.charCodeAt(i)\<close>, also for an index out of range.\<close>

abbreviation at_char :: "jsstring \<Rightarrow> int \<Rightarrow> int option" where
  "at_char \<equiv> JsPrelude.at"

definition CHAR_TAB :: int where [simp]: "CHAR_TAB = 0x09"
definition CHAR_LINE_FEED :: int where [simp]: "CHAR_LINE_FEED = 0x0A"
definition CHAR_SPACE :: int where [simp]: "CHAR_SPACE = 0x20"
definition CHAR_EXCLAMATION :: int where [simp]: "CHAR_EXCLAMATION = 0x21"
definition CHAR_DOUBLE_QUOTE :: int where [simp]: "CHAR_DOUBLE_QUOTE = 0x22"
definition CHAR_SHARP :: int where [simp]: "CHAR_SHARP = 0x23"
definition CHAR_PERCENT :: int where [simp]: "CHAR_PERCENT = 0x25"
definition CHAR_AMPERSAND :: int where [simp]: "CHAR_AMPERSAND = 0x26"
definition CHAR_SINGLE_QUOTE :: int where [simp]: "CHAR_SINGLE_QUOTE = 0x27"
definition CHAR_ASTERISK :: int where [simp]: "CHAR_ASTERISK = 0x2A"
definition CHAR_COMMA :: int where [simp]: "CHAR_COMMA = 0x2C"
definition CHAR_MINUS :: int where [simp]: "CHAR_MINUS = 0x2D"
definition CHAR_COLON :: int where [simp]: "CHAR_COLON = 0x3A"
definition CHAR_GREATER_THAN :: int where [simp]: "CHAR_GREATER_THAN = 0x3E"
definition CHAR_QUESTION :: int where [simp]: "CHAR_QUESTION = 0x3F"
definition CHAR_COMMERCIAL_AT :: int where [simp]: "CHAR_COMMERCIAL_AT = 0x40"
definition CHAR_LEFT_SQUARE_BRACKET :: int where [simp]: "CHAR_LEFT_SQUARE_BRACKET = 0x5B"
definition CHAR_RIGHT_SQUARE_BRACKET :: int where [simp]: "CHAR_RIGHT_SQUARE_BRACKET = 0x5D"
definition CHAR_GRAVE_ACCENT :: int where [simp]: "CHAR_GRAVE_ACCENT = 0x60"
definition CHAR_LEFT_CURLY_BRACKET :: int where [simp]: "CHAR_LEFT_CURLY_BRACKET = 0x7B"
definition CHAR_VERTICAL_LINE :: int where [simp]: "CHAR_VERTICAL_LINE = 0x7C"
definition CHAR_RIGHT_CURLY_BRACKET :: int where [simp]: "CHAR_RIGHT_CURLY_BRACKET = 0x7D"

text \<open>\<open>ESCAPE_SEQUENCES[character]\<close>, \<open>None\<close> for \<open>undefined\<close>.\<close>

definition ESCAPE_SEQUENCES :: "int \<Rightarrow> jsstring option" where
  "ESCAPE_SEQUENCES = map_of
     [(0x00, [0x5C, 0x30]), (0x07, [0x5C, 0x61]), (0x08, [0x5C, 0x62]), (0x09, [0x5C, 0x74]),
      (0x0A, [0x5C, 0x6E]), (0x0B, [0x5C, 0x76]), (0x0C, [0x5C, 0x66]), (0x0D, [0x5C, 0x72]),
      (0x1B, [0x5C, 0x65]), (0x22, [0x5C, 0x22]), (0x5C, [0x5C, 0x5C]), (0x85, [0x5C, 0x4E]),
      (0xA0, [0x5C, 0x5F]), (0x2028, [0x5C, 0x4C]), (0x2029, [0x5C, 0x50])]"

definition DEPRECATED_BOOLEANS_SYNTAX :: "jsstring list" where
  "DEPRECATED_BOOLEANS_SYNTAX = map jstr
     [''y'', ''Y'', ''yes'', ''Yes'', ''YES'', ''on'', ''On'', ''ON'',
      ''n'', ''N'', ''no'', ''No'', ''NO'', ''off'', ''Off'', ''OFF'']"

definition encodeHex :: "int \<Rightarrow> jsstring yres" where
  "encodeHex character =
     (let digits = upper_ascii (int_to_radix 16 character);
          escape = (\<lambda>handle len. Inr (jstr [CHR 0x5C] @ jstr [handle]
                     @ repeat (jstr ''0'') (len - int (length digits)) @ digits))
      in if character \<le> 0xFF then escape CHR ''x'' 2
         else if character \<le> 0xFFFF then escape CHR ''u'' 4
         else if character \<le> 0xFFFFFFFF then escape CHR ''U'' 8
         else yaml_exception (jstr ''code point within a string may not be greater than 0xFFFFFFFF''))"

definition isWhitespace :: "int \<Rightarrow> bool" where
  "isWhitespace c \<longleftrightarrow> c = CHAR_SPACE \<or> c = CHAR_TAB"

definition isPrintable :: "int \<Rightarrow> bool" where
  "isPrintable c \<longleftrightarrow>
     (0x00020 \<le> c \<and> c \<le> 0x00007E)
   \<or> ((0x000A1 \<le> c \<and> c \<le> 0x00D7FF) \<and> c \<noteq> 0x2028 \<and> c \<noteq> 0x2029)
   \<or> ((0x0E000 \<le> c \<and> c \<le> 0x00FFFD) \<and> c \<noteq> 0xFEFF)
   \<or> (0x10000 \<le> c \<and> c \<le> 0x10FFFF)"

definition isPlainSafe :: "int \<Rightarrow> bool" where
  "isPlainSafe c \<longleftrightarrow>
     isPrintable c \<and> c \<noteq> 0xFEFF
   \<and> c \<noteq> CHAR_COMMA \<and> c \<noteq> CHAR_LEFT_SQUARE_BRACKET \<and> c \<noteq> CHAR_RIGHT_SQUARE_BRACKET
   \<and> c \<noteq> CHAR_LEFT_CURLY_BRACKET \<and> c \<noteq> CHAR_RIGHT_CURLY_BRACKET
   \<and> c \<noteq> CHAR_COLON \<and> c \<noteq> CHAR_SHARP"

definition isPlainSafeFirst :: "int \<Rightarrow> bool" where
  "isPlainSafeFirst c \<longleftrightarrow>
     isPrintable c \<and> c \<noteq> 0xFEFF \<and> \<not> isWhitespace c
   \<and> c \<noteq> CHAR_MINUS \<and> c \<noteq> CHAR_QUESTION \<and> c \<noteq> CHAR_COLON \<and> c \<noteq> CHAR_COMMA
   \<and> c \<noteq> CHAR_LEFT_SQUARE_BRACKET \<and> c \<noteq> CHAR_RIGHT_SQUARE_BRACKET
   \<and> c \<noteq> CHAR_LEFT_CURLY_BRACKET \<and> c \<noteq> CHAR_RIGHT_CURLY_BRACKET
   \<and> c \<noteq> CHAR_SHARP \<and> c \<noteq> CHAR_AMPERSAND \<and> c \<noteq> CHAR_ASTERISK \<and> c \<noteq> CHAR_EXCLAMATION
   \<and> c \<noteq> CHAR_VERTICAL_LINE \<and> c \<noteq> CHAR_GREATER_THAN \<and> c \<noteq> CHAR_SINGLE_QUOTE
   \<and> c \<noteq> CHAR_DOUBLE_QUOTE \<and> c \<noteq> CHAR_PERCENT \<and> c \<noteq> CHAR_COMMERCIAL_AT
   \<and> c \<noteq> CHAR_GRAVE_ACCENT"

section \<open>The style of a scalar\<close>

datatype style = STYLE_PLAIN | STYLE_SINGLE | STYLE_LITERAL | STYLE_FOLDED | STYLE_DOUBLE

text \<open>
  The scan where only one line is allowed: \<open>None\<close> is the early return of
  \<open>STYLE_DOUBLE\<close>, otherwise the new value of \<open>plain\<close>.
\<close>

fun scan_single :: "bool \<Rightarrow> jsstring \<Rightarrow> bool option" where
  "scan_single plain [] = Some plain"
| "scan_single plain (char # cs) =
     (if \<not> isPrintable char then None else scan_single (plain \<and> isPlainSafe char) cs)"

text \<open>
  \<open>i - previousLineBreak - 1 > lineWidth && string[previousLineBreak + 1] !== ' '\<close>: a line
  that is too long and not more indented.
\<close>

definition foldable_line :: "jsstring \<Rightarrow> int \<Rightarrow> int \<Rightarrow> int \<Rightarrow> bool" where
  "foldable_line string lineWidth i previousLineBreak \<longleftrightarrow>
     i - previousLineBreak - 1 > lineWidth \<and> at_char string (previousLineBreak + 1) \<noteq> Some CHAR_SPACE"

record scan_state =
  sc_plain :: bool
  sc_hasLineBreak :: bool
  sc_hasFoldableLine :: bool
  sc_previousLineBreak :: int

text \<open>The scan where block styles are permitted, from position \<open>i\<close> on.\<close>

fun scan_lines :: "jsstring \<Rightarrow> int \<Rightarrow> nat \<Rightarrow> jsstring \<Rightarrow> scan_state \<Rightarrow> scan_state option" where
  "scan_lines string lineWidth i [] sc = Some sc"
| "scan_lines string lineWidth i (char # cs) sc =
     (if char = CHAR_LINE_FEED then
        let sc1 = sc\<lparr>sc_hasLineBreak := True\<rparr>;
            sc2 = (if lineWidth \<noteq> - 1
                   then sc1\<lparr>sc_hasFoldableLine := sc_hasFoldableLine sc1
                              \<or> foldable_line string lineWidth (int i) (sc_previousLineBreak sc1),
                            sc_previousLineBreak := int i\<rparr>
                   else sc1)
        in scan_lines string lineWidth (Suc i) cs
             (sc2\<lparr>sc_plain := sc_plain sc2 \<and> isPlainSafe char\<rparr>)
      else if \<not> isPrintable char then None
      else scan_lines string lineWidth (Suc i) cs
             (sc\<lparr>sc_plain := sc_plain sc \<and> isPlainSafe char\<rparr>))"

definition plain_start :: "jsstring \<Rightarrow> bool" where
  "plain_start string \<longleftrightarrow>
     (case at_char string 0 of None \<Rightarrow> False | Some c \<Rightarrow> isPlainSafeFirst c)
   \<and> (case at_char string (int (length string) - 1) of None \<Rightarrow> True | Some c \<Rightarrow> \<not> isWhitespace c)"

text \<open>The decision after the scan.\<close>

definition style_of_scan :: "jsstring \<Rightarrow> int \<Rightarrow> (jsstring \<Rightarrow> bool yres) \<Rightarrow> bool \<Rightarrow> bool \<Rightarrow> bool \<Rightarrow> style yres" where
  "style_of_scan string indentPerLevel testAmbiguousType plain hasLineBreak hasFoldableLine =
     (if \<not> hasLineBreak \<and> \<not> hasFoldableLine then
        (if plain
         then bind_res (testAmbiguousType string)
                (\<lambda>ambiguous. Inr (if \<not> ambiguous then STYLE_PLAIN else STYLE_SINGLE))
         else Inr STYLE_SINGLE)
      else if at_char string 0 = Some CHAR_SPACE \<and> indentPerLevel > 9 then Inr STYLE_DOUBLE
      else Inr (if hasFoldableLine then STYLE_FOLDED else STYLE_LITERAL))"

definition chooseScalarStyle :: "jsstring \<Rightarrow> bool \<Rightarrow> int \<Rightarrow> int \<Rightarrow> (jsstring \<Rightarrow> bool yres) \<Rightarrow> style yres" where
  "chooseScalarStyle string singleLineOnly indentPerLevel lineWidth testAmbiguousType =
     (if singleLineOnly then
        (case scan_single (plain_start string) string of
           None \<Rightarrow> Inr STYLE_DOUBLE
         | Some plain \<Rightarrow> style_of_scan string indentPerLevel testAmbiguousType plain False False)
      else
        (case scan_lines string lineWidth 0 string
                \<lparr>sc_plain = plain_start string, sc_hasLineBreak = False, sc_hasFoldableLine = False,
                  sc_previousLineBreak = - 1\<rparr> of
           None \<Rightarrow> Inr STYLE_DOUBLE
         | Some sc \<Rightarrow>
             style_of_scan string indentPerLevel testAmbiguousType (sc_plain sc) (sc_hasLineBreak sc)
               (sc_hasFoldableLine sc
                \<or> lineWidth \<noteq> - 1
                  \<and> foldable_line string lineWidth (int (length string)) (sc_previousLineBreak sc))))"

section \<open>Escapes\<close>

text \<open>\<open>string.replace(/'/g, "''")\<close>\<close>

definition double_quotes :: "jsstring \<Rightarrow> jsstring" where
  "double_quotes string =
     concat (map (\<lambda>c. if c = CHAR_SINGLE_QUOTE then [CHAR_SINGLE_QUOTE, CHAR_SINGLE_QUOTE] else [c]) string)"

definition escape_char :: "int \<Rightarrow> jsstring yres" where
  "escape_char char =
     (case ESCAPE_SEQUENCES char of
        Some escapeSeq \<Rightarrow> Inr escapeSeq
      | None \<Rightarrow> if isPrintable char then Inr [char] else encodeHex char)"

fun escapeString :: "jsstring \<Rightarrow> jsstring yres" where
  "escapeString [] = Inr []"
| "escapeString (char # cs) =
     bind_res (escape_char char) (\<lambda>s. bind_res (escapeString cs) (\<lambda>t. Inr (s @ t)))"

section \<open>Block scalars\<close>

definition LF :: jsstring where [simp]: "LF = [CHAR_LINE_FEED]"

text \<open>Indents every line; a line that is only a line feed stays as it is.\<close>

function indentString :: "jsstring \<Rightarrow> int \<Rightarrow> jsstring" where
  "indentString string spaces =
     (if string = [] then []
      else
        let before_break = takeWhile (\<lambda>c. c \<noteq> CHAR_LINE_FEED) string;
            remaining = drop (length before_break) string;
            first = before_break @ take 1 remaining
        in (if first \<noteq> LF then repeat [CHAR_SPACE] spaces else []) @ first
           @ indentString (drop 1 remaining) spaces)"
  by pat_completeness auto
termination
  by (relation "measure (\<lambda>(string, spaces). length string)") (auto simp: Let_def neq_Nil_conv)

declare indentString.simps [simp del]

definition blockHeader :: "jsstring \<Rightarrow> int \<Rightarrow> jsstring" where
  "blockHeader string indentPerLevel =
     (let indentIndicator =
            (if at_char string 0 = Some CHAR_SPACE then decimal_str indentPerLevel else []);
          n = int (length string);
          clip = (at_char string (n - 1) = Some CHAR_LINE_FEED);
          keep = (clip \<and> (at_char string (n - 2) = Some CHAR_LINE_FEED \<or> string = LF));
          chomp = (if keep then jstr ''+'' else if clip then [] else jstr ''-'')
      in indentIndicator @ chomp @ LF)"

definition dropEndingNewline :: "jsstring \<Rightarrow> jsstring" where
  "dropEndingNewline string =
     (if at_char string (int (length string) - 1) = Some CHAR_LINE_FEED then butlast string else string)"

text \<open>
  Folding of one line. The matches of \<open>/ [^ ]/g\<close> are the spaces that no space follows;
  two matches cannot overlap.
\<close>

definition break_points :: "jsstring \<Rightarrow> nat list" where
  "break_points line =
     filter (\<lambda>i. line ! i = CHAR_SPACE \<and> line ! Suc i \<noteq> CHAR_SPACE) [0..<length line - 1]"

record fold_state =
  fo_start :: nat
  fo_curr :: nat
  fo_result :: jsstring

definition fold_step :: "jsstring \<Rightarrow> int \<Rightarrow> nat \<Rightarrow> fold_state \<Rightarrow> fold_state" where
  "fold_step line width nxt fo =
     (if int nxt - int (fo_start fo) > width then
        let until = (if fo_curr fo > fo_start fo then fo_curr fo else nxt) in
        \<lparr>fo_start = until + 1, fo_curr = nxt,
          fo_result = fo_result fo @ LF @ js_slice line (int (fo_start fo)) (int until)\<rparr>
      else fo\<lparr>fo_curr := nxt\<rparr>)"

definition foldLine :: "jsstring \<Rightarrow> int \<Rightarrow> jsstring" where
  "foldLine line width =
     (if line = [] \<or> at_char line 0 = Some CHAR_SPACE then line
      else
        let fo = fold (fold_step line width) (break_points line)
                   \<lparr>fo_start = 0, fo_curr = 0, fo_result = []\<rparr>;
            start = fo_start fo; curr = fo_curr fo;
            whole = fo_result fo @ LF @
              (if int (length line) - int start > width \<and> curr > start
               then js_slice line (int start) (int curr) @ LF @ drop (curr + 1) line
               else drop start line)
        in drop 1 whole)"

text \<open>
  Folding of a text: after the first line, each match of \<open>/(\n+)([^\n]*)/g\<close> is a run of
  line feeds with the line that follows it.
\<close>

function fold_rest :: "int \<Rightarrow> bool \<Rightarrow> jsstring \<Rightarrow> jsstring" where
  "fold_rest width prevMoreIndented string =
     (if string = [] \<or> hd string \<noteq> CHAR_LINE_FEED then []
      else
        let prefix = takeWhile (\<lambda>c. c = CHAR_LINE_FEED) string;
            remaining = dropWhile (\<lambda>c. c = CHAR_LINE_FEED) string;
            line = takeWhile (\<lambda>c. c \<noteq> CHAR_LINE_FEED) remaining;
            moreIndented = (at_char line 0 = Some CHAR_SPACE)
        in prefix
           @ (if \<not> prevMoreIndented \<and> \<not> moreIndented \<and> line \<noteq> [] then LF else [])
           @ foldLine line width
           @ fold_rest width moreIndented (dropWhile (\<lambda>c. c \<noteq> CHAR_LINE_FEED) remaining))"
  by pat_completeness auto
termination
proof (relation "measure (\<lambda>(width, prevMoreIndented, string). length string)", goal_cases)
  case (2 width p string prefix remaining line moreIndented)
  then obtain cs where "string = CHAR_LINE_FEED # cs" by (cases string) auto
  with 2 show ?case
    using length_dropWhile_le [of "\<lambda>c. c = CHAR_LINE_FEED" cs]
      length_dropWhile_le [of "\<lambda>c. c \<noteq> CHAR_LINE_FEED" "dropWhile (\<lambda>c. c = CHAR_LINE_FEED) cs"]
    by simp
qed simp

declare fold_rest.simps [simp del]

definition foldString :: "jsstring \<Rightarrow> int \<Rightarrow> jsstring" where
  "foldString string width =
     foldLine (takeWhile (\<lambda>c. c \<noteq> CHAR_LINE_FEED) string) width
     @ fold_rest width (at_char string 0 = Some CHAR_LINE_FEED \<or> at_char string 0 = Some CHAR_SPACE)
         (dropWhile (\<lambda>c. c \<noteq> CHAR_LINE_FEED) string)"

end
