(* ===== verification/YamlMark.thy ===== *)
theory YamlMark
  imports YamlText
begin

text \<open>
  Error messages: the mark of a position in a text with its snippet (\<open>js-yaml/mark.js\<close>,
  module 25) and the exception of the library (\<open>js-yaml/exception.js\<close>, module 23).
\<close>

section \<open>Marks and exceptions\<close>

definition snippet_break :: "jsstring \<Rightarrow> int \<Rightarrow> bool" where
  "snippet_break buffer i =
     (if 0 \<le> i \<and> i < int (length buffer)
      then buffer ! nat i \<in> {0x00, 0x0D, 0x0A, 0x85, 0x2028, 0x2029} else True)"

text \<open>The loops to the left and to the right; the result is the omission mark and the index.\<close>

fun snippet_start :: "jsstring \<Rightarrow> int \<Rightarrow> nat \<Rightarrow> nat \<Rightarrow> jsstring \<times> int" where
  "snippet_start buffer maxLength pos 0 = ([], 0)"
| "snippet_start buffer maxLength pos (Suc start) =
     (if snippet_break buffer (int start) then ([], int (Suc start))
      else if 2 * (int pos - int start) > maxLength - 2 then (jstr '' ... '', int start + 5)
      else snippet_start buffer maxLength pos start)"

function snippet_end :: "jsstring \<Rightarrow> int \<Rightarrow> nat \<Rightarrow> nat \<Rightarrow> jsstring \<times> int" where
  "snippet_end buffer maxLength pos e =
     (if e < length buffer \<and> \<not> snippet_break buffer (int e) then
        (if 2 * (int (Suc e) - int pos) > maxLength - 2 then (jstr '' ... '', int (Suc e) - 5)
         else snippet_end buffer maxLength pos (Suc e))
      else ([], int e))"
  by pat_completeness auto
termination by (relation "measure (\<lambda>(b, m, p, e). length b - e)") auto

declare snippet_end.simps [simp del]

text \<open>\<open>slice\<close> with indices that may be negative, counted from the end.\<close>

definition slice_signed :: "jsstring \<Rightarrow> int \<Rightarrow> int \<Rightarrow> jsstring" where
  "slice_signed s a b =
     (let n = int (length s); norm = (\<lambda>i. if i < 0 then max 0 (n + i) else min i n)
      in drop (nat (norm a)) (take (nat (norm b)) s))"

text \<open>\<open>indent || 4\<close>: a missing value or 0 is replaced.\<close>

definition or_default :: "int option \<Rightarrow> int \<Rightarrow> int" where
  "or_default x d = (case x of None \<Rightarrow> d | Some v \<Rightarrow> if v = 0 then d else v)"

definition getSnippet :: "mark \<Rightarrow> int option \<Rightarrow> int option \<Rightarrow> jsstring option" where
  "getSnippet m indent maxLength =
     (if mbuffer m = [] then None
      else
        let indent = or_default indent 4; maxLength = or_default maxLength 75;
            (head, start) = snippet_start (mbuffer m) maxLength (mposition m) (mposition m);
            (tail, e) = snippet_end (mbuffer m) maxLength (mposition m) (mposition m);
            snippet = slice_signed (mbuffer m) start e
        in Some (repeat [0x20] indent @ head @ snippet @ tail @ [0x0A] @
             repeat [0x20] (indent + int (mposition m) - start + int (length head)) @ [0x5E]))"

definition int_str :: "int \<Rightarrow> jsstring" where
  "int_str n = int_to_radix 10 n"

definition mark_toString :: "mark \<Rightarrow> bool \<Rightarrow> jsstring" where
  "mark_toString m is_compact =
     (let where' = (case mname m of
                      None \<Rightarrow> []
                    | Some n \<Rightarrow> if n = [] then [] else jstr ''in '' @ [0x22] @ n @ [0x22, 0x20]);
          where' = where' @ jstr ''at line '' @ int_str (int (mline m) + 1) @ jstr '', column '' @
                   int_str (mcolumn m + 1)
      in if is_compact then where'
         else case getSnippet m None None of
                None \<Rightarrow> where'
              | Some snippet \<Rightarrow> where' @ [0x3A, 0x0A] @ snippet)"

definition exception_message :: "jsstring \<Rightarrow> mark option \<Rightarrow> jsstring" where
  "exception_message reason m =
     (if reason = [] then jstr ''(unknown reason)'' else reason) @
     (case m of None \<Rightarrow> [] | Some mk \<Rightarrow> [0x20] @ mark_toString mk False)"

definition exception_toString :: "jsstring \<Rightarrow> mark option \<Rightarrow> bool \<Rightarrow> jsstring" where
  "exception_toString reason m is_compact =
     jstr ''YAMLException: '' @ (if reason = [] then jstr ''(unknown reason)'' else reason) @
     (case m of
        None \<Rightarrow> []
      | Some mk \<Rightarrow> if is_compact then [] else [0x20] @ mark_toString mk False)"

section \<open>What a snippet shows\<close>

definition dots :: jsstring where
  "dots = jstr '' ... ''"

lemma dots_facts [simp]: "length dots = 5" "\<not> snippet_break dots i \<or> i < 0 \<or> 5 \<le> i"
proof -
  show "\<not> snippet_break dots i \<or> i < 0 \<or> 5 \<le> i"
  proof -
    have "i = 0 \<or> i = 1 \<or> i = 2 \<or> i = 3 \<or> i = 4" if "0 \<le> i" "i < 5" using that by arith
    then show ?thesis by (auto simp: snippet_break_def dots_def)
  qed
qed (simp add: dots_def)

text \<open>A cut \<open>c\<close> with the distance of the mark to it, and the units in between.\<close>

definition near_cut :: "int \<Rightarrow> int \<Rightarrow> bool" where
  "near_cut maxLength d \<longleftrightarrow> 2 * d \<le> maxLength - 2"

lemma snippet_start_cases:
  assumes "snippet_start b m p s = (h, i)" "s \<le> p" "near_cut m (int p - int s)"
  shows "\<exists>t \<le> s. (\<forall>j. t \<le> j \<and> j < s \<longrightarrow> \<not> snippet_break b (int j)) \<and>
    (h = [] \<and> i = int t \<and> near_cut m (int p - int t) \<or>
     h = dots \<and> i = int t + 5 \<and> \<not> near_cut m (int p - int t) \<and> near_cut m (int p - int t - 1))"
  using assms
proof (induction b m p s rule: snippet_start.induct)
  case (2 b m p s)
  show ?case
  proof (cases "snippet_break b (int s)")
    case True
    with 2 show ?thesis by auto
  next
    case False
    note unbroken = this
    show ?thesis
    proof (cases "near_cut m (int p - int s)")
      case True
      with 2 unbroken obtain t where "t \<le> s" "\<forall>j. t \<le> j \<and> j < s \<longrightarrow> \<not> snippet_break b (int j)"
        and "h = [] \<and> i = int t \<and> near_cut m (int p - int t) \<or>
          h = dots \<and> i = int t + 5 \<and> \<not> near_cut m (int p - int t) \<and> near_cut m (int p - int t - 1)"
        by (auto simp: near_cut_def)
      with unbroken show ?thesis by (intro exI [of _ t]) (auto simp: less_Suc_eq)
    next
      case False
      with 2 unbroken have "h = dots" "i = int s + 5" by (auto simp: near_cut_def dots_def)
      with False unbroken 2(4) show ?thesis
        by (intro exI [of _ s]) (auto simp: less_Suc_eq near_cut_def)
    qed
  qed
qed (auto intro: exI [of _ 0])

lemma snippet_end_cases:
  assumes "snippet_end b m p e = (h, i)" "p \<le> e" "e \<le> length b" "near_cut m (int e - int p)"
  shows "\<exists>t \<ge> e. t \<le> length b \<and> (\<forall>j. e \<le> j \<and> j < t \<longrightarrow> \<not> snippet_break b (int j)) \<and>
    (h = [] \<and> i = int t \<and> (t < length b \<longrightarrow> snippet_break b (int t)) \<and> near_cut m (int t - int p) \<or>
     h = dots \<and> i = int t - 5 \<and> \<not> near_cut m (int t - int p) \<and> near_cut m (int t - int p - 1))"
  using assms
proof (induction b m p e rule: snippet_end.induct)
  case (1 b m p e)
  show ?case
  proof (cases "e < length b \<and> \<not> snippet_break b (int e)")
    case True
    note unbroken = this
    show ?thesis
    proof (cases "near_cut m (int (Suc e) - int p)")
      case True
      with 1 unbroken obtain t where "Suc e \<le> t" "t \<le> length b"
        "\<forall>j. Suc e \<le> j \<and> j < t \<longrightarrow> \<not> snippet_break b (int j)"
        and "h = [] \<and> i = int t \<and> (t < length b \<longrightarrow> snippet_break b (int t)) \<and> near_cut m (int t - int p) \<or>
          h = dots \<and> i = int t - 5 \<and> \<not> near_cut m (int t - int p) \<and> near_cut m (int t - int p - 1)"
        by (auto simp: near_cut_def snippet_end.simps [of b m p e])
      moreover from this(3) unbroken have "\<forall>j. e \<le> j \<and> j < t \<longrightarrow> \<not> snippet_break b (int j)"
        by (metis Suc_leI le_neq_implies_less)
      ultimately show ?thesis by (intro exI [of _ t]) auto
    next
      case False
      with 1 unbroken have "h = dots" "i = int (Suc e) - 5"
        by (auto simp: near_cut_def dots_def snippet_end.simps [of b m p e])
      with False unbroken 1(5) show ?thesis
        by (intro exI [of _ "Suc e"]) (auto simp: less_Suc_eq near_cut_def)
    qed
  next
    case False
    with 1 show ?thesis by (auto simp: snippet_end.simps [of b m p e] intro!: exI [of _ e])
  qed
qed

definition break_free :: "jsstring \<Rightarrow> bool" where
  "break_free s \<longleftrightarrow> (\<forall>i < length s. \<not> snippet_break s (int i))"

lemma break_free_simps [simp]:
  "break_free []" "break_free (s @ t) \<longleftrightarrow> break_free s \<and> break_free t" "break_free dots"
  "break_free (replicate n 0x20)"
proof -
  have set_form: "break_free s \<longleftrightarrow> (\<forall>c \<in> set s. c \<notin> {0x00, 0x0D, 0x0A, 0x85, 0x2028, 0x2029})" for s
    by (auto simp: break_free_def snippet_break_def set_conv_nth)
  show "break_free []" "break_free (s @ t) \<longleftrightarrow> break_free s \<and> break_free t" "break_free dots"
    "break_free (replicate n 0x20)"
    by (auto simp: set_form dots_def)
qed

lemma break_free_slice:
  assumes "\<forall>j. a \<le> j \<and> j < e \<longrightarrow> \<not> snippet_break b (int j)" "e \<le> length b"
  shows "break_free (drop a (take e b))"
  using assms by (auto simp: break_free_def snippet_break_def min_def)

text \<open>
  C35: The snippet of a mark consists of two lines. The first is no longer than the indentation
  and the maximal length together and has no line break in it; the second has blanks up to a
  caret. If the mark is at a character of the text that is not a line break, this character is
  the one above the caret.
\<close>

theorem getSnippet_caret:
  assumes "mposition m \<le> length (mbuffer m)" "mbuffer m \<noteq> []" "0 < indent" "12 \<le> maxLength"
  shows "\<exists>first k. getSnippet m (Some indent) (Some maxLength) =
      Some (first @ [0x0A] @ replicate k 0x20 @ [0x5E]) \<and>
    break_free first \<and> int (length first) \<le> indent + maxLength \<and>
    (mposition m < length (mbuffer m) \<and> \<not> snippet_break (mbuffer m) (int (mposition m)) \<longrightarrow>
       k < length first \<and> first ! k = mbuffer m ! mposition m)"
proof -
  let ?b = "mbuffer m" and ?p = "mposition m"
  obtain h i where hi: "snippet_start ?b maxLength ?p ?p = (h, i)" by fastforce
  obtain t e where te: "snippet_end ?b maxLength ?p ?p = (t, e)" by fastforce
  have near0: "near_cut maxLength 0" using assms by (simp add: near_cut_def)
  obtain a where a: "a \<le> ?p" "\<forall>j. a \<le> j \<and> j < ?p \<longrightarrow> \<not> snippet_break ?b (int j)"
    and a': "h = [] \<and> i = int a \<and> near_cut maxLength (int ?p - int a) \<or>
       h = dots \<and> i = int a + 5 \<and> \<not> near_cut maxLength (int ?p - int a) \<and> near_cut maxLength (int ?p - int a - 1)"
    using snippet_start_cases [OF hi] near0 by auto
  obtain z where z: "?p \<le> z" "z \<le> length ?b" "\<forall>j. ?p \<le> j \<and> j < z \<longrightarrow> \<not> snippet_break ?b (int j)"
    and z': "t = [] \<and> e = int z \<and> (z < length ?b \<longrightarrow> snippet_break ?b (int z)) \<and> near_cut maxLength (int z - int ?p) \<or>
       t = dots \<and> e = int z - 5 \<and> \<not> near_cut maxLength (int z - int ?p) \<and> near_cut maxLength (int z - int ?p - 1)"
    using snippet_end_cases [OF te] near0 assms(1) by auto
  define i' e' where "i' = nat i" and "e' = nat e"
  have bounds: "i = int i'" "e = int e'" "a \<le> i'" "i' \<le> ?p" "?p \<le> e'" "e' \<le> z"
    and above: "e' = ?p \<Longrightarrow> z = ?p \<and> t = []"
    using a a' z z' assms(4) by (auto simp: near_cut_def i'_def e'_def)
  have total: "int (length h) + (int e' - int i') + int (length t) \<le> maxLength"
    using a' z' bounds unfolding near_cut_def by auto
  let ?slice = "drop i' (take e' ?b)"
  have slice: "slice_signed ?b i e = ?slice"
    using bounds z by (simp add: slice_signed_def min_def)
  have unbroken: "\<not> snippet_break ?b (int j)" if "i' \<le> j" "j < e'" for j
    using that a(2) z(3) bounds by (cases "j < ?p") auto
  then have free: "break_free ?slice" using bounds z by (intro break_free_slice) auto
  have ht: "h = [] \<or> h = dots" "t = [] \<or> t = dots" using a' z' by auto
  let ?first = "replicate (nat indent) 0x20 @ h @ ?slice @ t"
  let ?k = "nat indent + length h + (?p - i')"
  have k: "nat (indent + int ?p - i + int (length h)) = ?k" using bounds assms(3) by simp
  have "getSnippet m (Some indent) (Some maxLength) =
      Some (?first @ [0x0A] @ replicate ?k 0x20 @ [0x5E])"
    using assms k by (simp add: getSnippet_def or_default_def hi te slice repeat_char)
  moreover have "break_free ?first" using free ht by auto
  moreover have "int (length ?first) \<le> indent + maxLength"
    using total bounds z assms(3) by simp
  moreover have "?k < length ?first \<and> ?first ! ?k = ?b ! ?p"
    if inside: "?p < length ?b" "\<not> snippet_break ?b (int ?p)"
  proof -
    have "?p < e'" using above bounds z' inside by (cases "e' = ?p") auto
    moreover obtain x where "?p = i' + x" using bounds(4) le_Suc_ex by blast
    ultimately show ?thesis using bounds(6) z(2) by (auto simp: nth_append)
  qed
  ultimately show ?thesis by blast
qed

theorem getSnippet_caret_witness:
  "let m = \<lparr>mname = None, mbuffer = jstr ''key: [a'' @ [0x0A], mposition = 5, mline = 0, mcolumn = 5\<rparr>
   in \<exists>first k. getSnippet m (Some 4) (Some 75) = Some (first @ [0x0A] @ replicate k 0x20 @ [0x5E]) \<and>
      break_free first \<and> k < length first \<and> first ! k = 0x5B"
  unfolding Let_def
  using getSnippet_caret [of "\<lparr>mname = None, mbuffer = jstr ''key: [a'' @ [0x0A], mposition = 5, mline = 0, mcolumn = 5\<rparr>" 4 75]
  by (fastforce simp: snippet_break_def)

end
