(* ===== verification/YamlState.thy ===== *)
theory YamlState
  imports YamlMark YamlSchemas
begin

text \<open>
  The state of the loader (module 24), and the operations on the input that all readers share.

  The state is passed explicitly. Positions are indices into the input, to which
  \<open>loadDocuments\<close> has appended the character 0 as a terminator. A loop that tests for this
  terminator would run on for ever past the end of the input, where \<open>charCodeAt\<close> is
  \<open>NaN\<close>; such a loop has the result \<open>Diverges\<close>. A callback \<open>onWarning\<close> or
  \<open>listener\<close> is modelled by the log of its calls; a call that throws loses the log.
\<close>

section \<open>The state of the loader\<close>

datatype loader_event = Opened | Closed | Warned jsstring mark

record lstate =
  input :: jsstring
  filename :: "jsstring option"
  onWarning :: bool
  legacy :: bool
  json :: bool
  listener :: bool
  implicitTypes :: "ytype list"
  typeMap :: "(jsstring \<times> ytype) list"
  input_length :: nat
  position :: nat
  line :: nat
  lineStart :: nat
  lineIndent :: int
  documents :: "jsval list"
  version :: "jsstring option"
  checkLineBreaks :: bool
  tagMap :: "(jsstring \<times> jsstring) list"
  anchorMap :: "(jsstring \<times> jsval) list"
  tag :: "jsstring option"
  anchor :: "jsstring option"
  kind :: "ykind option"
  result :: jsval
  heap_of :: heap
  events :: "loader_event list"

text \<open>
  The options; \<open>None\<close> stands for a missing option, \<open>Some None\<close> for a schema that
  is present but \<open>undefined\<close> or \<open>null\<close>.
\<close>

record load_options =
  opt_filename :: "jsstring option"
  opt_schema :: "schema option option"
  opt_onWarning :: bool
  opt_legacy :: bool
  opt_json :: bool
  opt_listener :: bool

definition new_state :: "jsstring \<Rightarrow> load_options \<Rightarrow> heap \<Rightarrow> lstate" where
  "new_state inp options h =
     (let the_schema = (case opt_schema options of Some (Some s) \<Rightarrow> s | _ \<Rightarrow> default_full_schema) in
      \<lparr>input = inp, filename = (if opt_filename options = Some [] then None else opt_filename options),
       onWarning = opt_onWarning options,
      legacy = opt_legacy options, json = opt_json options, listener = opt_listener options,
      implicitTypes = compiledImplicit the_schema, typeMap = compiledTypeMap the_schema,
      input_length = length inp, position = 0, line = 0, lineStart = 0, lineIndent = 0,
      documents = [], version = None, checkLineBreaks = False, tagMap = [], anchorMap = [],
      tag = None, anchor = None, kind = None, result = Undef, heap_of = h, events = []\<rparr>)"

text \<open>The character at the position, and at an offset from it.\<close>

definition ch_at :: "lstate \<Rightarrow> int option" where
  "ch_at st = charCodeAt (input st) (position st)"

definition ch_ahead :: "lstate \<Rightarrow> nat \<Rightarrow> int option" where
  "ch_ahead st n = charCodeAt (input st) (position st + n)"

definition ch_before :: "lstate \<Rightarrow> int option" where
  "ch_before st = (if position st = 0 then None else charCodeAt (input st) (position st - 1))"

definition advance :: "nat \<Rightarrow> lstate \<Rightarrow> lstate" where
  "advance n st = st\<lparr>position := position st + n\<rparr>"

text \<open>\<open>state.input.slice(a, b)\<close>\<close>

definition input_slice :: "lstate \<Rightarrow> nat \<Rightarrow> nat \<Rightarrow> jsstring" where
  "input_slice st a b = drop a (take b (input st))"

definition state_mark :: "lstate \<Rightarrow> mark" where
  "state_mark st =
     \<lparr>mname = filename st, mbuffer = input st, mposition = position st, mline = line st,
      mcolumn = int (position st) - int (lineStart st)\<rparr>"

definition throwError :: "lstate \<Rightarrow> jsstring \<Rightarrow> 'a yres" where
  "throwError st message = Inl (YAMLException message (Some (state_mark st)))"

definition throwWarning :: "lstate \<Rightarrow> jsstring \<Rightarrow> lstate" where
  "throwWarning st message =
     (if onWarning st then st\<lparr>events := events st @ [Warned message (state_mark st)]\<rparr> else st)"

section \<open>Character classes\<close>

definition is_EOL :: "int option \<Rightarrow> bool" where
  "is_EOL c \<longleftrightarrow> c = Some 0x0A \<or> c = Some 0x0D"

definition is_WHITE_SPACE :: "int option \<Rightarrow> bool" where
  "is_WHITE_SPACE c \<longleftrightarrow> c = Some 0x09 \<or> c = Some 0x20"

definition is_WS_OR_EOL :: "int option \<Rightarrow> bool" where
  "is_WS_OR_EOL c \<longleftrightarrow> c = Some 0x09 \<or> c = Some 0x20 \<or> c = Some 0x0A \<or> c = Some 0x0D"

definition is_FLOW_INDICATOR :: "int option \<Rightarrow> bool" where
  "is_FLOW_INDICATOR c \<longleftrightarrow>
     c = Some 0x2C \<or> c = Some 0x5B \<or> c = Some 0x5D \<or> c = Some 0x7B \<or> c = Some 0x7D"

definition fromHexCode :: "int option \<Rightarrow> int" where
  "fromHexCode c =
     (case c of
        Some c' \<Rightarrow>
          if 0x30 \<le> c' \<and> c' \<le> 0x39 then c' - 0x30
          else (let lc = js_or c' 0x20 in if 0x61 \<le> lc \<and> lc \<le> 0x66 then lc - 0x61 + 10 else - 1)
      | None \<Rightarrow> - 1)"

definition escapedHexLen :: "int option \<Rightarrow> nat" where
  "escapedHexLen c =
     (if c = Some 0x78 then 2 else if c = Some 0x75 then 4 else if c = Some 0x55 then 8 else 0)"

definition fromDecimalCode :: "int option \<Rightarrow> int" where
  "fromDecimalCode c =
     (case c of Some c' \<Rightarrow> if 0x30 \<le> c' \<and> c' \<le> 0x39 then c' - 0x30 else - 1 | None \<Rightarrow> - 1)"

definition simpleEscapeSequence :: "int \<Rightarrow> jsstring" where
  "simpleEscapeSequence c =
     (if c = 0x30 then [0x00] else if c = 0x61 then [0x07] else if c = 0x62 then [0x08]
      else if c = 0x74 then [0x09] else if c = 0x09 then [0x09] else if c = 0x6E then [0x0A]
      else if c = 0x76 then [0x0B] else if c = 0x66 then [0x0C] else if c = 0x72 then [0x0D]
      else if c = 0x65 then [0x1B] else if c = 0x20 then [0x20] else if c = 0x22 then [0x22]
      else if c = 0x2F then [0x2F] else if c = 0x5C then [0x5C] else if c = 0x4E then [0x85]
      else if c = 0x5F then [0xA0] else if c = 0x4C then [0x2028] else if c = 0x50 then [0x2029]
      else [])"

text \<open>The tables \<open>simpleEscapeCheck\<close> and \<open>simpleEscapeMap\<close>, for codes below 256.\<close>

definition simple_escape :: "int option \<Rightarrow> jsstring" where
  "simple_escape c = (case c of Some c' \<Rightarrow> if c' < 256 then simpleEscapeSequence c' else [] | None \<Rightarrow> [])"

text \<open>\<open>String.fromCharCode\<close> takes its arguments modulo \<open>2 ^ 16\<close>.\<close>

definition charFromCodepoint :: "int \<Rightarrow> jsstring" where
  "charFromCodepoint c =
     (if c \<le> 0xFFFF then [c mod 2 ^ 16]
      else [(js_shr (c - 0x010000) 10 + 0xD800) mod 2 ^ 16,
            (js_and (c - 0x010000) 0x03FF + 0xDC00) mod 2 ^ 16])"

definition high_surrogate :: "int \<Rightarrow> bool" where
  "high_surrogate c \<longleftrightarrow> 0xD800 \<le> c \<and> c \<le> 0xDBFF"

definition low_surrogate :: "int \<Rightarrow> bool" where
  "low_surrogate c \<longleftrightarrow> 0xDC00 \<le> c \<and> c \<le> 0xDFFF"

definition non_printable_unit :: "int \<Rightarrow> bool" where
  "non_printable_unit c \<longleftrightarrow>
     (0x00 \<le> c \<and> c \<le> 0x08) \<or> c = 0x0B \<or> c = 0x0C \<or> (0x0E \<le> c \<and> c \<le> 0x1F) \<or>
     (0x7F \<le> c \<and> c \<le> 0x84) \<or> (0x86 \<le> c \<and> c \<le> 0x9F) \<or> c = 0xFFFE \<or> c = 0xFFFF"

text \<open>
  \<open>PATTERN_NON_PRINTABLE.test(s)\<close>: a unit of the class, or a surrogate without its partner;
  the first argument is the unit before.
\<close>

fun non_printable :: "int option \<Rightarrow> jsstring \<Rightarrow> bool" where
  "non_printable prev [] = False"
| "non_printable prev (c # s) =
     (non_printable_unit c \<or>
      (high_surrogate c \<and> (case s of d # t \<Rightarrow> \<not> low_surrogate d | [] \<Rightarrow> True)) \<or>
      (low_surrogate c \<and> (case prev of Some p \<Rightarrow> \<not> high_surrogate p | None \<Rightarrow> True)) \<or>
      non_printable (Some c) s)"

definition non_ascii_line_breaks :: "jsstring \<Rightarrow> bool" where
  "non_ascii_line_breaks s \<longleftrightarrow> (\<exists>c \<in> set s. c = 0x85 \<or> c = 0x2028 \<or> c = 0x2029)"

definition flow_indicators :: "jsstring \<Rightarrow> bool" where
  "flow_indicators s \<longleftrightarrow> (\<exists>c \<in> set s. is_FLOW_INDICATOR (Some c))"

definition ascii_letter :: "int \<Rightarrow> bool" where
  "ascii_letter c \<longleftrightarrow> (0x61 \<le> c \<and> c \<le> 0x7A) \<or> (0x41 \<le> c \<and> c \<le> 0x5A)"

definition tag_handle_pattern :: regex where
  "tag_handle_pattern =
     foldr Alt [chr 0x21, lit ''!!'',
       seqs [chr 0x21, re_plus (Cls (\<lambda>c. ascii_letter c \<or> c = 0x2D)), chr 0x21]] Empty"

definition tag_uri_char :: "int \<Rightarrow> bool" where
  "tag_uri_char c \<longleftrightarrow> dec_digit c \<or> ascii_letter c \<or> c \<in> set (jstr ''-#;/?:@&=+$,_.!~*()[]'') \<or> c = 0x27"

definition tag_uri_pattern :: regex where
  "tag_uri_pattern =
     (let hex = Cls (\<lambda>c. dec_digit c \<or> (0x61 \<le> c \<and> c \<le> 0x66) \<or> (0x41 \<le> c \<and> c \<le> 0x46)) in
      Seq (Alt (chr 0x21) (Cls (\<lambda>c. \<not> is_FLOW_INDICATOR (Some c))))
          (Star (Alt (seqs [chr 0x25, hex, hex]) (Cls tag_uri_char))))"

section \<open>Moving through the input\<close>

text \<open>
  The rest of the input, and the loops that move the position: \<open>skip_while\<close> stops at
  \<open>NaN\<close>, \<open>skip_until\<close> goes on.
\<close>

definition rest :: "lstate \<Rightarrow> jsstring" where
  "rest st = drop (position st) (input st)"

definition skip_while :: "(int \<Rightarrow> bool) \<Rightarrow> lstate \<Rightarrow> lstate" where
  "skip_while p st = advance (length (takeWhile p (rest st))) st"

definition skip_until :: "(int \<Rightarrow> bool) \<Rightarrow> lstate \<Rightarrow> lstate yres" where
  "skip_until p st =
     (let n = length (takeWhile (\<lambda>c. \<not> p c) (rest st))
      in if position st + n < length (input st) then Inr (advance n st) else Inl Diverges)"

definition append_result :: "jsstring \<Rightarrow> lstate \<Rightarrow> lstate" where
  "append_result s st = st\<lparr>result := (case result st of Str r \<Rightarrow> Str (r @ s) | v \<Rightarrow> Str s)\<rparr>"

definition json_char :: "int \<Rightarrow> bool" where
  "json_char c \<longleftrightarrow> c = 0x09 \<or> (0x20 \<le> c \<and> c \<le> 0x10FFFF)"

definition captureSegment :: "lstate \<Rightarrow> nat \<Rightarrow> nat \<Rightarrow> bool \<Rightarrow> lstate yres" where
  "captureSegment st start e checkJson =
     (if start < e then
        (let res = input_slice st start e in
         if checkJson \<and> \<not> list_all json_char res then throwError st (jstr ''expected valid JSON character'')
         else if \<not> checkJson \<and> non_printable None res
           then throwError st (jstr ''the stream contains non-printable characters'')
         else Inr (append_result res st))
      else Inr st)"

definition readLineBreak :: "lstate \<Rightarrow> lstate yres" where
  "readLineBreak st =
     (let newline = (\<lambda>s. s\<lparr>line := line s + 1, lineStart := position s\<rparr>) in
      if ch_at st = Some 0x0A then Inr (newline (advance 1 st))
      else if ch_at st = Some 0x0D then
        (let st1 = advance 1 st
         in Inr (newline (if ch_at st1 = Some 0x0A then advance 1 st1 else st1)))
      else throwError st (jstr ''a line break is expected''))"

text \<open>
  \<open>skipSeparationSpace\<close> takes at most one round for every character left; each round ends
  in a line break or is the last.
\<close>

fun separation_loop :: "nat \<Rightarrow> bool \<Rightarrow> nat \<Rightarrow> lstate \<Rightarrow> (nat \<times> lstate) yres" where
  "separation_loop 0 allowComments lineBreaks st = Inl Diverges"
| "separation_loop (Suc fuel) allowComments lineBreaks st =
     (if ch_at st = Some 0 then Inr (lineBreaks, st)
      else
        let st1 = skip_while (\<lambda>c. is_WHITE_SPACE (Some c)) st in
        bind_res (if allowComments \<and> ch_at st1 = Some 0x23
                  then skip_until (\<lambda>c. c = 0x0A \<or> c = 0x0D \<or> c = 0) (advance 1 st1)
                  else Inr st1) (\<lambda>st2.
          if is_EOL (ch_at st2) then
            bind_res (readLineBreak st2) (\<lambda>st3.
              let n = length (takeWhile (\<lambda>c. c = 0x20) (rest st3)) in
              separation_loop fuel allowComments (lineBreaks + 1)
                (advance n (st3\<lparr>lineIndent := int n\<rparr>)))
          else Inr (lineBreaks, st2)))"

definition skipSeparationSpace :: "lstate \<Rightarrow> bool \<Rightarrow> int \<Rightarrow> (nat \<times> lstate) yres" where
  "skipSeparationSpace st allowComments checkIndent =
     bind_res (separation_loop (length (rest st) + 1) allowComments 0 st) (\<lambda>(lineBreaks, st1).
       Inr (lineBreaks,
            if checkIndent \<noteq> - 1 \<and> lineBreaks \<noteq> 0 \<and> lineIndent st1 < checkIndent
            then throwWarning st1 (jstr ''deficient indentation'') else st1))"

definition testDocumentSeparator :: "lstate \<Rightarrow> bool" where
  "testDocumentSeparator st =
     (let c = ch_at st in
      (c = Some 0x2D \<or> c = Some 0x2E) \<and> c = ch_ahead st 1 \<and> c = ch_ahead st 2 \<and>
      (ch_ahead st 3 = Some 0 \<or> is_WS_OR_EOL (ch_ahead st 3)))"

definition writeFoldedLines :: "lstate \<Rightarrow> int \<Rightarrow> lstate" where
  "writeFoldedLines st count =
     (if count = 1 then append_result [0x20] st
      else if count > 1 then append_result (repeat [0x0A] (count - 1)) st else st)"

end
