(* ===== verification/YamlScalars.thy ===== *)
theory YamlScalars
  imports YamlState
begin

text \<open>
  The readers of scalars (module 24): plain, single quoted, double quoted and block scalars.
  A reader returns whether it has found its kind of node; its loop takes the length of the
  remaining input, plus one, as fuel, because every round but the last moves the position.
\<close>

definition loop_fuel :: "lstate \<Rightarrow> nat" where
  "loop_fuel st = length (rest st) + 1"

section \<open>Plain scalars\<close>

text \<open>
  \<open>captureStart\<close> and \<open>captureEnd\<close> delimit the segment that has been read but not copied.
  \<open>pending\<close> is \<open>Some _line\<close> while \<open>hasPendingContent\<close> is true.
\<close>

definition plain_stop :: "bool \<Rightarrow> int option \<Rightarrow> bool" where
  "plain_stop inFlow following \<longleftrightarrow> is_WS_OR_EOL following \<or> inFlow \<and> is_FLOW_INDICATOR following"

definition plain_flush :: "nat option \<Rightarrow> nat \<Rightarrow> nat \<Rightarrow> lstate \<Rightarrow> (nat \<times> nat \<times> lstate) yres" where
  "plain_flush pending cs ce st =
     (case pending of
        None \<Rightarrow> Inr (cs, ce, st)
      | Some l \<Rightarrow>
          bind_res (captureSegment st cs ce False) (\<lambda>st1.
            let st2 = writeFoldedLines st1 (int (line st1) - int l)
            in Inr (position st2, position st2, st2)))"

fun plain_loop ::
  "nat \<Rightarrow> int \<Rightarrow> bool \<Rightarrow> nat \<Rightarrow> nat \<Rightarrow> nat option \<Rightarrow> lstate \<Rightarrow> (nat \<times> nat \<times> lstate) yres" where
  "plain_loop 0 nodeIndent inFlow cs ce pending st = Inl Diverges"
| "plain_loop (Suc n) nodeIndent inFlow cs ce pending st =
     (let ch = ch_at st;
          next_char = (\<lambda>_::unit. bind_res (plain_flush pending cs ce st) (\<lambda>(cs1, ce1, st1).
            plain_loop n nodeIndent inFlow cs1
              (if is_WHITE_SPACE ch then ce1 else position st1 + 1) None (advance 1 st1)))
      in if ch = Some 0 then Inr (cs, ce, st)
         else if ch = Some 0x3A then
           (if plain_stop inFlow (ch_ahead st 1) then Inr (cs, ce, st) else next_char ())
         else if ch = Some 0x23 then
           (if is_WS_OR_EOL (ch_before st) then Inr (cs, ce, st) else next_char ())
         else if position st = lineStart st \<and> testDocumentSeparator st \<or> inFlow \<and> is_FLOW_INDICATOR ch
           then Inr (cs, ce, st)
         else if is_EOL ch then
           bind_res (skipSeparationSpace st False (- 1)) (\<lambda>(_, st1).
             if lineIndent st1 \<ge> nodeIndent
             then plain_loop n nodeIndent inFlow cs ce (Some (line st)) st1
             else Inr (cs, ce, st1\<lparr>position := ce, line := line st, lineStart := lineStart st,
                                   lineIndent := lineIndent st\<rparr>))
         else next_char ())"

definition plain_excluded :: "int option \<Rightarrow> bool" where
  "plain_excluded ch \<longleftrightarrow>
     is_WS_OR_EOL ch \<or> is_FLOW_INDICATOR ch \<or>
     ch \<in> Some ` {0x23, 0x26, 0x2A, 0x21, 0x7C, 0x3E, 0x27, 0x22, 0x25, 0x40, 0x60}"

definition readPlainScalar :: "lstate \<Rightarrow> int \<Rightarrow> bool \<Rightarrow> (bool \<times> lstate) yres" where
  "readPlainScalar st nodeIndent withinFlowCollection =
     (let ch = ch_at st in
      if plain_excluded ch \<or>
         (ch = Some 0x3F \<or> ch = Some 0x2D) \<and> plain_stop withinFlowCollection (ch_ahead st 1)
      then Inr (False, st)
      else
        bind_res (plain_loop (loop_fuel st) nodeIndent withinFlowCollection (position st) (position st)
                    None (st\<lparr>kind := Some Scalar, result := Str []\<rparr>)) (\<lambda>(cs, ce, st1).
        bind_res (captureSegment st1 cs ce False) (\<lambda>st2.
          if result st2 \<noteq> Str [] then Inr (True, st2)
          else Inr (False, st2\<lparr>kind := kind st, result := result st\<rparr>))))"

section \<open>Quoted scalars\<close>

text \<open>
  The branches that both kinds of quotes share: a line break, the end of the document, any
  other character.
\<close>

definition quoted_fold :: "lstate \<Rightarrow> int \<Rightarrow> nat \<Rightarrow> nat \<Rightarrow> lstate yres" where
  "quoted_fold st nodeIndent cs ce =
     bind_res (captureSegment st cs ce True) (\<lambda>st1.
     bind_res (skipSeparationSpace st1 False nodeIndent) (\<lambda>(breaks, st2).
       Inr (writeFoldedLines st2 (int breaks))))"

fun single_loop :: "nat \<Rightarrow> int \<Rightarrow> nat \<Rightarrow> nat \<Rightarrow> lstate \<Rightarrow> lstate yres" where
  "single_loop 0 nodeIndent cs ce st = Inl Diverges"
| "single_loop (Suc n) nodeIndent cs ce st =
     (let ch = ch_at st in
      if ch = Some 0 then
        throwError st (jstr ''unexpected end of the stream within a single quoted scalar'')
      else if ch = Some 0x27 then
        bind_res (captureSegment st cs (position st) True) (\<lambda>st1.
          let st2 = advance 1 st1 in
          if ch_at st2 = Some 0x27
          then single_loop n nodeIndent (position st2) (position st2) (advance 1 st2)
          else Inr st2)
      else if is_EOL ch then
        bind_res (quoted_fold st nodeIndent cs ce) (\<lambda>st1.
          single_loop n nodeIndent (position st1) (position st1) st1)
      else if position st = lineStart st \<and> testDocumentSeparator st then
        throwError st (jstr ''unexpected end of the document within a single quoted scalar'')
      else single_loop n nodeIndent cs (position st + 1) (advance 1 st))"

definition start_quoted :: "lstate \<Rightarrow> lstate" where
  "start_quoted st = advance 1 (st\<lparr>kind := Some Scalar, result := Str []\<rparr>)"

definition readSingleQuotedScalar :: "lstate \<Rightarrow> int \<Rightarrow> (bool \<times> lstate) yres" where
  "readSingleQuotedScalar st nodeIndent =
     (if ch_at st \<noteq> Some 0x27 then Inr (False, st)
      else let st1 = start_quoted st in
        bind_res (single_loop (loop_fuel st1) nodeIndent (position st1) (position st1) st1)
          (\<lambda>st2. Inr (True, st2)))"

text \<open>The digits of \<open>\x\<close>, \<open>\u\<close> and \<open>\U\<close>, added up with a shift of 32-bit integers.\<close>

fun hex_escape :: "nat \<Rightarrow> int \<Rightarrow> lstate \<Rightarrow> (int \<times> lstate) yres" where
  "hex_escape 0 hexResult st = Inr (hexResult, st)"
| "hex_escape (Suc hexLength) hexResult st =
     (let st1 = advance 1 st; tmp = fromHexCode (ch_at st1) in
      if tmp \<ge> 0 then hex_escape hexLength (js_shl hexResult 4 + tmp) st1
      else throwError st1 (jstr ''expected hexadecimal character''))"

text \<open>The part after a backslash; the position is the character after it.\<close>

definition read_escape :: "lstate \<Rightarrow> int \<Rightarrow> lstate yres" where
  "read_escape st nodeIndent =
     (let ch = ch_at st in
      if is_EOL ch then
        bind_res (skipSeparationSpace st False nodeIndent) (\<lambda>(_, st1). Inr st1)
      else if simple_escape ch \<noteq> [] then Inr (advance 1 (append_result (simple_escape ch) st))
      else if escapedHexLen ch > 0 then
        bind_res (hex_escape (escapedHexLen ch) 0 st) (\<lambda>(hexResult, st1).
          Inr (advance 1 (append_result (charFromCodepoint hexResult) st1)))
      else throwError st (jstr ''unknown escape sequence''))"

fun double_loop :: "nat \<Rightarrow> int \<Rightarrow> nat \<Rightarrow> nat \<Rightarrow> lstate \<Rightarrow> lstate yres" where
  "double_loop 0 nodeIndent cs ce st = Inl Diverges"
| "double_loop (Suc n) nodeIndent cs ce st =
     (let ch = ch_at st in
      if ch = Some 0 then
        throwError st (jstr ''unexpected end of the stream within a double quoted scalar'')
      else if ch = Some 0x22 then
        bind_res (captureSegment st cs (position st) True) (\<lambda>st1. Inr (advance 1 st1))
      else if ch = Some 0x5C then
        bind_res (captureSegment st cs (position st) True) (\<lambda>st1.
        bind_res (read_escape (advance 1 st1) nodeIndent) (\<lambda>st2.
          double_loop n nodeIndent (position st2) (position st2) st2))
      else if is_EOL ch then
        bind_res (quoted_fold st nodeIndent cs ce) (\<lambda>st1.
          double_loop n nodeIndent (position st1) (position st1) st1)
      else if position st = lineStart st \<and> testDocumentSeparator st then
        throwError st (jstr ''unexpected end of the document within a double quoted scalar'')
      else double_loop n nodeIndent cs (position st + 1) (advance 1 st))"

definition readDoubleQuotedScalar :: "lstate \<Rightarrow> int \<Rightarrow> (bool \<times> lstate) yres" where
  "readDoubleQuotedScalar st nodeIndent =
     (if ch_at st \<noteq> Some 0x22 then Inr (False, st)
      else let st1 = start_quoted st in
        bind_res (double_loop (loop_fuel st1) nodeIndent (position st1) (position st1) st1)
          (\<lambda>st2. Inr (True, st2)))"

section \<open>Block scalars\<close>

datatype chomping = CLIP | STRIP | KEEP

text \<open>The header after the indicator: at most one chomping mode and one width.\<close>

fun block_indicators :: "nat \<Rightarrow> int \<Rightarrow> chomping \<Rightarrow> bool \<Rightarrow> int \<Rightarrow> lstate
    \<Rightarrow> (chomping \<times> bool \<times> int \<times> lstate) yres" where
  "block_indicators 0 nodeIndent ch_mode detectedIndent textIndent st = Inl Diverges"
| "block_indicators (Suc n) nodeIndent ch_mode detectedIndent textIndent st =
     (let st1 = advance 1 st; ch = ch_at st1; tmp = fromDecimalCode ch in
      if ch = Some 0x2B \<or> ch = Some 0x2D then
        (if ch_mode = CLIP
         then block_indicators n nodeIndent (if ch = Some 0x2B then KEEP else STRIP)
                detectedIndent textIndent st1
         else throwError st1 (jstr ''repeat of a chomping mode identifier''))
      else if tmp \<ge> 0 then
        (if tmp = 0 then
           throwError st1 (jstr (''bad explicit indentation width of a block scalar; '' @
             ''it cannot be less than one''))
         else if \<not> detectedIndent
           then block_indicators n nodeIndent ch_mode True (nodeIndent + tmp - 1) st1
         else throwError st1 (jstr ''repeat of an indentation width identifier''))
      else Inr (ch_mode, detectedIndent, textIndent, st1))"

definition block_comment :: "lstate \<Rightarrow> lstate yres" where
  "block_comment st =
     (if is_WHITE_SPACE (ch_at st) then
        (let st1 = skip_while (\<lambda>c. is_WHITE_SPACE (Some c)) (advance 1 st) in
         if ch_at st1 = Some 0x23
         then skip_until (\<lambda>c. is_EOL (Some c) \<or> c = 0) (advance 1 st1)
         else Inr st1)
      else Inr st)"

text \<open>The line breaks that are written at the end of the scalar, and before a line of it.\<close>

definition block_end :: "chomping \<Rightarrow> bool \<Rightarrow> nat \<Rightarrow> jsstring" where
  "block_end ch_mode didReadContent emptyLines =
     (if ch_mode = KEEP
      then repeat [0x0A] (if didReadContent then 1 + int emptyLines else int emptyLines)
      else if ch_mode = CLIP then (if didReadContent then [0x0A] else [])
      else [])"

definition block_breaks :: "bool \<Rightarrow> bool \<Rightarrow> bool \<Rightarrow> bool \<Rightarrow> nat \<Rightarrow> jsstring \<times> bool" where
  "block_breaks folded white didReadContent atMoreIndented emptyLines =
     (let kept = repeat [0x0A] (if didReadContent then 1 + int emptyLines else int emptyLines) in
      if folded then
        (if white then (kept, True)
         else if atMoreIndented then (repeat [0x0A] (int emptyLines + 1), False)
         else if emptyLines = 0 then (if didReadContent then [0x20] else [], atMoreIndented)
         else (repeat [0x0A] (int emptyLines), atMoreIndented))
      else (kept, atMoreIndented))"

fun block_lines :: "nat \<Rightarrow> bool \<Rightarrow> chomping \<Rightarrow> bool \<Rightarrow> bool \<Rightarrow> int \<Rightarrow> nat \<Rightarrow> bool \<Rightarrow> lstate
    \<Rightarrow> lstate yres" where
  "block_lines 0 folded ch_mode didReadContent detectedIndent textIndent emptyLines atMoreIndented st =
     Inl Diverges"
| "block_lines (Suc n) folded ch_mode didReadContent detectedIndent textIndent emptyLines
       atMoreIndented st =
     (if ch_at st = Some 0 then Inr st
      else
        bind_res (readLineBreak st) (\<lambda>st1.
          let spaces = length (takeWhile (\<lambda>c. c = 0x20) (rest st1));
              indent = (if detectedIndent then min spaces (nat textIndent) else spaces);
              st2 = advance indent (st1\<lparr>lineIndent := int indent\<rparr>);
              textIndent2 = (if \<not> detectedIndent \<and> int indent > textIndent then int indent
                             else textIndent);
              ch = ch_at st2
          in if is_EOL ch then
               block_lines n folded ch_mode didReadContent detectedIndent textIndent2
                 (emptyLines + 1) atMoreIndented st2
             else if int indent < textIndent2 then
               Inr (append_result (block_end ch_mode didReadContent emptyLines) st2)
             else
               let (breaks, more) =
                     block_breaks folded (is_WHITE_SPACE ch) didReadContent atMoreIndented emptyLines;
                   st3 = append_result breaks st2
               in bind_res (skip_until (\<lambda>c. is_EOL (Some c) \<or> c = 0) st3) (\<lambda>st4.
                  bind_res (captureSegment st4 (position st3) (position st4) False) (\<lambda>st5.
                    block_lines n folded ch_mode True True textIndent2 0 more st5))))"

definition readBlockScalar :: "lstate \<Rightarrow> int \<Rightarrow> (bool \<times> lstate) yres" where
  "readBlockScalar st nodeIndent =
     (let ch = ch_at st in
      if ch \<noteq> Some 0x7C \<and> ch \<noteq> Some 0x3E then Inr (False, st)
      else
        bind_res (block_indicators (loop_fuel st) nodeIndent CLIP False nodeIndent
                    (st\<lparr>kind := Some Scalar, result := Str []\<rparr>))
          (\<lambda>(ch_mode, detectedIndent, textIndent, st1).
        bind_res (block_comment st1) (\<lambda>st2.
        bind_res (block_lines (loop_fuel st2) (ch = Some 0x3E) ch_mode False detectedIndent textIndent
                    0 False st2)
          (\<lambda>st3. Inr (True, st3)))))"

end
