(* ===== verification/YamlQuotes.thy ===== *)
theory YamlQuotes
  imports YamlDumpText YamlScalars YamlInts
begin

text \<open>
  What the dumper writes between quotes is what the loader reads there: the composition of
  \<open>escapeString\<close> with \<open>readDoubleQuotedScalar\<close>, and of the doubling of single quotes with
  \<open>readSingleQuotedScalar\<close>, wherever the scalar stands in the input.
\<close>

section \<open>Reading at a position\<close>

text \<open>
  The text from position \<open>cs\<close> up to the current position is pending: it is captured later.
  The scalar read so far is \<open>acc\<close>.
\<close>

definition reading :: "lstate \<Rightarrow> jsstring \<Rightarrow> jsstring \<Rightarrow> jsstring \<Rightarrow> jsstring \<Rightarrow> bool" where
  "reading st before pend ahead acc \<longleftrightarrow>
     input st = before @ pend @ ahead \<and> position st = length before + length pend
   \<and> lineStart st < position st \<and> result st = Str acc \<and> list_all json_char pend"

text \<open>The state at a later position with a longer result.\<close>

definition read_to :: "nat \<Rightarrow> jsstring \<Rightarrow> lstate \<Rightarrow> lstate" where
  "read_to p s st = st\<lparr>result := Str s, position := p\<rparr>"

lemma reading_ch:
  "reading st before pend (c # s) acc \<Longrightarrow> ch_at st = Some c"
  "reading st before pend (c # d # s) acc \<Longrightarrow> ch_ahead st 1 = Some d"
  by (simp_all add: reading_def ch_at_def ch_ahead_def charCodeAt_def nth_append)

lemma reading_advance:
  "reading st before pend (c # s) acc \<Longrightarrow> json_char c \<Longrightarrow>
     reading (advance 1 st) before (pend @ [c]) s acc"
  by (simp add: reading_def advance_def)

lemma reading_capture:
  assumes "reading st before pend ahead acc"
  shows "captureSegment st (length before) (position st) True = Inr (st\<lparr>result := Str (acc @ pend)\<rparr>)"
proof (cases "pend = []")
  case True
  with assms have "st\<lparr>result := Str acc\<rparr> = st" by (simp add: reading_def)
  with True assms show ?thesis by (simp add: captureSegment_def reading_def)
next
  case False
  with assms show ?thesis
    by (simp add: captureSegment_def reading_def input_slice_def append_result_def Let_def)
qed

text \<open>A character that is read as such.\<close>

definition ordinary :: "int \<Rightarrow> bool" where
  "ordinary c \<longleftrightarrow> json_char c \<and> c \<noteq> 0 \<and> c \<noteq> 0x0A \<and> c \<noteq> 0x0D"

section \<open>Single quotes\<close>

lemma single_step:
  assumes "reading st before pend (c # s) acc" "ordinary c" "c \<noteq> 0x27"
  shows "single_loop (Suc n) nodeIndent (length before) ce st =
    single_loop n nodeIndent (length before) (position st + 1) (advance 1 st)"
  using assms reading_ch(1) [OF assms(1)]
  by (auto simp: ordinary_def is_EOL_def Let_def reading_def)

lemma single_quote_step:
  assumes "reading st before pend (0x27 # 0x27 # s) acc"
  shows "\<exists>st1. single_loop (Suc n) nodeIndent (length before) ce st =
      single_loop n nodeIndent (length (before @ pend @ [0x27])) (length (before @ pend @ [0x27])) st1
    \<and> reading st1 (before @ pend @ [0x27]) [0x27] s (acc @ pend) \<and> (\<exists>p r. st1 = read_to p r st)"
proof -
  let ?st1 = "read_to (position st + 2) (acc @ pend) st"
  have "single_loop (Suc n) nodeIndent (length before) ce st =
      single_loop n nodeIndent (length (before @ pend @ [0x27])) (length (before @ pend @ [0x27])) ?st1"
    using reading_ch [OF assms] reading_capture [OF assms] assms
    by (simp add: Let_def advance_def ch_at_def ch_ahead_def read_to_def reading_def)
  moreover have "reading ?st1 (before @ pend @ [0x27]) [0x27] s (acc @ pend)"
    using assms by (simp add: reading_def read_to_def json_char_def)
  ultimately show ?thesis by blast
qed

lemma single_end:
  assumes "reading st before pend (0x27 # s) acc" "s = [] \<or> hd s \<noteq> 0x27"
  shows "single_loop (Suc n) nodeIndent (length before) ce st =
    Inr (read_to (position st + 1) (acc @ pend) st)"
proof -
  have "ch_ahead st 1 \<noteq> Some 0x27"
    using assms by (cases s) (auto simp: reading_def ch_ahead_def charCodeAt_def nth_append)
  then show ?thesis
    using reading_ch(1) [OF assms(1)] reading_capture [OF assms(1)]
    by (simp add: Let_def advance_def ch_at_def ch_ahead_def read_to_def)
qed

lemma read_to_twice [simp]: "read_to p s (read_to q t st) = read_to p s st"
  by (simp add: read_to_def)

lemma double_quotes_simps [simp]:
  "double_quotes [] = []"
  "double_quotes (c # s) = (if c = 0x27 then 0x27 # 0x27 # double_quotes s else c # double_quotes s)"
  by (simp_all add: double_quotes_def)

lemma single_loop_reads:
  assumes "reading st before pend (double_quotes s @ 0x27 # ahead) acc" "list_all ordinary s"
    and "ahead = [] \<or> hd ahead \<noteq> 0x27" "length (double_quotes s) < n"
  shows "single_loop n nodeIndent (length before) ce st =
    Inr (read_to (position st + length (double_quotes s) + 1) (acc @ pend @ s) st)"
  using assms
proof (induction s arbitrary: st before pend acc n ce)
  case Nil
  then obtain m where "n = Suc m" by (cases n) auto
  with Nil single_end [of st before pend ahead acc m] show ?case by simp
next
  case (Cons c s)
  then obtain m where n: "n = Suc m" by (cases n) auto
  show ?case
  proof (cases "c = 0x27")
    case True
    with Cons.prems(1) have "reading st before pend (0x27 # 0x27 # double_quotes s @ 0x27 # ahead) acc" by simp
    from single_quote_step [OF this] obtain st1 p r where st1: "single_loop n nodeIndent (length before) ce st =
          single_loop m nodeIndent (length (before @ pend @ [0x27])) (length (before @ pend @ [0x27])) st1"
        "reading st1 (before @ pend @ [0x27]) [0x27] (double_quotes s @ 0x27 # ahead) (acc @ pend)"
        "st1 = read_to p r st"
      unfolding n by blast
    have "p = position st + 2" using st1(2,3) Cons.prems(1) True by (simp add: reading_def read_to_def)
    with Cons.IH [OF st1(2)] Cons.prems(2-) st1(1,3) n True show ?thesis by (simp add: read_to_def)
  next
    case False
    with Cons.prems have r: "reading st before pend (c # double_quotes s @ 0x27 # ahead) acc"
      and c: "ordinary c" by simp_all
    have "reading (advance 1 st) before (pend @ [c]) (double_quotes s @ 0x27 # ahead) acc"
      using reading_advance [OF r] c by (simp add: ordinary_def)
    from Cons.IH [OF this] single_step [OF r c False] Cons.prems(2-) n False show ?thesis
      by (simp add: read_to_def advance_def)
  qed
qed

lemma single_quoted_reads:
  assumes "input st = before @ [0x27] @ double_quotes s @ [0x27] @ ahead" "position st = length before"
    and "lineStart st \<le> position st" "list_all ordinary s" "ahead = [] \<or> hd ahead \<noteq> 0x27"
  shows "readSingleQuotedScalar st nodeIndent =
    Inr (True, st\<lparr>kind := Some Scalar, result := Str s,
                  position := position st + length (double_quotes s) + 2\<rparr>)"
proof -
  let ?st = "start_quoted st"
  have "reading ?st (before @ [0x27]) [] (double_quotes s @ 0x27 # ahead) []"
    using assms by (simp add: reading_def start_quoted_def advance_def)
  moreover have "length (double_quotes s) < loop_fuel ?st"
    using assms(1,2) by (simp add: loop_fuel_def rest_def start_quoted_def advance_def)
  moreover have "ch_at st = Some 0x27" using assms by (simp add: ch_at_def charCodeAt_def nth_append)
  moreover have "position ?st = length (before @ [0x27])" using assms by (simp add: start_quoted_def advance_def)
  ultimately show ?thesis
    using single_loop_reads [of ?st "before @ [0x27]" "[]" s ahead "[]" "loop_fuel ?st" nodeIndent "position ?st"]
      assms(2,4,5)
    by (simp add: readSingleQuotedScalar_def read_to_def start_quoted_def advance_def)
qed

section \<open>Double quotes\<close>

lemma js_shl_4: "0 \<le> v \<Longrightarrow> v < 2 ^ 27 \<Longrightarrow> js_shl v 4 = v * 16"
  by (simp add: js_shl_def to_int32_def signed_take_bit_int_eq_self push_bit_eq_mult)

lemma fromHexCode_digit:
  assumes "is_radix_digit 16 c"
  shows "fromHexCode (Some c) = the (digit_value c) \<and> 0 \<le> fromHexCode (Some c) \<and> fromHexCode (Some c) < 16"
proof -
  have "c \<in> {0x30..0x39} \<union> {0x41..0x46} \<union> {0x61..0x66}"
    using assms by (auto simp: is_radix_digit_def digit_value_def split: if_splits)
  then have "c \<in> set [0x30,0x31,0x32,0x33,0x34,0x35,0x36,0x37,0x38,0x39,0x41,0x42,0x43,0x44,0x45,0x46,
      0x61,0x62,0x63,0x64,0x65,0x66]" by simp presburger
  then show ?thesis
    by (simp only: set_simps insert_iff empty_iff, elim disjE)
      (simp_all add: fromHexCode_def digit_value_def js_or_def to_int32_def signed_take_bit_int_eq_self)
qed

lemma hex_escape_reads:
  assumes "input st = before @ x # ds @ s" "position st = length before" "list_all (is_radix_digit 16) ds"
    and "0 \<le> v" "v < 16 ^ (4 - length ds)" "length ds \<le> 4"
  shows "hex_escape (length ds) v st =
    Inr (foldl (\<lambda>v c. v * 16 + the (digit_value c)) v ds, st\<lparr>position := position st + length ds\<rparr>)"
  using assms
proof (induction ds arbitrary: v st before x)
  case Nil
  then show ?case by (simp add: advance_def)
next
  case (Cons d ds)
  have ch: "ch_at (advance 1 st) = Some d"
    using Cons.prems(1,2) by (simp add: ch_at_def advance_def charCodeAt_def nth_append)
  note d = fromHexCode_digit [of d]
  let ?v = "v * 16 + the (digit_value d)"
  have "v < 16 ^ 3"
  proof -
    have "(16 :: int) ^ (4 - length (d # ds)) \<le> 16 ^ 3" by (rule power_increasing) auto
    with Cons.prems(5) show ?thesis by simp
  qed
  then have shl: "js_shl v 4 + fromHexCode (Some d) = ?v"
    using Cons.prems(3,4) d by (simp add: js_shl_4)
  have "?v < 16 ^ (4 - length ds)"
  proof -
    have "4 - length ds = Suc (4 - length (d # ds))" using Cons.prems(6) by simp
    then show ?thesis using Cons.prems(3,5) d by simp
  qed
  with Cons.prems d have "hex_escape (length ds) ?v (advance 1 st) =
      Inr (foldl (\<lambda>v c. v * 16 + the (digit_value c)) ?v ds,
        (advance 1 st)\<lparr>position := position (advance 1 st) + length ds\<rparr>)"
    by (intro Cons.IH [of _ "before @ [x]" d]) (simp_all add: advance_def)
  with ch shl d Cons.prems(3) show ?case by (simp add: Let_def advance_def)
qed

lemma radix_length:
  "0 \<le> n \<Longrightarrow> n < 16 ^ k \<Longrightarrow> 0 < k \<Longrightarrow> length (radix_str 16 n) \<le> k"
proof (induction k arbitrary: n)
  case (Suc k)
  show ?case
  proof (cases "n < 16")
    case False
    with Suc.prems have "0 < k" by (cases k) auto
    with Suc False have "length (radix_str 16 (n div 16)) \<le> k" by (intro Suc.IH) auto
    with False show ?thesis by (simp add: radix_str.simps [of 16 n])
  qed (simp add: radix_str.simps [of 16 n])
qed simp

text \<open>The digits of an escape, with their leading zeros.\<close>

lemma hex_digits:
  assumes "0 \<le> c" "c < 16 ^ k" "0 < k"
  defines "ds \<equiv> repeat (jstr ''0'') (int k - int (length (upper_ascii (int_to_radix 16 c)))) @
    upper_ascii (int_to_radix 16 c)"
  shows "length ds = k" "list_all (is_radix_digit 16) ds"
    and "foldl (\<lambda>v c. v * 16 + the (digit_value c)) 0 ds = c"
proof -
  note props = radix_str_props [of 16 c, simplified, OF assms(1)]
  note upper = upper_radix [OF props(1)]
  have digs: "int_to_radix 16 c = radix_str 16 c" using assms(1) by (simp add: int_to_radix_def)
  have len: "length (upper_ascii (radix_str 16 c)) \<le> k"
    using radix_length [OF assms(1-3)] by (simp add: upper_ascii_def)
  then show "length ds = k" by (simp add: ds_def digs repeat_char)
  have "is_radix_digit 16 0x30" by (simp add: is_radix_digit_def digit_value_def)
  with upper(1) show "list_all (is_radix_digit 16) ds"
    by (auto simp: ds_def digs repeat_char list_all_iff)
  have "foldl (\<lambda>v c. v * 16 + the (digit_value c)) 0 (replicate m 0x30) = 0" for m
    by (induction m) (simp_all add: digit_value_def)
  with upper(2) props(2) show "foldl (\<lambda>v c. v * 16 + the (digit_value c)) 0 ds = c"
    by (simp add: ds_def digs repeat_char radix_value_def)
qed

text \<open>
  What one escaped character \<open>e\<close> does to the reader: \<open>c\<close> is added to the scalar, and what
  follows is pending again.
\<close>

definition escape_reads :: "jsstring \<Rightarrow> int \<Rightarrow> bool" where
  "escape_reads e c \<longleftrightarrow>
     (\<forall>st before ahead acc nodeIndent.
        input st = before @ 0x5C # e @ ahead \<longrightarrow> position st = length before + 1 \<longrightarrow> result st = Str acc \<longrightarrow>
        read_escape st nodeIndent = Inr (read_to (position st + length e) (acc @ [c]) st))"

lemma escape_reads_simple:
  assumes "simple_escape (Some x) = [c]" "x \<noteq> 0x0A" "x \<noteq> 0x0D"
  shows "escape_reads [x] c"
  unfolding escape_reads_def
proof (intro allI impI)
  fix st :: lstate and before ahead acc nodeIndent
  assume st: "input st = before @ 0x5C # [x] @ ahead" "position st = length before + 1" "result st = Str acc"
  then have "ch_at st = Some x" by (simp add: ch_at_def charCodeAt_def nth_append)
  with assms st(3) show "read_escape st nodeIndent = Inr (read_to (position st + length [x]) (acc @ [c]) st)"
    by (simp add: read_escape_def Let_def is_EOL_def append_result_def advance_def read_to_def)
qed

lemma escape_reads_hex:
  assumes "escapedHexLen (Some x) = k" "k = 2 \<or> k = 4" "0 \<le> c" "c < 16 ^ k"
  defines "ds \<equiv> repeat (jstr ''0'') (int k - int (length (upper_ascii (int_to_radix 16 c)))) @
    upper_ascii (int_to_radix 16 c)"
  shows "escape_reads (x # ds) c"
  unfolding escape_reads_def
proof (intro allI impI)
  fix st :: lstate and before ahead acc nodeIndent
  assume st: "input st = before @ 0x5C # (x # ds) @ ahead" "position st = length before + 1" "result st = Str acc"
  have k: "0 < k" "k \<le> 4" using assms(2) by auto
  note ds = hex_digits [OF assms(3,4) k(1), folded ds_def]
  have x: "x = 0x78 \<or> x = 0x75" using assms(1,2) by (auto simp: escapedHexLen_def split: if_splits)
  have ch: "ch_at st = Some x" using st by (simp add: ch_at_def charCodeAt_def nth_append)
  have "hex_escape k 0 st = Inr (c, st\<lparr>position := position st + k\<rparr>)"
    using hex_escape_reads [of st "before @ [0x5C]" x ds ahead 0] st ds k by simp
  moreover have "charFromCodepoint c = [c]"
  proof -
    have "(16 :: int) ^ k \<le> 16 ^ 4" using k(2) by (rule power_increasing) simp
    with assms(3,4) show ?thesis by (simp add: charFromCodepoint_def)
  qed
  moreover have "simple_escape (Some x) = []" "\<not> is_EOL (Some x)"
    using x by (auto simp: simple_escape_def simpleEscapeSequence_def is_EOL_def)
  ultimately show "read_escape st nodeIndent =
      Inr (read_to (position st + length (x # ds)) (acc @ [c]) st)"
    using ch assms(1) k(1) st(3) ds(1)
    by (simp add: read_escape_def append_result_def advance_def read_to_def)
qed

lemma escape_table:
  "ESCAPE_SEQUENCES c = Some e \<Longrightarrow> \<exists>x. e = [0x5C, x] \<and> simple_escape (Some x) = [c] \<and> x \<noteq> 0x0A \<and> x \<noteq> 0x0D"
proof -
  assume "ESCAPE_SEQUENCES c = Some e"
  then have "e = [0x5C, e ! 1] \<and> simple_escape (Some (e ! 1)) = [c] \<and> e ! 1 \<noteq> 0x0A \<and> e ! 1 \<noteq> 0x0D"
    by (auto simp: ESCAPE_SEQUENCES_def simple_escape_def simpleEscapeSequence_def split: if_splits)
  then show ?thesis by blast
qed

lemma printable_ordinary: "isPrintable c \<Longrightarrow> ordinary c"
  by (auto simp: isPrintable_def ordinary_def json_char_def)

lemma encodeHex_reads:
  assumes "0 \<le> c" "c \<le> 0xFFFF"
  shows "\<exists>e. encodeHex c = Inr (0x5C # e) \<and> escape_reads e c"
  using escape_reads_hex [of "0x78" 2 c] escape_reads_hex [of "0x75" 4 c] assms
  by (simp add: encodeHex_def Let_def escapedHexLen_def)

text \<open>Every unit is written as itself or as an escape that is read back.\<close>

lemma escape_char_reads:
  assumes "0 \<le> c" "c \<le> 0xFFFF"
  shows "\<exists>e. escape_char c = Inr e \<and>
    (e = [c] \<and> ordinary c \<and> c \<noteq> 0x22 \<and> c \<noteq> 0x5C \<or> (\<exists>e'. e = 0x5C # e' \<and> escape_reads e' c))"
proof (cases "ESCAPE_SEQUENCES c")
  case (Some e)
  with escape_table [OF Some] escape_reads_simple show ?thesis by (auto simp: escape_char_def)
next
  case None
  then have "c \<noteq> 0x22" "c \<noteq> 0x5C" by (auto simp: ESCAPE_SEQUENCES_def)
  with None encodeHex_reads [OF assms] printable_ordinary [of c] show ?thesis
    by (auto simp: escape_char_def)
qed

lemma double_step:
  assumes "reading st before pend (c # s) acc" "ordinary c" "c \<noteq> 0x22" "c \<noteq> 0x5C"
  shows "double_loop (Suc n) nodeIndent (length before) ce st =
    double_loop n nodeIndent (length before) (position st + 1) (advance 1 st)"
  using assms reading_ch(1) [OF assms(1)]
  by (auto simp: ordinary_def is_EOL_def Let_def reading_def)

lemma double_escape_step:
  assumes "reading st before pend (0x5C # e @ s) acc" "escape_reads e c"
  defines "st1 \<equiv> read_to (position st + 1 + length e) (acc @ pend @ [c]) st"
  shows "double_loop (Suc n) nodeIndent (length before) ce st =
      double_loop n nodeIndent (length (before @ pend @ 0x5C # e)) (length (before @ pend @ 0x5C # e)) st1"
    and "reading st1 (before @ pend @ 0x5C # e) [] s (acc @ pend @ [c])"
proof -
  let ?st = "advance 1 (st\<lparr>result := Str (acc @ pend)\<rparr>)"
  have "read_escape ?st nodeIndent = Inr (read_to (position ?st + length e) ((acc @ pend) @ [c]) ?st)"
    using assms(2) unfolding escape_reads_def
    by (rule allE [of _ ?st], elim allE [of _ "before @ pend"] allE [of _ s] allE [of _ "acc @ pend"]
        allE [of _ nodeIndent]) (use assms(1) in \<open>simp add: reading_def advance_def\<close>)
  moreover have "read_to (position ?st + length e) ((acc @ pend) @ [c]) ?st = st1"
    by (simp add: st1_def read_to_def advance_def)
  ultimately show "double_loop (Suc n) nodeIndent (length before) ce st =
      double_loop n nodeIndent (length (before @ pend @ 0x5C # e)) (length (before @ pend @ 0x5C # e)) st1"
    using reading_ch(1) [OF assms(1)] reading_capture [OF assms(1)] assms(1)
    by (simp add: Let_def st1_def read_to_def reading_def add.assoc)
  show "reading st1 (before @ pend @ 0x5C # e) [] s (acc @ pend @ [c])"
    using assms(1) by (simp add: reading_def st1_def read_to_def)
qed

lemma double_end:
  assumes "reading st before pend (0x22 # s) acc"
  shows "double_loop (Suc n) nodeIndent (length before) ce st =
    Inr (read_to (position st + 1) (acc @ pend) st)"
  using reading_ch(1) [OF assms] reading_capture [OF assms]
  by (simp add: Let_def advance_def read_to_def)

lemma double_loop_reads:
  assumes "escapeString s = Inr e" "reading st before pend (e @ 0x22 # ahead) acc"
    and "list_all (\<lambda>c. 0 \<le> c \<and> c \<le> 0xFFFF) s" "length e < n"
  shows "double_loop n nodeIndent (length before) ce st =
    Inr (read_to (position st + length e + 1) (acc @ pend @ s) st)"
  using assms
proof (induction s arbitrary: st before pend acc n ce e)
  case Nil
  then obtain m where "n = Suc m" by (cases n) auto
  with Nil double_end [of st before pend ahead acc m] show ?case by simp
next
  case (Cons c s)
  from Cons.prems(3) obtain e1 where e1: "escape_char c = Inr e1"
    "e1 = [c] \<and> ordinary c \<and> c \<noteq> 0x22 \<and> c \<noteq> 0x5C \<or> (\<exists>e'. e1 = 0x5C # e' \<and> escape_reads e' c)"
    using escape_char_reads [of c] by auto
  with Cons.prems(1) obtain e2 where e2: "escapeString s = Inr e2" "e = e1 @ e2"
    by (auto simp: bind_res_Inr_iff)
  obtain m where n: "n = Suc m" using Cons.prems(4) by (cases n) auto
  from e1(2) show ?case
  proof (elim disjE exE conjE)
    assume c: "e1 = [c]" "ordinary c" "c \<noteq> 0x22" "c \<noteq> 0x5C"
    with Cons.prems(2) e2 have r: "reading st before pend (c # e2 @ 0x22 # ahead) acc" by simp
    have "reading (advance 1 st) before (pend @ [c]) (e2 @ 0x22 # ahead) acc"
      using reading_advance [OF r] c(2) by (simp add: ordinary_def)
    from Cons.IH [OF e2(1) this] double_step [OF r c(2-)] Cons.prems(3,4) n e2 c show ?thesis
      by (simp add: read_to_def advance_def)
  next
    fix e'
    assume e': "e1 = 0x5C # e'" "escape_reads e' c"
    with Cons.prems(2) e2 have r: "reading st before pend (0x5C # e' @ e2 @ 0x22 # ahead) acc" by simp
    note step = double_escape_step [OF r e'(2)]
    from Cons.IH [OF e2(1) step(2)] step(1) Cons.prems(3,4) n e2 e' show ?thesis
      by (simp add: read_to_def)
  qed
qed

lemma escapeString_defined: "list_all (\<lambda>c. 0 \<le> c \<and> c \<le> 0xFFFF) s \<Longrightarrow> \<exists>e. escapeString s = Inr e"
proof (induction s)
  case (Cons c s)
  then show ?case using escape_char_reads [of c] by auto
qed simp

lemma double_quoted_reads:
  assumes "escapeString s = Inr e" "list_all (\<lambda>c. 0 \<le> c \<and> c \<le> 0xFFFF) s"
    and st: "input st = before @ [0x22] @ e @ [0x22] @ ahead" "position st = length before"
      "lineStart st \<le> position st"
  shows "readDoubleQuotedScalar st nodeIndent =
    Inr (True, st\<lparr>kind := Some Scalar, result := Str s, position := position st + length e + 2\<rparr>)"
proof -
  let ?st = "start_quoted st"
  have r: "reading ?st (before @ [0x22]) [] (e @ 0x22 # ahead) []"
    using st by (simp add: reading_def start_quoted_def advance_def)
  moreover have "length e < loop_fuel ?st"
    using st(1,2) by (simp add: loop_fuel_def rest_def start_quoted_def advance_def)
  moreover have "ch_at st = Some 0x22" using st by (simp add: ch_at_def charCodeAt_def nth_append)
  moreover have "position ?st = length (before @ [0x22])" using st by (simp add: start_quoted_def advance_def)
  ultimately show ?thesis
    using double_loop_reads [OF assms(1) r assms(2), of "loop_fuel ?st" nodeIndent "position ?st"] st(2)
    by (simp add: readDoubleQuotedScalar_def read_to_def start_quoted_def advance_def)
qed

section \<open>The round trips\<close>

text \<open>An example: the state of a loader at the start of a text.\<close>

definition start_of :: "jsstring \<Rightarrow> lstate" where
  "start_of s = new_state s \<lparr>opt_filename = None, opt_schema = None, opt_onWarning = False,
     opt_legacy = False, opt_json = False, opt_listener = False\<rparr> []"

lemma start_of_fields [simp]:
  "input (start_of s) = s" "position (start_of s) = 0" "lineStart (start_of s) = 0"
  by (simp_all add: start_of_def new_state_def Let_def)

text \<open>
  C33: What the dumper writes in single quotes is read back: wherever a text without control
  characters and line breaks stands in the input in quotes, with its own quotes doubled, the
  loader reads exactly this text as a scalar and stops behind the closing quote, if no further
  quote follows.
\<close>

theorem single_quoted_roundtrip:
  assumes "input st = before @ [0x27] @ double_quotes s @ [0x27] @ ahead" "position st = length before"
    and "lineStart st \<le> position st" "list_all ordinary s" "ahead = [] \<or> hd ahead \<noteq> 0x27"
  shows "readSingleQuotedScalar st nodeIndent =
    Inr (True, st\<lparr>kind := Some Scalar, result := Str s,
                  position := position st + length (double_quotes s) + 2\<rparr>)"
  using assms by (rule single_quoted_reads)

lemma single_quoted_roundtrip_witness:
  "readSingleQuotedScalar (start_of ([0x27] @ jstr ''it'' @ [0x27, 0x27] @ jstr ''s'' @ [0x27, 0x0A])) 0 =
     Inr (True, (start_of ([0x27] @ jstr ''it'' @ [0x27, 0x27] @ jstr ''s'' @ [0x27, 0x0A]))
       \<lparr>kind := Some Scalar, result := Str (jstr ''it'' @ [0x27] @ jstr ''s''), position := 7\<rparr>)"
  using single_quoted_roundtrip [of "start_of ([0x27] @ jstr ''it'' @ [0x27, 0x27] @ jstr ''s'' @ [0x27, 0x0A])"
      "[]" "jstr ''it'' @ [0x27] @ jstr ''s''" "[0x0A]" 0]
  by (simp add: ordinary_def json_char_def)

text \<open>
  C32: Every string of 16-bit units can be written in double quotes, control characters, line
  breaks, quotes, backslashes and single surrogates included: \<open>escapeString\<close> gives a text, and
  wherever this text stands in the input between double quotes, the loader reads exactly the
  string again and stops behind the closing quote.
\<close>

theorem double_quoted_roundtrip:
  assumes "list_all (\<lambda>c. 0 \<le> c \<and> c \<le> 0xFFFF) s"
    and "input st = before @ [0x22] @ projr (escapeString s) @ [0x22] @ ahead"
    and "position st = length before" "lineStart st \<le> position st"
  shows "\<exists>e. escapeString s = Inr e \<and>
    readDoubleQuotedScalar st nodeIndent =
      Inr (True, st\<lparr>kind := Some Scalar, result := Str s, position := position st + length e + 2\<rparr>)"
proof -
  obtain e where "escapeString s = Inr e" using escapeString_defined [OF assms(1)] by blast
  with double_quoted_reads [OF this assms(1), of st before ahead nodeIndent] assms(2-4) show ?thesis by simp
qed

lemma double_quoted_roundtrip_witness:
  "\<exists>e. escapeString [0x0A] = Inr e \<and>
    readDoubleQuotedScalar (start_of [0x22, 0x5C, 0x6E, 0x22]) 0 =
      Inr (True, (start_of [0x22, 0x5C, 0x6E, 0x22])
        \<lparr>kind := Some Scalar, result := Str [0x0A], position := 0 + length e + 2\<rparr>)"
  using double_quoted_roundtrip [of "[0x0A]" "start_of [0x22, 0x5C, 0x6E, 0x22]" "[]" "[]" 0]
  by (simp add: escape_char_def ESCAPE_SEQUENCES_def)

end
