(* ===== verification/YamlDumper.thy ===== *)
theory YamlDumper
  imports YamlDumpText
begin

text \<open>
  \<open>js-yaml/dumper.js\<close> (module 22): the state of the dumper, the writers of scalars,
  sequences and mappings, the search for objects that occur more than once, and the entry points
  \<open>dump\<close> and \<open>safeDump\<close>.

  The state is passed explicitly; the heap does not change. \<open>writeNode\<close> and the writers
  of collections call each other: the writers take \<open>writeNode\<close> as an argument, and
  \<open>writeNode\<close> recurses on a bound for the depth. The numbers among the options are integers.
\<close>

section \<open>Options and state\<close>

text \<open>
  The option \<open>sortKeys\<close>: missing or false, \<open>true\<close>, a comparison given by the
  order in which \<open>Array.prototype.sort\<close> puts keys with it, or any other true value.
\<close>

datatype sort_keys = Unsorted | DefaultOrder | SortedBy "jsstring list \<Rightarrow> jsstring list" | NotAnOrder

text \<open>
  \<open>None\<close> stands for a missing option, \<open>Some None\<close> for a schema that is present but
  \<open>undefined\<close> or \<open>null\<close>. A style is given as \<open>String(style)\<close>.
\<close>

record dump_options =
  dopt_schema :: "schema option option"
  dopt_indent :: "int option"
  dopt_skipInvalid :: bool
  dopt_flowLevel :: "int option"
  dopt_styles :: "(jsstring \<times> jsstring) list option"
  dopt_sortKeys :: sort_keys
  dopt_lineWidth :: "int option"
  dopt_noRefs :: bool
  dopt_noCompatMode :: bool

record dstate =
  d_schema :: schema
  d_indent :: int
  d_skipInvalid :: bool
  d_flowLevel :: int
  d_styleMap :: "(jsstring \<times> jsstring) list"
  d_sortKeys :: sort_keys
  d_lineWidth :: int
  d_noRefs :: bool
  d_noCompatMode :: bool
  d_implicitTypes :: "ytype list"
  d_explicitTypes :: "ytype list"
  d_tag :: "jsstring option"
  d_dump :: jsval
  d_duplicates :: "jsval list"
  d_usedDuplicates :: "bool list"

text \<open>The names that every object inherits.\<close>

definition inherited_names :: "jsstring list" where
  "inherited_names = map jstr
     [''constructor'', ''hasOwnProperty'', ''isPrototypeOf'', ''propertyIsEnumerable'',
      ''toLocaleString'', ''toString'', ''valueOf'', ''__proto__'', ''__defineGetter__'',
      ''__defineSetter__'', ''__lookupGetter__'', ''__lookupSetter__'']"

text \<open>
  \<open>schema.compiledTypeMap[tag]\<close> also finds the names that every object inherits: functions
  and a prototype, without \<open>styleAliases\<close>.
\<close>

definition style_entry :: "(jsstring \<times> ytype) list \<Rightarrow> jsstring \<Rightarrow> jsstring
    \<Rightarrow> (jsstring \<times> jsstring) yres" where
  "style_entry types name style =
     (let tag = (if take 2 name = jstr ''!!'' then jstr ''tag:yaml.org,2002:'' @ drop 2 name else name) in
      case map_of types tag of
        Some type \<Rightarrow>
          (if tag \<in> set inherited_names then Inl (Unmodelled ''a type with an inherited name'')
           else Inr (tag, case map_of (ty_styleAliases type) style of Some s \<Rightarrow> s | None \<Rightarrow> style))
      | None \<Rightarrow>
          (if tag \<in> set inherited_names
           then type_error ''Cannot convert undefined or null to object''
           else Inr (tag, style)))"

fun style_entries :: "(jsstring \<times> ytype) list \<Rightarrow> (jsstring \<times> jsstring) list
    \<Rightarrow> (jsstring \<times> jsstring) list \<Rightarrow> (jsstring \<times> jsstring) list yres" where
  "style_entries types [] result = Inr result"
| "style_entries types ((name, style) # ps) result =
     bind_res (style_entry types name style) (\<lambda>(tag, s).
       style_entries types ps (prop_set result tag s))"

definition compileStyleMap :: "schema \<Rightarrow> (jsstring \<times> jsstring) list option
    \<Rightarrow> (jsstring \<times> jsstring) list yres" where
  "compileStyleMap sch styles =
     (case styles of None \<Rightarrow> Inr [] | Some ps \<Rightarrow> style_entries (compiledTypeMap sch) ps [])"

text \<open>\<open>a || b\<close> for a number: 0 and a missing number give \<open>b\<close>.\<close>

definition or_number :: "int option \<Rightarrow> int \<Rightarrow> int" where
  "or_number a b = (case a of None \<Rightarrow> b | Some n \<Rightarrow> if n = 0 then b else n)"

definition new_dumper :: "dump_options \<Rightarrow> dstate yres" where
  "new_dumper options =
     (let sch = (case dopt_schema options of Some (Some s) \<Rightarrow> s | _ \<Rightarrow> default_full_schema) in
      bind_res (compileStyleMap sch (dopt_styles options)) (\<lambda>styles. Inr
        \<lparr>d_schema = sch, d_indent = max 1 (or_number (dopt_indent options) 2),
         d_skipInvalid = dopt_skipInvalid options,
         d_flowLevel = (case dopt_flowLevel options of None \<Rightarrow> - 1 | Some n \<Rightarrow> n),
         d_styleMap = styles, d_sortKeys = dopt_sortKeys options,
         d_lineWidth = or_number (dopt_lineWidth options) 80, d_noRefs = dopt_noRefs options,
         d_noCompatMode = dopt_noCompatMode options,
         d_implicitTypes = compiledImplicit sch, d_explicitTypes = compiledExplicit sch,
         d_tag = None, d_dump = Undef, d_duplicates = [], d_usedDuplicates = []\<rparr>))"

section \<open>Scalars\<close>

definition generateNextLine :: "dstate \<Rightarrow> nat \<Rightarrow> jsstring" where
  "generateNextLine st level = LF @ repeat [CHAR_SPACE] (d_indent st * int level)"

fun any_resolves :: "host \<Rightarrow> heap \<Rightarrow> ytype list \<Rightarrow> jsstring \<Rightarrow> bool yres" where
  "any_resolves w h [] str = Inr False"
| "any_resolves w h (type # ts) str =
     bind_res (ty_resolve type w h (Str str)) (\<lambda>r. if r then Inr True else any_resolves w h ts str)"

definition testImplicitResolving :: "host \<Rightarrow> heap \<Rightarrow> dstate \<Rightarrow> jsstring \<Rightarrow> bool yres" where
  "testImplicitResolving w h st str = any_resolves w h (d_implicitTypes st) str"

definition scalar_width :: "dstate \<Rightarrow> int \<Rightarrow> int" where
  "scalar_width st indent =
     (if d_lineWidth st = - 1 then - 1
      else max (min (d_lineWidth st) 40) (d_lineWidth st - indent))"

definition scalar_text :: "host \<Rightarrow> heap \<Rightarrow> dstate \<Rightarrow> jsstring \<Rightarrow> nat \<Rightarrow> bool \<Rightarrow> jsstring yres" where
  "scalar_text w h st string level iskey =
     (if string = [] then Inr [CHAR_SINGLE_QUOTE, CHAR_SINGLE_QUOTE]
      else if \<not> d_noCompatMode st \<and> string \<in> set DEPRECATED_BOOLEANS_SYNTAX
      then Inr ([CHAR_SINGLE_QUOTE] @ string @ [CHAR_SINGLE_QUOTE])
      else
        let indent = d_indent st * max 1 (int level);
            lineWidth = scalar_width st indent;
            singleLineOnly = (iskey \<or> d_flowLevel st > - 1 \<and> int level \<ge> d_flowLevel st)
        in bind_res (chooseScalarStyle string singleLineOnly (d_indent st) lineWidth
                       (testImplicitResolving w h st)) (\<lambda>style.
           case style of
             STYLE_PLAIN \<Rightarrow> Inr string
           | STYLE_SINGLE \<Rightarrow> Inr ([CHAR_SINGLE_QUOTE] @ double_quotes string @ [CHAR_SINGLE_QUOTE])
           | STYLE_LITERAL \<Rightarrow>
               Inr ([CHAR_VERTICAL_LINE] @ blockHeader string (d_indent st)
                    @ dropEndingNewline (indentString string indent))
           | STYLE_FOLDED \<Rightarrow>
               Inr ([CHAR_GREATER_THAN] @ blockHeader string (d_indent st)
                    @ dropEndingNewline (indentString (foldString string lineWidth) indent))
           | STYLE_DOUBLE \<Rightarrow>
               bind_res (escapeString string)
                 (\<lambda>s. Inr ([CHAR_DOUBLE_QUOTE] @ s @ [CHAR_DOUBLE_QUOTE]))))"

definition writeScalar :: "host \<Rightarrow> heap \<Rightarrow> dstate \<Rightarrow> jsstring \<Rightarrow> nat \<Rightarrow> bool \<Rightarrow> dstate yres" where
  "writeScalar w h st string level iskey =
     bind_res (scalar_text w h st string level iskey) (\<lambda>s. Inr (st\<lparr>d_dump := Str s\<rparr>))"

section \<open>Collections\<close>

text \<open>
  \<open>write st level object block compact iskey\<close> stands for \<open>writeNode\<close>. Where it
  returns true the text in \<open>state.dump\<close> is a string.
\<close>

type_synonym node_writer = "dstate \<Rightarrow> nat \<Rightarrow> jsval \<Rightarrow> bool \<Rightarrow> bool \<Rightarrow> bool \<Rightarrow> (bool \<times> dstate) yres"

definition dumped :: "dstate \<Rightarrow> jsstring" where
  "dumped st = (case d_dump st of Str s \<Rightarrow> s | _ \<Rightarrow> [])"

fun flow_elements :: "node_writer \<Rightarrow> nat \<Rightarrow> nat \<Rightarrow> jsval list \<Rightarrow> jsstring \<Rightarrow> dstate
    \<Rightarrow> (jsstring \<times> dstate) yres" where
  "flow_elements write level index [] acc st = Inr (acc, st)"
| "flow_elements write level index (v # vs) acc st =
     bind_res (write st level v False False False) (\<lambda>(ok, st1).
       flow_elements write level (Suc index) vs
         (if ok then acc @ (if index \<noteq> 0 then jstr '', '' else []) @ dumped st1 else acc) st1)"

definition writeFlowSequence :: "node_writer \<Rightarrow> dstate \<Rightarrow> nat \<Rightarrow> jsval list \<Rightarrow> dstate yres" where
  "writeFlowSequence write st level object =
     bind_res (flow_elements write level 0 object [] st) (\<lambda>(acc, st1).
       Inr (st1\<lparr>d_tag := d_tag st, d_dump := Str (jstr ''['' @ acc @ jstr '']'')\<rparr>))"

fun block_elements :: "node_writer \<Rightarrow> nat \<Rightarrow> bool \<Rightarrow> nat \<Rightarrow> jsval list \<Rightarrow> jsstring \<Rightarrow> dstate
    \<Rightarrow> (jsstring \<times> dstate) yres" where
  "block_elements write level is_compact index [] acc st = Inr (acc, st)"
| "block_elements write level is_compact index (v # vs) acc st =
     bind_res (write st (level + 1) v True True False) (\<lambda>(ok, st1).
       block_elements write level is_compact (Suc index) vs
         (if ok
          then acc @ (if \<not> is_compact \<or> index \<noteq> 0 then generateNextLine st1 level else [])
               @ jstr ''- '' @ dumped st1
          else acc) st1)"

definition writeBlockSequence :: "node_writer \<Rightarrow> dstate \<Rightarrow> nat \<Rightarrow> jsval list \<Rightarrow> bool \<Rightarrow> dstate yres" where
  "writeBlockSequence write st level object is_compact =
     bind_res (block_elements write level is_compact 0 object [] st) (\<lambda>(acc, st1).
       Inr (st1\<lparr>d_tag := d_tag st, d_dump := Str (if acc \<noteq> [] then acc else jstr ''[]'')\<rparr>))"

text \<open>One pair of a flow mapping: \<open>None\<close> is \<open>continue\<close>.\<close>

definition flow_pair :: "node_writer \<Rightarrow> nat \<Rightarrow> nat \<Rightarrow> jsstring \<Rightarrow> jsval \<Rightarrow> dstate
    \<Rightarrow> (jsstring option \<times> dstate) yres" where
  "flow_pair write level index objectKey objectValue st =
     (let buffer = (if index \<noteq> 0 then jstr '', '' else []) in
      bind_res (write st level (Str objectKey) False False False) (\<lambda>(ok, st1).
        if \<not> ok then Inr (None, st1)
        else
          let buffer1 = buffer @ (if length (dumped st1) > 1024 then jstr ''? '' else [])
                        @ dumped st1 @ jstr '': ''
          in bind_res (write st1 level objectValue False False False) (\<lambda>(ok2, st2).
               if \<not> ok2 then Inr (None, st2) else Inr (Some (buffer1 @ dumped st2), st2))))"

fun flow_pairs :: "node_writer \<Rightarrow> nat \<Rightarrow> nat \<Rightarrow> (jsstring \<times> jsval) list \<Rightarrow> jsstring \<Rightarrow> dstate
    \<Rightarrow> (jsstring \<times> dstate) yres" where
  "flow_pairs write level index [] acc st = Inr (acc, st)"
| "flow_pairs write level index ((key, v) # ps) acc st =
     bind_res (flow_pair write level index key v st) (\<lambda>(buffer, st1).
       flow_pairs write level (Suc index) ps
         (case buffer of None \<Rightarrow> acc | Some b \<Rightarrow> acc @ b) st1)"

definition writeFlowMapping :: "node_writer \<Rightarrow> dstate \<Rightarrow> nat \<Rightarrow> (jsstring \<times> jsval) list \<Rightarrow> dstate yres" where
  "writeFlowMapping write st level object =
     bind_res (flow_pairs write level 0 object [] st) (\<lambda>(acc, st1).
       Inr (st1\<lparr>d_tag := d_tag st, d_dump := Str (jstr ''{'' @ acc @ jstr ''}'')\<rparr>))"

definition has_tag :: "dstate \<Rightarrow> bool" where
  "has_tag st \<longleftrightarrow> d_tag st \<noteq> None \<and> d_tag st \<noteq> Some (jstr ''?'')"

definition starts_line :: "dstate \<Rightarrow> bool" where
  "starts_line st \<longleftrightarrow> at_char (dumped st) 0 = Some CHAR_LINE_FEED"

definition block_pair :: "node_writer \<Rightarrow> nat \<Rightarrow> bool \<Rightarrow> nat \<Rightarrow> jsstring \<Rightarrow> jsval \<Rightarrow> dstate
    \<Rightarrow> (jsstring option \<times> dstate) yres" where
  "block_pair write level is_compact index objectKey objectValue st =
     (let buffer = (if \<not> is_compact \<or> index \<noteq> 0 then generateNextLine st level else []) in
      bind_res (write st (level + 1) (Str objectKey) True True True) (\<lambda>(ok, st1).
        if \<not> ok then Inr (None, st1)
        else
          let explicitPair = (has_tag st1 \<or> length (dumped st1) > 1024);
              buffer1 = buffer
                @ (if explicitPair then (if starts_line st1 then jstr ''?'' else jstr ''? '') else [])
                @ dumped st1
                @ (if explicitPair then generateNextLine st1 level else [])
          in bind_res (write st1 (level + 1) objectValue True explicitPair False) (\<lambda>(ok2, st2).
               if \<not> ok2 then Inr (None, st2)
               else Inr (Some (buffer1 @ (if starts_line st2 then jstr '':'' else jstr '': '')
                               @ dumped st2), st2))))"

fun block_pairs :: "node_writer \<Rightarrow> nat \<Rightarrow> bool \<Rightarrow> nat \<Rightarrow> (jsstring \<times> jsval) list \<Rightarrow> jsstring \<Rightarrow> dstate
    \<Rightarrow> (jsstring \<times> dstate) yres" where
  "block_pairs write level is_compact index [] acc st = Inr (acc, st)"
| "block_pairs write level is_compact index ((key, v) # ps) acc st =
     bind_res (block_pair write level is_compact index key v st) (\<lambda>(buffer, st1).
       block_pairs write level is_compact (Suc index) ps
         (case buffer of None \<Rightarrow> acc | Some b \<Rightarrow> acc @ b) st1)"

text \<open>The default order of \<open>sort\<close> is that of the code units of the strings.\<close>

fun string_less_eq :: "jsstring \<Rightarrow> jsstring \<Rightarrow> bool" where
  "string_less_eq [] t = True"
| "string_less_eq (c # s) [] = False"
| "string_less_eq (c # s) (d # t) = (c < d \<or> c = d \<and> string_less_eq s t)"

fun insert_sorted :: "jsstring \<Rightarrow> jsstring list \<Rightarrow> jsstring list" where
  "insert_sorted k [] = [k]"
| "insert_sorted k (l # ls) = (if string_less_eq k l then k # l # ls else l # insert_sorted k ls)"

definition sort_strings :: "jsstring list \<Rightarrow> jsstring list" where
  "sort_strings ks = foldr insert_sorted ks []"

definition value_of_key :: "(jsstring \<times> jsval) list \<Rightarrow> jsstring \<Rightarrow> jsval" where
  "value_of_key ps key = (case map_of ps key of Some v \<Rightarrow> v | None \<Rightarrow> Undef)"

definition ordered_pairs :: "sort_keys \<Rightarrow> (jsstring \<times> jsval) list \<Rightarrow> (jsstring \<times> jsval) list yres" where
  "ordered_pairs order object =
     (let keys = map fst object; pairs = (\<lambda>ks. map (\<lambda>k. (k, value_of_key object k)) ks) in
      case order of
        DefaultOrder \<Rightarrow> Inr (pairs (sort_strings keys))
      | SortedBy f \<Rightarrow> Inr (pairs (f keys))
      | NotAnOrder \<Rightarrow> yaml_exception (jstr ''sortKeys must be a boolean or a function'')
      | Unsorted \<Rightarrow> Inr (pairs keys))"

definition writeBlockMapping :: "node_writer \<Rightarrow> dstate \<Rightarrow> nat \<Rightarrow> (jsstring \<times> jsval) list \<Rightarrow> bool
    \<Rightarrow> dstate yres" where
  "writeBlockMapping write st level object is_compact =
     bind_res (ordered_pairs (d_sortKeys st) object) (\<lambda>ps.
     bind_res (block_pairs write level is_compact 0 ps [] st) (\<lambda>(acc, st1).
       Inr (st1\<lparr>d_tag := d_tag st, d_dump := Str (if acc \<noteq> [] then acc else jstr ''{}'')\<rparr>)))"

section \<open>Types of values\<close>

definition type_matches :: "heap \<Rightarrow> ytype \<Rightarrow> jsval \<Rightarrow> bool" where
  "type_matches h type object \<longleftrightarrow>
     (ty_instanceOf type \<noteq> None \<or> ty_predicate type \<noteq> None)
   \<and> (case ty_instanceOf type of None \<Rightarrow> True
      | Some f \<Rightarrow> (object = Null \<or> isObject h object) \<and> f h object)
   \<and> (case ty_predicate type of None \<Rightarrow> True | Some f \<Rightarrow> f h object)"

text \<open>\<open>state.styleMap[type.tag] || type.defaultStyle\<close>\<close>

definition style_of :: "dstate \<Rightarrow> ytype \<Rightarrow> jsstring option yres" where
  "style_of st type =
     (case map_of (d_styleMap st) (ty_tag type) of
        Some s \<Rightarrow> Inr (if s \<noteq> [] then Some s else ty_defaultStyle type)
      | None \<Rightarrow>
          if ty_tag type \<in> set inherited_names then Inl (Unmodelled ''a type with an inherited name'')
          else Inr (ty_defaultStyle type))"

definition represented :: "host \<Rightarrow> heap \<Rightarrow> dstate \<Rightarrow> ytype \<Rightarrow> jsval \<Rightarrow> jsval yres" where
  "represented w h st type object =
     (case ty_represent type of
        None \<Rightarrow> Inr (d_dump st)
      | Some (RepFun f) \<Rightarrow> bind_res (style_of st type) (\<lambda>style. f w h object style)
      | Some (RepStyles fs) \<Rightarrow>
          bind_res (style_of st type) (\<lambda>style.
            let name = (case style of None \<Rightarrow> jstr ''null'' | Some s \<Rightarrow> s) in
            case map_of fs name of
              Some f \<Rightarrow> f w h object
            | None \<Rightarrow>
                yaml_exception (jstr ''!<'' @ ty_tag type @ jstr ''> tag resolver accepts not '' @ [0x22]
                  @ name @ jstr [CHR 0x22] @ jstr '' style'')))"

fun detect_in :: "host \<Rightarrow> heap \<Rightarrow> dstate \<Rightarrow> jsval \<Rightarrow> bool \<Rightarrow> ytype list \<Rightarrow> (bool \<times> dstate) yres" where
  "detect_in w h st object explicit [] = Inr (False, st)"
| "detect_in w h st object explicit (type # ts) =
     (if type_matches h type object
      then bind_res (represented w h st type object) (\<lambda>v.
             Inr (True, st\<lparr>d_tag := Some (if explicit then ty_tag type else jstr ''?''), d_dump := v\<rparr>))
      else detect_in w h st object explicit ts)"

definition detectType :: "host \<Rightarrow> heap \<Rightarrow> dstate \<Rightarrow> jsval \<Rightarrow> bool \<Rightarrow> (bool \<times> dstate) yres" where
  "detectType w h st object explicit =
     detect_in w h st object explicit (if explicit then d_explicitTypes st else d_implicitTypes st)"

section \<open>Nodes\<close>

text \<open>\<open>Object.prototype.toString.call(v)\<close>. A reference outside the heap does not occur.\<close>

definition class_name :: "heap \<Rightarrow> jsval \<Rightarrow> jsstring" where
  "class_name h v =
     (case v of
        Undef \<Rightarrow> jstr ''[object Undefined]''
      | Null \<Rightarrow> jstr ''[object Null]''
      | Bool b \<Rightarrow> jstr ''[object Boolean]''
      | Num x \<Rightarrow> jstr ''[object Number]''
      | Str s \<Rightarrow> jstr ''[object String]''
      | Ref r \<Rightarrow>
         (case cell_of h v of
            None \<Rightarrow> []
          | Some (Arr vs) \<Rightarrow> jstr ''[object Array]''
          | Some (Obj ps) \<Rightarrow> jstr ''[object Object]''
          | Some (Date t) \<Rightarrow> jstr ''[object Date]''
          | Some (RegExp s f) \<Rightarrow> jstr ''[object RegExp]''
          | Some (Func ps b) \<Rightarrow> jstr ''[object Function]''))"

fun index_of :: "'a \<Rightarrow> 'a list \<Rightarrow> nat option" where
  "index_of x [] = None"
| "index_of x (y # ys) = (if x = y then Some 0 else map_option Suc (index_of x ys))"

definition ref_name :: "nat \<Rightarrow> jsstring" where
  "ref_name i = jstr ''ref_'' @ decimal_str (int i)"

text \<open>\<open>'&ref_' + duplicateIndex\<close> before a block, followed by a space before a flow collection.\<close>

definition anchored :: "nat option \<Rightarrow> bool \<Rightarrow> dstate \<Rightarrow> dstate" where
  "anchored duplicate is_block st =
     (case duplicate of
        None \<Rightarrow> st
      | Some i \<Rightarrow>
          st\<lparr>d_dump := Str (jstr ''&'' @ ref_name i @ (if is_block then [] else [CHAR_SPACE]) @ dumped st)\<rparr>)"

definition tagged :: "dstate \<Rightarrow> dstate" where
  "tagged st =
     (case d_tag st of
        Some t \<Rightarrow>
          (if t \<noteq> jstr ''?'' then st\<lparr>d_dump := Str (jstr ''!<'' @ t @ jstr ''> '' @ dumped st)\<rparr> else st)
      | None \<Rightarrow> st)"

text \<open>The text of a value that is not written as an alias; false where it cannot be written.\<close>

definition write_value :: "host \<Rightarrow> heap \<Rightarrow> node_writer \<Rightarrow> dstate \<Rightarrow> nat \<Rightarrow> nat option \<Rightarrow> bool \<Rightarrow> bool
    \<Rightarrow> bool \<Rightarrow> (bool \<times> dstate) yres" where
  "write_value w h write st level duplicate block is_compact iskey =
     (case d_dump st of
        Str s \<Rightarrow>
          (if d_tag st \<noteq> Some (jstr ''?'')
           then bind_res (writeScalar w h st s level iskey) (\<lambda>st1. Inr (True, st1))
           else Inr (True, st))
      | v \<Rightarrow>
        (case cell_of h v of
           Some (Obj ps) \<Rightarrow>
             (if block \<and> ps \<noteq> []
              then bind_res (writeBlockMapping write st level ps is_compact)
                     (\<lambda>st1. Inr (True, anchored duplicate True st1))
              else bind_res (writeFlowMapping write st level ps)
                     (\<lambda>st1. Inr (True, anchored duplicate False st1)))
         | Some (Arr vs) \<Rightarrow>
             (if block \<and> vs \<noteq> []
              then bind_res (writeBlockSequence write st level vs is_compact)
                     (\<lambda>st1. Inr (True, anchored duplicate True st1))
              else bind_res (writeFlowSequence write st level vs)
                     (\<lambda>st1. Inr (True, anchored duplicate False st1)))
         | _ \<Rightarrow>
             if d_skipInvalid st then Inr (False, st)
             else yaml_exception (jstr ''unacceptable kind of an object to dump '' @ class_name h v)))"

definition is_collection :: "heap \<Rightarrow> jsval \<Rightarrow> bool" where
  "is_collection h v =
     (case cell_of h v of Some (Obj ps) \<Rightarrow> True | Some (Arr vs) \<Rightarrow> True | _ \<Rightarrow> False)"

definition node_body :: "host \<Rightarrow> heap \<Rightarrow> node_writer \<Rightarrow> node_writer" where
  "node_body w h write st level object block is_compact iskey =
     bind_res (detectType w h (st\<lparr>d_tag := None, d_dump := object\<rparr>) object False) (\<lambda>(found, st1).
     bind_res (if found then Inr (True, st1) else detectType w h st1 object True) (\<lambda>(_, st2).
       let block1 = (block \<and> (d_flowLevel st2 < 0 \<or> d_flowLevel st2 > int level));
           duplicate = (if is_collection h (d_dump st2) then index_of object (d_duplicates st2) else None);
           compact1 = (is_compact \<and> \<not> (has_tag st2 \<or> duplicate \<noteq> None \<or> d_indent st2 \<noteq> 2 \<and> level > 0))
       in case duplicate of
            Some i \<Rightarrow>
              (if d_usedDuplicates st2 ! i then Inr (True, st2\<lparr>d_dump := Str (jstr ''*'' @ ref_name i)\<rparr>)
               else
                 bind_res (write_value w h write
                   (st2\<lparr>d_usedDuplicates := (d_usedDuplicates st2)[i := True]\<rparr>) level duplicate block1
                   compact1 iskey) (\<lambda>(ok, st3). Inr (ok, if ok then tagged st3 else st3)))
          | None \<Rightarrow>
              bind_res (write_value w h write st2 level duplicate block1 compact1 iskey)
                (\<lambda>(ok, st3). Inr (ok, if ok then tagged st3 else st3))))"

primrec writeNode :: "nat \<Rightarrow> host \<Rightarrow> heap \<Rightarrow> node_writer" where
  "writeNode 0 w h = (\<lambda>st level object block is_compact iskey. Inl Diverges)"
| "writeNode (Suc n) w h = node_body w h (writeNode n w h)"

section \<open>Objects that occur more than once\<close>

text \<open>The values that an object holds, in the order of \<open>Object.keys\<close> or of the array.\<close>

definition children :: "heap \<Rightarrow> jsval \<Rightarrow> jsval list" where
  "children h v =
     (case cell_of h v of None \<Rightarrow> [] | Some (Arr vs) \<Rightarrow> vs | Some c \<Rightarrow> map snd (own_props c))"

fun inspect_all :: "(jsval \<Rightarrow> jsval list \<times> nat list \<Rightarrow> (jsval list \<times> nat list) yres) \<Rightarrow> jsval list
    \<Rightarrow> jsval list \<times> nat list \<Rightarrow> (jsval list \<times> nat list) yres" where
  "inspect_all inspect [] acc = Inr acc"
| "inspect_all inspect (v # vs) acc = bind_res (inspect v acc) (inspect_all inspect vs)"

primrec inspectNode :: "nat \<Rightarrow> heap \<Rightarrow> jsval \<Rightarrow> jsval list \<times> nat list
    \<Rightarrow> (jsval list \<times> nat list) yres" where
  "inspectNode 0 h = (\<lambda>object acc. Inl Diverges)"
| "inspectNode (Suc n) h = (\<lambda>object (objects, duplicatesIndexes).
     if isObject h object then
       (case index_of object objects of
          Some index \<Rightarrow>
            Inr (objects, if index \<in> set duplicatesIndexes then duplicatesIndexes
                          else duplicatesIndexes @ [index])
        | None \<Rightarrow>
            inspect_all (inspectNode n h) (children h object) (objects @ [object], duplicatesIndexes))
     else Inr (objects, duplicatesIndexes))"

text \<open>Enough for the depth of the recursion: every level but the last adds an object.\<close>

definition depth_bound :: "heap \<Rightarrow> nat" where
  "depth_bound h = length h + 2"

definition getDuplicateReferences :: "heap \<Rightarrow> jsval \<Rightarrow> dstate \<Rightarrow> dstate yres" where
  "getDuplicateReferences h object st =
     bind_res (inspectNode (depth_bound h) h object ([], [])) (\<lambda>(objects, duplicatesIndexes).
       Inr (st\<lparr>d_duplicates := d_duplicates st @ map (\<lambda>i. objects ! i) duplicatesIndexes,
               d_usedDuplicates := replicate (length duplicatesIndexes) False\<rparr>))"

section \<open>Entry points\<close>

definition dump :: "host \<Rightarrow> heap \<Rightarrow> jsval \<Rightarrow> dump_options \<Rightarrow> jsstring yres" where
  "dump w h inp options =
     bind_res (new_dumper options) (\<lambda>st.
     bind_res (if d_noRefs st then Inr st else getDuplicateReferences h inp st) (\<lambda>st1.
     bind_res (writeNode (depth_bound h) w h st1 0 inp True True False) (\<lambda>(ok, st2).
       Inr (if ok then dumped st2 @ LF else []))))"

definition safe_dump_options :: "dump_options \<Rightarrow> dump_options" where
  "safe_dump_options options =
     options\<lparr>dopt_schema := (case dopt_schema options of
                               None \<Rightarrow> Some (Some default_safe_schema) | Some s \<Rightarrow> Some s)\<rparr>"

definition safeDump :: "host \<Rightarrow> heap \<Rightarrow> jsval \<Rightarrow> dump_options \<Rightarrow> jsstring yres" where
  "safeDump w h inp options = dump w h inp (safe_dump_options options)"

end
