(* ===== verification/YamlReferences.thy ===== *)
theory YamlReferences
  imports YamlDumper
begin

text \<open>
  The search for objects that occur more than once (\<open>getDuplicateReferences\<close> and
  \<open>inspectNode\<close>): it ends on every heap, cyclic ones included, meets exactly the objects
  that can be reached, and finds those that are referred to at least twice.
\<close>

section \<open>Objects and references\<close>

lemma isObject_Ref: "isObject h v \<Longrightarrow> \<exists>r < length h. v = Ref r"
  by (auto simp: isObject_def cell_of_def split: jsval.splits if_splits option.splits)

text \<open>A list of distinct objects is not longer than the heap.\<close>

lemma objects_bound:
  assumes "distinct objs" "\<forall>v \<in> set objs. isObject h v"
  shows "length objs \<le> length h"
proof -
  have "set objs \<subseteq> Ref ` {..<length h}" using assms(2) isObject_Ref by blast
  then have "card (set objs) \<le> card (Ref ` {..<length h})" by (intro card_mono) auto
  also have "\<dots> \<le> length h" using card_image_le [of "{..<length h}" Ref] by simp
  finally show ?thesis using distinct_card [OF assms(1)] by simp
qed

lemma index_of_Some: "index_of x xs = Some i \<Longrightarrow> i < length xs \<and> xs ! i = x"
  by (induction xs arbitrary: i) (auto split: if_splits)

lemma index_of_None: "index_of x xs = None \<longleftrightarrow> x \<notin> set xs"
  by (induction xs) auto

text \<open>The objects that a value leads to.\<close>

inductive reachable :: "heap \<Rightarrow> jsval \<Rightarrow> jsval \<Rightarrow> bool" for h origin where
  start: "isObject h origin \<Longrightarrow> reachable h origin origin"
| step: "reachable h origin v \<Longrightarrow> u \<in> set (children h v) \<Longrightarrow> isObject h u \<Longrightarrow> reachable h origin u"

text \<open>How often the given objects refer to an object, the origin counting as one more reference.\<close>

definition references :: "heap \<Rightarrow> jsval list \<Rightarrow> jsval \<Rightarrow> nat" where
  "references h objs r = sum_list (map (\<lambda>v. count_list (children h v) r) objs)"

definition occurrences :: "heap \<Rightarrow> jsval \<Rightarrow> jsval list \<Rightarrow> jsval \<Rightarrow> nat" where
  "occurrences h origin objs r = (if r = origin then 1 else 0) + references h objs r"

lemma references_simps [simp]:
  "references h [] r = 0"
  "references h (v # vs) r = count_list (children h v) r + references h vs r"
  "references h (us @ vs) r = references h us r + references h vs r"
  by (simp_all add: references_def)

lemma references_member: "v \<in> set objs \<Longrightarrow> count_list (children h v) r \<le> references h objs r"
  by (induction objs) auto

lemma references_two:
  "u \<in> set objs \<Longrightarrow> v \<in> set objs \<Longrightarrow> u \<noteq> v \<Longrightarrow>
     count_list (children h u) r + count_list (children h v) r \<le> references h objs r"
  by (induction objs) (auto dest: references_member [of _ _ h r])

lemma count_list_pos: "x \<in> set xs \<Longrightarrow> 1 \<le> count_list xs x"
  by (induction xs) auto

section \<open>The search\<close>

text \<open>
  \<open>seen r\<close> counts the visits of an object so far: the list of objects holds what was visited,
  the list of indices what was visited again.
\<close>

definition counted :: "heap \<Rightarrow> (jsval \<Rightarrow> bool) \<Rightarrow> jsval list \<times> nat list \<Rightarrow> (jsval \<Rightarrow> nat) \<Rightarrow> bool" where
  "counted h R acc seen \<longleftrightarrow>
     (case acc of (objs, dups) \<Rightarrow>
        distinct objs \<and> (\<forall>v \<in> set objs. isObject h v \<and> R v)
      \<and> distinct dups \<and> (\<forall>i \<in> set dups. i < length objs)
      \<and> (\<forall>r. isObject h r \<longrightarrow> (r \<in> set objs \<longleftrightarrow> 1 \<le> seen r)
                                \<and> (r \<in> (!) objs ` set dups \<longleftrightarrow> 2 \<le> seen r)))"

lemma counted_cong:
  "(\<And>r. isObject h r \<Longrightarrow> seen r = seen' r) \<Longrightarrow> counted h R acc seen = counted h R acc seen'"
  by (auto simp: counted_def split: prod.splits)

lemma counted_new:
  assumes "counted h R (objs, dups) seen" "isObject h v" "R v" "v \<notin> set objs"
  shows "counted h R (objs @ [v], dups) (\<lambda>r. seen r + (if r = v then 1 else 0))"
proof -
  have "(!) (objs @ [v]) ` set dups = (!) objs ` set dups"
    using assms(1) by (auto simp: counted_def nth_append intro!: image_cong)
  moreover have "seen v = 0" using assms by (auto simp: counted_def not_le)
  ultimately show ?thesis using assms by (auto simp: counted_def)
qed

lemma counted_again:
  assumes "counted h R (objs, dups) seen" "index_of v objs = Some i" "isObject h v"
  shows "counted h R (objs, if i \<in> set dups then dups else dups @ [i])
           (\<lambda>r. seen r + (if r = v then 1 else 0))"
proof -
  note i = index_of_Some [OF assms(2)]
  have "distinct objs" using assms(1) by (simp add: counted_def)
  then have mem: "v \<in> (!) objs ` set dups \<longleftrightarrow> i \<in> set dups"
    using i assms(1) by (auto simp: counted_def nth_eq_iff_index_eq)
  have "1 \<le> seen v" using assms i by (auto simp: counted_def)
  moreover have "i \<in> set dups \<longleftrightarrow> 2 \<le> seen v" using assms(1,3) mem by (simp add: counted_def)
  ultimately show ?thesis using assms(1) i by (auto simp: counted_def)
qed

text \<open>What one visit adds; the same for a list of values.\<close>

definition visited :: "heap \<Rightarrow> (jsval \<Rightarrow> bool) \<Rightarrow> jsval list \<Rightarrow> jsval list \<times> nat list \<Rightarrow> (jsval \<Rightarrow> nat)
    \<Rightarrow> (jsval list \<times> nat list) yres \<Rightarrow> bool" where
  "visited h R vs acc seen res \<longleftrightarrow>
     (\<exists>new dups. res = Inr (fst acc @ new, dups) \<and>
        counted h R (fst acc @ new, dups) (\<lambda>r. seen r + count_list vs r + references h new r))"

lemma inspect_all_visited:
  assumes one: "\<And>v objs dups seen. v \<in> set vs \<Longrightarrow> counted h R (objs, dups) seen \<Longrightarrow> m \<le> length objs \<Longrightarrow>
      visited h R [v] (objs, dups) seen (inspect v (objs, dups))"
    and "counted h R (objs, dups) seen" "m \<le> length objs"
  shows "visited h R vs (objs, dups) seen (inspect_all inspect vs (objs, dups))"
  using assms
proof (induction vs arbitrary: objs dups seen)
  case Nil
  then show ?case by (simp add: visited_def)
next
  case (Cons v vs)
  from Cons.prems(1) [OF _ Cons.prems(2,3), of v] obtain new dups1
    where 1: "inspect v (objs, dups) = Inr (objs @ new, dups1)"
      and 2: "counted h R (objs @ new, dups1) (\<lambda>r. seen r + count_list [v] r + references h new r)"
    by (auto simp: visited_def)
  have "visited h R vs (objs @ new, dups1) (\<lambda>r. seen r + count_list [v] r + references h new r)
      (inspect_all inspect vs (objs @ new, dups1))"
    by (rule Cons.IH [OF Cons.prems(1) 2]) (use Cons.prems(3) in auto)
  then obtain new2 dups2
    where 3: "inspect_all inspect vs (objs @ new, dups1) = Inr (objs @ new @ new2, dups2)"
      and 4: "counted h R (objs @ new @ new2, dups2)
            (\<lambda>r. seen r + count_list [v] r + references h new r + count_list vs r + references h new2 r)"
    by (auto simp: visited_def)
  have "counted h R (objs @ new @ new2, dups2)
      (\<lambda>r. seen r + count_list (v # vs) r + references h (new @ new2) r)"
    using 4 by (rule counted_cong [THEN iffD1, rotated]) simp
  with 1 3 show ?case by (auto simp: visited_def)
qed

lemma inspectNode_visited:
  assumes "\<And>u x. R u \<Longrightarrow> x \<in> set (children h u) \<Longrightarrow> isObject h x \<Longrightarrow> R x"
    and "isObject h v \<Longrightarrow> R v" "counted h R (objs, dups) seen" "length h < length objs + n"
  shows "visited h R [v] (objs, dups) seen (inspectNode n h v (objs, dups))"
  using assms(2-)
proof (induction n arbitrary: v objs dups seen)
  case 0
  then have "length objs \<le> length h" by (intro objects_bound) (auto simp: counted_def)
  with 0 show ?case by simp
next
  case (Suc n)
  have same: "counted h R acc (\<lambda>r. seen r + (if r = v then 1 else 0)) \<longleftrightarrow>
      counted h R acc (\<lambda>r. seen r + count_list [v] r)" for acc
    by (rule counted_cong) simp
  show ?case
  proof (cases "isObject h v")
    case False
    then have "counted h R (objs, dups) (\<lambda>r. seen r + count_list [v] r)"
      using Suc.prems(2) by (subst counted_cong [where seen' = seen]) auto
    with False show ?thesis by (simp add: visited_def)
  next
    case obj: True
    show ?thesis
    proof (cases "index_of v objs")
      case (Some i)
      from counted_again [OF Suc.prems(2) Some obj] Some obj show ?thesis
        by (simp add: visited_def same)
    next
      case None
      have "counted h R (objs @ [v], dups) (\<lambda>r. seen r + count_list [v] r)"
        using counted_new [OF Suc.prems(2) obj Suc.prems(1) [OF obj]] None by (simp add: index_of_None same)
      then have "visited h R (children h v) (objs @ [v], dups) (\<lambda>r. seen r + count_list [v] r)
          (inspect_all (inspectNode n h) (children h v) (objs @ [v], dups))"
      proof (rule inspect_all_visited [where m = "length objs + 1", rotated])
        fix u objs' dups' and seen' :: "jsval \<Rightarrow> nat"
        assume "u \<in> set (children h v)" "counted h R (objs', dups') seen'" "length objs + 1 \<le> length objs'"
        then show "visited h R [u] (objs', dups') seen' (inspectNode n h u (objs', dups'))"
          using Suc.prems(1,3) obj assms(1) by (intro Suc.IH) auto
      qed simp
      then obtain new dups1
        where 1: "inspect_all (inspectNode n h) (children h v) (objs @ [v], dups) = Inr (objs @ v # new, dups1)"
          and 2: "counted h R (objs @ v # new, dups1)
                (\<lambda>r. seen r + count_list [v] r + count_list (children h v) r + references h new r)"
        by (auto simp: visited_def)
      have "counted h R (objs @ v # new, dups1)
          (\<lambda>r. seen r + count_list [v] r + references h (v # new) r)"
        using 2 by (rule counted_cong [THEN iffD1, rotated]) simp
      with 1 None obj show ?thesis by (auto simp: visited_def)
    qed
  qed
qed

text \<open>The outcome of the search, as the writers need it.\<close>

lemma duplicates_counted:
  "\<exists>objs ds. distinct objs \<and> set objs = {v. reachable h origin v}
     \<and> distinct ds \<and> set ds = {r \<in> set objs. 2 \<le> occurrences h origin objs r}
     \<and> getDuplicateReferences h origin st =
         Inr (st\<lparr>d_duplicates := d_duplicates st @ ds,
                 d_usedDuplicates := replicate (length ds) False\<rparr>)"
proof -
  let ?R = "reachable h origin"
  have "counted h ?R ([], []) (\<lambda>r. 0)" by (simp add: counted_def)
  then have "visited h ?R [origin] ([], []) (\<lambda>r. 0) (inspectNode (depth_bound h) h origin ([], []))"
    by (intro inspectNode_visited) (auto intro: reachable.intros simp: depth_bound_def)
  then obtain objs dups where eq: "inspectNode (depth_bound h) h origin ([], []) = Inr (objs, dups)"
    and c: "counted h ?R (objs, dups) (\<lambda>r. count_list [origin] r + references h objs r)"
    by (auto simp: visited_def)
  have occ: "count_list [origin] r + references h objs r = occurrences h origin objs r" for r
    by (simp add: occurrences_def)
  have objs: "distinct objs" "\<forall>v \<in> set objs. isObject h v \<and> ?R v"
    and dups: "distinct dups" "\<forall>i \<in> set dups. i < length objs"
    and in_objs: "isObject h r \<Longrightarrow> r \<in> set objs \<longleftrightarrow> 1 \<le> occurrences h origin objs r"
    and in_dups: "isObject h r \<Longrightarrow> r \<in> (!) objs ` set dups \<longleftrightarrow> 2 \<le> occurrences h origin objs r" for r
    using c unfolding counted_def occ by auto
  have "v \<in> set objs" if "?R v" for v
    using that
  proof induction
    case start
    then show ?case using in_objs by (simp add: occurrences_def)
  next
    case (step v u)
    then have "1 \<le> references h objs u"
      using references_member [of v objs h u] count_list_pos [of u "children h v"] by simp
    with step in_objs [of u] show ?case by (simp add: occurrences_def)
  qed
  with objs have reach: "set objs = {v. ?R v}" by auto
  let ?ds = "map (\<lambda>i. objs ! i) dups"
  have "distinct ?ds" using objs(1) dups by (auto simp: distinct_map inj_on_def nth_eq_iff_index_eq)
  moreover have "set ?ds = {r \<in> set objs. 2 \<le> occurrences h origin objs r}"
    using objs dups(2) in_dups by (auto simp: image_iff) (metis imageE nth_mem)+
  ultimately have "distinct objs \<and> set objs = {v. ?R v} \<and> distinct ?ds
      \<and> set ?ds = {r \<in> set objs. 2 \<le> occurrences h origin objs r}
      \<and> getDuplicateReferences h origin st =
          Inr (st\<lparr>d_duplicates := d_duplicates st @ ?ds,
                  d_usedDuplicates := replicate (length ?ds) False\<rparr>)"
    using objs(1) reach eq by (simp add: getDuplicateReferences_def)
  then show ?thesis by blast
qed

text \<open>
  C21: On every heap, also a cyclic one, the search for duplicate references ends without an
  error. It visits exactly the objects that can be reached from the value, each once, and what it
  adds to the state are exactly those of them to which there are at least two references, the
  call itself counting as a reference to the value; none of them is marked as written yet.
\<close>

theorem duplicates_are_shared:
  "\<exists>objs ds. distinct objs \<and> set objs = {v. reachable h origin v}
     \<and> distinct ds \<and> set ds = {r \<in> set objs. 2 \<le> occurrences h origin objs r}
     \<and> getDuplicateReferences h origin st =
         Inr (st\<lparr>d_duplicates := d_duplicates st @ ds,
                 d_usedDuplicates := replicate (length ds) False\<rparr>)"
  by (rule duplicates_counted)

end
