(* ===== verification/YamlWriters.thy ===== *)
theory YamlWriters
  imports YamlReferences
begin

text \<open>
  What the writers of the dumper keep of the state, and why they end: the contract of
  \<open>writeNode\<close> as a locale, the writers of collections proved from it, and the induction
  that gives it for \<open>writeNode\<close> itself. The depth of the recursion is bounded because no
  path through the objects can meet an object again that is not written as an alias there.
\<close>

section \<open>Results up to errors\<close>

text \<open>The result satisfies \<open>P\<close>, or is one of the errors \<open>E\<close>.\<close>

definition ends_in :: "(yaml_error \<Rightarrow> bool) \<Rightarrow> ('a \<Rightarrow> bool) \<Rightarrow> 'a yres \<Rightarrow> bool" where
  "ends_in E P m = (case m of Inl e \<Rightarrow> E e | Inr x \<Rightarrow> P x)"

lemma ends_in_simps [simp]: "ends_in E P (Inr x) = P x" "ends_in E P (Inl e) = E e"
  by (simp_all add: ends_in_def)

lemma ends_in_bind: "ends_in E Q m \<Longrightarrow> (\<And>x. Q x \<Longrightarrow> ends_in E P (f x)) \<Longrightarrow> ends_in E P (bind_res m f)"
  by (cases m) auto

lemma ends_in_mono: "ends_in E Q m \<Longrightarrow> (\<And>x. Q x \<Longrightarrow> P x) \<Longrightarrow> ends_in E P m"
  by (cases m) auto

section \<open>What the writers keep\<close>

text \<open>The part of the state that no writer changes, and the marks of written objects.\<close>

definition fixed :: "dstate \<Rightarrow> dstate" where
  "fixed st = st\<lparr>d_tag := None, d_dump := Undef, d_usedDuplicates := []\<rparr>"

definition keeps :: "dstate \<Rightarrow> dstate \<Rightarrow> bool" where
  "keeps st st' \<longleftrightarrow> fixed st' = fixed st \<and>
     list_all2 (\<lambda>a b. a \<longrightarrow> b) (d_usedDuplicates st) (d_usedDuplicates st')"

lemma fixed_update [simp]:
  "fixed (st\<lparr>d_tag := t\<rparr>) = fixed st" "fixed (st\<lparr>d_dump := v\<rparr>) = fixed st"
  "fixed (st\<lparr>d_usedDuplicates := u\<rparr>) = fixed st"
  by (simp_all add: fixed_def)

lemma fixed_fields [simp]:
  "d_implicitTypes (fixed st) = d_implicitTypes st" "d_explicitTypes (fixed st) = d_explicitTypes st"
  "d_styleMap (fixed st) = d_styleMap st" "d_sortKeys (fixed st) = d_sortKeys st"
  "d_skipInvalid (fixed st) = d_skipInvalid st" "d_duplicates (fixed st) = d_duplicates st"
  "d_indent (fixed st) = d_indent st" "d_flowLevel (fixed st) = d_flowLevel st"
  "d_lineWidth (fixed st) = d_lineWidth st" "d_noCompatMode (fixed st) = d_noCompatMode st"
  by (simp_all add: fixed_def)

lemma keeps_refl [simp]: "keeps st st"
  by (simp add: keeps_def list.rel_refl)

lemma keeps_trans: "keeps a b \<Longrightarrow> keeps b c \<Longrightarrow> keeps a c"
  by (auto simp: keeps_def intro: list_all2_trans [where ?P1.0 = "\<lambda>a b. a \<longrightarrow> b" and ?P2.0 = "\<lambda>a b. a \<longrightarrow> b"])

lemma keeps_skipInvalid: "keeps st st' \<Longrightarrow> d_skipInvalid st' = d_skipInvalid st"
  using fixed_fields(5) [of st] fixed_fields(5) [of st'] by (simp add: keeps_def)

lemma keeps_update [simp]:
  "keeps st (st'\<lparr>d_tag := t\<rparr>) = keeps st st'" "keeps st (st'\<lparr>d_dump := v\<rparr>) = keeps st st'"
  "keeps (st\<lparr>d_tag := t\<rparr>) st' = keeps st st'" "keeps (st\<lparr>d_dump := v\<rparr>) st' = keeps st st'"
  by (simp_all add: keeps_def)

lemma keeps_mark [simp]: "keeps st (st\<lparr>d_usedDuplicates := (d_usedDuplicates st)[i := True]\<rparr>)"
  by (cases "i < length (d_usedDuplicates st)")
    (auto simp: keeps_def list_all2_conv_all_nth nth_list_update)

definition is_text :: "dstate \<Rightarrow> bool" where
  "is_text st \<longleftrightarrow> (\<exists>s. d_dump st = Str s)"

lemma is_text_update [simp]:
  "is_text (st\<lparr>d_tag := t\<rparr>) = is_text st" "is_text (st\<lparr>d_dump := Str s\<rparr>)"
  by (simp_all add: is_text_def)

lemma keeps_anchored [simp]: "keeps st (anchored d b st') = keeps st st'"
  by (simp add: anchored_def split: option.split)

lemma is_text_anchored [simp]: "is_text st \<Longrightarrow> is_text (anchored d b st)"
  by (simp add: anchored_def split: option.split)

lemma keeps_tagged [simp]: "keeps st (tagged st') = keeps st st'"
  by (simp add: tagged_def split: option.split)

lemma is_text_tagged [simp]: "is_text st \<Longrightarrow> is_text (tagged st)"
  by (simp add: tagged_def split: option.split)

section \<open>The contract of the writer of nodes\<close>

text \<open>
  \<open>Pre st v\<close> is what the client has to provide for a value; it stays true along
  \<open>keeps\<close>. The writer ends in one of the errors \<open>E\<close>, or keeps the state and, if it returns
  true, leaves a text; it returns false only where invalid values are to be skipped.
\<close>

definition node_written :: "dstate \<Rightarrow> bool \<times> dstate \<Rightarrow> bool" where
  "node_written st = (\<lambda>(ok, st'). keeps st st' \<and> (if ok then is_text st' else d_skipInvalid st))"

locale node_writing =
  fixes writer :: node_writer
    and E :: "yaml_error \<Rightarrow> bool"
    and Pre :: "dstate \<Rightarrow> jsval \<Rightarrow> bool"
  assumes written: "Pre st v \<Longrightarrow> ends_in E (node_written st) (writer st level v block is_compact iskey)"
    and Pre_keeps: "Pre st v \<Longrightarrow> keeps st st' \<Longrightarrow> Pre st' v"
begin

lemma flow_elements_written:
  "\<forall>v \<in> set vs. Pre st v \<Longrightarrow>
     ends_in E (\<lambda>(acc', st'). keeps st st') (flow_elements writer level index vs acc st)"
proof (induction vs arbitrary: index acc st)
  case (Cons v vs)
  from Cons.prems have "ends_in E (node_written st) (writer st level v False False False)"
    by (intro written) simp
  then show ?case
    unfolding flow_elements.simps
  proof (rule ends_in_bind, clarify)
    fix ok st1
    assume st1: "node_written st (ok, st1)"
    then have "\<forall>v \<in> set vs. Pre st1 v" using Cons.prems by (auto simp: node_written_def intro: Pre_keeps)
    from Cons.IH [OF this] show "ends_in E (\<lambda>(acc', st'). keeps st st')
        (flow_elements writer level (Suc index) vs
          (if ok then acc @ (if index \<noteq> 0 then jstr '', '' else []) @ dumped st1 else acc) st1)"
      by (rule ends_in_mono) (use st1 in \<open>auto simp: node_written_def intro: keeps_trans\<close>)
  qed
qed simp

lemma block_elements_written:
  "\<forall>v \<in> set vs. Pre st v \<Longrightarrow>
     ends_in E (\<lambda>(acc', st'). keeps st st') (block_elements writer level is_compact index vs acc st)"
proof (induction vs arbitrary: index acc st)
  case (Cons v vs)
  from Cons.prems have "ends_in E (node_written st) (writer st (level + 1) v True True False)"
    by (intro written) simp
  then show ?case
    unfolding block_elements.simps
  proof (rule ends_in_bind, clarify)
    fix ok st1
    assume st1: "node_written st (ok, st1)"
    then have "\<forall>v \<in> set vs. Pre st1 v" using Cons.prems by (auto simp: node_written_def intro: Pre_keeps)
    from Cons.IH [OF this] show "ends_in E (\<lambda>(acc', st'). keeps st st')
        (block_elements writer level is_compact (Suc index) vs
          (if ok then acc @ (if \<not> is_compact \<or> index \<noteq> 0 then generateNextLine st1 level else [])
             @ jstr ''- '' @ dumped st1 else acc) st1)"
      by (rule ends_in_mono) (use st1 in \<open>auto simp: node_written_def intro: keeps_trans\<close>)
  qed
qed simp

text \<open>A pair: the key is written first, then the value in the state that the key has left.\<close>

lemma key_value_written:
  assumes "Pre st (Str k)" "Pre st v"
    and "\<And>st1. keeps st st1 \<Longrightarrow> ends_in E (\<lambda>(b, st'). keeps st1 st') (Inr (skip1, st1))"
    and "\<And>st1 st2 ok2. keeps st st1 \<Longrightarrow> node_written st1 (ok2, st2) \<Longrightarrow>
      ends_in E (\<lambda>(b, st'). keeps st2 st') (rest st1 ok2 st2)"
  shows "ends_in E (\<lambda>(b, st'). keeps st st')
    (bind_res (writer st l1 (Str k) b1 c1 i1) (\<lambda>(ok, st1).
       if \<not> ok then Inr (skip1, st1)
       else bind_res (writer st1 l2 v b2 (c2 st1) i2) (\<lambda>(ok2, st2). rest st1 ok2 st2)))"
  using written [OF assms(1)]
proof (rule ends_in_bind, clarify)
  fix ok st1
  assume st1: "node_written st (ok, st1)"
  then have k1: "keeps st st1" by (simp add: node_written_def)
  have "ends_in E (\<lambda>(b, st'). keeps st st')
      (bind_res (writer st1 l2 v b2 (c2 st1) i2) (\<lambda>(ok2, st2). rest st1 ok2 st2))"
    using written [OF Pre_keeps [OF assms(2) k1]]
  proof (rule ends_in_bind, clarify)
    fix ok2 st2
    assume st2: "node_written st1 (ok2, st2)"
    then have "keeps st st2" using k1 by (auto simp: node_written_def intro: keeps_trans)
    with assms(4) [OF k1 st2] show "ends_in E (\<lambda>(b, st'). keeps st st') (rest st1 ok2 st2)"
      by (auto elim!: ends_in_mono intro: keeps_trans)
  qed
  with k1 show "ends_in E (\<lambda>(b, st'). keeps st st')
      (if \<not> ok then Inr (skip1, st1)
       else bind_res (writer st1 l2 v b2 (c2 st1) i2) (\<lambda>(ok2, st2). rest st1 ok2 st2))"
    by simp
qed

lemma flow_pair_written:
  "Pre st (Str k) \<Longrightarrow> Pre st v \<Longrightarrow>
     ends_in E (\<lambda>(b, st'). keeps st st') (flow_pair writer level index k v st)"
  unfolding flow_pair_def Let_def by (rule key_value_written) auto

lemma block_pair_written:
  "Pre st (Str k) \<Longrightarrow> Pre st v \<Longrightarrow>
     ends_in E (\<lambda>(b, st'). keeps st st') (block_pair writer level is_compact index k v st)"
  unfolding block_pair_def Let_def by (rule key_value_written) auto

lemma flow_pairs_written:
  "\<forall>(k, v) \<in> set ps. Pre st (Str k) \<and> Pre st v \<Longrightarrow>
     ends_in E (\<lambda>(acc', st'). keeps st st') (flow_pairs writer level index ps acc st)"
proof (induction ps arbitrary: index acc st)
  case (Cons p ps)
  obtain k v where p: "p = (k, v)" by (cases p)
  with Cons.prems have "ends_in E (\<lambda>(b, st'). keeps st st') (flow_pair writer level index k v st)"
    by (intro flow_pair_written) auto
  then show ?case
    unfolding flow_pairs.simps p
  proof (rule ends_in_bind, clarify)
    fix b st1
    assume st1: "keeps st st1"
    have "ends_in E (\<lambda>(acc', st'). keeps st1 st') (flow_pairs writer level (Suc index) ps acc1 st1)" for acc1
      using Cons.prems st1 by (intro Cons.IH) (auto intro: Pre_keeps)
    then show "ends_in E (\<lambda>(acc', st'). keeps st st') (flow_pairs writer level (Suc index) ps
        (case b of None \<Rightarrow> acc | Some t \<Rightarrow> acc @ t) st1)"
      by (rule ends_in_mono) (use st1 in \<open>auto intro: keeps_trans\<close>)
  qed
qed simp

lemma block_pairs_written:
  "\<forall>(k, v) \<in> set ps. Pre st (Str k) \<and> Pre st v \<Longrightarrow>
     ends_in E (\<lambda>(acc', st'). keeps st st') (block_pairs writer level is_compact index ps acc st)"
proof (induction ps arbitrary: index acc st)
  case (Cons p ps)
  obtain k v where p: "p = (k, v)" by (cases p)
  with Cons.prems have "ends_in E (\<lambda>(b, st'). keeps st st') (block_pair writer level is_compact index k v st)"
    by (intro block_pair_written) auto
  then show ?case
    unfolding block_pairs.simps p
  proof (rule ends_in_bind, clarify)
    fix b st1
    assume st1: "keeps st st1"
    have "ends_in E (\<lambda>(acc', st'). keeps st1 st')
        (block_pairs writer level is_compact (Suc index) ps acc1 st1)" for acc1
      using Cons.prems st1 by (intro Cons.IH) (auto intro: Pre_keeps)
    then show "ends_in E (\<lambda>(acc', st'). keeps st st') (block_pairs writer level is_compact (Suc index) ps
        (case b of None \<Rightarrow> acc | Some t \<Rightarrow> acc @ t) st1)"
      by (rule ends_in_mono) (use st1 in \<open>auto intro: keeps_trans\<close>)
  qed
qed simp

text \<open>The four writers of collections.\<close>

lemma sequences_written:
  assumes "\<forall>v \<in> set vs. Pre st v"
  shows "ends_in E (\<lambda>st'. keeps st st' \<and> is_text st') (writeFlowSequence writer st level vs)"
    "ends_in E (\<lambda>st'. keeps st st' \<and> is_text st') (writeBlockSequence writer st level vs is_compact)"
  unfolding writeFlowSequence_def writeBlockSequence_def
  by (rule ends_in_bind [OF flow_elements_written [OF assms]], auto)
    (rule ends_in_bind [OF block_elements_written [OF assms]], auto)

lemma mappings_written:
  assumes "\<forall>(k, v) \<in> set ps. Pre st (Str k) \<and> Pre st v"
  shows "ends_in E (\<lambda>st'. keeps st st' \<and> is_text st') (writeFlowMapping writer st level ps)"
    "ends_in E (\<lambda>qs. \<forall>(k, v) \<in> set qs. Pre st (Str k) \<and> Pre st v) (ordered_pairs (d_sortKeys st) ps) \<Longrightarrow>
       ends_in E (\<lambda>st'. keeps st st' \<and> is_text st') (writeBlockMapping writer st level ps is_compact)"
proof -
  show "ends_in E (\<lambda>st'. keeps st st' \<and> is_text st') (writeFlowMapping writer st level ps)"
    unfolding writeFlowMapping_def by (rule ends_in_bind [OF flow_pairs_written [OF assms]]) auto
  assume "ends_in E (\<lambda>qs. \<forall>(k, v) \<in> set qs. Pre st (Str k) \<and> Pre st v) (ordered_pairs (d_sortKeys st) ps)"
  then show "ends_in E (\<lambda>st'. keeps st st' \<and> is_text st') (writeBlockMapping writer st level ps is_compact)"
    unfolding writeBlockMapping_def
    by (rule ends_in_bind) (rule ends_in_bind [OF block_pairs_written], assumption, auto)
qed

end

section \<open>Paths through the objects\<close>

text \<open>The objects in which the writer is at a value, from the outermost to the innermost.\<close>

inductive trail :: "heap \<Rightarrow> jsval \<Rightarrow> jsval list \<Rightarrow> jsval \<Rightarrow> bool" for h origin where
  outermost: "trail h origin [] origin"
| inner: "trail h origin path u \<Longrightarrow> isObject h u \<Longrightarrow> v \<in> set (children h u) \<Longrightarrow> trail h origin (path @ [u]) v"

lemma trail_facts:
  assumes "trail h origin path v"
  shows "path = [] \<and> v = origin \<or> path \<noteq> [] \<and> hd path = origin \<and> v \<in> set (children h (last path))"
    and "\<forall>u \<in> set path. isObject h u \<and> reachable h origin u"
    and "\<forall>i. Suc i < length path \<longrightarrow> path ! Suc i \<in> set (children h (path ! i))"
    and "isObject h v \<Longrightarrow> reachable h origin v"
  using assms
proof (induction)
  case (inner path u v)
  {
    case 1
    then show ?case using inner by (auto simp: hd_append)
  next
    case 2
    then show ?case using inner by auto
  next
    case 3
    show ?case
    proof (intro allI impI)
      fix i
      assume "Suc i < length (path @ [u])"
      then consider "Suc i < length path" | "Suc i = length path" by (auto simp: less_Suc_eq)
      then show "(path @ [u]) ! Suc i \<in> set (children h ((path @ [u]) ! i))"
      proof cases
        case 2
        then have "path ! i = last path" by (cases path rule: rev_cases) auto
        with 2 inner show ?thesis by (auto simp: nth_append)
      qed (use inner in \<open>auto simp: nth_append\<close>)
    qed
  next
    case 4
    then show ?case using inner by (auto intro: reachable.intros)
  }
qed (auto intro: reachable.intros)

text \<open>An object that comes back on a path is referred to twice.\<close>

lemma trail_repeat:
  assumes "trail h origin path v" "distinct path" "v \<in> set path" "set path \<subseteq> set objs"
  shows "2 \<le> occurrences h origin objs v"
proof -
  note facts = trail_facts [OF assms(1)]
  from assms(3) obtain i where i: "i < length path" "path ! i = v" by (auto simp: in_set_conv_nth)
  have last: "last path \<in> set objs" "v \<in> set (children h (last path))" "last path = path ! (length path - 1)"
    using facts(1) assms(3,4) i(1) by (auto simp: last_conv_nth)
  note one = count_list_pos [OF last(2)]
  show ?thesis
  proof (cases i)
    case 0
    then have "v = origin" using facts(1) i by (auto simp: hd_conv_nth)
    then show ?thesis using one references_member [OF last(1), of h v] by (simp add: occurrences_def)
  next
    case (Suc j)
    then have "v \<in> set (children h (path ! j))" using facts(3) i by auto
    moreover have "path ! j \<noteq> last path" using Suc i assms(2) by (simp add: last(3) nth_eq_iff_index_eq)
    moreover have "path ! j \<in> set objs" using Suc i assms(4) by auto
    ultimately show ?thesis
      using one references_two [OF _ last(1), of "path ! j" h v] count_list_pos [of v "children h (path ! j)"]
      by (simp add: occurrences_def)
  qed
qed

section \<open>Values that can be written\<close>

text \<open>
  \<open>S\<close> is the part of the state that does not change, \<open>good\<close> the values that the client
  wants to write. After the detection of its type a value is a text (one of the good ones, or the
  text of an implicit type, which is written as it is), or the value is left alone; then it is a
  collection, or the exception about it is tolerated.
\<close>

definition settled :: "heap \<Rightarrow> dstate \<Rightarrow> (yaml_error \<Rightarrow> bool) \<Rightarrow> (jsval \<Rightarrow> bool) \<Rightarrow> jsval \<Rightarrow> dstate \<Rightarrow> bool" where
  "settled h S E good v st \<longleftrightarrow>
     (\<exists>s. d_dump st = Str s \<and> (good (Str s) \<or> d_tag st = Some (jstr ''?'')))
   \<or> d_dump st = v \<and> (is_collection h v \<or> d_skipInvalid S \<or> (\<forall>m. E (YAMLException m None)))"

definition detected :: "host \<Rightarrow> heap \<Rightarrow> dstate \<Rightarrow> jsval \<Rightarrow> (bool \<times> dstate) yres" where
  "detected w h st v =
     bind_res (detectType w h (st\<lparr>d_tag := None, d_dump := v\<rparr>) v False)
       (\<lambda>(found, st1). if found then Inr (True, st1) else detectType w h st1 v True)"

definition pairs_good :: "heap \<Rightarrow> (jsval \<Rightarrow> bool) \<Rightarrow> jsval \<Rightarrow> (jsstring \<times> jsval) list \<Rightarrow> bool" where
  "pairs_good h good v ps \<longleftrightarrow>
     (\<forall>(k, u) \<in> set ps. good (Str k) \<and> good u \<and> (isObject h u \<longrightarrow> u \<in> set (children h v)))"

locale value_dumping =
  fixes w :: host and h :: heap and S :: dstate and E :: "yaml_error \<Rightarrow> bool"
    and good :: "jsval \<Rightarrow> bool"
  assumes detection: "good v \<Longrightarrow> fixed st = S \<Longrightarrow>
      ends_in E (\<lambda>(b, st'). fixed st' = S \<and> d_usedDuplicates st' = d_usedDuplicates st
                   \<and> settled h S E good v st') (detected w h st v)"
    and scalars: "good (Str s) \<Longrightarrow> fixed st = S \<Longrightarrow>
      ends_in E (\<lambda>t. True) (scalar_text w h st s level iskey)"
    and elements: "good v \<Longrightarrow> cell_of h v = Some (Arr vs) \<Longrightarrow> u \<in> set vs \<Longrightarrow> good u"
    and pairs: "good v \<Longrightarrow> cell_of h v = Some (Obj ps) \<Longrightarrow> pairs_good h good v ps"
    and order: "good v \<Longrightarrow> cell_of h v = Some (Obj ps) \<Longrightarrow>
      ends_in E (pairs_good h good v) (ordered_pairs (d_sortKeys S) ps)"
begin

lemma writeScalar_written:
  assumes "good (Str s)" "fixed st = S"
  shows "ends_in E (\<lambda>st'. keeps st st' \<and> is_text st') (writeScalar w h st s level iskey)"
  unfolding writeScalar_def by (rule ends_in_bind [OF scalars [OF assms]]) simp

lemma write_value_written:
  assumes "node_writing writer E P" "good v" "fixed st = S" "settled h S E good v st"
    and P: "\<And>c. d_dump st = v \<Longrightarrow> good c \<Longrightarrow> is_collection h v \<Longrightarrow> (isObject h c \<Longrightarrow> c \<in> set (children h v)) \<Longrightarrow> P st c"
  shows "ends_in E (node_written st) (write_value w h writer st level duplicate block is_compact iskey)"
proof -
  from assms(4) consider (string) s where "d_dump st = Str s" "good (Str s) \<or> d_tag st = Some (jstr ''?'')"
    | (left) "d_dump st = v" "is_collection h v \<or> d_skipInvalid S \<or> (\<forall>m. E (YAMLException m None))"
      "\<nexists>s. d_dump st = Str s"
    using assms(2) by (cases "\<exists>s. d_dump st = Str s") (auto simp: settled_def)
  then show ?thesis
  proof cases
    case string
    then have "is_text st" by (simp add: is_text_def)
    with string show ?thesis
      by (auto simp: write_value_def node_written_def
          intro!: ends_in_bind [OF writeScalar_written [OF _ assms(3)]])
  next
    case left
    have unfold: "write_value w h writer st level duplicate block is_compact iskey =
       (case cell_of h v of
           Some (Obj ps) \<Rightarrow>
             (if block \<and> ps \<noteq> []
              then bind_res (writeBlockMapping writer st level ps is_compact)
                     (\<lambda>st1. Inr (True, anchored duplicate True st1))
              else bind_res (writeFlowMapping writer st level ps)
                     (\<lambda>st1. Inr (True, anchored duplicate False st1)))
         | Some (Arr vs) \<Rightarrow>
             (if block \<and> vs \<noteq> []
              then bind_res (writeBlockSequence writer st level vs is_compact)
                     (\<lambda>st1. Inr (True, anchored duplicate True st1))
              else bind_res (writeFlowSequence writer st level vs)
                     (\<lambda>st1. Inr (True, anchored duplicate False st1)))
         | _ \<Rightarrow>
             if d_skipInvalid st then Inr (False, st)
             else yaml_exception (jstr ''unacceptable kind of an object to dump '' @ class_name h v))"
      using left(1,3) by (cases v) (auto simp: write_value_def split: option.split cell.split)
    have skip: "d_skipInvalid st = d_skipInvalid S" "d_sortKeys st = d_sortKeys S"
      using fixed_fields(5,4) [of st] assms(3) by simp_all
    show ?thesis
    proof (cases "is_collection h v")
      case False
      with left(2) skip show ?thesis
        unfolding unfold
        by (auto simp: node_written_def yaml_exception_def is_collection_def split: option.splits cell.splits)
    next
      case collection: True
      then consider (arr) vs where "cell_of h v = Some (Arr vs)" | (obj) ps where "cell_of h v = Some (Obj ps)"
        by (auto simp: is_collection_def split: option.splits cell.splits)
      then show ?thesis
      proof cases
        case arr
        then have "set (children h v) = set vs" by (simp add: children_def)
        with left(1) collection elements [OF assms(2) arr] P have "\<forall>u \<in> set vs. P st u" by simp
        note s = node_writing.sequences_written [OF assms(1) this]
        show ?thesis unfolding unfold arr
          by (auto simp: node_written_def intro!: ends_in_bind [OF s(1)] ends_in_bind [OF s(2)])
      next
        case obj
        then have all: "pairs_good h good v qs \<Longrightarrow> \<forall>(k, u) \<in> set qs. P st (Str k) \<and> P st u" for qs
          using P left(1) collection by (fastforce simp: pairs_good_def isObject_def cell_of_def)
        note m = node_writing.mappings_written [OF assms(1)]
        have o: "ends_in E (\<lambda>qs. \<forall>(k, u) \<in> set qs. P st (Str k) \<and> P st u) (ordered_pairs (d_sortKeys st) ps)"
          unfolding skip by (rule ends_in_mono [OF order [OF assms(2) obj] all])
        note m1 = m(1) [OF all [OF pairs [OF assms(2) obj]]]
        note m2 = m(2) [OF all [OF pairs [OF assms(2) obj]] o]
        show ?thesis unfolding unfold obj
          by (auto simp: node_written_def intro!: ends_in_bind [OF m1] ends_in_bind [OF m2])
      qed
    qed
  qed
qed

end

section \<open>The induction over the depth\<close>

text \<open>
  The objects to which there are at least two references are in the list of duplicates.
\<close>

definition shared_listed :: "heap \<Rightarrow> jsval \<Rightarrow> dstate \<Rightarrow> bool" where
  "shared_listed h origin S \<longleftrightarrow>
     (\<exists>objs. {v. reachable h origin v} \<subseteq> set objs
        \<and> (\<forall>r \<in> set objs. 2 \<le> occurrences h origin objs r \<longrightarrow> r \<in> set (d_duplicates S)))"

text \<open>
  What holds when a value is written with the bound \<open>n\<close>: the duplicates on the path to it are
  marked as written, and the bound makes up for the objects that are not on the path.
\<close>

definition may_write :: "heap \<Rightarrow> dstate \<Rightarrow> (jsval \<Rightarrow> bool) \<Rightarrow> jsval \<Rightarrow> nat \<Rightarrow> dstate \<Rightarrow> jsval \<Rightarrow> bool" where
  "may_write h S good origin n st v \<longleftrightarrow>
     fixed st = S \<and> shared_listed h origin S \<and> good v \<and> 0 < n
   \<and> length (d_usedDuplicates st) = length (d_duplicates S)
   \<and> (isObject h v \<longrightarrow>
       (\<exists>path. trail h origin path v \<and> distinct path \<and> length h < length path + n
          \<and> (\<forall>u \<in> set path. \<forall>i. index_of u (d_duplicates S) = Some i \<longrightarrow> d_usedDuplicates st ! i)))"

lemma keeps_used:
  assumes "keeps st st'" "index_of u ds = Some i" "length (d_usedDuplicates st) = length ds"
    and "d_usedDuplicates st ! i"
  shows "d_usedDuplicates st' ! i"
  using assms index_of_Some [OF assms(2)] by (auto simp: keeps_def list_all2_conv_all_nth)

lemma may_write_keeps:
  assumes "may_write h S good origin n st v" "keeps st st'"
  shows "may_write h S good origin n st' v"
proof -
  have len: "length (d_usedDuplicates st) = length (d_duplicates S)"
    using assms(1) by (simp add: may_write_def)
  have used: "length (d_usedDuplicates st') = length (d_duplicates S)"
    using assms(2) len by (auto simp: keeps_def dest: list_all2_lengthD)
  note old = keeps_used [OF assms(2) _ len]
  have "fixed st' = S" using assms by (simp add: may_write_def keeps_def)
  with assms(1) used old show ?thesis unfolding may_write_def by blast
qed

text \<open>From a collection that is written now to one of the values in it.\<close>

lemma may_write_child:
  assumes "may_write h S good origin (Suc n) st v" "isObject h v" "keeps st st'"
    and marked: "\<And>i. index_of v (d_duplicates S) = Some i \<Longrightarrow>
      \<not> d_usedDuplicates st ! i \<and> d_usedDuplicates st' ! i"
    and "good c" "isObject h c \<Longrightarrow> c \<in> set (children h v)"
  shows "may_write h S good origin n st' c"
proof -
  note st' = may_write_keeps [OF assms(1,3)]
  obtain path where path: "trail h origin path v" "distinct path" "length h < length path + Suc n"
    and old: "\<forall>u \<in> set path. \<forall>i. index_of u (d_duplicates S) = Some i \<longrightarrow> d_usedDuplicates st ! i"
    using assms(1,2) by (auto simp: may_write_def)
  have shared: "shared_listed h origin S" using assms(1) by (simp add: may_write_def)
  note facts = trail_facts [OF path(1)]
  have "v \<notin> set path"
  proof
    assume v: "v \<in> set path"
    obtain objs where objs: "{v. reachable h origin v} \<subseteq> set objs"
        "\<forall>r \<in> set objs. 2 \<le> occurrences h origin objs r \<longrightarrow> r \<in> set (d_duplicates S)"
      using shared by (auto simp: shared_listed_def)
    have "2 \<le> occurrences h origin objs v"
      using trail_repeat [OF path(1,2) v] facts(2) objs(1) by auto
    then have "v \<in> set (d_duplicates S)" using objs facts(4) assms(2) by auto
    then obtain i where "index_of v (d_duplicates S) = Some i" using index_of_None [of v] by fastforce
    with old marked v show False by blast
  qed
  then have d: "distinct (path @ [v])" using path(2) by simp
  have "length (path @ [v]) \<le> length h"
    by (rule objects_bound [OF d]) (use facts(2) assms(2) in auto)
  then have n: "0 < n" using path(3) by simp
  have "\<exists>p. trail h origin p c \<and> distinct p \<and> length h < length p + n
      \<and> (\<forall>u \<in> set p. \<forall>i. index_of u (d_duplicates S) = Some i \<longrightarrow> d_usedDuplicates st' ! i)"
    if "isObject h c"
  proof (intro exI conjI)
    show "trail h origin (path @ [v]) c" using path(1) assms(2) assms(6) [OF that] by (rule trail.inner)
    show "length h < length (path @ [v]) + n" using path(3) by simp
    show "\<forall>u \<in> set (path @ [v]). \<forall>i. index_of u (d_duplicates S) = Some i \<longrightarrow> d_usedDuplicates st' ! i"
    proof (intro ballI allI impI)
      fix u i
      assume u: "u \<in> set (path @ [v])" and i: "index_of u (d_duplicates S) = Some i"
      show "d_usedDuplicates st' ! i"
      proof (cases "u = v")
        case False
        with u i old have "d_usedDuplicates st ! i" by auto
        moreover have "length (d_usedDuplicates st) = length (d_duplicates S)"
          using assms(1) by (simp add: may_write_def)
        ultimately show ?thesis using keeps_used [OF assms(3) i] by simp
      qed (use i marked in blast)
    qed
  qed (rule d)
  with st' n assms(5) show ?thesis by (auto simp: may_write_def)
qed

text \<open>The body of \<open>writeNode\<close> after the type of the value is known.\<close>

lemma bind_res_assoc: "bind_res (bind_res m f) g = bind_res m (\<lambda>x. bind_res (f x) g)"
  by (cases m) auto

lemma node_body_detected:
  "node_body w h writer st level object block is_compact iskey =
     bind_res (detected w h st object) (\<lambda>(_, st2).
       let block1 = (block \<and> (d_flowLevel st2 < 0 \<or> d_flowLevel st2 > int level));
           duplicate = (if is_collection h (d_dump st2) then index_of object (d_duplicates st2) else None);
           compact1 = (is_compact \<and> \<not> (has_tag st2 \<or> duplicate \<noteq> None \<or> d_indent st2 \<noteq> 2 \<and> level > 0))
       in case duplicate of
            Some i \<Rightarrow>
              (if d_usedDuplicates st2 ! i then Inr (True, st2\<lparr>d_dump := Str (jstr ''*'' @ ref_name i)\<rparr>)
               else
                 bind_res (write_value w h writer
                   (st2\<lparr>d_usedDuplicates := (d_usedDuplicates st2)[i := True]\<rparr>) level duplicate block1
                   compact1 iskey) (\<lambda>(ok, st3). Inr (ok, if ok then tagged st3 else st3)))
          | None \<Rightarrow>
              bind_res (write_value w h writer st2 level duplicate block1 compact1 iskey)
                (\<lambda>(ok, st3). Inr (ok, if ok then tagged st3 else st3)))"
  unfolding node_body_def detected_def bind_res_assoc by (simp only: split_def)

context value_dumping
begin

lemma node_body_written:
  assumes nw: "node_writing writer E (may_write h S good origin n)"
    and pre: "may_write h S good origin (Suc n) st v"
  shows "ends_in E (node_written st) (node_body w h writer st level v block is_compact iskey)"
proof -
  have st: "fixed st = S" "good v" "length (d_usedDuplicates st) = length (d_duplicates S)"
    using pre by (simp_all add: may_write_def)
  have tag_written: "ends_in E (node_written st) (bind_res m (\<lambda>(ok, st3). Inr (ok, if ok then tagged st3 else st3)))"
    if "ends_in E (node_written st1) m" "keeps st st1" for m st1
    using that keeps_skipInvalid [OF that(2)]
    by (auto simp: node_written_def intro: keeps_trans elim!: ends_in_bind split: if_splits)
  show ?thesis
    unfolding node_body_detected
  proof (rule ends_in_bind [OF detection [OF st(2,1)]], clarify)
    fix b st2
    assume st2: "S = fixed st2" "d_usedDuplicates st2 = d_usedDuplicates st"
      "settled h (fixed st2) E good v st2"
    have k2: "keeps st st2" using st st2 by (simp add: keeps_def list.rel_refl)
    have dups: "d_duplicates st2 = d_duplicates S" using st2(1) by simp
    let ?dup = "if is_collection h (d_dump st2) then index_of v (d_duplicates st2) else None"
    show "ends_in E (node_written st) (let block1 = (block \<and> (d_flowLevel st2 < 0 \<or> d_flowLevel st2 > int level));
           duplicate = ?dup;
           compact1 = (is_compact \<and> \<not> (has_tag st2 \<or> duplicate \<noteq> None \<or> d_indent st2 \<noteq> 2 \<and> level > 0))
       in case duplicate of
            Some i \<Rightarrow>
              (if d_usedDuplicates st2 ! i then Inr (True, st2\<lparr>d_dump := Str (jstr ''*'' @ ref_name i)\<rparr>)
               else
                 bind_res (write_value w h writer
                   (st2\<lparr>d_usedDuplicates := (d_usedDuplicates st2)[i := True]\<rparr>) level duplicate block1
                   compact1 iskey) (\<lambda>(ok, st3). Inr (ok, if ok then tagged st3 else st3)))
          | None \<Rightarrow>
              bind_res (write_value w h writer st2 level duplicate block1 compact1 iskey)
                (\<lambda>(ok, st3). Inr (ok, if ok then tagged st3 else st3)))"
    proof (cases ?dup)
      case None
      have "may_write h S good origin n st2 c"
        if "d_dump st2 = v" "good c" "is_collection h v" "isObject h c \<Longrightarrow> c \<in> set (children h v)" for c
      proof (rule may_write_child [OF pre _ k2 _ that(2,4)])
        show "isObject h v" using that(3) by (simp add: is_collection_def isObject_def split: option.splits cell.splits)
      qed (use None that dups in auto)
      then have "ends_in E (node_written st2) (write_value w h writer st2 level d bl co iskey)" for d bl co
        using st2 by (intro write_value_written [OF nw st(2)]) auto
      with None k2 show ?thesis by (simp add: Let_def tag_written [where ?st1.0 = st2])
    next
      case (Some i)
      then have coll: "is_collection h (d_dump st2)" and i: "index_of v (d_duplicates S) = Some i"
        using dups by (auto split: if_splits)
      show ?thesis
      proof (cases "d_usedDuplicates st2 ! i")
        case True
        with Some k2 show ?thesis by (simp add: Let_def node_written_def)
      next
        case False
        let ?st3 = "st2\<lparr>d_usedDuplicates := (d_usedDuplicates st2)[i := True]\<rparr>"
        have k3: "keeps st ?st3" using keeps_trans [OF k2 keeps_mark] .
        have "may_write h S good origin n ?st3 c"
          if "d_dump ?st3 = v" "good c" "is_collection h v" "isObject h c \<Longrightarrow> c \<in> set (children h v)" for c
        proof (rule may_write_child [OF pre _ k3 _ that(2,4)])
          show "isObject h v" using that(3) by (simp add: is_collection_def isObject_def split: option.splits cell.splits)
          fix j
          assume "index_of v (d_duplicates S) = Some j"
          then show "\<not> d_usedDuplicates st ! j \<and> d_usedDuplicates ?st3 ! j"
            using i False index_of_Some [OF i] st(3) st2(2) by simp
        qed
        then have "ends_in E (node_written ?st3) (write_value w h writer ?st3 level d bl co iskey)" for d bl co
          using st2 by (intro write_value_written [OF nw st(2)]) (auto simp: settled_def)
        with Some False k3 show ?thesis by (simp add: Let_def tag_written [where ?st1.0 = ?st3])
      qed
    qed
  qed
qed

lemma writeNode_written: "node_writing (writeNode n w h) E (may_write h S good origin n)"
proof (induction n)
  case 0
  show ?case by unfold_locales (simp_all add: may_write_def)
next
  case (Suc n)
  show ?case
    by unfold_locales (simp_all add: node_body_written [OF Suc] may_write_keeps)
qed

text \<open>The whole call, with the duplicates of the value listed.\<close>

lemma writeNode_top:
  assumes "fixed st = S" "good v" "shared_listed h v S"
    and "length (d_usedDuplicates st) = length (d_duplicates S)"
  shows "ends_in E (node_written st) (writeNode (depth_bound h) w h st level v block is_compact iskey)"
proof (rule node_writing.written [OF writeNode_written])
  show "may_write h S good v (depth_bound h) st v"
    using assms by (auto simp: may_write_def depth_bound_def intro: trail.outermost exI [of _ "[]"])
qed

end

end
