(* ===== verification/YamlLoader.thy ===== *)
theory YamlLoader
  imports YamlScalars
begin

text \<open>
  The readers of collections, node properties, aliases and documents, and the entry points of
  the loader (module 24).

  \<open>composeNode\<close> and the readers of collections call each other. The readers take the
  function that composes a node as their argument \<open>compose\<close>; \<open>composeNode\<close> hands
  them itself with one unit of fuel less.
\<close>

type_synonym reader = "lstate \<Rightarrow> (bool \<times> lstate) yres"

datatype node_context = FLOW_IN | FLOW_OUT | BLOCK_IN | BLOCK_OUT

type_synonym composer = "int \<Rightarrow> node_context \<Rightarrow> bool \<Rightarrow> bool \<Rightarrow> reader"

text \<open>\<open>a || b\<close> for two readers; \<open>skipSeparationSpace\<close> without its count.\<close>

definition or_else :: "reader \<Rightarrow> reader \<Rightarrow> reader" where
  "or_else a b st = bind_res (a st) (\<lambda>(found, st1). if found then Inr (True, st1) else b st1)"

definition and_also :: "bool \<Rightarrow> reader \<Rightarrow> reader" where
  "and_also c a st = (if c then a st else Inr (False, st))"

definition skip_space :: "lstate \<Rightarrow> int \<Rightarrow> lstate yres" where
  "skip_space st checkIndent =
     bind_res (skipSeparationSpace st True checkIndent) (\<lambda>(_, st1). Inr st1)"

section \<open>Objects under construction\<close>

definition proto_key :: jsstring where
  "proto_key = jstr ''__proto__''"

text \<open>\<open>object[key] = v\<close> for a plain object that the loader has made.\<close>

definition store_key :: "heap \<Rightarrow> jsval \<Rightarrow> jsstring \<Rightarrow> jsval \<Rightarrow> heap yres" where
  "store_key h d key v =
     (if key = proto_key then Inl (Unmodelled ''assignment to the prototype of an object'')
      else case d of
        Ref r \<Rightarrow> (case cell_of h d of
                    Some (Obj ps) \<Rightarrow> Inr (h[r := Obj (prop_set ps key v)])
                  | _ \<Rightarrow> Inl (Unmodelled ''not a plain object''))
      | _ \<Rightarrow> Inl (Unmodelled ''not an object''))"

definition push_element :: "heap \<Rightarrow> jsval \<Rightarrow> jsval \<Rightarrow> heap yres" where
  "push_element h d v =
     (case d of
        Ref r \<Rightarrow> (case cell_of h d of
                    Some (Arr vs) \<Rightarrow> Inr (h[r := Arr (vs @ [v])])
                  | _ \<Rightarrow> Inl (Unmodelled ''not an array''))
      | _ \<Rightarrow> Inl (Unmodelled ''not an object''))"

definition props_of :: "heap \<Rightarrow> jsval \<Rightarrow> (jsstring \<times> jsval) list" where
  "props_of h v = (case cell_of h v of Some c \<Rightarrow> own_props c | None \<Rightarrow> [])"

text \<open>
  \<open>mergeMappings\<close>: the loop copies the keys that the destination does not have and
  records them in \<open>overridableKeys\<close>, of which only the set of own keys matters.
\<close>

fun merge_keys :: "heap \<Rightarrow> jsval \<Rightarrow> jsstring list \<Rightarrow> (jsstring \<times> jsval) list
    \<Rightarrow> (heap \<times> jsstring list) yres" where
  "merge_keys h destination overridableKeys [] = Inr (h, overridableKeys)"
| "merge_keys h destination overridableKeys ((key, v) # ps) =
     (if has_own (props_of h destination) key then merge_keys h destination overridableKeys ps
      else bind_res (store_key h destination key v) (\<lambda>h1.
             merge_keys h1 destination (key # overridableKeys) ps))"

definition mergeMappings :: "lstate \<Rightarrow> jsval \<Rightarrow> jsval \<Rightarrow> jsstring list \<Rightarrow> (lstate \<times> jsstring list) yres" where
  "mergeMappings st destination source overridableKeys =
     (if \<not> isObject (heap_of st) source
      then throwError st (jstr ''cannot merge mappings; the provided source object is unacceptable'')
      else bind_res (merge_keys (heap_of st) destination overridableKeys (props_of (heap_of st) source))
             (\<lambda>(h, ov). Inr (st\<lparr>heap_of := h\<rparr>, ov)))"

fun merge_all :: "lstate \<Rightarrow> jsval \<Rightarrow> jsstring list \<Rightarrow> jsval list \<Rightarrow> (lstate \<times> jsstring list) yres" where
  "merge_all st destination overridableKeys [] = Inr (st, overridableKeys)"
| "merge_all st destination overridableKeys (v # vs) =
     bind_res (mergeMappings st destination v overridableKeys) (\<lambda>(st1, ov).
       merge_all st1 destination ov vs)"

definition merge_tag :: jsstring where
  "merge_tag = yaml_tag ''merge''"

definition storeMappingPair :: "host \<Rightarrow> lstate \<Rightarrow> jsval \<Rightarrow> jsstring list \<Rightarrow> jsstring option \<Rightarrow> jsval \<Rightarrow> jsval
    \<Rightarrow> (jsval \<times> lstate \<times> jsstring list) yres" where
  "storeMappingPair w st res overridableKeys keyTag keyNode valueNode =
     bind_res (js_String w (heap_of st) keyNode) (\<lambda>key.
       let (h, dest) = (if res = Null then alloc (heap_of st) (Obj []) else (heap_of st, res));
           st1 = st\<lparr>heap_of := h\<rparr>
       in if keyTag = Some merge_tag then
            bind_res (case cell_of h valueNode of
                        Some (Arr vs) \<Rightarrow> merge_all st1 dest overridableKeys vs
                      | _ \<Rightarrow> mergeMappings st1 dest valueNode overridableKeys)
              (\<lambda>(st2, ov). Inr (dest, st2, ov))
          else if \<not> json st1 \<and> key \<notin> set overridableKeys \<and> has_own (props_of h dest) key
            then throwError st1 (jstr ''duplicated mapping key'')
          else bind_res (store_key h dest key valueNode) (\<lambda>h1.
                 Inr (dest, st1\<lparr>heap_of := h1\<rparr>, removeAll key overridableKeys)))"

text \<open>\<open>state.anchorMap[name] = v\<close>\<close>

definition set_anchor :: "jsval \<Rightarrow> lstate \<Rightarrow> lstate yres" where
  "set_anchor v st =
     (case anchor st of
        None \<Rightarrow> Inr st
      | Some name \<Rightarrow>
          if name = proto_key
          then (case v of Ref r \<Rightarrow> Inl (Unmodelled ''assignment to the prototype of the anchors'')
                | Null \<Rightarrow> Inl (Unmodelled ''assignment to the prototype of the anchors'')
                | _ \<Rightarrow> Inr st)
          else Inr (st\<lparr>anchorMap := prop_set (anchorMap st) name v\<rparr>))"

definition new_object :: "cell \<Rightarrow> lstate \<Rightarrow> jsval \<times> lstate" where
  "new_object c st = (let (h, v) = alloc (heap_of st) c in (v, st\<lparr>heap_of := h\<rparr>))"

definition push_result :: "jsval \<Rightarrow> jsval \<Rightarrow> lstate \<Rightarrow> lstate yres" where
  "push_result d v st = bind_res (push_element (heap_of st) d v) (\<lambda>h. Inr (st\<lparr>heap_of := h\<rparr>))"

text \<open>The end of a reader of collections: the properties of the node, its kind and value.\<close>

definition finish :: "lstate \<Rightarrow> ykind \<Rightarrow> jsval \<Rightarrow> lstate \<Rightarrow> lstate" where
  "finish st0 k v st = st\<lparr>tag := tag st0, anchor := anchor st0, kind := Some k, result := v\<rparr>"

section \<open>Flow collections\<close>

definition flow_key :: "composer \<Rightarrow> int \<Rightarrow> lstate \<Rightarrow> (bool \<times> jsstring option \<times> jsval \<times> nat \<times> lstate) yres" where
  "flow_key compose nodeIndent st =
     (let isExplicitPair = (ch_at st = Some 0x3F \<and> is_WS_OR_EOL (ch_ahead st 1)) in
      bind_res (if isExplicitPair then skip_space (advance 1 st) nodeIndent else Inr st) (\<lambda>st1.
      bind_res (compose nodeIndent FLOW_IN False True st1) (\<lambda>(_, st2).
      bind_res (skip_space st2 nodeIndent) (\<lambda>st3.
        Inr (isExplicitPair, tag st2, result st2, line st1, st3)))))"

definition flow_value :: "composer \<Rightarrow> int \<Rightarrow> bool \<Rightarrow> nat \<Rightarrow> lstate \<Rightarrow> (bool \<times> jsval \<times> lstate) yres" where
  "flow_value compose nodeIndent isExplicitPair line0 st =
     (if (isExplicitPair \<or> line st = line0) \<and> ch_at st = Some 0x3A then
        bind_res (skip_space (advance 1 st) nodeIndent) (\<lambda>st1.
        bind_res (compose nodeIndent FLOW_IN False True st1) (\<lambda>(_, st2).
          Inr (True, result st2, st2)))
      else Inr (isExplicitPair, Null, st))"

definition flow_store :: "host \<Rightarrow> bool \<Rightarrow> jsval \<Rightarrow> bool \<Rightarrow> jsstring list \<Rightarrow> jsstring option \<Rightarrow> jsval \<Rightarrow> jsval
    \<Rightarrow> lstate \<Rightarrow> (jsstring list \<times> lstate) yres" where
  "flow_store w isMapping res isPair ov keyTag keyNode valueNode st =
     (if isMapping then
        bind_res (storeMappingPair w st res ov keyTag keyNode valueNode) (\<lambda>(_, st1, ov1). Inr (ov1, st1))
      else if isPair then
        bind_res (storeMappingPair w st Null ov keyTag keyNode valueNode) (\<lambda>(pair, st1, ov1).
          bind_res (push_result res pair st1) (\<lambda>st2. Inr (ov1, st2)))
      else bind_res (push_result res keyNode st) (\<lambda>st1. Inr (ov, st1)))"

fun flow_loop :: "nat \<Rightarrow> composer \<Rightarrow> host \<Rightarrow> int \<Rightarrow> int \<Rightarrow> bool \<Rightarrow> jsval \<Rightarrow> bool \<Rightarrow> jsstring list \<Rightarrow> lstate
    \<Rightarrow> lstate yres" where
  "flow_loop 0 compose w nodeIndent terminator isMapping res readNext ov st = Inl Diverges"
| "flow_loop (Suc n) compose w nodeIndent terminator isMapping res readNext ov st =
     (if ch_at st = Some 0
      then throwError st (jstr ''unexpected end of the stream within a flow collection'')
      else
        bind_res (skip_space st nodeIndent) (\<lambda>st1.
          if ch_at st1 = Some terminator then Inr (advance 1 st1)
          else if \<not> readNext then throwError st1 (jstr ''missed comma between flow collection entries'')
          else
            bind_res (flow_key compose nodeIndent st1) (\<lambda>(isExplicitPair, keyTag, keyNode, line0, st2).
            bind_res (flow_value compose nodeIndent isExplicitPair line0 st2) (\<lambda>(isPair, valueNode, st3).
            bind_res (flow_store w isMapping res isPair ov keyTag keyNode valueNode st3) (\<lambda>(ov1, st4).
            bind_res (skip_space st4 nodeIndent) (\<lambda>st5.
              if ch_at st5 = Some 0x2C
              then flow_loop n compose w nodeIndent terminator isMapping res True ov1 (advance 1 st5)
              else flow_loop n compose w nodeIndent terminator isMapping res False ov1 st5))))))"

definition readFlowCollection :: "composer \<Rightarrow> host \<Rightarrow> int \<Rightarrow> reader" where
  "readFlowCollection compose w nodeIndent st =
     (if ch_at st \<noteq> Some 0x5B \<and> ch_at st \<noteq> Some 0x7B then Inr (False, st)
      else
        let isMapping = (ch_at st = Some 0x7B);
            (res, st1) = new_object (if isMapping then Obj [] else Arr []) st
        in bind_res (set_anchor res st1) (\<lambda>st2.
           bind_res (flow_loop (loop_fuel st2) compose w nodeIndent (if isMapping then 0x7D else 0x5D)
                       isMapping res True [] (advance 1 st2)) (\<lambda>st3.
             Inr (True, finish st (if isMapping then Mapping else Sequence) res st3))))"

section \<open>Block collections\<close>

fun sequence_loop :: "nat \<Rightarrow> composer \<Rightarrow> int \<Rightarrow> jsval \<Rightarrow> bool \<Rightarrow> reader" where
  "sequence_loop 0 compose nodeIndent res detected st = Inl Diverges"
| "sequence_loop (Suc n) compose nodeIndent res detected st =
     (if ch_at st \<noteq> Some 0x2D \<or> \<not> is_WS_OR_EOL (ch_ahead st 1) then Inr (detected, st)
      else
        bind_res (skipSeparationSpace (advance 1 st) True (- 1)) (\<lambda>(breaks, st1).
          if breaks \<noteq> 0 \<and> lineIndent st1 \<le> nodeIndent then
            bind_res (push_result res Null st1) (\<lambda>st2. sequence_loop n compose nodeIndent res True st2)
          else
            bind_res (compose nodeIndent BLOCK_IN False True st1) (\<lambda>(_, st2).
            bind_res (push_result res (result st2) st2) (\<lambda>st3.
            bind_res (skip_space st3 (- 1)) (\<lambda>st4.
              if (line st4 = line st1 \<or> lineIndent st4 > nodeIndent) \<and> ch_at st4 \<noteq> Some 0
              then throwError st4 (jstr ''bad indentation of a sequence entry'')
              else if lineIndent st4 < nodeIndent then Inr (True, st4)
              else sequence_loop n compose nodeIndent res True st4)))))"

definition readBlockSequence :: "composer \<Rightarrow> int \<Rightarrow> reader" where
  "readBlockSequence compose nodeIndent st =
     (let (res, st1) = new_object (Arr []) st in
      bind_res (set_anchor res st1) (\<lambda>st2.
      bind_res (sequence_loop (loop_fuel st2) compose nodeIndent res False st2) (\<lambda>(detected, st3).
        if detected then Inr (True, finish st Sequence res st3) else Inr (False, st3))))"

text \<open>
  The variables of the loop over a block mapping. The loop ends by keeping the result of
  \<open>composeNode\<close> or by reaching the epilogue; a pass over the key either ends the loop or
  goes on to the value, with the flag \<open>allowCompact\<close>.
\<close>

record map_vars =
  mv_keyTag :: "jsstring option"
  mv_keyNode :: jsval
  mv_atExplicitKey :: bool
  mv_detected :: bool
  mv_overridable :: "jsstring list"

datatype map_exit = Kept lstate | Epilogue map_vars lstate
datatype map_step = Stop map_exit | Go bool map_vars lstate

text \<open>\<open>storeMappingPair(..., keyTag, keyNode, value)\<close>, after which the key is forgotten.\<close>

definition store_pair :: "host \<Rightarrow> jsval \<Rightarrow> jsval \<Rightarrow> map_vars \<Rightarrow> lstate \<Rightarrow> (map_vars \<times> lstate) yres" where
  "store_pair w res valueNode mv st =
     bind_res (storeMappingPair w st res (mv_overridable mv) (mv_keyTag mv) (mv_keyNode mv) valueNode)
       (\<lambda>(_, st1, ov). Inr (mv\<lparr>mv_keyTag := None, mv_keyNode := Null, mv_overridable := ov\<rparr>, st1))"

definition mapping_key :: "composer \<Rightarrow> host \<Rightarrow> int \<Rightarrow> lstate \<Rightarrow> jsval \<Rightarrow> map_vars \<Rightarrow> lstate \<Rightarrow> map_step yres" where
  "mapping_key compose w flowIndent st0 res mv st =
     (let ch = ch_at st;
          flush = (\<lambda>m s. if mv_atExplicitKey m then store_pair w res Null m s else Inr (m, s)) in
      if (ch = Some 0x3F \<or> ch = Some 0x3A) \<and> is_WS_OR_EOL (ch_ahead st 1) then
        (if ch = Some 0x3F then
           bind_res (flush mv st) (\<lambda>(mv1, st1).
             Inr (Go True (mv1\<lparr>mv_detected := True, mv_atExplicitKey := True\<rparr>) (advance 1 st1)))
         else if mv_atExplicitKey mv then
           Inr (Go True (mv\<lparr>mv_atExplicitKey := False\<rparr>) (advance 1 st))
         else throwError st (jstr ''incomplete explicit mapping pair; a key node is missed''))
      else
        bind_res (compose flowIndent FLOW_OUT False True st) (\<lambda>(found, st1).
          if \<not> found then Inr (Stop (Epilogue mv st1))
          else if line st1 = line st then
            (let st2 = skip_while (\<lambda>c. is_WHITE_SPACE (Some c)) st1 in
             if ch_at st2 = Some 0x3A then
               (let st3 = advance 1 st2 in
                if \<not> is_WS_OR_EOL (ch_at st3) then
                  throwError st3 (jstr (''a whitespace character is expected after the '' @
                    ''key-value separator within a block mapping''))
                else
                  bind_res (flush mv st3) (\<lambda>(mv1, st4).
                    Inr (Go False (mv1\<lparr>mv_detected := True, mv_atExplicitKey := False,
                                       mv_keyTag := tag st4, mv_keyNode := result st4\<rparr>) st4)))
             else if mv_detected mv then
               throwError st2 (jstr ''can not read an implicit mapping pair; a colon is missed'')
             else Inr (Stop (Kept (st2\<lparr>tag := tag st0, anchor := anchor st0\<rparr>))))
          else if mv_detected mv then
            throwError st1 (jstr (''can not read a block mapping entry; '' @
              ''a multiline key may not be an implicit key''))
          else Inr (Stop (Kept (st1\<lparr>tag := tag st0, anchor := anchor st0\<rparr>)))))"

definition mapping_value :: "composer \<Rightarrow> host \<Rightarrow> int \<Rightarrow> jsval \<Rightarrow> bool \<Rightarrow> map_vars \<Rightarrow> lstate
    \<Rightarrow> (map_vars \<times> lstate) yres" where
  "mapping_value compose w nodeIndent res allowCompact mv st =
     bind_res (compose nodeIndent BLOCK_OUT True allowCompact st) (\<lambda>(found, st1).
     bind_res (if mv_atExplicitKey mv
               then Inr (if found then mv\<lparr>mv_keyNode := result st1\<rparr> else mv, st1)
               else store_pair w res (if found then result st1 else Null) mv st1) (\<lambda>(mv1, st2).
     bind_res (skip_space st2 (- 1)) (\<lambda>st3. Inr (mv1, st3))))"

fun mapping_loop :: "nat \<Rightarrow> composer \<Rightarrow> host \<Rightarrow> int \<Rightarrow> int \<Rightarrow> lstate \<Rightarrow> jsval \<Rightarrow> map_vars \<Rightarrow> lstate
    \<Rightarrow> map_exit yres" where
  "mapping_loop 0 compose w nodeIndent flowIndent st0 res mv st = Inl Diverges"
| "mapping_loop (Suc n) compose w nodeIndent flowIndent st0 res mv st =
     (if ch_at st = Some 0 then Inr (Epilogue mv st)
      else
        bind_res (mapping_key compose w flowIndent st0 res mv st) (\<lambda>stp.
          case stp of
            Stop e \<Rightarrow> Inr e
          | Go allowCompact mv1 st1 \<Rightarrow>
              bind_res (if line st1 = line st \<or> lineIndent st1 > nodeIndent
                        then mapping_value compose w nodeIndent res allowCompact mv1 st1
                        else Inr (mv1, st1)) (\<lambda>(mv2, st2).
                if lineIndent st2 > nodeIndent \<and> ch_at st2 \<noteq> Some 0
                then throwError st2 (jstr ''bad indentation of a mapping entry'')
                else if lineIndent st2 < nodeIndent then Inr (Epilogue mv2 st2)
                else mapping_loop n compose w nodeIndent flowIndent st0 res mv2 st2)))"

definition mapping_epilogue :: "host \<Rightarrow> lstate \<Rightarrow> jsval \<Rightarrow> map_exit \<Rightarrow> (bool \<times> lstate) yres" where
  "mapping_epilogue w st0 res e =
     (case e of
        Kept st \<Rightarrow> Inr (True, st)
      | Epilogue mv st \<Rightarrow>
          bind_res (if mv_atExplicitKey mv then store_pair w res Null mv st else Inr (mv, st))
            (\<lambda>(_, st1). Inr (if mv_detected mv then (True, finish st0 Mapping res st1) else (False, st1))))"

definition readBlockMapping :: "composer \<Rightarrow> host \<Rightarrow> int \<Rightarrow> int \<Rightarrow> reader" where
  "readBlockMapping compose w nodeIndent flowIndent st =
     (let (res, st1) = new_object (Obj []) st in
      bind_res (set_anchor res st1) (\<lambda>st2.
      bind_res (mapping_loop (loop_fuel st2) compose w nodeIndent flowIndent st res
                  \<lparr>mv_keyTag = None, mv_keyNode = Null, mv_atExplicitKey = False, mv_detected = False,
                   mv_overridable = []\<rparr> st2) (\<lambda>e. mapping_epilogue w st res e)))"

section \<open>Node properties and aliases\<close>

text \<open>The name of a tag up to the next white space, with the handle before a second \<open>!\<close>.\<close>

fun tag_loop :: "nat \<Rightarrow> bool \<Rightarrow> jsstring \<Rightarrow> nat \<Rightarrow> lstate \<Rightarrow> (jsstring \<times> nat \<times> lstate) yres" where
  "tag_loop 0 isNamed tagHandle pos st = Inl Diverges"
| "tag_loop (Suc n) isNamed tagHandle pos st =
     (let ch = ch_at st in
      if ch = Some 0 \<or> is_WS_OR_EOL ch then Inr (tagHandle, pos, st)
      else if ch = Some 0x21 then
        (if isNamed then throwError st (jstr ''tag suffix cannot contain exclamation marks'')
         else
           let handle = input_slice st (pos - 1) (position st + 1) in
           if \<not> re_test tag_handle_pattern handle
           then throwError st (jstr ''named tag handle cannot contain such characters'')
           else tag_loop n True handle (position st + 1) (advance 1 st))
      else tag_loop n isNamed tagHandle pos (advance 1 st))"

definition verbatim_tag :: "lstate \<Rightarrow> (jsstring \<times> lstate) yres" where
  "verbatim_tag st =
     bind_res (skip_until (\<lambda>c. c = 0 \<or> c = 0x3E) (advance 1 st)) (\<lambda>st1.
       if position st1 < input_length st1
       then Inr (input_slice st1 (position st) (position st1), advance 1 st1)
       else throwError st1 (jstr ''unexpected end of the stream within a verbatim tag''))"

definition named_tag :: "bool \<Rightarrow> jsstring \<Rightarrow> lstate \<Rightarrow> (jsstring \<times> jsstring \<times> lstate) yres" where
  "named_tag isNamed tagHandle st =
     bind_res (tag_loop (loop_fuel st) isNamed tagHandle (position st) st) (\<lambda>(handle, pos, st1).
       let tagName = input_slice st1 pos (position st1) in
       if flow_indicators tagName
       then throwError st1 (jstr ''tag suffix cannot contain flow indicator characters'')
       else Inr (handle, tagName, st1))"

definition resolve_handle :: "bool \<Rightarrow> jsstring \<Rightarrow> jsstring \<Rightarrow> lstate \<Rightarrow> (bool \<times> lstate) yres" where
  "resolve_handle isVerbatim tagHandle tagName st =
     (if tagName \<noteq> [] \<and> \<not> re_test tag_uri_pattern tagName
      then throwError st (jstr ''tag name cannot contain such characters: '' @ tagName)
      else if isVerbatim then Inr (True, st\<lparr>tag := Some tagName\<rparr>)
      else case map_of (tagMap st) tagHandle of
        Some prefix \<Rightarrow> Inr (True, st\<lparr>tag := Some (prefix @ tagName)\<rparr>)
      | None \<Rightarrow>
          if tagHandle = [0x21] then Inr (True, st\<lparr>tag := Some (0x21 # tagName)\<rparr>)
          else if tagHandle = [0x21, 0x21] then Inr (True, st\<lparr>tag := Some (yaml_tag '''' @ tagName)\<rparr>)
          else throwError st (jstr ''undeclared tag handle '' @ [0x22] @ tagHandle @ [0x22]))"

definition readTagProperty :: reader where
  "readTagProperty st =
     (if ch_at st \<noteq> Some 0x21 then Inr (False, st)
      else if tag st \<noteq> None then throwError st (jstr ''duplication of a tag property'')
      else
        let st1 = advance 1 st in
        if ch_at st1 = Some 0x3C then
          bind_res (verbatim_tag (advance 1 st1)) (\<lambda>(tagName, st2). resolve_handle True [] tagName st2)
        else if ch_at st1 = Some 0x21 then
          bind_res (named_tag True [0x21, 0x21] (advance 1 st1)) (\<lambda>(handle, tagName, st2).
            resolve_handle False handle tagName st2)
        else
          bind_res (named_tag False [0x21] st1) (\<lambda>(handle, tagName, st2).
            resolve_handle False handle tagName st2))"

definition name_end :: "int \<Rightarrow> bool" where
  "name_end c \<longleftrightarrow> c = 0 \<or> is_WS_OR_EOL (Some c) \<or> is_FLOW_INDICATOR (Some c)"

definition readAnchorProperty :: reader where
  "readAnchorProperty st =
     (if ch_at st \<noteq> Some 0x26 then Inr (False, st)
      else if anchor st \<noteq> None then throwError st (jstr ''duplication of an anchor property'')
      else
        bind_res (skip_until name_end (advance 1 st)) (\<lambda>st1.
          if position st1 = position st + 1
          then throwError st1 (jstr ''name of an anchor node must contain at least one character'')
          else Inr (True, st1\<lparr>anchor := Some (input_slice st1 (position st + 1) (position st1))\<rparr>)))"

text \<open>\<open>anchorMap.hasOwnProperty(alias)\<close> looks the method up among the anchors first.\<close>

definition has_anchor :: "lstate \<Rightarrow> jsstring \<Rightarrow> bool yres" where
  "has_anchor st alias =
     (case map_of (anchorMap st) (jstr ''hasOwnProperty'') of
        None \<Rightarrow> Inr (has_own (anchorMap st) alias)
      | Some v \<Rightarrow> if is_func (heap_of st) v then Inl (Unmodelled ''a method of a loaded object'')
                  else type_error ''state.anchorMap.hasOwnProperty is not a function'')"

definition readAlias :: reader where
  "readAlias st =
     (if ch_at st \<noteq> Some 0x2A then Inr (False, st)
      else
        bind_res (skip_until name_end (advance 1 st)) (\<lambda>st1.
          if position st1 = position st + 1
          then throwError st1 (jstr ''name of an alias node must contain at least one character'')
          else
            let alias = input_slice st1 (position st + 1) (position st1) in
            bind_res (has_anchor st1 alias) (\<lambda>known.
              case (if known then map_of (anchorMap st1) alias else None) of
                None \<Rightarrow> throwError st1 (jstr ''unidentified alias '' @ [0x22] @ alias @ [0x22])
              | Some v \<Rightarrow>
                  bind_res (skip_space (st1\<lparr>result := v\<rparr>) (- 1)) (\<lambda>st2. Inr (True, st2)))))"

end
