(* ===== verification/YamlDocuments.thy ===== *)
theory YamlDocuments
  imports YamlLoader
begin

text \<open>
  Composing a node, reading a document, and the entry points of the loader (module 24).

  The fuel of \<open>composeNode\<close> is twice the length of the remaining input plus two: a nested
  node starts after at least one character of its parent, except that the key of a block mapping
  starts where the mapping starts, in a context without block collections. The limit that an
  engine sets on the depth of calls is not part of the model.
\<close>

section \<open>Nodes\<close>

definition emit :: "loader_event \<Rightarrow> lstate \<Rightarrow> lstate" where
  "emit e st = (if listener st then st\<lparr>events := events st @ [e]\<rparr> else st)"

definition clear_node :: "lstate \<Rightarrow> lstate" where
  "clear_node st = st\<lparr>tag := None, anchor := None, kind := None, result := Null\<rparr>"

definition is_block :: "node_context \<Rightarrow> bool" where
  "is_block ctx \<longleftrightarrow> ctx = BLOCK_OUT \<or> ctx = BLOCK_IN"

text \<open>1: deeper than the parent, 0: at its indentation, -1: less.\<close>

definition indent_status :: "lstate \<Rightarrow> int \<Rightarrow> int" where
  "indent_status st parentIndent =
     (if lineIndent st > parentIndent then 1 else if lineIndent st = parentIndent then 0 else - 1)"

record node_vars =
  nv_atNewLine :: bool
  nv_blockCollections :: bool
  nv_indentStatus :: int

text \<open>
  The loop over the tag and the anchor of the node. It goes round at most twice without an
  error; the input bounds it as well.
\<close>

fun property_loop :: "nat \<Rightarrow> int \<Rightarrow> bool \<Rightarrow> node_vars \<Rightarrow> lstate \<Rightarrow> (node_vars \<times> lstate) yres" where
  "property_loop 0 parentIndent allowBlockStyles nv st = Inl Diverges"
| "property_loop (Suc n) parentIndent allowBlockStyles nv st =
     bind_res (or_else readTagProperty readAnchorProperty st) (\<lambda>(found, st1).
       if \<not> found then Inr (nv, st1)
       else
         bind_res (skipSeparationSpace st1 True (- 1)) (\<lambda>(breaks, st2).
           property_loop n parentIndent allowBlockStyles
             (if breaks \<noteq> 0
              then \<lparr>nv_atNewLine = True, nv_blockCollections = allowBlockStyles,
                    nv_indentStatus = indent_status st2 parentIndent\<rparr>
              else nv\<lparr>nv_blockCollections := False\<rparr>) st2))"

definition read_properties :: "int \<Rightarrow> bool \<Rightarrow> bool \<Rightarrow> lstate \<Rightarrow> (node_vars \<times> lstate) yres" where
  "read_properties parentIndent allowToSeek allowBlockStyles st =
     (let nv0 = \<lparr>nv_atNewLine = False, nv_blockCollections = allowBlockStyles, nv_indentStatus = 1\<rparr> in
      bind_res (if allowToSeek
                then bind_res (skipSeparationSpace st True (- 1)) (\<lambda>(breaks, st1).
                       Inr (if breaks \<noteq> 0
                            then nv0\<lparr>nv_atNewLine := True,
                                     nv_indentStatus := indent_status st1 parentIndent\<rparr>
                            else nv0, st1))
                else Inr (nv0, st)) (\<lambda>(nv1, st1).
        if nv_indentStatus nv1 = 1
        then property_loop (loop_fuel st1) parentIndent allowBlockStyles nv1 st1
        else Inr (nv1, st1)))"

text \<open>The scalar styles and aliases, tried in turn; a plain scalar gets the tag \<open>?\<close>.\<close>

definition read_alias_node :: reader where
  "read_alias_node st =
     bind_res (readAlias st) (\<lambda>(found, st1).
       if found \<and> (tag st1 \<noteq> None \<or> anchor st1 \<noteq> None)
       then throwError st1 (jstr ''alias node should not have any properties'')
       else Inr (found, st1))"

definition read_plain_node :: "int \<Rightarrow> bool \<Rightarrow> reader" where
  "read_plain_node flowIndent inFlow st =
     bind_res (readPlainScalar st flowIndent inFlow) (\<lambda>(found, st1).
       Inr (found, if found \<and> tag st1 = None then st1\<lparr>tag := Some [0x3F]\<rparr> else st1))"

definition read_scalar_node :: "int \<Rightarrow> node_context \<Rightarrow> reader" where
  "read_scalar_node flowIndent ctx st =
     bind_res
       (or_else (and_also (is_block ctx) (\<lambda>s. readBlockScalar s flowIndent))
         (or_else (\<lambda>s. readSingleQuotedScalar s flowIndent)
           (or_else (\<lambda>s. readDoubleQuotedScalar s flowIndent)
             (or_else read_alias_node (read_plain_node flowIndent (ctx = FLOW_IN))))) st)
       (\<lambda>(hasContent, st1).
          bind_res (set_anchor (result st1) st1) (\<lambda>st2. Inr (hasContent, st2)))"

definition read_content :: "composer \<Rightarrow> host \<Rightarrow> int \<Rightarrow> node_context \<Rightarrow> bool \<Rightarrow> node_vars \<Rightarrow> reader" where
  "read_content compose w parentIndent ctx allowCompact nv st =
     (let allowBlockCollections = (nv_blockCollections nv \<and> (nv_atNewLine nv \<or> allowCompact));
          flowIndent = (if is_block ctx then parentIndent + 1 else parentIndent);
          blockIndent = int (position st) - int (lineStart st)
      in if nv_indentStatus nv = 1 then
           bind_res
             (or_else (and_also allowBlockCollections
                        (or_else (readBlockSequence compose blockIndent)
                                 (readBlockMapping compose w blockIndent flowIndent)))
                      (readFlowCollection compose w flowIndent) st)
             (\<lambda>(found, st1). if found then Inr (True, st1) else read_scalar_node flowIndent ctx st1)
         else if ctx = BLOCK_OUT \<and> nv_indentStatus nv = 0 then
           and_also allowBlockCollections (readBlockSequence compose blockIndent) st
         else Inr (False, st))"

fun first_resolved :: "host \<Rightarrow> heap \<Rightarrow> jsval \<Rightarrow> ytype list \<Rightarrow> ytype option yres" where
  "first_resolved w h v [] = Inr None"
| "first_resolved w h v (t # ts) =
     bind_res (ty_resolve t w h v) (\<lambda>b. if b then Inr (Some t) else first_resolved w h v ts)"

definition construct_node :: "host \<Rightarrow> ytype \<Rightarrow> lstate \<Rightarrow> lstate yres" where
  "construct_node w t st =
     bind_res (ty_construct t w (heap_of st) (result st)) (\<lambda>(h, v). Inr (st\<lparr>heap_of := h, result := v\<rparr>))"

definition kind_text :: "ykind option \<Rightarrow> jsstring" where
  "kind_text k = (case k of None \<Rightarrow> jstr ''null'' | Some k' \<Rightarrow> kind_name k')"

definition resolve_implicit :: "host \<Rightarrow> lstate \<Rightarrow> lstate yres" where
  "resolve_implicit w st =
     bind_res (first_resolved w (heap_of st) (result st) (implicitTypes st)) (\<lambda>found.
       case found of
         None \<Rightarrow> Inr st
       | Some t \<Rightarrow>
           bind_res (construct_node w t st) (\<lambda>st1.
             set_anchor (result st1) (st1\<lparr>tag := Some (ty_tag t)\<rparr>)))"

definition resolve_explicit :: "host \<Rightarrow> jsstring \<Rightarrow> lstate \<Rightarrow> lstate yres" where
  "resolve_explicit w tg st =
     (case map_of (typeMap st) tg of
        None \<Rightarrow> throwError st (jstr ''unknown tag !<'' @ tg @ [0x3E])
      | Some t \<Rightarrow>
          if result st \<noteq> Null \<and> ty_kind t \<noteq> kind st then
            throwError st (jstr ''unacceptable node kind for !<'' @ tg @ jstr ''> tag; it should be ''
              @ [0x22] @ kind_text (ty_kind t) @ [0x22] @ jstr '', not '' @ [0x22] @ kind_text (kind st)
              @ [0x22])
          else
            bind_res (ty_resolve t w (heap_of st) (result st)) (\<lambda>b.
              if \<not> b then throwError st (jstr ''cannot resolve a node with !<'' @ tg @ jstr ''> explicit tag'')
              else bind_res (construct_node w t st) (\<lambda>st1. set_anchor (result st1) st1)))"

definition resolve_tag :: "host \<Rightarrow> lstate \<Rightarrow> lstate yres" where
  "resolve_tag w st =
     (case tag st of
        None \<Rightarrow> Inr st
      | Some tg \<Rightarrow>
          if tg = [0x21] then Inr st
          else if tg = [0x3F] then resolve_implicit w st
          else resolve_explicit w tg st)"

definition compose_body :: "host \<Rightarrow> composer \<Rightarrow> composer" where
  "compose_body w compose parentIndent ctx allowToSeek allowCompact st =
     bind_res (read_properties parentIndent allowToSeek (is_block ctx) (clear_node (emit Opened st)))
       (\<lambda>(nv, st1).
     bind_res (read_content compose w parentIndent ctx allowCompact nv st1) (\<lambda>(hasContent, st2).
     bind_res (resolve_tag w st2) (\<lambda>st3.
       Inr (tag st3 \<noteq> None \<or> anchor st3 \<noteq> None \<or> hasContent, emit Closed st3))))"

primrec composeNode :: "host \<Rightarrow> nat \<Rightarrow> composer" where
  "composeNode w 0 = (\<lambda>parentIndent ctx allowToSeek allowCompact st. Inl Diverges)"
| "composeNode w (Suc n) = compose_body w (composeNode w n)"

definition compose_fuel :: "lstate \<Rightarrow> nat" where
  "compose_fuel st = 2 * length (rest st) + 2"

section \<open>Documents\<close>

text \<open>\<open>parseInt\<close> of the two numbers of a version.\<close>

definition handleYamlDirective :: "lstate \<Rightarrow> jsstring list \<Rightarrow> lstate yres" where
  "handleYamlDirective st args =
     (if version st \<noteq> None then throwError st (jstr ''duplication of %YAML directive'')
      else case args of
        [arg] \<Rightarrow>
          if \<not> re_test (seqs [re_plus re_digit, chr 0x2E, re_plus re_digit]) arg
          then throwError st (jstr ''ill-formed argument of the YAML directive'')
          else
            let major = parseInt (takeWhile dec_digit arg) 10;
                minor = parseInt (tl (dropWhile dec_digit arg)) 10;
                st1 = st\<lparr>version := Some arg,
                         checkLineBreaks := (case minor of Fin q \<Rightarrow> q < 2 | _ \<Rightarrow> False)\<rparr>
            in if major \<noteq> Fin 1 then throwError st (jstr ''unacceptable YAML version of the document'')
               else if minor \<noteq> Fin 1 \<and> minor \<noteq> Fin 2
               then Inr (throwWarning st1 (jstr ''unsupported YAML version of the document''))
               else Inr st1
      | _ \<Rightarrow> throwError st (jstr ''YAML directive accepts exactly one argument''))"

definition handleTagDirective :: "lstate \<Rightarrow> jsstring list \<Rightarrow> lstate yres" where
  "handleTagDirective st args =
     (case args of
        [handle, prefix] \<Rightarrow>
          if \<not> re_test tag_handle_pattern handle
          then throwError st (jstr ''ill-formed tag handle (first argument) of the TAG directive'')
          else if has_own (tagMap st) handle
          then throwError st (jstr ''there is a previously declared suffix for '' @ [0x22] @ handle
                 @ [0x22] @ jstr '' tag handle'')
          else if \<not> re_test tag_uri_pattern prefix
          then throwError st (jstr ''ill-formed tag prefix (second argument) of the TAG directive'')
          else Inr (st\<lparr>tagMap := prop_set (tagMap st) handle prefix\<rparr>)
      | _ \<Rightarrow> throwError st (jstr ''TAG directive accepts exactly two arguments''))"

definition handle_directive :: "lstate \<Rightarrow> jsstring \<Rightarrow> jsstring list \<Rightarrow> lstate yres" where
  "handle_directive st name args =
     (if name = jstr ''YAML'' then handleYamlDirective st args
      else if name = jstr ''TAG'' then handleTagDirective st args
      else Inr (throwWarning st (jstr ''unknown document directive '' @ [0x22] @ name @ [0x22])))"

definition word_end :: "int \<Rightarrow> bool" where
  "word_end c \<longleftrightarrow> c = 0 \<or> is_WS_OR_EOL (Some c)"

fun directive_args :: "nat \<Rightarrow> jsstring list \<Rightarrow> lstate \<Rightarrow> (jsstring list \<times> lstate) yres" where
  "directive_args 0 args st = Inl Diverges"
| "directive_args (Suc n) args st =
     (if ch_at st = Some 0 then Inr (args, st)
      else
        let st1 = skip_while (\<lambda>c. is_WHITE_SPACE (Some c)) st; ch = ch_at st1 in
        if ch = Some 0x23 then
          bind_res (skip_until (\<lambda>c. c = 0 \<or> is_EOL (Some c)) (advance 1 st1)) (\<lambda>st2. Inr (args, st2))
        else if is_EOL ch then Inr (args, st1)
        else
          bind_res (skip_until word_end st1) (\<lambda>st2.
            directive_args n (args @ [input_slice st2 (position st1) (position st2)]) st2))"

definition read_directive :: "lstate \<Rightarrow> lstate yres" where
  "read_directive st =
     bind_res (skip_until word_end (advance 1 st)) (\<lambda>st1.
       let name = input_slice st1 (position st + 1) (position st1) in
       if length name < 1
       then throwError st1 (jstr ''directive name must not be less than one character in length'')
       else
         bind_res (directive_args (loop_fuel st1) [] st1) (\<lambda>(args, st2).
         bind_res (if ch_at st2 \<noteq> Some 0 then readLineBreak st2 else Inr st2) (\<lambda>st3.
           handle_directive st3 name args)))"

fun directive_loop :: "nat \<Rightarrow> bool \<Rightarrow> lstate \<Rightarrow> (bool \<times> lstate) yres" where
  "directive_loop 0 hasDirectives st = Inl Diverges"
| "directive_loop (Suc n) hasDirectives st =
     (if ch_at st = Some 0 then Inr (hasDirectives, st)
      else
        bind_res (skip_space st (- 1)) (\<lambda>st1.
          if lineIndent st1 > 0 \<or> ch_at st1 \<noteq> Some 0x25 then Inr (hasDirectives, st1)
          else bind_res (read_directive st1) (\<lambda>st2. directive_loop n True st2)))"

definition start_document :: "lstate \<Rightarrow> lstate" where
  "start_document st =
     st\<lparr>version := None, checkLineBreaks := legacy st, tagMap := [], anchorMap := []\<rparr>"

definition document_start_mark :: "bool \<Rightarrow> lstate \<Rightarrow> lstate yres" where
  "document_start_mark hasDirectives st =
     (if lineIndent st = 0 \<and> ch_at st = Some 0x2D \<and> ch_ahead st 1 = Some 0x2D \<and> ch_ahead st 2 = Some 0x2D
      then skip_space (advance 3 st) (- 1)
      else if hasDirectives then throwError st (jstr ''directives end mark is expected'')
      else Inr st)"

definition document_end :: "lstate \<Rightarrow> lstate yres" where
  "document_end st =
     (if position st = lineStart st \<and> testDocumentSeparator st then
        (if ch_at st = Some 0x2E then skip_space (advance 3 st) (- 1) else Inr st)
      else if int (position st) < int (input_length st) - 1
      then throwError st (jstr ''end of the stream or a document separator is expected'')
      else Inr st)"

definition readDocument :: "host \<Rightarrow> lstate \<Rightarrow> lstate yres" where
  "readDocument w st =
     bind_res (directive_loop (loop_fuel st) False (start_document st)) (\<lambda>(hasDirectives, st1).
     bind_res (skip_space st1 (- 1)) (\<lambda>st2.
     bind_res (document_start_mark hasDirectives st2) (\<lambda>st3.
     bind_res (composeNode w (compose_fuel st3) (lineIndent st3 - 1) BLOCK_OUT False True st3) (\<lambda>(_, st4).
     bind_res (skip_space st4 (- 1)) (\<lambda>st5.
       let st6 = (if checkLineBreaks st5 \<and>
                     non_ascii_line_breaks (input_slice st5 (position st) (position st5))
                  then throwWarning st5 (jstr ''non-ASCII line breaks are interpreted as content'')
                  else st5)
       in document_end (st6\<lparr>documents := documents st6 @ [result st6]\<rparr>))))))"

section \<open>Entry points\<close>

definition with_line_end :: "jsstring \<Rightarrow> jsstring" where
  "with_line_end s =
     (if s = [] then []
      else
        let t = (if last s \<noteq> 0x0A \<and> last s \<noteq> 0x0D then s @ [0x0A] else s)
        in if hd t = 0xFEFF then tl t else t)"

definition initial_state :: "jsstring \<Rightarrow> load_options \<Rightarrow> heap \<Rightarrow> lstate" where
  "initial_state s options h =
     (let st = (new_state (with_line_end s) options h)\<lparr>input := with_line_end s @ [0]\<rparr>;
          n = length (takeWhile (\<lambda>c. c = 0x20) (rest st))
      in advance n (st\<lparr>lineIndent := int n\<rparr>))"

fun document_loop :: "nat \<Rightarrow> host \<Rightarrow> lstate \<Rightarrow> lstate yres" where
  "document_loop 0 w st = Inl Diverges"
| "document_loop (Suc n) w st =
     (if int (position st) < int (input_length st) - 1
      then bind_res (readDocument w st) (\<lambda>st1. document_loop n w st1)
      else Inr st)"

definition loadDocuments :: "host \<Rightarrow> heap \<Rightarrow> jsval \<Rightarrow> load_options \<Rightarrow> lstate yres" where
  "loadDocuments w h inp options =
     bind_res (js_String w h inp) (\<lambda>s.
       let st = initial_state s options h in document_loop (loop_fuel st) w st)"

text \<open>
  \<open>loadAll\<close> calls the iterator on one document after the other: the result is the list of
  these arguments. The other field of the result is the heap that the documents refer to.
\<close>

definition loadAll :: "host \<Rightarrow> heap \<Rightarrow> jsval \<Rightarrow> load_options \<Rightarrow> (heap \<times> jsval list) yres" where
  "loadAll w h inp options =
     bind_res (loadDocuments w h inp options) (\<lambda>st. Inr (heap_of st, documents st))"

definition load :: "host \<Rightarrow> heap \<Rightarrow> jsval \<Rightarrow> load_options \<Rightarrow> (heap \<times> jsval) yres" where
  "load w h inp options =
     bind_res (loadDocuments w h inp options) (\<lambda>st.
       case documents st of
         [] \<Rightarrow> Inr (heap_of st, Undef)
       | [d] \<Rightarrow> Inr (heap_of st, d)
       | _ \<Rightarrow> yaml_exception (jstr ''expected a single document in the stream, but found more''))"

text \<open>\<open>common.extend({ schema: DEFAULT_SAFE_SCHEMA }, options)\<close>\<close>

definition safe_options :: "load_options \<Rightarrow> load_options" where
  "safe_options options =
     options\<lparr>opt_schema := (case opt_schema options of
                              None \<Rightarrow> Some (Some default_safe_schema) | Some s \<Rightarrow> Some s)\<rparr>"

definition safeLoadAll :: "host \<Rightarrow> heap \<Rightarrow> jsval \<Rightarrow> load_options \<Rightarrow> (heap \<times> jsval list) yres" where
  "safeLoadAll w h inp options = loadAll w h inp (safe_options options)"

definition safeLoad :: "host \<Rightarrow> heap \<Rightarrow> jsval \<Rightarrow> load_options \<Rightarrow> (heap \<times> jsval) yres" where
  "safeLoad w h inp options = load w h inp (safe_options options)"

end
