(* ===== verification/YamlProgress.thy ===== *)
theory YamlProgress
  imports YamlDocuments
begin

text \<open>
  The invariant of the loader's state, and the progress of the readers of scalars: no reader
  runs past the terminator, every one keeps the invariant and never moves backwards, and the
  fuel of each loop is enough.
\<close>

section \<open>Results without divergence\<close>

text \<open>
  An error is \<open>placed\<close> if it is not divergence and its mark, if it has one, is a position
  inside the text with a column that is not negative.
\<close>

definition mark_ok :: "mark \<Rightarrow> bool" where
  "mark_ok m \<longleftrightarrow> mposition m < length (mbuffer m) \<and> 0 \<le> mcolumn m"

definition placed :: "yaml_error \<Rightarrow> bool" where
  "placed e = (case e of Diverges \<Rightarrow> False
               | YAMLException r m \<Rightarrow> (case m of Some k \<Rightarrow> mark_ok k | None \<Rightarrow> True)
               | _ \<Rightarrow> True)"

definition okay :: "('a \<Rightarrow> bool) \<Rightarrow> 'a yres \<Rightarrow> bool" where
  "okay P m = (case m of Inl e \<Rightarrow> placed e | Inr x \<Rightarrow> P x)"

lemma placed_simps [simp]:
  "\<not> placed Diverges" "placed (JsError e)" "placed (SyntaxError s)" "placed (Unmodelled t)"
  "placed (YAMLException r None)" "placed (YAMLException r (Some k)) = mark_ok k"
  by (simp_all add: placed_def)

lemma okay_simps [simp]: "okay P (Inr x) = P x" "okay P (Inl e) = placed e"
  by (simp_all add: okay_def)

lemma okay_bind: "okay Q m \<Longrightarrow> (\<And>x. Q x \<Longrightarrow> okay P (f x)) \<Longrightarrow> okay P (bind_res m f)"
  by (cases m) auto

lemma okay_mono: "okay Q m \<Longrightarrow> (\<And>x. Q x \<Longrightarrow> P x) \<Longrightarrow> okay P m"
  by (cases m) auto

section \<open>The invariant\<close>

text \<open>The text ends with a line break and the terminator, or is the terminator alone.\<close>

definition text_ok :: "jsstring \<Rightarrow> bool" where
  "text_ok s \<longleftrightarrow> s = [0] \<or> (\<exists>b c. s = b @ [c, 0] \<and> is_EOL (Some c))"

definition valid :: "lstate \<Rightarrow> bool" where
  "valid st \<longleftrightarrow> text_ok (input st) \<and> input_length st + 1 = length (input st) \<and>
     position st < length (input st) \<and> 0 \<le> lineIndent st \<and>
     int (lineStart st) + lineIndent st \<le> int (position st)"

text \<open>What no reader changes: the text and the options.\<close>

definition conf :: "lstate \<Rightarrow> (jsstring \<times> nat \<times> jsstring option \<times> bool list)
    \<times> ytype list \<times> (jsstring \<times> ytype) list" where
  "conf st = ((input st, input_length st, filename st, [onWarning st, legacy st, json st, listener st]),
     implicitTypes st, typeMap st)"

definition fwd :: "lstate \<Rightarrow> lstate \<Rightarrow> bool" where
  "fwd st st' \<longleftrightarrow> valid st' \<and> conf st' = conf st \<and> position st \<le> position st' \<and>
     (lineStart st' = lineStart st \<or> position st < lineStart st')"

definition same :: "lstate \<Rightarrow> lstate \<Rightarrow> bool" where
  "same st st' \<longleftrightarrow> conf st' = conf st \<and> position st' = position st \<and> line st' = line st \<and>
     lineStart st' = lineStart st \<and> lineIndent st' = lineIndent st"

lemma confD:
  "conf st' = conf st \<Longrightarrow> input st' = input st"
  "conf st' = conf st \<Longrightarrow> input_length st' = input_length st"
  "conf st' = conf st \<Longrightarrow> implicitTypes st' = implicitTypes st"
  "conf st' = conf st \<Longrightarrow> typeMap st' = typeMap st"
  by (simp_all add: conf_def)

lemma conf_update [simp]:
  "conf (st\<lparr>position := p\<rparr>) = conf st" "conf (st\<lparr>line := n\<rparr>) = conf st"
  "conf (st\<lparr>lineStart := n\<rparr>) = conf st" "conf (st\<lparr>lineIndent := i\<rparr>) = conf st"
  "conf (st\<lparr>documents := d\<rparr>) = conf st" "conf (st\<lparr>version := v\<rparr>) = conf st"
  "conf (st\<lparr>checkLineBreaks := b\<rparr>) = conf st" "conf (st\<lparr>tagMap := m\<rparr>) = conf st"
  "conf (st\<lparr>anchorMap := a\<rparr>) = conf st" "conf (st\<lparr>tag := t\<rparr>) = conf st"
  "conf (st\<lparr>anchor := t\<rparr>) = conf st" "conf (st\<lparr>kind := k\<rparr>) = conf st"
  "conf (st\<lparr>result := r\<rparr>) = conf st" "conf (st\<lparr>heap_of := h\<rparr>) = conf st"
  "conf (st\<lparr>events := e\<rparr>) = conf st"
  by (simp_all add: conf_def)

lemma conf_advance [simp]: "conf (advance n st) = conf st"
  by (simp add: advance_def)

lemma advance_simps [simp]:
  "position (advance n st) = position st + n" "input (advance n st) = input st"
  "lineStart (advance n st) = lineStart st" "line (advance n st) = line st"
  "lineIndent (advance n st) = lineIndent st" "input_length (advance n st) = input_length st"
  "tag (advance n st) = tag st" "anchor (advance n st) = anchor st"
  "result (advance n st) = result st" "heap_of (advance n st) = heap_of st"
  by (simp_all add: advance_def)

lemma same_refl [simp]: "same st st"
  by (simp add: same_def)

lemma same_trans: "same a b \<Longrightarrow> same b c \<Longrightarrow> same a c"
  by (simp add: same_def)

lemma same_ch: "same st st' \<Longrightarrow> ch_at st' = ch_at st"
  using confD(1) [of st' st] by (simp add: same_def ch_at_def)

lemma same_update [simp]:
  "same a (st\<lparr>documents := d\<rparr>) = same a st" "same a (st\<lparr>version := v\<rparr>) = same a st"
  "same a (st\<lparr>checkLineBreaks := b\<rparr>) = same a st" "same a (st\<lparr>tagMap := m\<rparr>) = same a st"
  "same a (st\<lparr>anchorMap := am\<rparr>) = same a st" "same a (st\<lparr>tag := t\<rparr>) = same a st"
  "same a (st\<lparr>anchor := t\<rparr>) = same a st" "same a (st\<lparr>kind := k\<rparr>) = same a st"
  "same a (st\<lparr>result := r\<rparr>) = same a st" "same a (st\<lparr>heap_of := h\<rparr>) = same a st"
  "same a (st\<lparr>events := e\<rparr>) = same a st"
  by (simp_all add: same_def)

lemma valid_same: "same st st' \<Longrightarrow> valid st \<Longrightarrow> valid st'"
  using confD [of st' st] by (simp add: same_def valid_def)

lemma valid_update [simp]:
  "valid (st\<lparr>documents := d\<rparr>) = valid st" "valid (st\<lparr>version := v\<rparr>) = valid st"
  "valid (st\<lparr>checkLineBreaks := b\<rparr>) = valid st" "valid (st\<lparr>tagMap := m\<rparr>) = valid st"
  "valid (st\<lparr>anchorMap := am\<rparr>) = valid st" "valid (st\<lparr>tag := t\<rparr>) = valid st"
  "valid (st\<lparr>anchor := t\<rparr>) = valid st" "valid (st\<lparr>kind := k\<rparr>) = valid st"
  "valid (st\<lparr>result := r\<rparr>) = valid st" "valid (st\<lparr>heap_of := h\<rparr>) = valid st"
  "valid (st\<lparr>events := e\<rparr>) = valid st" "valid (st\<lparr>line := n\<rparr>) = valid st"
  by (simp_all add: valid_def)

lemma fwd_update [simp]:
  "fwd a (st\<lparr>documents := d\<rparr>) = fwd a st" "fwd a (st\<lparr>version := v\<rparr>) = fwd a st"
  "fwd a (st\<lparr>checkLineBreaks := b\<rparr>) = fwd a st" "fwd a (st\<lparr>tagMap := m\<rparr>) = fwd a st"
  "fwd a (st\<lparr>anchorMap := am\<rparr>) = fwd a st" "fwd a (st\<lparr>tag := t\<rparr>) = fwd a st"
  "fwd a (st\<lparr>anchor := t\<rparr>) = fwd a st" "fwd a (st\<lparr>kind := k\<rparr>) = fwd a st"
  "fwd a (st\<lparr>result := r\<rparr>) = fwd a st" "fwd a (st\<lparr>heap_of := h\<rparr>) = fwd a st"
  "fwd a (st\<lparr>events := e\<rparr>) = fwd a st"
  by (simp_all add: fwd_def)

lemma fwd_refl: "valid st \<Longrightarrow> fwd st st"
  by (simp add: fwd_def)

lemma fwd_trans: "fwd a b \<Longrightarrow> fwd b c \<Longrightarrow> fwd a c"
  by (auto simp: fwd_def)

lemma fwd_valid: "fwd a b \<Longrightarrow> valid b"
  by (simp add: fwd_def)

lemma fwd_position: "fwd a b \<Longrightarrow> position a \<le> position b"
  by (simp add: fwd_def)

lemma fwd_conf: "fwd a b \<Longrightarrow> conf b = conf a"
  by (simp add: fwd_def)

lemma fwd_same: "same a b \<Longrightarrow> valid a \<Longrightarrow> fwd a b"
  using valid_same [of a b] by (simp add: fwd_def same_def)

lemma same_fwd_trans: "same a b \<Longrightarrow> fwd b c \<Longrightarrow> fwd a c"
  by (simp add: fwd_def same_def)

lemma fwd_same_trans: "fwd a b \<Longrightarrow> same b c \<Longrightarrow> fwd a c"
  using valid_same [of b c] by (simp add: fwd_def same_def)

text \<open>The remaining input gets shorter.\<close>

lemma length_rest: "length (rest st) = length (input st) - position st"
  by (simp add: rest_def)

lemma rest_pos: "valid st \<Longrightarrow> 0 < length (rest st)"
  by (simp add: rest_def valid_def)

lemma rest_less: "valid st \<Longrightarrow> conf st' = conf st \<Longrightarrow> position st < position st' \<Longrightarrow>
    length (rest st') < length (rest st)"
  using confD(1) [of st' st] by (simp add: length_rest valid_def diff_less_mono2)

lemma rest_le: "conf st' = conf st \<Longrightarrow> position st \<le> position st' \<Longrightarrow>
    length (rest st') \<le> length (rest st)"
  using confD(1) [of st' st] by (simp add: length_rest diff_le_mono2)

lemma fwd_rest: "fwd st st' \<Longrightarrow> length (rest st') \<le> length (rest st)"
  by (simp add: fwd_def rest_le)

lemma throwError_okay [simp]: "valid st \<Longrightarrow> okay P (throwError st m)"
  by (simp add: throwError_def mark_ok_def state_mark_def valid_def)

lemma ch_Some: "valid st \<Longrightarrow> ch_at st = Some (input st ! position st)"
  by (simp add: ch_at_def charCodeAt_def valid_def)

lemma text_last: "text_ok s \<Longrightarrow> s \<noteq> [] \<and> last s = 0"
  by (auto simp: text_ok_def)

lemma not_last:
  assumes "valid st" "ch_at st \<noteq> Some 0"
  shows "position st + 1 < length (input st)"
proof (rule ccontr)
  assume "\<not> ?thesis"
  with assms have "position st = length (input st) - 1" "input st \<noteq> []"
    using text_last by (auto simp: valid_def)
  moreover have "last (input st) = 0" using assms text_last by (auto simp: valid_def)
  ultimately have "input st ! position st = 0" by (simp add: last_conv_nth)
  with assms ch_Some show False by simp
qed

lemma valid_advance: "valid st \<Longrightarrow> ch_at st \<noteq> Some 0 \<Longrightarrow> valid (advance 1 st)"
  using not_last [of st] by (simp add: valid_def)

lemma fwd_advance: "valid st \<Longrightarrow> ch_at st \<noteq> Some 0 \<Longrightarrow> fwd st (advance 1 st)"
  using valid_advance [of st] by (simp add: fwd_def)

lemma EOL_nonzero [simp]: "is_EOL (Some 0) = False" "is_WHITE_SPACE (Some 0) = False"
  "is_WS_OR_EOL (Some 0) = False" "is_FLOW_INDICATOR (Some 0) = False"
  by (simp_all add: is_EOL_def is_WHITE_SPACE_def is_WS_OR_EOL_def is_FLOW_INDICATOR_def)

lemma EOL_ch: "is_EOL c \<Longrightarrow> c \<noteq> Some 0" "is_WHITE_SPACE c \<Longrightarrow> c \<noteq> Some 0" "is_WS_OR_EOL c \<Longrightarrow> c \<noteq> Some 0"
  by auto

section \<open>Skipping\<close>

lemma takeWhile_stops:
  assumes "valid st" "\<not> p 0"
  shows "position st + length (takeWhile p (rest st)) < length (input st)"
    "\<not> p (input st ! (position st + length (takeWhile p (rest st))))"
proof -
  let ?r = "rest st"
  have "?r \<noteq> []" "last ?r = 0" using assms text_last by (auto simp: rest_def valid_def)
  then have "0 \<in> set ?r" by (metis last_in_set)
  with assms have shorter: "length (takeWhile p ?r) < length ?r"
    by (metis length_takeWhile_le le_neq_implies_less takeWhile_eq_all_conv takeWhile_eq_take take_all)
  then show "position st + length (takeWhile p ?r) < length (input st)"
    by (simp add: length_rest)
  have "\<not> p (?r ! length (takeWhile p ?r))" using shorter by (rule nth_length_takeWhile)
  then show "\<not> p (input st ! (position st + length (takeWhile p ?r)))"
    using assms by (simp add: rest_def valid_def)
qed

lemma skip_while_fwd: "valid st \<Longrightarrow> \<not> p 0 \<Longrightarrow> fwd st (skip_while p st)"
  using takeWhile_stops(1) [of st p] by (simp add: skip_while_def fwd_def valid_def)

lemma skip_while_frame [simp]:
  "conf (skip_while p st) = conf st" "line (skip_while p st) = line st"
  "lineStart (skip_while p st) = lineStart st" "lineIndent (skip_while p st) = lineIndent st"
  "tag (skip_while p st) = tag st" "anchor (skip_while p st) = anchor st"
  by (simp_all add: skip_while_def)

lemma skip_until_okay:
  assumes "valid st" "p 0"
  shows "okay (\<lambda>st'. fwd st st' \<and> lineIndent st' = lineIndent st \<and> lineStart st' = lineStart st
     \<and> line st' = line st) (skip_until p st)"
  using takeWhile_stops(1) [of st "\<lambda>c. \<not> p c"] assms
  by (simp add: skip_until_def fwd_def valid_def Let_def)

lemma append_result_same [simp]: "same a (append_result s st) = same a st"
  by (simp add: append_result_def)

lemma fwd_append_result [simp]: "fwd a (append_result s st) = fwd a st" "valid (append_result s st) = valid st"
  by (simp_all add: append_result_def)

lemma append_result_frame [simp]:
  "position (append_result s st) = position st" "lineStart (append_result s st) = lineStart st"
  "line (append_result s st) = line st" "conf (append_result s st) = conf st"
  "lineIndent (append_result s st) = lineIndent st"
  by (simp_all add: append_result_def)

lemma writeFoldedLines_same [simp]: "same a (writeFoldedLines st n) = same a st"
  by (simp add: writeFoldedLines_def)

lemma captureSegment_okay: "valid st \<Longrightarrow> okay (same st) (captureSegment st a b j)"
  by (simp add: captureSegment_def Let_def)

lemma throwWarning_same [simp]: "same a (throwWarning st m) = same a st"
  by (simp add: throwWarning_def)

lemma throwWarning_frame [simp]: "valid (throwWarning st m) = valid st" "fwd a (throwWarning st m) = fwd a st"
  by (simp_all add: throwWarning_def)

text \<open>After a line break the indentation is counted anew; until then only this is known.\<close>

lemma readLineBreak_okay:
  assumes "valid st"
  shows "okay (\<lambda>st'. valid (st'\<lparr>lineIndent := 0\<rparr>) \<and> conf st' = conf st \<and> position st < position st' \<and>
    lineStart st' = position st' \<and> lineIndent st' = lineIndent st) (readLineBreak st)"
proof -
  have one: "valid (advance 1 st)" if "ch_at st \<noteq> Some 0" using assms that by (rule valid_advance)
  have two: "valid (advance 1 (advance 1 st))" if "ch_at st \<noteq> Some 0" "ch_at (advance 1 st) = Some 0x0A"
    using valid_advance [OF one] that by simp
  show ?thesis
    using assms one two by (auto simp: readLineBreak_def Let_def valid_def)
qed

lemma separation_loop_okay:
  "valid st \<Longrightarrow> length (rest st) < n \<Longrightarrow>
   okay (\<lambda>(k, st'). fwd st st' \<and> \<not> is_EOL (ch_at st') \<and> (lb < k \<longrightarrow> position st < position st') \<and> lb \<le> k \<and>
     (lb = k \<longrightarrow> lineIndent st' = lineIndent st \<and> lineStart st' = lineStart st \<and> line st' = line st))
     (separation_loop n c lb st)"
proof (induction n arbitrary: lb st)
  case (Suc n)
  define st1 where "st1 = skip_while (\<lambda>c. is_WHITE_SPACE (Some c)) st"
  have f1: "fwd st st1" using Suc.prems by (simp add: st1_def skip_while_fwd)
  then have w1: "valid st1" by (rule fwd_valid)
  have "okay (\<lambda>st2. fwd st1 st2 \<and> lineIndent st2 = lineIndent st1 \<and> lineStart st2 = lineStart st1
       \<and> line st2 = line st1)
      (if c \<and> ch_at st1 = Some 0x23 then skip_until (\<lambda>c. c = 0x0A \<or> c = 0x0D \<or> c = 0) (advance 1 st1)
       else Inr st1)"
  proof (cases "c \<and> ch_at st1 = Some 0x23")
    case True
    then have "fwd st1 (advance 1 st1)" using w1 fwd_advance by simp
    with True skip_until_okay [OF fwd_valid, of st1 "advance 1 st1" "\<lambda>c. c = 0x0A \<or> c = 0x0D \<or> c = 0"]
    show ?thesis by (auto elim!: okay_mono intro: fwd_trans)
  qed (auto simp: w1 fwd_refl)
  then show ?case
  proof (cases "ch_at st = Some 0")
    case False
    have step: "okay (\<lambda>(k, st'). fwd st st' \<and> \<not> is_EOL (ch_at st') \<and> (lb < k \<longrightarrow> position st < position st') \<and> lb \<le> k \<and>
       (lb = k \<longrightarrow> lineIndent st' = lineIndent st \<and> lineStart st' = lineStart st \<and> line st' = line st))
       (if is_EOL (ch_at st2) then
            bind_res (readLineBreak st2) (\<lambda>st3.
              let m = length (takeWhile (\<lambda>c. c = 0x20) (rest st3)) in
              separation_loop n c (lb + 1) (advance m (st3\<lparr>lineIndent := int m\<rparr>)))
          else Inr (lb, st2))"
      if st2: "fwd st1 st2 \<and> lineIndent st2 = lineIndent st1 \<and> lineStart st2 = lineStart st1
         \<and> line st2 = line st1" for st2
    proof (cases "is_EOL (ch_at st2)")
      case True
      have f2: "fwd st st2" using f1 st2 fwd_trans by blast
      show ?thesis
      proof (simp add: True, rule okay_bind [OF readLineBreak_okay [OF fwd_valid [OF f2]]], elim conjE)
        fix st3 assume w3: "valid (st3\<lparr>lineIndent := 0\<rparr>)" and c3: "conf st3 = conf st2"
          and p3: "position st2 < position st3" and l3: "lineStart st3 = position st3"
        define m where "m = length (takeWhile (\<lambda>c. c = 0x20) (rest st3))"
        define st4 where "st4 = advance m (st3\<lparr>lineIndent := int m\<rparr>)"
        have "rest (st3\<lparr>lineIndent := 0\<rparr>) = rest st3" by (simp add: rest_def)
        then have "position st3 + m < length (input st3)"
          using takeWhile_stops(1) [OF w3, of "\<lambda>c. c = 0x20"] by (simp add: m_def)
        then have w4: "valid st4" using w3 l3 by (simp add: valid_def st4_def)
        have pos: "position st < position st4" and conf: "conf st4 = conf st"
          and ls: "position st < lineStart st4"
          using fwd_position [OF f2] p3 c3 l3 fwd_conf [OF f2] by (simp_all add: st4_def)
        have "length (rest st4) < n"
          using rest_less [OF Suc.prems(1) conf pos] Suc.prems(2) by simp
        from Suc.IH [OF w4 this, of "lb + 1"]
        show "okay (\<lambda>(k, st'). fwd st st' \<and> \<not> is_EOL (ch_at st') \<and> (lb < k \<longrightarrow> position st < position st') \<and> lb \<le> k \<and>
             (lb = k \<longrightarrow> lineIndent st' = lineIndent st \<and> lineStart st' = lineStart st \<and> line st' = line st))
           (let m = length (takeWhile (\<lambda>c. c = 0x20) (rest st3)) in
              separation_loop n c (Suc lb) (advance m (st3\<lparr>lineIndent := int m\<rparr>)))"
          unfolding m_def [symmetric] Let_def st4_def [symmetric]
          using pos conf ls by (auto elim!: okay_mono simp: fwd_def)
      qed
    next
      case False
      with st2 f1 show ?thesis by (auto intro: fwd_trans simp: st1_def)
    qed
    show ?thesis
      using okay_bind [OF \<open>okay _ _\<close> step] False by (simp add: Let_def st1_def [symmetric])
  qed (use Suc.prems in \<open>simp add: fwd_refl\<close>)
qed simp

lemma skipSeparationSpace_okay:
  assumes "valid st"
  shows "okay (\<lambda>(k, st'). fwd st st' \<and> \<not> is_EOL (ch_at st') \<and> (0 < k \<longrightarrow> position st < position st') \<and>
     (k = 0 \<longrightarrow> lineIndent st' = lineIndent st \<and> lineStart st' = lineStart st \<and> line st' = line st))
     (skipSeparationSpace st c i)"
proof -
  have ch: "ch_at (throwWarning s m) = ch_at s" for s m
    by (simp add: throwWarning_def ch_at_def)
  have frame: "position (throwWarning s m) = position s" "lineIndent (throwWarning s m) = lineIndent s"
    "lineStart (throwWarning s m) = lineStart s" "line (throwWarning s m) = line s" for s m
    by (simp_all add: throwWarning_def)
  show ?thesis
    unfolding skipSeparationSpace_def
    by (rule okay_bind [OF separation_loop_okay [OF assms]]) (auto simp: ch frame)
qed

lemma skip_space_okay:
  "valid st \<Longrightarrow> okay (fwd st) (skip_space st i)"
  unfolding skip_space_def by (rule okay_bind [OF skipSeparationSpace_okay]) auto

lemma EOL_progress:
  assumes "fwd st st'" "is_EOL (ch_at st)" "\<not> is_EOL (ch_at st')"
  shows "position st < position st'"
proof (rule ccontr)
  assume "\<not> ?thesis"
  with fwd_position [OF assms(1)] have "position st' = position st" by simp
  with confD(1) [OF fwd_conf [OF assms(1)]] have "ch_at st' = ch_at st" by (simp add: ch_at_def)
  with assms show False by simp
qed

section \<open>Scalars\<close>

lemma plain_flush_okay:
  "valid st \<Longrightarrow> okay (\<lambda>(cs1, ce1, st1). same st st1 \<and> (case pending of None \<Rightarrow> ce1 = ce | Some l \<Rightarrow> ce1 = position st))
     (plain_flush pending cs ce st)"
proof (cases pending)
  case (Some l)
  assume "valid st"
  have pos: "position (writeFoldedLines s k) = position s" for s k
    by (simp add: writeFoldedLines_def)
  show ?thesis
    unfolding plain_flush_def Some option.case
    by (rule okay_bind [OF captureSegment_okay [OF \<open>valid st\<close>]])
      (simp add: Let_def, simp add: pos same_def)
qed (simp add: plain_flush_def)

lemma plain_loop_okay:
  assumes "fwd st0 st" "length (rest st) < n" "position st0 \<le> ce" "ce \<le> position st"
    and "case pending of None \<Rightarrow> int (lineStart st) + lineIndent st \<le> int ce | Some l \<Rightarrow> \<not> is_EOL (ch_at st)"
  shows "okay (\<lambda>(cs', ce', st'). fwd st0 st') (plain_loop n nodeIndent inFlow cs ce pending st)"
  using assms
proof (induction n arbitrary: cs ce pending st)
  case (Suc n)
  have w: "valid st" using Suc.prems(1) by (rule fwd_valid)
  define next_char where "next_char = bind_res (plain_flush pending cs ce st) (\<lambda>(cs1, ce1, st1).
      plain_loop n nodeIndent inFlow cs1
        (if is_WHITE_SPACE (ch_at st) then ce1 else position st1 + 1) None (advance 1 st1))"
  have next_okay: "okay (\<lambda>(cs', ce', st'). fwd st0 st') next_char" if "ch_at st \<noteq> Some 0"
    unfolding next_char_def
  proof (rule okay_bind [OF plain_flush_okay [OF w]], clarify)
    fix cs1 ce1 st1
    assume sm: "same st st1" and ce1: "case pending of None \<Rightarrow> ce1 = ce | Some l \<Rightarrow> ce1 = position st"
    have f: "fwd st (advance 1 st1)"
      using fwd_advance [of st1] same_ch [OF sm] valid_same [OF sm w] that same_fwd_trans [OF sm] by simp
    have pos: "position (advance 1 st1) = position st + 1" "lineStart (advance 1 st1) = lineStart st"
      "lineIndent (advance 1 st1) = lineIndent st" using sm by (simp_all add: same_def)
    have "length (rest (advance 1 st1)) < n"
      using rest_less [OF w, of "advance 1 st1"] fwd_conf [OF f] pos Suc.prems(2) by simp
    moreover have "position st0 \<le> ce1 \<and> ce1 \<le> position st \<and> int (lineStart st) + lineIndent st \<le> int ce1"
      using ce1 Suc.prems w fwd_position [OF Suc.prems(1)] by (cases pending) (auto simp: valid_def)
    ultimately show "okay (\<lambda>(cs', ce', st'). fwd st0 st')
        (plain_loop n nodeIndent inFlow cs1 (if is_WHITE_SPACE (ch_at st) then ce1 else position st1 + 1)
          None (advance 1 st1))"
      using fwd_trans [OF Suc.prems(1) f] pos sm w fwd_position [OF Suc.prems(1)]
      by (intro Suc.IH) (auto simp: same_def valid_def)
  qed
  have eol_okay: "okay (\<lambda>(cs', ce', st'). fwd st0 st')
      (bind_res (skipSeparationSpace st False (- 1)) (\<lambda>(_, st1).
         if lineIndent st1 \<ge> nodeIndent
         then plain_loop n nodeIndent inFlow cs ce (Some (line st)) st1
         else Inr (cs, ce, st1\<lparr>position := ce, line := line st, lineStart := lineStart st,
                               lineIndent := lineIndent st\<rparr>)))" if eol: "is_EOL (ch_at st)"
  proof (rule okay_bind [OF skipSeparationSpace_okay [OF w]], clarify)
    fix k st1
    assume f: "fwd st st1" and no: "\<not> is_EOL (ch_at st1)"
    have pos: "position st < position st1" using EOL_progress [OF f eol no] .
    have "length (rest st1) < n" using rest_less [OF w fwd_conf [OF f] pos] Suc.prems(2) by simp
    with fwd_trans [OF Suc.prems(1) f] pos Suc.prems(3,4) no
    have loop: "okay (\<lambda>(cs', ce', st'). fwd st0 st') (plain_loop n nodeIndent inFlow cs ce (Some (line st)) st1)"
      by (intro Suc.IH) auto
    have conf1: "conf st1 = conf st" by (rule fwd_conf [OF f])
    have "fwd st0 (st1\<lparr>position := ce, line := line st, lineStart := lineStart st, lineIndent := lineIndent st\<rparr>)"
      using Suc.prems w eol confD(1,2) [OF conf1] conf1
      by (cases pending) (auto simp: fwd_def valid_def)
    with loop show "okay (\<lambda>(cs', ce', st'). fwd st0 st')
       (if lineIndent st1 \<ge> nodeIndent
         then plain_loop n nodeIndent inFlow cs ce (Some (line st)) st1
         else Inr (cs, ce, st1\<lparr>position := ce, line := line st, lineStart := lineStart st,
                               lineIndent := lineIndent st\<rparr>))" by simp
  qed
  show ?case
    using next_okay eol_okay Suc.prems(1)
    by (simp only: plain_loop.simps Let_def next_char_def [symmetric]) (simp split: if_split)
qed simp

lemma readPlainScalar_okay:
  assumes "valid st"
  shows "okay (\<lambda>(found, st'). fwd st st') (readPlainScalar st nodeIndent inFlow)"
proof -
  let ?st = "st\<lparr>kind := Some Scalar, result := Str []\<rparr>"
  have rest: "rest ?st = rest st" by (simp add: rest_def)
  have "fwd ?st ?st" using assms by (simp add: fwd_refl del: fwd_update)
  then have "okay (\<lambda>(cs', ce', st'). fwd ?st st')
      (plain_loop (loop_fuel st) nodeIndent inFlow (position st) (position st) None ?st)"
    by (rule plain_loop_okay) (use assms in \<open>simp_all add: loop_fuel_def rest valid_def\<close>)
  moreover have "fwd st st'" if "fwd ?st st'" for st'
    using that by (simp add: fwd_def)
  ultimately have loop: "okay (\<lambda>(cs', ce', st'). fwd st st')
      (plain_loop (loop_fuel st) nodeIndent inFlow (position st) (position st) None ?st)"
    by (auto elim: okay_mono)
  show ?thesis
    using assms
    by (auto simp: readPlainScalar_def Let_def fwd_refl intro!: okay_bind [OF loop]
        okay_bind [OF captureSegment_okay] dest: fwd_valid intro: fwd_same_trans)
qed

lemma quoted_fold_okay:
  assumes "valid st" "is_EOL (ch_at st)"
  shows "okay (\<lambda>st'. fwd st st' \<and> position st < position st') (quoted_fold st nodeIndent cs ce)"
  unfolding quoted_fold_def
proof (rule okay_bind [OF captureSegment_okay [OF assms(1)]])
  fix st1 assume sm: "same st st1"
  show "okay (\<lambda>st'. fwd st st' \<and> position st < position st')
      (bind_res (skipSeparationSpace st1 False nodeIndent) (\<lambda>(breaks, st2). Inr (writeFoldedLines st2 (int breaks))))"
  proof (rule okay_bind [OF skipSeparationSpace_okay [OF valid_same [OF sm assms(1)]]], clarsimp)
    fix k st2 assume f: "fwd st1 st2" "\<not> is_EOL (ch_at st2)"
    have "same st2 (writeFoldedLines st2 (int k))" by simp
    with EOL_progress [OF f(1) _ f(2)] same_ch [OF sm] assms(2) same_fwd_trans [OF sm f(1)] fwd_same_trans sm
    show "fwd st (writeFoldedLines st2 (int k)) \<and> position st < position (writeFoldedLines st2 (int k))"
      by (auto simp: same_def)
  qed
qed

lemma single_loop_okay:
  assumes "fwd st0 st" "length (rest st) < n"
  shows "okay (fwd st0) (single_loop n nodeIndent cs ce st)"
  using assms
proof (induction n arbitrary: cs ce st)
  case (Suc n)
  have w: "valid st" using Suc.prems(1) by (rule fwd_valid)
  have IH: "okay (fwd st0) (single_loop n nodeIndent cs' ce' st')"
    if "fwd st st'" "position st < position st'" for cs' ce' st'
    using Suc.IH [OF fwd_trans [OF Suc.prems(1) that(1)]] rest_less [OF w fwd_conf [OF that(1)] that(2)] Suc.prems(2)
    by simp
  have quote: "okay (fwd st0) (bind_res (captureSegment st cs (position st) True) (\<lambda>st1.
       let st2 = advance 1 st1 in
       if ch_at st2 = Some 0x27
       then single_loop n nodeIndent (position st2) (position st2) (advance 1 st2)
       else Inr st2))" if "ch_at st = Some 0x27"
  proof (rule okay_bind [OF captureSegment_okay [OF w]])
    fix st1 assume sm: "same st st1"
    have f: "fwd st (advance 1 st1)"
      using fwd_advance [OF valid_same [OF sm w]] same_ch [OF sm] that same_fwd_trans [OF sm] by simp
    have "fwd st (advance 1 (advance 1 st1)) \<and> position st < position (advance 1 (advance 1 st1))"
      if "ch_at (advance 1 st1) = Some 0x27"
      using fwd_trans [OF f fwd_advance [OF fwd_valid [OF f]]] that sm by (simp add: same_def)
    with f IH fwd_trans [OF Suc.prems(1)] show "okay (fwd st0) (let st2 = advance 1 st1 in
       if ch_at st2 = Some 0x27
       then single_loop n nodeIndent (position st2) (position st2) (advance 1 st2)
       else Inr st2)" by (simp add: Let_def)
  qed
  have fold: "okay (fwd st0) (bind_res (quoted_fold st nodeIndent cs ce) (\<lambda>st1.
      single_loop n nodeIndent (position st1) (position st1) st1))" if "is_EOL (ch_at st)"
    by (rule okay_bind [OF quoted_fold_okay [OF w that]]) (auto intro: IH)
  have "okay (fwd st0) (single_loop n nodeIndent cs (position st + 1) (advance 1 st))" if "ch_at st \<noteq> Some 0"
    using IH [OF fwd_advance [OF w that]] by simp
  with quote fold w show ?case by (simp add: Let_def)
qed simp

lemma start_quoted_fwd:
  assumes "valid st" "ch_at st \<noteq> Some 0"
  shows "fwd st (start_quoted st)" "length (rest (start_quoted st)) < loop_fuel (start_quoted st)"
proof -
  have "start_quoted st = (advance 1 st)\<lparr>kind := Some Scalar, result := Str []\<rparr>"
    by (simp add: start_quoted_def advance_def)
  with fwd_advance [OF assms] show "fwd st (start_quoted st)" by simp
qed (simp add: loop_fuel_def)

lemma readSingleQuotedScalar_okay:
  assumes "valid st"
  shows "okay (\<lambda>(found, st'). fwd st st') (readSingleQuotedScalar st nodeIndent)"
proof (cases "ch_at st = Some 0x27")
  case True
  then have f: "fwd st (start_quoted st)" "length (rest (start_quoted st)) < loop_fuel (start_quoted st)"
    using assms start_quoted_fwd by simp_all
  show ?thesis
    using True by (auto simp: readSingleQuotedScalar_def Let_def intro!: okay_bind [OF single_loop_okay [OF f]])
qed (simp add: readSingleQuotedScalar_def assms fwd_refl)

lemma code_zero [simp]: "fromHexCode (Some 0) = - 1" "fromDecimalCode (Some 0) = - 1"
  "simple_escape (Some 0) = []" "escapedHexLen (Some 0) = 0"
  by (simp_all add: fromHexCode_def fromDecimalCode_def simple_escape_def simpleEscapeSequence_def
      escapedHexLen_def js_or_def to_int32_def)

lemma hex_escape_okay:
  "valid st \<Longrightarrow> ch_at st \<noteq> Some 0 \<Longrightarrow>
   okay (\<lambda>(r, st'). fwd st st' \<and> ch_at st' \<noteq> Some 0) (hex_escape k r st)"
proof (induction k arbitrary: r st)
  case (Suc k)
  have f: "fwd st (advance 1 st)" using Suc.prems by (rule fwd_advance)
  have "okay (\<lambda>(r, st'). fwd st st' \<and> ch_at st' \<noteq> Some 0) (hex_escape k x (advance 1 st))"
    if "0 \<le> fromHexCode (ch_at (advance 1 st))" for x
  proof -
    have "ch_at (advance 1 st) \<noteq> Some 0" using that by auto
    from Suc.IH [OF fwd_valid [OF f] this] show ?thesis
      by (rule okay_mono) (auto intro: fwd_trans [OF f])
  qed
  with f show ?case by (auto simp: Let_def dest: fwd_valid)
qed (simp add: fwd_refl)

lemma read_escape_okay:
  assumes "valid st"
  shows "okay (\<lambda>st'. fwd st st' \<and> position st < position st') (read_escape st nodeIndent)"
proof -
  have eol: "okay (\<lambda>st'. fwd st st' \<and> position st < position st')
      (bind_res (skipSeparationSpace st False nodeIndent) (\<lambda>(_, st1). Inr st1))" if "is_EOL (ch_at st)"
    by (rule okay_bind [OF skipSeparationSpace_okay [OF assms]]) (auto dest: EOL_progress [OF _ that])
  have hex: "okay (\<lambda>st'. fwd st st' \<and> position st < position st')
      (bind_res (hex_escape (escapedHexLen (ch_at st)) 0 st) (\<lambda>(hexResult, st1).
          Inr (advance 1 (append_result (charFromCodepoint hexResult) st1))))" if "0 < escapedHexLen (ch_at st)"
  proof -
    have "ch_at st \<noteq> Some 0" using that by auto
    from hex_escape_okay [OF assms this] show ?thesis
    proof (rule okay_bind, clarsimp)
      fix r st1 assume f: "fwd st st1" and c: "ch_at st1 \<noteq> Some 0"
      let ?st = "append_result (charFromCodepoint r) st1"
      have "ch_at ?st = ch_at st1" by (simp add: append_result_def ch_at_def)
      with fwd_advance [of ?st] c fwd_valid [OF f] have "fwd ?st (advance 1 ?st)" by simp
      moreover have "fwd st ?st" using f by simp
      ultimately have g: "fwd st (advance 1 ?st)" by (rule fwd_trans [rotated])
      then show "fwd st (advance (Suc 0) ?st) \<and> position st < Suc (position st1)"
        using fwd_position [OF f] by simp
    qed
  qed
  have simple: "fwd st (advance 1 (append_result (simple_escape (ch_at st)) st))"
    if "simple_escape (ch_at st) \<noteq> []"
  proof -
    let ?st = "append_result (simple_escape (ch_at st)) st"
    have c: "ch_at st \<noteq> Some 0" using that by auto
    have "ch_at ?st = ch_at st" by (simp add: append_result_def ch_at_def)
    with fwd_advance [of ?st] c assms have "fwd ?st (advance 1 ?st)" by simp
    moreover have "fwd st ?st" using assms by (simp add: fwd_refl)
    ultimately show ?thesis by (rule fwd_trans [rotated])
  qed
  show ?thesis
    using assms eol hex simple by (simp add: read_escape_def Let_def)
qed

lemma double_loop_okay:
  assumes "fwd st0 st" "length (rest st) < n"
  shows "okay (fwd st0) (double_loop n nodeIndent cs ce st)"
  using assms
proof (induction n arbitrary: cs ce st)
  case (Suc n)
  have w: "valid st" using Suc.prems(1) by (rule fwd_valid)
  have IH: "okay (fwd st0) (double_loop n nodeIndent cs' ce' st')"
    if "fwd st st'" "position st < position st'" for cs' ce' st'
    using Suc.IH [OF fwd_trans [OF Suc.prems(1) that(1)]] rest_less [OF w fwd_conf [OF that(1)] that(2)] Suc.prems(2)
    by simp
  have step: "fwd st (advance 1 st1)" "position (advance 1 st1) = position st + 1"
    if "same st st1" "ch_at st \<noteq> Some 0" for st1
    using fwd_advance [OF valid_same [OF that(1) w]] same_ch [OF that(1)] that same_fwd_trans [OF that(1)]
    by (simp_all add: same_def)
  have quote: "okay (fwd st0) (bind_res (captureSegment st cs (position st) True) (\<lambda>st1. Inr (advance 1 st1)))"
    if "ch_at st = Some 0x22"
    by (rule okay_bind [OF captureSegment_okay [OF w]])
      (simp add: fwd_trans [OF Suc.prems(1) step(1)] that del: One_nat_def)
  have escape: "okay (fwd st0) (bind_res (captureSegment st cs (position st) True) (\<lambda>st1.
        bind_res (read_escape (advance 1 st1) nodeIndent) (\<lambda>st2.
          double_loop n nodeIndent (position st2) (position st2) st2)))" if "ch_at st = Some 0x5C"
  proof (rule okay_bind [OF captureSegment_okay [OF w]])
    fix st1 assume sm: "same st st1"
    have nz: "ch_at st \<noteq> Some 0" using that by simp
    note f = step(1) [OF sm nz] step(2) [OF sm nz]
    show "okay (fwd st0) (bind_res (read_escape (advance 1 st1) nodeIndent) (\<lambda>st2.
          double_loop n nodeIndent (position st2) (position st2) st2))"
    proof (rule okay_bind [OF read_escape_okay [OF fwd_valid [OF f(1)]]], elim conjE)
      fix st2 assume g: "fwd (advance 1 st1) st2" "position (advance 1 st1) < position st2"
      show "okay (fwd st0) (double_loop n nodeIndent (position st2) (position st2) st2)"
        by (rule IH [OF fwd_trans [OF f(1) g(1)]]) (use f(2) g(2) in simp)
    qed
  qed
  have fold: "okay (fwd st0) (bind_res (quoted_fold st nodeIndent cs ce) (\<lambda>st1.
      double_loop n nodeIndent (position st1) (position st1) st1))" if "is_EOL (ch_at st)"
    by (rule okay_bind [OF quoted_fold_okay [OF w that]]) (auto intro: IH)
  have "okay (fwd st0) (double_loop n nodeIndent cs (position st + 1) (advance 1 st))" if "ch_at st \<noteq> Some 0"
    using IH [OF fwd_advance [OF w that]] by simp
  with quote escape fold w show ?case by (simp add: Let_def)
qed simp

lemma readDoubleQuotedScalar_okay:
  assumes "valid st"
  shows "okay (\<lambda>(found, st'). fwd st st') (readDoubleQuotedScalar st nodeIndent)"
proof (cases "ch_at st = Some 0x22")
  case True
  then have f: "fwd st (start_quoted st)" "length (rest (start_quoted st)) < loop_fuel (start_quoted st)"
    using assms start_quoted_fwd by simp_all
  show ?thesis
    using True by (auto simp: readDoubleQuotedScalar_def Let_def intro!: okay_bind [OF double_loop_okay [OF f]])
qed (simp add: readDoubleQuotedScalar_def assms fwd_refl)

lemma block_indicators_okay:
  assumes "fwd st0 st" "ch_at st \<noteq> Some 0" "length (rest st) < n"
  shows "okay (\<lambda>(m, d, t, st'). fwd st0 st') (block_indicators n i m d t st)"
  using assms
proof (induction n arbitrary: m d t st)
  case (Suc n)
  have w: "valid st" using Suc.prems(1) by (rule fwd_valid)
  let ?st = "advance 1 st"
  have f: "fwd st ?st" using w Suc.prems(2) by (rule fwd_advance)
  have g: "fwd st0 ?st" by (rule fwd_trans [OF Suc.prems(1) f])
  have "length (rest ?st) < n" using rest_less [OF w, of ?st] Suc.prems(3) by simp
  then have IH: "okay (\<lambda>(m, d, t, st'). fwd st0 st') (block_indicators n i m' d' t' ?st)"
    if "ch_at ?st \<noteq> Some 0" for m' d' t' using Suc.IH [OF g that] by simp
  have "ch_at ?st \<noteq> Some 0" if "0 \<le> fromDecimalCode (ch_at ?st)" using that by auto
  with IH g fwd_valid [OF g] show ?case by (simp add: Let_def)
qed simp

lemma block_comment_okay:
  assumes "valid st"
  shows "okay (fwd st) (block_comment st)"
proof (cases "is_WHITE_SPACE (ch_at st)")
  case True
  define st1 where "st1 = skip_while (\<lambda>c. is_WHITE_SPACE (Some c)) (advance 1 st)"
  have f: "fwd st (advance 1 st)" using assms True by (intro fwd_advance) auto
  have f1: "fwd st st1"
    using fwd_trans [OF f skip_while_fwd [OF fwd_valid [OF f]]] by (simp add: st1_def)
  have "okay (fwd st) (skip_until (\<lambda>c. is_EOL (Some c) \<or> c = 0) (advance 1 st1))" if "ch_at st1 = Some 0x23"
  proof -
    have g: "fwd st (advance 1 st1)" using fwd_trans [OF f1 fwd_advance [OF fwd_valid [OF f1]]] that by simp
    show ?thesis
      by (rule okay_mono [OF skip_until_okay [OF fwd_valid [OF g]]]) (auto intro: fwd_trans [OF g])
  qed
  with True f1 show ?thesis by (simp add: block_comment_def Let_def st1_def)
qed (simp add: block_comment_def fwd_refl assms)

lemma block_lines_okay:
  assumes "fwd st0 st" "length (rest st) < n"
  shows "okay (fwd st0) (block_lines n fo m rd di ti el mi st)"
  using assms
proof (induction n arbitrary: rd di ti el mi st)
  case (Suc n)
  have w: "valid st" using Suc.prems(1) by (rule fwd_valid)
  show ?case
  proof (cases "ch_at st = Some 0")
    case False
    show ?thesis
      unfolding block_lines.simps if_not_P [OF False]
    proof (rule okay_bind [OF readLineBreak_okay [OF w]], elim conjE)
      fix st1
      assume w1: "valid (st1\<lparr>lineIndent := 0\<rparr>)" and c1: "conf st1 = conf st" and p1: "position st < position st1"
        and l1: "lineStart st1 = position st1"
      define k where "k = (let s = length (takeWhile (\<lambda>c. c = 0x20) (rest st1)) in if di then min s (nat ti) else s)"
      define st2 where "st2 = advance k (st1\<lparr>lineIndent := int k\<rparr>)"
      have "rest (st1\<lparr>lineIndent := 0\<rparr>) = rest st1" by (simp add: rest_def)
      then have "position st1 + k < length (input st1)"
        using takeWhile_stops(1) [OF w1, of "\<lambda>c. c = 0x20"] by (auto simp: k_def Let_def)
      then have w2: "valid st2" using w1 l1 by (simp add: valid_def st2_def)
      have f2: "fwd st st2" "position st < position st2"
        using w2 c1 p1 l1 by (simp_all add: fwd_def st2_def)
      have IH: "okay (fwd st0) (block_lines n fo m rd' di' ti' el' mi' st')" if "fwd st2 st'"
        for rd' di' ti' el' mi' st'
      proof (rule Suc.IH)
        show "fwd st0 st'" using Suc.prems(1) f2(1) that fwd_trans by blast
        show "length (rest st') < n"
          using rest_less [OF w fwd_conf [OF f2(1)] f2(2)] fwd_rest [OF that] Suc.prems(2) by simp
      qed
      have line: "okay (fwd st0) (let st3 = append_result b st2 in
          bind_res (skip_until (\<lambda>c. is_EOL (Some c) \<or> c = 0) st3) (\<lambda>st4.
          bind_res (captureSegment st4 (position st3) (position st4) False) (\<lambda>st5.
            block_lines n fo m True True ti' 0 mi' st5)))" for b ti' mi'
        unfolding Let_def
      proof (rule okay_bind [OF skip_until_okay])
        fix st4 assume "fwd (append_result b st2) st4 \<and> lineIndent st4 = lineIndent (append_result b st2) \<and>
          lineStart st4 = lineStart (append_result b st2) \<and> line st4 = line (append_result b st2)"
        then have "fwd (append_result b st2) st4" by simp
        moreover have "fwd st2 (append_result b st2)" using w2 by (simp add: fwd_refl)
        ultimately have f4: "fwd st2 st4" by (rule fwd_trans [rotated])
        show "okay (fwd st0) (bind_res (captureSegment st4 (position (append_result b st2)) (position st4) False)
            (\<lambda>st5. block_lines n fo m True True ti' 0 mi' st5))"
          by (rule okay_bind [OF captureSegment_okay [OF fwd_valid [OF f4]]]) (rule IH [OF fwd_same_trans [OF f4]])
      qed (use w2 in simp_all)
      have last: "fwd st0 (append_result b st2)" for b
        using fwd_trans [OF Suc.prems(1) f2(1)] by simp
      show "okay (fwd st0) (let spaces = length (takeWhile (\<lambda>c. c = 0x20) (rest st1));
              indent = (if di then min spaces (nat ti) else spaces);
              st2 = advance indent (st1\<lparr>lineIndent := int indent\<rparr>);
              textIndent2 = (if \<not> di \<and> int indent > ti then int indent else ti);
              ch = ch_at st2
          in if is_EOL ch then block_lines n fo m rd di textIndent2 (el + 1) mi st2
             else if int indent < textIndent2 then Inr (append_result (block_end m rd el) st2)
             else
               let (breaks, mi') = block_breaks fo (is_WHITE_SPACE ch) rd mi el;
                   st3 = append_result breaks st2
               in bind_res (skip_until (\<lambda>c. is_EOL (Some c) \<or> c = 0) st3) (\<lambda>st4.
                  bind_res (captureSegment st4 (position st3) (position st4) False) (\<lambda>st5.
                    block_lines n fo m True True textIndent2 0 mi' st5)))"
        unfolding Let_def k_def [unfolded Let_def, symmetric] st2_def [symmetric]
        using last line [unfolded Let_def] IH [OF fwd_refl [OF w2]]
        by (auto split: prod.splits)
    qed
  qed (use Suc.prems in simp)
qed simp

lemma readBlockScalar_okay:
  assumes "valid st"
  shows "okay (\<lambda>(found, st'). fwd st st') (readBlockScalar st nodeIndent)"
proof (cases "ch_at st = Some 0x7C \<or> ch_at st = Some 0x3E")
  case True
  let ?st = "st\<lparr>kind := Some Scalar, result := Str []\<rparr>"
  have ch: "ch_at ?st = ch_at st" "rest ?st = rest st" by (simp_all add: ch_at_def rest_def)
  have "fwd st ?st" using assms by (simp add: fwd_refl)
  then have "okay (\<lambda>(m, d, t, st'). fwd st st')
      (block_indicators (loop_fuel st) nodeIndent CLIP False nodeIndent ?st)"
    using True ch by (intro block_indicators_okay) (auto simp: loop_fuel_def)
  then have "okay (\<lambda>(found, st'). fwd st st')
    (bind_res (block_indicators (loop_fuel st) nodeIndent CLIP False nodeIndent ?st)
          (\<lambda>(ch_mode, detectedIndent, textIndent, st1).
        bind_res (block_comment st1) (\<lambda>st2.
        bind_res (block_lines (loop_fuel st2) (ch_at st = Some 0x3E) ch_mode False detectedIndent textIndent
                    0 False st2)
          (\<lambda>st3. Inr (True, st3)))))"
  proof (rule okay_bind, clarify)
    fix m d t st1 assume f: "fwd st st1"
    show "okay (\<lambda>(found, st'). fwd st st') (bind_res (block_comment st1) (\<lambda>st2.
        bind_res (block_lines (loop_fuel st2) (ch_at st = Some 0x3E) m False d t 0 False st2)
          (\<lambda>st3. Inr (True, st3))))"
    proof (rule okay_bind [OF block_comment_okay [OF fwd_valid [OF f]]])
      fix st2 assume "fwd st1 st2"
      with f have "fwd st st2" by (rule fwd_trans)
      then show "okay (\<lambda>(found, st'). fwd st st')
        (bind_res (block_lines (loop_fuel st2) (ch_at st = Some 0x3E) m False d t 0 False st2)
          (\<lambda>st3. Inr (True, st3)))"
        by (intro okay_bind [OF block_lines_okay]) (auto simp: loop_fuel_def)
    qed
  qed
  with True show ?thesis by (auto simp: readBlockScalar_def Let_def)
qed (simp add: readBlockScalar_def assms fwd_refl)

end
