(* ===== verification/YamlTermination.thy ===== *)
theory YamlTermination
  imports YamlProgress
begin

text \<open>
  The loader returns on every input: the readers of collections keep the invariant and move
  forward if the function that composes nodes does (a locale), \<open>composeNode\<close> satisfies this
  contract with its fuel as the bound (by induction, and an interpretation), and the loops over
  documents end.
\<close>

section \<open>Conversions and stores\<close>

lemma traverse_okay: "\<forall>x \<in> set xs. okay (\<lambda>_. True) (f x) \<Longrightarrow> okay (\<lambda>_. True) (traverse f xs)"
  by (induction xs) (auto intro!: okay_bind [where Q = "\<lambda>_. True"])

lemma object_string_okay: "okay P (object_string h ps) \<or> (\<exists>s. object_string h ps = Inr s)"
  by (auto simp: object_string_def split: option.splits)

lemma string_of_okay:
  "length h + 2 \<le> n + card (set seen \<inter> {..<length h}) \<Longrightarrow> okay (\<lambda>_. True) (string_of n w h seen v)"
proof (induction n arbitrary: seen v)
  case 0
  have "card (set seen \<inter> {..<length h}) \<le> card {..<length h}" by (rule card_mono) auto
  with 0 show ?case by simp
next
  case (Suc n)
  have nested: "okay (\<lambda>_. True) (string_of n w h (r # seen) e)" if "r < length h" "r \<notin> set seen" for r e
  proof (rule Suc.IH)
    have "set (r # seen) \<inter> {..<length h} = insert r (set seen \<inter> {..<length h})" using that by auto
    with that Suc.prems show "length h + 2 \<le> n + card (set (r # seen) \<inter> {..<length h})" by simp
  qed
  have obj: "okay (\<lambda>_. True) (object_string h ps)" for ps
    using object_string_okay [of "\<lambda>_. True" h ps] by auto
  have arr: "okay (\<lambda>_. True) (bind_res (traverse (\<lambda>e. if e = Undef \<or> e = Null then Inr []
        else string_of n w h (r # seen) e) vs) (\<lambda>ss. Inr (join_with [0x2C] ss)))"
    if "r < length h" "r \<notin> set seen" for r vs
    by (rule okay_bind [OF traverse_okay]) (use nested that in auto)
  show ?case
    using obj arr by (auto simp: cell_of_def split: jsval.splits cell.splits option.splits if_splits)
qed

lemma js_String_okay: "okay (\<lambda>_. True) (js_String w h v)"
  unfolding js_String_def by (rule string_of_okay) simp

lemma store_key_okay: "okay (\<lambda>_. True) (store_key h d k v)"
  by (auto simp: store_key_def split: jsval.splits option.splits cell.splits)

lemma push_element_okay: "okay (\<lambda>_. True) (push_element h d v)"
  by (auto simp: push_element_def split: jsval.splits option.splits cell.splits)

lemma merge_keys_okay: "okay (\<lambda>_. True) (merge_keys h d ov ps)"
  by (induction h d ov ps rule: merge_keys.induct) (auto intro!: okay_bind [OF store_key_okay])

lemma mergeMappings_okay: "valid st \<Longrightarrow> okay (\<lambda>(st', ov'). same st st') (mergeMappings st d s ov)"
  by (auto simp: mergeMappings_def intro!: okay_bind [OF merge_keys_okay])

lemma merge_all_okay: "valid st \<Longrightarrow> okay (\<lambda>(st', ov'). same st st') (merge_all st d ov vs)"
proof (induction st d ov vs rule: merge_all.induct)
  case (2 st d ov v vs)
  show ?case
    unfolding merge_all.simps
  proof (rule okay_bind [OF mergeMappings_okay [OF 2(2)]], clarify)
    fix st1 ov1 assume sm: "same st st1"
    show "okay (\<lambda>(st', ov'). same st st') (merge_all st1 d ov1 vs)"
      by (rule okay_mono [OF 2(1)]) (use valid_same [OF sm 2(2)] same_trans [OF sm] in auto)
  qed
qed simp

lemma storeMappingPair_okay:
  assumes "valid st"
  shows "okay (\<lambda>(d, st', ov'). same st st') (storeMappingPair w st res ov kt k v)"
  unfolding storeMappingPair_def
proof (rule okay_bind [OF js_String_okay])
  fix key
  let ?p = "if res = Null then alloc (heap_of st) (Obj []) else (heap_of st, res)"
  define st1 where "st1 = st\<lparr>heap_of := fst ?p\<rparr>"
  have sm: "same st st1" by (simp add: st1_def)
  have v1: "valid st1" by (rule valid_same [OF sm assms])
  have "okay (\<lambda>(d, st', ov'). same st st')
      (bind_res (case cell_of (fst ?p) v of Some (Arr vs) \<Rightarrow> merge_all st1 (snd ?p) ov vs
                 | _ \<Rightarrow> mergeMappings st1 (snd ?p) v ov) (\<lambda>(st2, ov'). Inr (snd ?p, st2, ov')))"
    by (rule okay_bind [where Q = "\<lambda>(st', ov'). same st1 st'"])
      (auto split: option.splits cell.splits intro: mergeMappings_okay merge_all_okay v1 same_trans [OF sm])
  moreover have "okay (\<lambda>(d, st', ov'). same st st')
      (bind_res (store_key (fst ?p) (snd ?p) key v) (\<lambda>h1. Inr (snd ?p, st1\<lparr>heap_of := h1\<rparr>, removeAll key ov)))"
    by (rule okay_bind [OF store_key_okay]) (simp add: sm)
  ultimately show "okay (\<lambda>(d, st', ov'). same st st')
      (let (h, dest) = ?p; st1 = st\<lparr>heap_of := h\<rparr>
       in if kt = Some merge_tag then
            bind_res (case cell_of h v of Some (Arr vs) \<Rightarrow> merge_all st1 dest ov vs
                      | _ \<Rightarrow> mergeMappings st1 dest v ov) (\<lambda>(st2, ov). Inr (dest, st2, ov))
          else if \<not> json st1 \<and> key \<notin> set ov \<and> has_own (props_of h dest) key
            then throwError st1 (jstr ''duplicated mapping key'')
          else bind_res (store_key h dest key v) (\<lambda>h1. Inr (dest, st1\<lparr>heap_of := h1\<rparr>, removeAll key ov)))"
    unfolding Let_def case_prod_beta st1_def [symmetric] using v1 by simp
qed

lemma set_anchor_okay: "okay (same st) (set_anchor v st)"
  by (auto simp: set_anchor_def split: option.splits jsval.splits)

lemma push_result_okay: "okay (same st) (push_result d v st)"
  unfolding push_result_def by (rule okay_bind [OF push_element_okay]) simp

lemma store_pair_okay: "valid st \<Longrightarrow> okay (\<lambda>(mv', st'). same st st') (store_pair w res v mv st)"
  unfolding store_pair_def by (rule okay_bind [OF storeMappingPair_okay]) auto

lemma finish_frame [simp]: "fwd a (finish st0 k v st) = fwd a st"
  by (simp add: finish_def)

lemma new_object_same: "new_object c st = (v, st') \<Longrightarrow> same st st'"
  by (auto simp: new_object_def alloc_def)

lemma same_rest: "same st st' \<Longrightarrow> rest st' = rest st"
  using confD(1) [of st' st] by (simp add: same_def rest_def)

lemma same_sym: "same st st' \<Longrightarrow> same st' st"
  by (simp add: same_def)

lemma skip_space_frame:
  "valid st \<Longrightarrow> okay (\<lambda>st'. fwd st st' \<and> length (rest st') \<le> length (rest st)) (skip_space st i)"
  by (rule okay_mono [OF skip_space_okay]) (auto intro: fwd_rest)

text \<open>One character forward: the remaining input is shorter.\<close>

lemma advance_rest: "valid st \<Longrightarrow> length (rest (advance 1 st)) < length (rest st)"
  by (rule rest_less) simp_all

section \<open>Node types that return\<close>

definition type_ok :: "ytype \<Rightarrow> bool" where
  "type_ok t \<longleftrightarrow> (\<forall>w h v. okay (\<lambda>_. True) (ty_resolve t w h v) \<and> okay (\<lambda>_. True) (ty_construct t w h v))"

definition types_ok :: "lstate \<Rightarrow> bool" where
  "types_ok st \<longleftrightarrow> (\<forall>t \<in> set (implicitTypes st) \<union> snd ` set (typeMap st). type_ok t)"

lemma types_ok_conf: "conf st' = conf st \<Longrightarrow> types_ok st \<Longrightarrow> types_ok st'"
  using confD(3,4) [of st' st] by (simp add: types_ok_def)

lemma types_ok_fwd: "fwd st st' \<Longrightarrow> types_ok st \<Longrightarrow> types_ok st'"
  by (rule types_ok_conf [OF fwd_conf])

lemma types_ok_same: "same st st' \<Longrightarrow> types_ok st \<Longrightarrow> types_ok st'"
  by (rule types_ok_conf) (simp add: same_def)

text \<open>A state that a reader may start from.\<close>

definition ready :: "lstate \<Rightarrow> bool" where
  "ready st \<longleftrightarrow> valid st \<and> types_ok st"

lemma ready_fwd: "ready st \<Longrightarrow> fwd st st' \<Longrightarrow> ready st'"
  by (simp add: ready_def fwd_valid types_ok_fwd)

lemma ready_same: "ready st \<Longrightarrow> same st st' \<Longrightarrow> ready st'"
  by (simp add: ready_def valid_same types_ok_same)

lemma ready_valid: "ready st \<Longrightarrow> valid st"
  by (simp add: ready_def)

section \<open>The contract of composing a node\<close>

locale node_composer =
  fixes compose :: composer and bound :: nat
  assumes compose_okay:
    "ready st \<Longrightarrow> 2 * length (rest st) + (if is_block ctx then 1 else 0) < bound \<Longrightarrow>
     okay (\<lambda>(found, st'). fwd st st') (compose ind ctx seek cpt st)"
begin

lemma flow_key_okay:
  assumes "ready st" "2 * length (rest st) < bound"
  shows "okay (\<lambda>(e, kt, k, l, st'). fwd st st') (flow_key compose ind st)"
  unfolding flow_key_def Let_def
proof (rule okay_bind [where Q = "fwd st"])
  show "okay (fwd st) (if ch_at st = Some 0x3F \<and> is_WS_OR_EOL (ch_ahead st 1)
      then skip_space (advance 1 st) ind else Inr st)"
  proof (cases "ch_at st = Some 0x3F \<and> is_WS_OR_EOL (ch_ahead st 1)")
    case True
    then have f: "fwd st (advance 1 st)" using ready_valid [OF assms(1)] fwd_advance by simp
    have "okay (fwd st) (skip_space (advance 1 st) ind)"
      by (rule okay_mono [OF skip_space_okay [OF fwd_valid [OF f]] fwd_trans [OF f]])
    with True show ?thesis by simp
  next
    case False
    then show ?thesis using fwd_refl [OF ready_valid [OF assms(1)]] by (simp only: if_False okay_simps)
  qed
next
  fix st1 assume f1: "fwd st st1"
  have r1: "ready st1" by (rule ready_fwd [OF assms(1) f1])
  have b1: "2 * length (rest st1) + (if is_block FLOW_IN then 1 else 0) < bound"
    using fwd_rest [OF f1] assms(2) by (simp add: is_block_def)
  show "okay (\<lambda>(e, kt, k, l, st'). fwd st st')
      (bind_res (compose ind FLOW_IN False True st1) (\<lambda>(_, st2).
       bind_res (skip_space st2 ind) (\<lambda>st3.
         Inr (ch_at st = Some 0x3F \<and> is_WS_OR_EOL (ch_ahead st 1), tag st2, result st2, line st1, st3))))"
  proof (rule okay_bind [OF compose_okay [OF r1 b1]], clarify)
    fix st2 assume f2: "fwd st1 st2"
    show "okay (\<lambda>(e, kt, k, l, st'). fwd st st') (bind_res (skip_space st2 ind) (\<lambda>st3.
        Inr (ch_at st = Some 0x3F \<and> is_WS_OR_EOL (ch_ahead st 1), tag st2, result st2, line st1, st3)))"
      by (rule okay_bind [OF skip_space_okay [OF fwd_valid [OF f2]]])
        (simp add: fwd_trans [OF fwd_trans [OF f1 f2]])
  qed
qed

lemma flow_value_okay:
  assumes "ready st" "2 * length (rest st) < bound"
  shows "okay (\<lambda>(p, v, st'). fwd st st') (flow_value compose ind e l st)"
proof (cases "(e \<or> line st = l) \<and> ch_at st = Some 0x3A")
  case True
  have f: "fwd st (advance 1 st)" using ready_valid [OF assms(1)] fwd_advance True by simp
  have "okay (\<lambda>(p, v, st'). fwd st st') (bind_res (skip_space (advance 1 st) ind) (\<lambda>st1.
        bind_res (compose ind FLOW_IN False True st1) (\<lambda>(_, st2). Inr (True, result st2, st2))))"
  proof (rule okay_bind [OF skip_space_okay [OF fwd_valid [OF f]]])
    fix st1 assume "fwd (advance 1 st) st1"
    then have f1: "fwd st st1" by (rule fwd_trans [OF f])
    have b1: "2 * length (rest st1) + (if is_block FLOW_IN then 1 else 0) < bound"
      using fwd_rest [OF f1] assms(2) by (simp add: is_block_def)
    show "okay (\<lambda>(p, v, st'). fwd st st')
        (bind_res (compose ind FLOW_IN False True st1) (\<lambda>(_, st2). Inr (True, result st2, st2)))"
      by (rule okay_bind [OF compose_okay [OF ready_fwd [OF assms(1) f1] b1]])
        (auto intro: fwd_trans [OF f1])
  qed
  with True show ?thesis by (simp add: flow_value_def)
next
  case False
  then show ?thesis
    using fwd_refl [OF ready_valid [OF assms(1)]] unfolding flow_value_def by (simp only: if_False okay_simps split)
qed

end

lemma flow_store_okay:
  assumes "valid st"
  shows "okay (\<lambda>(ov', st'). same st st') (flow_store w m res p ov kt k v st)"
proof -
  have pair: "okay (\<lambda>(ov', st'). same st st') (bind_res (storeMappingPair w st Null ov kt k v)
      (\<lambda>(pair, st1, ov1). bind_res (push_result res pair st1) (\<lambda>st2. Inr (ov1, st2))))"
  proof (rule okay_bind [OF storeMappingPair_okay [OF assms]], clarify)
    fix d st1 ov1 assume sm: "same st st1"
    show "okay (\<lambda>(ov', st'). same st st') (bind_res (push_result res d st1) (\<lambda>st2. Inr (ov1, st2)))"
      by (rule okay_bind [OF push_result_okay]) (simp add: same_trans [OF sm])
  qed
  have map: "okay (\<lambda>(ov', st'). same st st') (bind_res (storeMappingPair w st res ov kt k v)
      (\<lambda>(_, st1, ov1). Inr (ov1, st1)))"
    by (rule okay_bind [OF storeMappingPair_okay [OF assms]]) auto
  have plain: "okay (\<lambda>(ov', st'). same st st') (bind_res (push_result res k st) (\<lambda>st1. Inr (ov, st1)))"
    by (rule okay_bind [OF push_result_okay]) simp
  show ?thesis using pair map plain by (simp add: flow_store_def)
qed

context node_composer
begin

lemma flow_entry_okay:
  assumes "ready st" "2 * length (rest st) < bound"
    and k: "\<And>ov' st'. fwd st st' \<Longrightarrow> okay P (f ov' st')"
  shows "okay P
    (bind_res (flow_key compose ind st) (\<lambda>(e, kt, k, l, st2).
     bind_res (flow_value compose ind e l st2) (\<lambda>(p, v, st3).
     bind_res (flow_store w m res p ov kt k v st3) (\<lambda>(ov1, st4).
     bind_res (skip_space st4 ind) (\<lambda>st5. f ov1 st5)))))"
proof (rule okay_bind [OF flow_key_okay [OF assms(1,2)]], clarify)
  fix e kt ky l st2 assume f2: "fwd st st2"
  have r2: "ready st2" and b2: "2 * length (rest st2) < bound"
    using ready_fwd [OF assms(1) f2] fwd_rest [OF f2] assms(2) by simp_all
  show "okay P (bind_res (flow_value compose ind e l st2) (\<lambda>(p, v, st3).
     bind_res (flow_store w m res p ov kt ky v st3) (\<lambda>(ov1, st4).
     bind_res (skip_space st4 ind) (\<lambda>st5. f ov1 st5))))"
  proof (rule okay_bind [OF flow_value_okay [OF r2 b2]], clarify)
    fix p v st3 assume "fwd st2 st3"
    with f2 have f3: "fwd st st3" by (rule fwd_trans)
    show "okay P (bind_res (flow_store w m res p ov kt ky v st3) (\<lambda>(ov1, st4).
     bind_res (skip_space st4 ind) (\<lambda>st5. f ov1 st5)))"
    proof (rule okay_bind [OF flow_store_okay [OF fwd_valid [OF f3]]], clarify)
      fix ov1 st4 assume "same st3 st4"
      with f3 have f4: "fwd st st4" by (rule fwd_same_trans)
      show "okay P (bind_res (skip_space st4 ind) (\<lambda>st5. f ov1 st5))"
        by (rule okay_bind [OF skip_space_okay [OF fwd_valid [OF f4]]]) (rule k [OF fwd_trans [OF f4]])
    qed
  qed
qed

lemma flow_loop_okay:
  assumes "fwd st0 st" "ready st0" "2 * length (rest st) < bound"
    "length (rest st) + (if nxt then 1 else 0) < n" "tm \<noteq> 0"
  shows "okay (fwd st0) (flow_loop n compose w ind tm m res nxt ov st)"
  using assms
proof (induction n arbitrary: nxt ov st)
  case (Suc n)
  have v: "valid st" using Suc.prems(1) by (rule fwd_valid)
  show ?case
  proof (cases "ch_at st = Some 0")
    case False
    show ?thesis
      unfolding flow_loop.simps if_not_P [OF False]
    proof (rule okay_bind [OF skip_space_okay [OF v]])
      fix st1 assume f1: "fwd st st1"
      have g1: "fwd st0 st1" by (rule fwd_trans [OF Suc.prems(1) f1])
      have r1: "ready st1" and b1: "2 * length (rest st1) < bound"
        using ready_fwd [OF Suc.prems(2) g1] fwd_rest [OF f1] Suc.prems(3) by simp_all
      have ended: "fwd st0 (advance 1 st1)" if "ch_at st1 = Some tm"
        using fwd_trans [OF g1 fwd_advance [OF fwd_valid [OF g1]]] that Suc.prems(5) by simp
      have next_round: "okay (fwd st0) (if ch_at st5 = Some 0x2C
              then flow_loop n compose w ind tm m res True ov1 (advance 1 st5)
              else flow_loop n compose w ind tm m res False ov1 st5)"
        if f5: "fwd st1 st5" and nxt for st5 ov1
      proof -
        have g5: "fwd st0 st5" by (rule fwd_trans [OF g1 f5])
        have len: "length (rest st5) \<le> length (rest st)" using fwd_rest [OF f5] fwd_rest [OF f1] by simp
        have "okay (fwd st0) (flow_loop n compose w ind tm m res True ov1 (advance 1 st5))"
          if "ch_at st5 = Some 0x2C"
        proof (rule Suc.IH)
          show "fwd st0 (advance 1 st5)"
            using fwd_trans [OF g5 fwd_advance [OF fwd_valid [OF g5]]] that by simp
        qed (use advance_rest [OF fwd_valid [OF g5]] len Suc.prems \<open>nxt\<close> in auto)
        moreover have "okay (fwd st0) (flow_loop n compose w ind tm m res False ov1 st5)"
          by (rule Suc.IH) (use g5 len Suc.prems \<open>nxt\<close> in auto)
        ultimately show ?thesis by simp
      qed
      show "okay (fwd st0) (if ch_at st1 = Some tm then Inr (advance 1 st1)
          else if \<not> nxt then throwError st1 (jstr ''missed comma between flow collection entries'')
          else
            bind_res (flow_key compose ind st1) (\<lambda>(isExplicitPair, keyTag, keyNode, line0, st2).
            bind_res (flow_value compose ind isExplicitPair line0 st2) (\<lambda>(isPair, valueNode, st3).
            bind_res (flow_store w m res isPair ov keyTag keyNode valueNode st3) (\<lambda>(ov1, st4).
            bind_res (skip_space st4 ind) (\<lambda>st5.
              if ch_at st5 = Some 0x2C
              then flow_loop n compose w ind tm m res True ov1 (advance 1 st5)
              else flow_loop n compose w ind tm m res False ov1 st5)))))"
        using ended fwd_valid [OF g1] flow_entry_okay [OF r1 b1 next_round] by simp
    qed
  qed (use v in simp)
qed simp

lemma readFlowCollection_okay:
  assumes "ready st" "2 * length (rest st) \<le> bound"
  shows "okay (\<lambda>(found, st'). fwd st st') (readFlowCollection compose w ind st)"
proof (cases "ch_at st = Some 0x5B \<or> ch_at st = Some 0x7B")
  case True
  define c where "c = (if ch_at st = Some 0x7B then Obj [] else Arr [])"
  obtain res st1 where al: "new_object c st = (res, st1)" by fastforce
  have sm: "same st st1" by (rule new_object_same [OF al])
  have "okay (\<lambda>(found, st'). fwd st st') (bind_res (set_anchor res st1) (\<lambda>st2.
      bind_res (flow_loop (loop_fuel st2) compose w ind (if ch_at st = Some 0x7B then 0x7D else 0x5D)
                  (ch_at st = Some 0x7B) res True [] (advance 1 st2)) (\<lambda>st3.
        Inr (True, finish st (if ch_at st = Some 0x7B then Mapping else Sequence) res st3))))"
  proof (rule okay_bind [OF set_anchor_okay])
    fix st2 assume "same st1 st2"
    with sm have s2: "same st st2" by (rule same_trans)
    have v2: "valid st2" by (rule valid_same [OF s2 ready_valid [OF assms(1)]])
    have f: "fwd st (advance 1 st2)"
      using same_fwd_trans [OF s2 fwd_advance [OF v2]] same_ch [OF s2] True by auto
    have "okay (fwd st) (flow_loop (loop_fuel st2) compose w ind (if ch_at st = Some 0x7B then 0x7D else 0x5D)
                  (ch_at st = Some 0x7B) res True [] (advance 1 st2))"
      using f assms advance_rest [OF v2] same_rest [OF s2]
      by (intro flow_loop_okay) (auto simp: loop_fuel_def)
    then show "okay (\<lambda>(found, st'). fwd st st') (bind_res
      (flow_loop (loop_fuel st2) compose w ind (if ch_at st = Some 0x7B then 0x7D else 0x5D)
                  (ch_at st = Some 0x7B) res True [] (advance 1 st2)) (\<lambda>st3.
        Inr (True, finish st (if ch_at st = Some 0x7B then Mapping else Sequence) res st3)))"
      by (rule okay_bind) simp
  qed
  moreover have "\<not> (ch_at st \<noteq> Some 0x5B \<and> ch_at st \<noteq> Some 0x7B)" using True by auto
  ultimately show ?thesis
    unfolding readFlowCollection_def Let_def by (simp only: if_False c_def [symmetric] al split)
next
  case False
  then show ?thesis using fwd_refl [OF ready_valid [OF assms(1)]] by (simp add: readFlowCollection_def)
qed

lemma sequence_loop_okay:
  assumes "fwd st0 st" "ready st0" "2 * length (rest st) \<le> bound" "length (rest st) < n"
  shows "okay (\<lambda>(found, st'). fwd st0 st') (sequence_loop n compose ind res d st)"
  using assms
proof (induction n arbitrary: d st)
  case (Suc n)
  have v: "valid st" using Suc.prems(1) by (rule fwd_valid)
  show ?case
  proof (cases "ch_at st \<noteq> Some 0x2D \<or> \<not> is_WS_OR_EOL (ch_ahead st 1)")
    case False
    then have f: "fwd st (advance 1 st)" using v fwd_advance by simp
    have shorter: "length (rest (advance 1 st)) < length (rest st)" by (rule advance_rest [OF v])
    have IH: "okay (\<lambda>(found, st'). fwd st0 st') (sequence_loop n compose ind res d' st')"
      if "fwd (advance 1 st) st'" for d' st'
      using Suc.IH [OF fwd_trans [OF fwd_trans [OF Suc.prems(1) f] that] Suc.prems(2)]
        fwd_rest [OF that] shorter Suc.prems(3,4) by simp
    show ?thesis
      unfolding sequence_loop.simps if_not_P [OF False]
    proof (rule okay_bind [OF skipSeparationSpace_okay [OF fwd_valid [OF f]]], clarify)
      fix k st1 assume f1: "fwd (advance 1 st) st1"
      have g1: "fwd st0 st1" by (rule fwd_trans [OF fwd_trans [OF Suc.prems(1) f] f1])
      have r1: "ready st1" by (rule ready_fwd [OF Suc.prems(2) g1])
      have b1: "2 * length (rest st1) + (if is_block BLOCK_IN then 1 else 0) < bound"
        using fwd_rest [OF f1] shorter Suc.prems(3) by (simp add: is_block_def)
      have empty: "okay (\<lambda>(found, st'). fwd st0 st')
          (bind_res (push_result res Null st1) (\<lambda>st2. sequence_loop n compose ind res True st2))"
        by (rule okay_bind [OF push_result_okay]) (rule IH [OF fwd_same_trans [OF f1]])
      have entry: "okay (\<lambda>(found, st'). fwd st0 st')
          (bind_res (compose ind BLOCK_IN False True st1) (\<lambda>(_, st2).
            bind_res (push_result res (result st2) st2) (\<lambda>st3.
            bind_res (skip_space st3 (- 1)) (\<lambda>st4.
              if (line st4 = line st1 \<or> lineIndent st4 > ind) \<and> ch_at st4 \<noteq> Some 0
              then throwError st4 (jstr ''bad indentation of a sequence entry'')
              else if lineIndent st4 < ind then Inr (True, st4)
              else sequence_loop n compose ind res True st4))))"
      proof (rule okay_bind [OF compose_okay [OF r1 b1]], clarify)
        fix st2 assume f2: "fwd st1 st2"
        show "okay (\<lambda>(found, st'). fwd st0 st')
           (bind_res (push_result res (result st2) st2) (\<lambda>st3.
            bind_res (skip_space st3 (- 1)) (\<lambda>st4.
              if (line st4 = line st1 \<or> lineIndent st4 > ind) \<and> ch_at st4 \<noteq> Some 0
              then throwError st4 (jstr ''bad indentation of a sequence entry'')
              else if lineIndent st4 < ind then Inr (True, st4)
              else sequence_loop n compose ind res True st4)))"
        proof (rule okay_bind [OF push_result_okay], rule okay_bind [OF skip_space_okay])
          fix st3 assume "same st2 st3"
          then have f3: "fwd st1 st3" by (rule fwd_same_trans [OF f2])
          then show "valid st3" by (rule fwd_valid)
          fix st4 assume "fwd st3 st4"
          with f3 have f4: "fwd st1 st4" by (rule fwd_trans)
          show "okay (\<lambda>(found, st'). fwd st0 st')
             (if (line st4 = line st1 \<or> lineIndent st4 > ind) \<and> ch_at st4 \<noteq> Some 0
              then throwError st4 (jstr ''bad indentation of a sequence entry'')
              else if lineIndent st4 < ind then Inr (True, st4)
              else sequence_loop n compose ind res True st4)"
            using IH [OF fwd_trans [OF f1 f4]] fwd_trans [OF g1 f4] fwd_valid [OF f4] by auto
        qed
      qed
      show "okay (\<lambda>(found, st'). fwd st0 st')
         (if k \<noteq> 0 \<and> lineIndent st1 \<le> ind then
            bind_res (push_result res Null st1) (\<lambda>st2. sequence_loop n compose ind res True st2)
          else
            bind_res (compose ind BLOCK_IN False True st1) (\<lambda>(_, st2).
            bind_res (push_result res (result st2) st2) (\<lambda>st3.
            bind_res (skip_space st3 (- 1)) (\<lambda>st4.
              if (line st4 = line st1 \<or> lineIndent st4 > ind) \<and> ch_at st4 \<noteq> Some 0
              then throwError st4 (jstr ''bad indentation of a sequence entry'')
              else if lineIndent st4 < ind then Inr (True, st4)
              else sequence_loop n compose ind res True st4))))"
        using empty entry by simp
    qed
  qed (use Suc.prems in simp)
qed simp

lemma readBlockSequence_okay:
  assumes "ready st" "2 * length (rest st) \<le> bound"
  shows "okay (\<lambda>(found, st'). fwd st st') (readBlockSequence compose ind st)"
proof -
  obtain res st1 where al: "new_object (Arr []) st = (res, st1)" by fastforce
  have sm: "same st st1" by (rule new_object_same [OF al])
  show ?thesis
    unfolding readBlockSequence_def al Let_def split
  proof (rule okay_bind [OF set_anchor_okay])
    fix st2 assume "same st1 st2"
    with sm have s2: "same st st2" by (rule same_trans)
    have "okay (\<lambda>(found, st'). fwd st st') (sequence_loop (loop_fuel st2) compose ind res False st2)"
      using assms same_rest [OF s2] fwd_same [OF s2 ready_valid [OF assms(1)]]
      by (intro sequence_loop_okay) (auto simp: loop_fuel_def)
    then show "okay (\<lambda>(found, st'). fwd st st')
      (bind_res (sequence_loop (loop_fuel st2) compose ind res False st2) (\<lambda>(detected, st3).
        if detected then Inr (True, finish st Sequence res st3) else Inr (False, st3)))"
      by (rule okay_bind) auto
  qed
qed

end

lemma flush_okay:
  "valid s \<Longrightarrow> okay (\<lambda>(mv', s'). same s s')
     (if mv_atExplicitKey m then store_pair w res Null m s else Inr (m, s))"
  using store_pair_okay [of s w res Null m] by auto

definition exit_fwd :: "lstate \<Rightarrow> map_exit \<Rightarrow> bool" where
  "exit_fwd st0 e = (case e of Kept st \<Rightarrow> fwd st0 st | Epilogue mv st \<Rightarrow> fwd st0 st)"

definition step_fwd :: "lstate \<Rightarrow> map_step \<Rightarrow> bool" where
  "step_fwd st0 p = (case p of Stop e \<Rightarrow> exit_fwd st0 e
     | Go b mv st \<Rightarrow> fwd st0 st \<and> position st0 < position st)"

lemma fwd_simps [simp]:
  "exit_fwd st0 (Kept st) = fwd st0 st" "exit_fwd st0 (Epilogue mv st) = fwd st0 st"
  "step_fwd st0 (Stop e) = exit_fwd st0 e"
  "step_fwd st0 (Go b mv st) = (fwd st0 st \<and> position st0 < position st)"
  by (simp_all add: exit_fwd_def step_fwd_def)

lemma implicit_key_okay:
  assumes "valid st"
  shows "okay (step_fwd st)
     (let st2 = skip_while (\<lambda>c. is_WHITE_SPACE (Some c)) st in
      if ch_at st2 = Some 0x3A then
        (let st3 = advance 1 st2 in
         if \<not> is_WS_OR_EOL (ch_at st3) then throwError st3 (e1 st3)
         else
           bind_res (if mv_atExplicitKey mv then store_pair w res Null mv st3 else Inr (mv, st3)) (\<lambda>(mv1, st4).
             Inr (Go False (g mv1 st4) st4)))
      else if mv_detected mv then throwError st2 (e2 st2)
      else Inr (Stop (Kept (st2\<lparr>tag := tag st0, anchor := anchor st0\<rparr>))))"
proof -
  define st2 where "st2 = skip_while (\<lambda>c. is_WHITE_SPACE (Some c)) st"
  have f2: "fwd st st2" unfolding st2_def using assms by (rule skip_while_fwd) simp
  have f3: "fwd st (advance 1 st2)" if "ch_at st2 = Some 0x3A"
    using fwd_trans [OF f2 fwd_advance [OF fwd_valid [OF f2]]] that by simp
  have "okay (step_fwd st) (bind_res (if mv_atExplicitKey mv then store_pair w res Null mv (advance 1 st2)
      else Inr (mv, advance 1 st2)) (\<lambda>(mv1, st4). Inr (Go False (g mv1 st4) st4)))"
    if "ch_at st2 = Some 0x3A"
  proof (rule okay_bind [OF flush_okay [OF fwd_valid [OF f3 [OF that]]]], clarify)
    fix mv1 st4 assume sm: "same (advance 1 st2) st4"
    with fwd_position [OF f2] have "position st < position st4" by (simp add: same_def)
    with fwd_same_trans [OF f3 [OF that] sm] show "okay (step_fwd st) (Inr (Go False (g mv1 st4) st4))"
      by simp
  qed
  with f2 fwd_valid [OF f3] fwd_valid [OF f2] show ?thesis
    by (simp add: Let_def st2_def [symmetric] del: One_nat_def)
qed

context node_composer
begin

lemma mapping_key_okay:
  assumes "ready st" "2 * length (rest st) < bound"
  shows "okay (step_fwd st) (mapping_key compose w fi st0 res mv st)"
proof -
  have v: "valid st" by (rule ready_valid [OF assms(1)])
  have explicit: "okay (step_fwd st)
      (bind_res (if mv_atExplicitKey mv then store_pair w res Null mv st else Inr (mv, st)) (\<lambda>(mv1, st1).
         Inr (Go True (mv1\<lparr>mv_detected := True, mv_atExplicitKey := True\<rparr>) (advance 1 st1))))"
    if "ch_at st \<noteq> Some 0"
  proof (rule okay_bind [OF flush_okay [OF v]], clarify)
    fix mv1 st1 assume sm: "same st st1"
    have "fwd st (advance 1 st1)"
      using same_fwd_trans [OF sm fwd_advance [OF valid_same [OF sm v]]] same_ch [OF sm] that by simp
    with sm show "okay (step_fwd st) (Inr (Go True (mv1\<lparr>mv_detected := True, mv_atExplicitKey := True\<rparr>) (advance 1 st1)))"
      by (simp add: same_def)
  qed
  have b: "2 * length (rest st) + (if is_block FLOW_OUT then 1 else 0) < bound"
    using assms(2) by (simp add: is_block_def)
  have implicit: "okay (step_fwd st) (bind_res (compose fi FLOW_OUT False True st) (\<lambda>(found, st1).
          if \<not> found then Inr (Stop (Epilogue mv st1))
          else if line st1 = line st then
            (let st2 = skip_while (\<lambda>c. is_WHITE_SPACE (Some c)) st1 in
             if ch_at st2 = Some 0x3A then
               (let st3 = advance 1 st2 in
                if \<not> is_WS_OR_EOL (ch_at st3) then throwError st3 (e1 st3)
                else
                  bind_res (if mv_atExplicitKey mv then store_pair w res Null mv st3 else Inr (mv, st3)) (\<lambda>(mv1, st4).
                    Inr (Go False (g mv1 st4) st4)))
             else if mv_detected mv then throwError st2 (e2 st2)
             else Inr (Stop (Kept (st2\<lparr>tag := tag st0, anchor := anchor st0\<rparr>))))
          else if mv_detected mv then throwError st1 (e3 st1)
          else Inr (Stop (Kept (st1\<lparr>tag := tag st0, anchor := anchor st0\<rparr>)))))" for e1 e2 e3 g
  proof (rule okay_bind [OF compose_okay [OF assms(1) b]], clarify)
    fix found st1 assume f: "fwd st st1"
    have "step_fwd st1 x \<Longrightarrow> step_fwd st x" for x
      using fwd_trans [OF f] fwd_position [OF f] by (cases x) (auto simp: exit_fwd_def split: map_exit.splits)
    with okay_mono [OF implicit_key_okay [OF fwd_valid [OF f],
          where ?mv = mv and ?w = w and ?res = res and ?e1.0 = e1 and ?g = g and ?e2.0 = e2 and ?st0.0 = st0]]
    show "okay (step_fwd st) (if \<not> found then Inr (Stop (Epilogue mv st1))
          else if line st1 = line st then
            (let st2 = skip_while (\<lambda>c. is_WHITE_SPACE (Some c)) st1 in
             if ch_at st2 = Some 0x3A then
               (let st3 = advance 1 st2 in
                if \<not> is_WS_OR_EOL (ch_at st3) then throwError st3 (e1 st3)
                else
                  bind_res (if mv_atExplicitKey mv then store_pair w res Null mv st3 else Inr (mv, st3)) (\<lambda>(mv1, st4).
                    Inr (Go False (g mv1 st4) st4)))
             else if mv_detected mv then throwError st2 (e2 st2)
             else Inr (Stop (Kept (st2\<lparr>tag := tag st0, anchor := anchor st0\<rparr>))))
          else if mv_detected mv then throwError st1 (e3 st1)
          else Inr (Stop (Kept (st1\<lparr>tag := tag st0, anchor := anchor st0\<rparr>))))"
      using f fwd_valid [OF f] by simp
  qed
  have "fwd st (advance 1 st)" if "ch_at st = Some 0x3A" using fwd_advance [OF v] that by simp
  with explicit v show ?thesis
    unfolding mapping_key_def Let_def
    using implicit [unfolded Let_def] by auto
qed

lemma mapping_value_okay:
  assumes "ready st" "2 * length (rest st) + 1 < bound"
  shows "okay (\<lambda>(mv', st'). fwd st st') (mapping_value compose w ind res ac mv st)"
  unfolding mapping_value_def
proof (rule okay_bind [OF compose_okay], rule assms(1))
  show "2 * length (rest st) + (if is_block BLOCK_OUT then 1 else 0) < bound"
    using assms(2) by (simp add: is_block_def)
  fix x :: "bool \<times> lstate" assume "case x of (found, st') \<Rightarrow> fwd st st'"
  moreover obtain found st1 where x: "x = (found, st1)" by fastforce
  ultimately have f: "fwd st st1" by simp
  have "okay (\<lambda>(mv', st'). same st1 st')
      (if mv_atExplicitKey mv then Inr (if found then mv\<lparr>mv_keyNode := result st1\<rparr> else mv, st1)
       else store_pair w res (if found then result st1 else Null) mv st1)"
    using store_pair_okay [OF fwd_valid [OF f]] by auto
  then have "okay (\<lambda>(mv', st'). fwd st st')
    (bind_res (if mv_atExplicitKey mv then Inr (if found then mv\<lparr>mv_keyNode := result st1\<rparr> else mv, st1)
               else store_pair w res (if found then result st1 else Null) mv st1) (\<lambda>(mv1, st2).
     bind_res (skip_space st2 (- 1)) (\<lambda>st3. Inr (mv1, st3))))"
  proof (rule okay_bind, clarify)
    fix mv1 st2 assume "same st1 st2"
    with f have f2: "fwd st st2" by (rule fwd_same_trans)
    show "okay (\<lambda>(mv', st'). fwd st st') (bind_res (skip_space st2 (- 1)) (\<lambda>st3. Inr (mv1, st3)))"
      by (rule okay_bind [OF skip_space_okay [OF fwd_valid [OF f2]]]) (simp add: fwd_trans [OF f2])
  qed
  then show "okay (\<lambda>(mv', st'). fwd st st') (case x of (found, st1) \<Rightarrow>
     bind_res (if mv_atExplicitKey mv then Inr (if found then mv\<lparr>mv_keyNode := result st1\<rparr> else mv, st1)
               else store_pair w res (if found then result st1 else Null) mv st1) (\<lambda>(mv1, st2).
     bind_res (skip_space st2 (- 1)) (\<lambda>st3. Inr (mv1, st3))))" by (simp only: x split)
qed

lemma mapping_loop_okay:
  assumes "fwd st1 st" "ready st1" "2 * length (rest st) < bound" "length (rest st) < n"
  shows "okay (exit_fwd st1) (mapping_loop n compose w ind fi st0 res mv st)"
  using assms
proof (induction n arbitrary: mv st)
  case (Suc n)
  have v: "valid st" and r: "ready st"
    using fwd_valid [OF Suc.prems(1)] ready_fwd [OF Suc.prems(2,1)] .
  show ?case
  proof (cases "ch_at st = Some 0")
    case False
    show ?thesis
      unfolding mapping_loop.simps if_not_P [OF False]
    proof (rule okay_bind [OF mapping_key_okay [OF r Suc.prems(3)]])
      fix p assume p: "step_fwd st p"
      show "okay (exit_fwd st1) (case p of Stop e \<Rightarrow> Inr e
          | Go allowCompact mv1 s1 \<Rightarrow>
              bind_res (if line s1 = line st \<or> lineIndent s1 > ind
                        then mapping_value compose w ind res allowCompact mv1 s1 else Inr (mv1, s1)) (\<lambda>(mv2, st2).
                if lineIndent st2 > ind \<and> ch_at st2 \<noteq> Some 0
                then throwError st2 (jstr ''bad indentation of a mapping entry'')
                else if lineIndent st2 < ind then Inr (Epilogue mv2 st2)
                else mapping_loop n compose w ind fi st0 res mv2 st2))"
      proof (cases p)
        case (Stop e)
        with p fwd_trans [OF Suc.prems(1)] show ?thesis by (auto simp: exit_fwd_def split: map_exit.splits)
      next
        case (Go ac mv1 s1)
        with p have f1: "fwd st s1" and shorter: "length (rest s1) < length (rest st)"
          using rest_less [OF v fwd_conf] by auto
        have "okay (\<lambda>(mv', st'). fwd s1 st') (if line s1 = line st \<or> lineIndent s1 > ind
            then mapping_value compose w ind res ac mv1 s1 else Inr (mv1, s1))"
          using mapping_value_okay [OF ready_fwd [OF r f1]] shorter Suc.prems(3) fwd_refl [OF fwd_valid [OF f1]]
          by auto
        then show ?thesis
          unfolding Go map_step.case
        proof (rule okay_bind, clarify)
          fix mv2 st2 assume "fwd s1 st2"
          then have f2: "fwd st st2" "length (rest st2) < length (rest st)"
            using fwd_trans [OF f1] fwd_rest shorter by fastforce+
          have g2: "fwd st1 st2" by (rule fwd_trans [OF Suc.prems(1) f2(1)])
          have "okay (exit_fwd st1) (mapping_loop n compose w ind fi st0 res mv2 st2)"
            using Suc.prems f2(2) by (intro Suc.IH [OF g2]) auto
          with g2 show "okay (exit_fwd st1) (if lineIndent st2 > ind \<and> ch_at st2 \<noteq> Some 0
                then throwError st2 (jstr ''bad indentation of a mapping entry'')
                else if lineIndent st2 < ind then Inr (Epilogue mv2 st2)
                else mapping_loop n compose w ind fi st0 res mv2 st2)"
            using fwd_valid [OF g2] by auto
        qed
      qed
    qed
  qed (use Suc.prems in simp)
qed simp

lemma mapping_epilogue_okay:
  assumes "exit_fwd st1 e"
  shows "okay (\<lambda>(found, st'). fwd st1 st') (mapping_epilogue w st0 res e)"
proof (cases e)
  case (Epilogue mv st)
  with assms have f: "fwd st1 st" by simp
  show ?thesis
    unfolding mapping_epilogue_def Epilogue map_exit.case
    by (rule okay_bind [OF flush_okay [OF fwd_valid [OF f]]]) (auto intro: fwd_same_trans [OF f])
qed (use assms in \<open>simp add: mapping_epilogue_def\<close>)

lemma readBlockMapping_okay:
  assumes "ready st" "2 * length (rest st) < bound"
  shows "okay (\<lambda>(found, st'). fwd st st') (readBlockMapping compose w ind fi st)"
proof -
  obtain res st1 where al: "new_object (Obj []) st = (res, st1)" by fastforce
  have sm: "same st st1" by (rule new_object_same [OF al])
  show ?thesis
    unfolding readBlockMapping_def al Let_def split
  proof (rule okay_bind [OF set_anchor_okay])
    fix st2 assume "same st1 st2"
    with sm have s2: "same st st2" by (rule same_trans)
    have "okay (exit_fwd st) (mapping_loop (loop_fuel st2) compose w ind fi st res mv st2)" for mv
      using assms same_rest [OF s2] fwd_same [OF s2 ready_valid [OF assms(1)]]
      by (intro mapping_loop_okay) (auto simp: loop_fuel_def)
    then show "okay (\<lambda>(found, st'). fwd st st')
      (bind_res (mapping_loop (loop_fuel st2) compose w ind fi st res
                  \<lparr>mv_keyTag = None, mv_keyNode = Null, mv_atExplicitKey = False, mv_detected = False,
                   mv_overridable = []\<rparr> st2) (\<lambda>e. mapping_epilogue w st res e))"
      by (rule okay_bind) (rule mapping_epilogue_okay)
  qed
qed

end

section \<open>Properties and aliases\<close>

lemma text_two_more:
  assumes "valid st" "ch_at st = Some c" "c \<noteq> 0" "\<not> is_EOL (Some c)"
  shows "position st + 2 < length (input st)"
proof -
  have p: "position st + 1 < length (input st)" using assms by (intro not_last) auto
  have t: "text_ok (input st)" using assms(1) by (simp add: valid_def)
  have c: "input st ! position st = c" using assms ch_Some by simp
  show ?thesis
  proof (rule ccontr)
    assume "\<not> ?thesis"
    with p have l: "position st + 2 = length (input st)" by simp
    with t obtain b e where "input st = b @ [e, 0]" "is_EOL (Some e)"
      by (auto simp: text_ok_def)
    moreover from this(1) l have "position st = length b" by simp
    ultimately have "c = e" using c by (simp add: nth_append)
    with \<open>is_EOL (Some e)\<close> assms(4) show False by simp
  qed
qed

lemma tag_loop_okay:
  assumes "fwd st0 st" "length (rest st) < n"
  shows "okay (\<lambda>(h, p, st'). fwd st0 st') (tag_loop n nm th pos st)"
  using assms
proof (induction n arbitrary: nm th pos st)
  case (Suc n)
  have v: "valid st" using Suc.prems(1) by (rule fwd_valid)
  have "okay (\<lambda>(h, p, st'). fwd st0 st') (tag_loop n nm' th' pos' (advance 1 st))"
    if "ch_at st \<noteq> Some 0" for nm' th' pos'
    by (rule Suc.IH [OF fwd_trans [OF Suc.prems(1) fwd_advance [OF v that]]])
      (use advance_rest [OF v] Suc.prems(2) in simp)
  with v Suc.prems(1) show ?case by (auto simp: Let_def)
qed simp

lemma verbatim_tag_okay:
  assumes "valid st" "valid (advance 1 st)"
  shows "okay (\<lambda>(t, st'). fwd st st') (verbatim_tag st)"
  unfolding verbatim_tag_def
proof (rule okay_bind [OF skip_until_okay [OF assms(2)]], simp, elim conjE)
  fix st1 assume "fwd (advance 1 st) st1"
  then have f: "fwd st st1" using assms by (auto simp: fwd_def)
  have "fwd st (advance 1 st1)" if "position st1 < input_length st1"
    using f that by (auto simp: fwd_def valid_def)
  with f show "okay (\<lambda>(t, st'). fwd st st')
     (if position st1 < input_length st1
       then Inr (input_slice st1 (position st) (position st1), advance 1 st1)
       else throwError st1 (jstr ''unexpected end of the stream within a verbatim tag''))"
    by (simp add: fwd_valid del: One_nat_def)
qed

lemma named_tag_okay: "valid st \<Longrightarrow> okay (\<lambda>(h, t, st'). fwd st st') (named_tag nm th st)"
  unfolding named_tag_def
  by (rule okay_bind [OF tag_loop_okay [OF fwd_refl]]) (auto simp: loop_fuel_def Let_def intro!: throwError_okay intro: fwd_valid)

lemma resolve_handle_okay: "valid st \<Longrightarrow> okay (\<lambda>(f, st'). same st st') (resolve_handle vb h t st)"
  by (auto simp: resolve_handle_def split: option.splits)

text \<open>A reader of a property: it moves if it finds one.\<close>

definition moves :: "lstate \<Rightarrow> bool \<times> lstate \<Rightarrow> bool" where
  "moves st x \<longleftrightarrow> fwd st (snd x) \<and> (fst x \<longrightarrow> position st < position (snd x))"

lemma moves_simps [simp]: "moves st (b, st') \<longleftrightarrow> fwd st st' \<and> (b \<longrightarrow> position st < position st')"
  by (simp add: moves_def)

lemma readTagProperty_okay:
  assumes "valid st"
  shows "okay (moves st) (readTagProperty st)"
proof (cases "ch_at st = Some 0x21")
  case True
  let ?st = "advance 1 st"
  have f: "fwd st ?st" using True assms fwd_advance by simp
  have handle: "okay (moves st) (resolve_handle vb h t st2)" if "fwd ?st st2" for vb h t st2
  proof (rule okay_mono [OF resolve_handle_okay [OF fwd_valid [OF that]]], clarify)
    fix b st3 assume "same st2 st3"
    with that have g: "fwd ?st st3" by (rule fwd_same_trans)
    with fwd_trans [OF f g] fwd_position [OF g] show "moves st (b, st3)" by simp
  qed
  have named: "okay (moves st) (bind_res (named_tag nm th s) (\<lambda>(h, t, st2). resolve_handle False h t st2))"
    if "fwd ?st s" for nm th s
    by (rule okay_bind [OF named_tag_okay [OF fwd_valid [OF that]]]) (auto intro: handle fwd_trans [OF that])
  have verbatim: "okay (moves st) (bind_res (verbatim_tag (advance 1 ?st)) (\<lambda>(t, st2). resolve_handle True [] t st2))"
    if "ch_at ?st = Some 0x3C"
  proof -
    have g: "fwd ?st (advance 1 ?st)" using fwd_advance [OF fwd_valid [OF f]] that by simp
    have "position ?st + 2 < length (input ?st)"
      by (rule text_two_more [OF fwd_valid [OF f] that]) (simp_all add: is_EOL_def)
    with fwd_valid [OF g] have v: "valid (advance 1 (advance 1 ?st))" by (simp add: valid_def)
    show ?thesis
      by (rule okay_bind [OF verbatim_tag_okay [OF fwd_valid [OF g] v]])
        (auto intro: handle fwd_trans [OF g] simp del: One_nat_def)
  qed
  have bang: "fwd ?st (advance 1 ?st)" if "ch_at ?st = Some 0x21"
    using fwd_advance [OF fwd_valid [OF f]] that by simp
  have neg: "\<not> (ch_at st \<noteq> Some 0x21)" using True by simp
  show ?thesis
    unfolding readTagProperty_def if_not_P [OF neg] Let_def
    using assms verbatim named [OF bang] named [OF fwd_refl [OF fwd_valid [OF f]]]
    by (simp del: One_nat_def)
qed (simp add: readTagProperty_def assms fwd_refl)

lemma name_end_zero [simp]: "name_end 0" "word_end 0"
  by (simp_all add: name_end_def word_end_def)

lemma readAnchorProperty_okay:
  assumes "valid st"
  shows "okay (moves st) (readAnchorProperty st)"
proof (cases "ch_at st = Some 0x26")
  case True
  have f: "fwd st (advance 1 st)" using True assms fwd_advance by simp
  have "okay (moves st) (bind_res (skip_until name_end (advance 1 st)) (\<lambda>st1.
     if position st1 = position st + 1 then throwError st1 m
     else Inr (True, st1\<lparr>anchor := Some (input_slice st1 (position st + 1) (position st1))\<rparr>)))" for m
    by (rule okay_bind [OF skip_until_okay [OF fwd_valid [OF f]]])
      (use fwd_trans [OF f] fwd_position in \<open>fastforce dest: fwd_valid\<close>)+
  with True assms show ?thesis by (simp add: readAnchorProperty_def del: One_nat_def)
qed (simp add: readAnchorProperty_def assms fwd_refl)

lemma has_anchor_okay: "okay (\<lambda>_. True) (has_anchor st a)"
  by (simp add: has_anchor_def split: option.split)

lemma readAlias_okay:
  assumes "valid st"
  shows "okay (\<lambda>(f, st'). fwd st st') (readAlias st)"
proof (cases "ch_at st = Some 0x2A")
  case True
  have f: "fwd st (advance 1 st)" using True assms fwd_advance by simp
  have found: "okay (\<lambda>(f, st'). fwd st st')
      (bind_res (skip_space (s\<lparr>result := v\<rparr>) (- 1)) (\<lambda>st2. Inr (True, st2)))" if "fwd st s" for s v
  proof (rule okay_bind [OF skip_space_okay])
    show "valid (s\<lparr>result := v\<rparr>)" using that by (simp add: fwd_valid)
    fix st2 assume "fwd (s\<lparr>result := v\<rparr>) st2"
    moreover have "fwd st (s\<lparr>result := v\<rparr>)" using that by simp
    ultimately show "okay (\<lambda>(f, st'). fwd st st') (Inr (True, st2))" using fwd_trans by fastforce
  qed
  have neg: "\<not> (ch_at st \<noteq> Some 0x2A)" using True by simp
  show ?thesis
    unfolding readAlias_def if_not_P [OF neg] Let_def
  proof (rule okay_bind [OF skip_until_okay [OF fwd_valid [OF f]]], simp, elim conjE)
    fix st1 assume "fwd (advance 1 st) st1"
    then have g: "fwd st st1" by (rule fwd_trans [OF f])
    have "okay (\<lambda>(f, st'). fwd st st') (bind_res (has_anchor st1 a) (\<lambda>known.
       case if known then map_of (anchorMap st1) a else None of
                None \<Rightarrow> throwError st1 m
              | Some v \<Rightarrow> bind_res (skip_space (st1\<lparr>result := v\<rparr>) (- 1)) (\<lambda>st2. Inr (True, st2))))" for a m
      by (rule okay_bind [OF has_anchor_okay]) (use found [OF g] fwd_valid [OF g] in \<open>simp split: option.split\<close>)
    with fwd_valid [OF g] show "okay (\<lambda>(f, st'). fwd st st')
      (if position st1 = position st + 1 then throwError st1 (jstr ''name of an alias node must contain at least one character'')
       else bind_res (has_anchor st1 (input_slice st1 (position st + 1) (position st1))) (\<lambda>known.
              case if known then map_of (anchorMap st1) (input_slice st1 (position st + 1) (position st1)) else None of
                None \<Rightarrow> throwError st1 (jstr ''unidentified alias '' @ [0x22] @ input_slice st1 (position st + 1) (position st1) @ [0x22])
              | Some v \<Rightarrow> bind_res (skip_space (st1\<lparr>result := v\<rparr>) (- 1)) (\<lambda>st2. Inr (True, st2))))"
      by (simp del: One_nat_def)
  qed
qed (simp add: readAlias_def assms fwd_refl)

section \<open>Composing a node\<close>

lemma emit_same [simp]: "same a (emit e st) = same a st" "valid (emit e st) = valid st"
  "fwd a (emit e st) = fwd a st"
  by (simp_all add: emit_def)

lemma clear_node_same [simp]: "same a (clear_node st) = same a st" "valid (clear_node st) = valid st"
  by (simp_all add: clear_node_def)

lemma or_else_okay:
  assumes "okay (moves st) (a st)" "\<And>st1. fwd st st1 \<Longrightarrow> okay (moves st1) (b st1)"
  shows "okay (moves st) (or_else a b st)"
  unfolding or_else_def
proof (rule okay_bind [OF assms(1)], clarify)
  fix found st1 assume m: "moves st (found, st1)"
  show "okay (moves st) (if found then Inr (True, st1) else b st1)"
  proof (cases found)
    case False
    from m have f: "fwd st st1" by simp
    have "okay (moves st) (b st1)"
    proof (rule okay_mono [OF assms(2) [OF f]])
      fix x assume "moves st1 x"
      then show "moves st x"
        using fwd_trans [OF f, of "snd x"] fwd_position [OF f] by (auto simp: moves_def)
    qed
    with False show ?thesis by simp
  qed (use m in simp)
qed

text \<open>The same for readers of which only the invariant is known.\<close>

definition stays :: "lstate \<Rightarrow> bool \<times> lstate \<Rightarrow> bool" where
  "stays st x \<longleftrightarrow> fwd st (snd x)"

lemma stays_simps [simp]: "stays st (b, st') \<longleftrightarrow> fwd st st'"
  by (simp add: stays_def)

lemma stays_case: "(\<lambda>(b, st'). fwd st st') = stays st"
  by (simp add: fun_eq_iff)

lemma or_else_stays:
  assumes "okay (stays st) (a st)" "\<And>st1. fwd st st1 \<Longrightarrow> okay (stays st1) (b st1)"
  shows "okay (stays st) (or_else a b st)"
  unfolding or_else_def
proof (rule okay_bind [OF assms(1)], clarify)
  fix found st1 assume m: "stays st (found, st1)"
  have "okay (stays st) (b st1)"
    by (rule okay_mono [OF assms(2)]) (use m in \<open>auto simp: stays_def intro: fwd_trans\<close>)
  with m show "okay (stays st) (if found then Inr (True, st1) else b st1)" by simp
qed

lemma and_also_stays: "valid st \<Longrightarrow> (c \<Longrightarrow> okay (stays st) (a st)) \<Longrightarrow> okay (stays st) (and_also c a st)"
  by (simp add: and_also_def fwd_refl)

lemma property_loop_okay:
  assumes "fwd st0 st" "length (rest st) < n" "nv_blockCollections nv \<longrightarrow> bs"
  shows "okay (\<lambda>(nv', st'). fwd st0 st' \<and> (nv_blockCollections nv' \<longrightarrow> bs)) (property_loop n ind bs nv st)"
  using assms
proof (induction n arbitrary: nv st)
  case (Suc n)
  have v: "valid st" using Suc.prems(1) by (rule fwd_valid)
  have props: "okay (moves st) (or_else readTagProperty readAnchorProperty st)"
    by (rule or_else_okay) (rule readTagProperty_okay [OF v], rule readAnchorProperty_okay [OF fwd_valid])
  show ?case
    unfolding property_loop.simps
  proof (rule okay_bind [OF props], clarify)
    fix found st1 assume m: "moves st (found, st1)"
    show "okay (\<lambda>(nv', st'). fwd st0 st' \<and> (nv_blockCollections nv' \<longrightarrow> bs))
      (if \<not> found then Inr (nv, st1)
       else bind_res (skipSeparationSpace st1 True (- 1)) (\<lambda>(breaks, st2).
           property_loop n ind bs
             (if breaks \<noteq> 0
              then \<lparr>nv_atNewLine = True, nv_blockCollections = bs, nv_indentStatus = indent_status st2 ind\<rparr>
              else nv\<lparr>nv_blockCollections := False\<rparr>) st2))"
    proof (cases found)
      case True
      with m have f: "fwd st st1" "position st < position st1" by simp_all
      have "okay (\<lambda>(nv', st'). fwd st0 st' \<and> (nv_blockCollections nv' \<longrightarrow> bs))
        (bind_res (skipSeparationSpace st1 True (- 1)) (\<lambda>(breaks, st2).
           property_loop n ind bs
             (if breaks \<noteq> 0
              then \<lparr>nv_atNewLine = True, nv_blockCollections = bs, nv_indentStatus = indent_status st2 ind\<rparr>
              else nv\<lparr>nv_blockCollections := False\<rparr>) st2))"
      proof (rule okay_bind [OF skipSeparationSpace_okay [OF fwd_valid [OF f(1)]]], clarify)
        fix k st2 assume g: "fwd st1 st2"
        show "okay (\<lambda>(nv', st'). fwd st0 st' \<and> (nv_blockCollections nv' \<longrightarrow> bs))
          (property_loop n ind bs
             (if k \<noteq> 0
              then \<lparr>nv_atNewLine = True, nv_blockCollections = bs, nv_indentStatus = indent_status st2 ind\<rparr>
              else nv\<lparr>nv_blockCollections := False\<rparr>) st2)"
        proof (rule Suc.IH)
          show "fwd st0 st2" using Suc.prems(1) f(1) g fwd_trans by blast
          show "length (rest st2) < n"
            using fwd_rest [OF g] rest_less [OF v fwd_conf [OF f(1)] f(2)] Suc.prems(2) by simp
        qed simp
      qed
      with True show ?thesis by simp
    next
      case False
      with m fwd_trans [OF Suc.prems(1), of st1] Suc.prems(3) show ?thesis by simp
    qed
  qed
qed simp

lemma read_properties_okay:
  assumes "valid st"
  shows "okay (\<lambda>(nv, st'). fwd st st' \<and> (nv_blockCollections nv \<longrightarrow> bs)) (read_properties ind seek bs st)"
proof -
  define nv0 where "nv0 = \<lparr>nv_atNewLine = False, nv_blockCollections = bs, nv_indentStatus = 1\<rparr>"
  have "okay (\<lambda>(nv, st'). fwd st st' \<and> (nv_blockCollections nv \<longrightarrow> bs))
    (if seek then bind_res (skipSeparationSpace st True (- 1)) (\<lambda>(breaks, st1).
            Inr (if breaks \<noteq> 0 then nv0\<lparr>nv_atNewLine := True, nv_indentStatus := indent_status st1 ind\<rparr>
                 else nv0, st1))
     else Inr (nv0, st))"
    using assms fwd_refl [OF assms]
    by (auto simp: nv0_def intro!: okay_bind [OF skipSeparationSpace_okay])
  then show ?thesis
    unfolding read_properties_def Let_def nv0_def [symmetric]
  proof (rule okay_bind, clarify)
    fix nv :: node_vars and st1 assume f: "fwd st st1" and b: "nv_blockCollections nv \<longrightarrow> bs"
    then show "okay (\<lambda>(nv, st'). fwd st st' \<and> (nv_blockCollections nv \<longrightarrow> bs))
      (if nv_indentStatus nv = 1 then property_loop (loop_fuel st1) ind bs nv st1 else Inr (nv, st1))"
      using property_loop_okay [OF f _ b, of "loop_fuel st1" ind] by (simp add: loop_fuel_def)
  qed
qed

lemma read_alias_node_okay: "valid st \<Longrightarrow> okay (stays st) (read_alias_node st)"
  unfolding read_alias_node_def
  by (rule okay_bind [OF readAlias_okay]) (auto intro!: throwError_okay intro: fwd_valid)

lemma read_plain_node_okay: "valid st \<Longrightarrow> okay (stays st) (read_plain_node ind fl st)"
  unfolding read_plain_node_def by (rule okay_bind [OF readPlainScalar_okay]) auto

lemma read_scalar_node_okay:
  assumes "valid st"
  shows "okay (stays st) (read_scalar_node ind ctx st)"
proof -
  have "okay (stays st)
       (or_else (and_also (is_block ctx) (\<lambda>s. readBlockScalar s ind))
         (or_else (\<lambda>s. readSingleQuotedScalar s ind)
           (or_else (\<lambda>s. readDoubleQuotedScalar s ind)
             (or_else read_alias_node (read_plain_node ind (ctx = FLOW_IN))))) st)"
    by (intro or_else_stays and_also_stays read_alias_node_okay read_plain_node_okay
        readBlockScalar_okay [unfolded stays_case] readSingleQuotedScalar_okay [unfolded stays_case]
        readDoubleQuotedScalar_okay [unfolded stays_case]) (auto intro: assms fwd_valid)
  then show ?thesis
    unfolding read_scalar_node_def
  proof (rule okay_bind, clarify)
    fix c st1 assume "stays st (c, st1)"
    then have f: "fwd st st1" by simp
    show "okay (stays st) (bind_res (set_anchor (result st1) st1) (\<lambda>st2. Inr (c, st2)))"
      by (rule okay_bind [OF set_anchor_okay]) (simp add: fwd_same_trans [OF f])
  qed
qed

text \<open>The types of the state do what \<open>type_ok\<close> says.\<close>

lemma first_resolved_okay:
  "\<forall>t \<in> set ts. type_ok t \<Longrightarrow> okay (\<lambda>r. \<forall>t. r = Some t \<longrightarrow> type_ok t) (first_resolved w h v ts)"
proof (induction ts)
  case (Cons t ts)
  then have "okay (\<lambda>_. True) (ty_resolve t w h v)" by (simp add: type_ok_def)
  with Cons show ?case by (auto intro!: okay_bind [of "\<lambda>_. True"])
qed simp

lemma construct_node_okay: "type_ok t \<Longrightarrow> okay (same st) (construct_node w t st)"
  unfolding construct_node_def by (rule okay_bind [where Q = "\<lambda>_. True"]) (auto simp: type_ok_def)

lemma resolve_implicit_okay:
  assumes "ready st"
  shows "okay (same st) (resolve_implicit w st)"
  unfolding resolve_implicit_def
proof (rule okay_bind [OF first_resolved_okay])
  show "\<forall>t \<in> set (implicitTypes st). type_ok t" using assms by (auto simp: ready_def types_ok_def)
  fix found assume ok: "\<forall>t. found = Some t \<longrightarrow> type_ok t"
  show "okay (same st) (case found of None \<Rightarrow> Inr st | Some t \<Rightarrow>
      bind_res (construct_node w t st) (\<lambda>st1. set_anchor (result st1) (st1\<lparr>tag := Some (ty_tag t)\<rparr>)))"
  proof (cases found)
    case (Some t)
    have "okay (same st) (bind_res (construct_node w t st)
        (\<lambda>st1. set_anchor (result st1) (st1\<lparr>tag := Some (ty_tag t)\<rparr>)))"
    proof (rule okay_bind [OF construct_node_okay])
      show "type_ok t" using ok Some by simp
      fix st1 assume "same st st1"
      then have "same st (st1\<lparr>tag := Some (ty_tag t)\<rparr>)" by simp
      then show "okay (same st) (set_anchor (result st1) (st1\<lparr>tag := Some (ty_tag t)\<rparr>))"
        by (rule okay_mono [OF set_anchor_okay same_trans])
    qed
    with Some show ?thesis by simp
  qed simp
qed

lemma resolve_explicit_okay:
  assumes "ready st"
  shows "okay (same st) (resolve_explicit w tg st)"
proof (cases "map_of (typeMap st) tg")
  case (Some t)
  then have "t \<in> snd ` set (typeMap st)" using map_of_SomeD by (metis image_eqI snd_conv)
  with assms have t: "type_ok t" by (simp add: ready_def types_ok_def)
  have "okay (same st) (bind_res (ty_resolve t w (heap_of st) (result st)) (\<lambda>b.
      if \<not> b then throwError st m
      else bind_res (construct_node w t st) (\<lambda>st1. set_anchor (result st1) st1)))" for m
  proof (rule okay_bind [of "\<lambda>_. True"])
    show "okay (\<lambda>_. True) (ty_resolve t w (heap_of st) (result st))" using t by (simp add: type_ok_def)
    fix b
    have "okay (same st) (bind_res (construct_node w t st) (\<lambda>st1. set_anchor (result st1) st1))"
      by (rule okay_bind [OF construct_node_okay [OF t]]) (rule okay_mono [OF set_anchor_okay same_trans])
    with ready_valid [OF assms] show "okay (same st) (if \<not> b then throwError st m
      else bind_res (construct_node w t st) (\<lambda>st1. set_anchor (result st1) st1))" by simp
  qed
  with Some ready_valid [OF assms] show ?thesis by (simp add: resolve_explicit_def)
qed (use ready_valid [OF assms] in \<open>simp add: resolve_explicit_def\<close>)

lemma resolve_tag_okay: "ready st \<Longrightarrow> okay (same st) (resolve_tag w st)"
  by (simp add: resolve_tag_def resolve_implicit_okay resolve_explicit_okay split: option.split)

context node_composer
begin

lemma read_content_okay:
  assumes "ready st" "2 * length (rest st) + (if is_block ctx then 1 else 0) < bound + 1"
    "nv_blockCollections nv \<longrightarrow> is_block ctx"
  shows "okay (stays st) (read_content compose w ind ctx ac nv st)"
proof -
  define abc where "abc = (nv_blockCollections nv \<and> (nv_atNewLine nv \<or> ac))"
  define flowIndent where "flowIndent = (if is_block ctx then ind + 1 else ind)"
  define blockIndent where "blockIndent = int (position st) - int (lineStart st)"
  have v: "valid st" by (rule ready_valid [OF assms(1)])
  have bound_le: "2 * length (rest st) \<le> bound" using assms(2) by simp
  have bound_less: "2 * length (rest st) < bound" if abc
    using assms(2,3) that by (auto simp: abc_def)
  have later: "ready st1" "2 * length (rest st1) \<le> 2 * length (rest st)" if "fwd st st1" for st1
    using ready_fwd [OF assms(1) that] fwd_rest [OF that] by simp_all
  have blocks: "okay (stays st) (or_else (readBlockSequence compose blockIndent)
      (readBlockMapping compose w blockIndent flowIndent) st)" if abc
  proof (rule or_else_stays)
    fix st1 assume f: "fwd st st1"
    have "2 * length (rest st1) < bound" using later(2) [OF f] bound_less [OF that] by simp
    from readBlockMapping_okay [OF later(1) [OF f] this]
    show "okay (stays st1) (readBlockMapping compose w blockIndent flowIndent st1)" by (simp add: stays_case)
  qed (use readBlockSequence_okay [OF assms(1) bound_le] in \<open>simp add: stays_case\<close>)
  have coll: "okay (stays st) (or_else (and_also abc (or_else (readBlockSequence compose blockIndent)
      (readBlockMapping compose w blockIndent flowIndent))) (readFlowCollection compose w flowIndent) st)"
  proof (rule or_else_stays)
    fix st1 assume f: "fwd st st1"
    have "2 * length (rest st1) \<le> bound" using later(2) [OF f] bound_le by simp
    from readFlowCollection_okay [OF later(1) [OF f] this]
    show "okay (stays st1) (readFlowCollection compose w flowIndent st1)" by (simp add: stays_case)
  qed (intro and_also_stays v blocks)
  have content: "okay (stays st) (bind_res (or_else (and_also abc (or_else (readBlockSequence compose blockIndent)
      (readBlockMapping compose w blockIndent flowIndent))) (readFlowCollection compose w flowIndent) st)
      (\<lambda>(found, st1). if found then Inr (True, st1) else read_scalar_node flowIndent ctx st1))"
  proof (rule okay_bind [OF coll], clarify)
    fix found st1 assume "stays st (found, st1)"
    then have f: "fwd st st1" by simp
    have "okay (stays st) (read_scalar_node flowIndent ctx st1)"
      by (rule okay_mono [OF read_scalar_node_okay [OF fwd_valid [OF f]]]) (auto simp: stays_def intro: fwd_trans [OF f])
    with f show "okay (stays st) (if found then Inr (True, st1) else read_scalar_node flowIndent ctx st1)" by simp
  qed
  have compact_sequence: "okay (stays st) (and_also abc (readBlockSequence compose blockIndent) st)"
    using readBlockSequence_okay [OF assms(1) bound_le] v by (intro and_also_stays) (simp_all add: stays_case)
  show ?thesis
    unfolding read_content_def Let_def abc_def [symmetric] flowIndent_def [symmetric] blockIndent_def [symmetric]
    using content compact_sequence v by (simp add: fwd_refl)
qed

lemma compose_body_okay:
  assumes "ready st" "2 * length (rest st) + (if is_block ctx then 1 else 0) < bound + 1"
  shows "okay (\<lambda>(found, st'). fwd st st') (compose_body w compose ind ctx seek cpt st)"
proof -
  let ?st = "clear_node (emit Opened st)"
  have s: "same st ?st" by simp
  have v: "valid ?st" using ready_valid [OF assms(1)] by simp
  show ?thesis
    unfolding compose_body_def
  proof (rule okay_bind [OF read_properties_okay [OF v, where bs = "is_block ctx"]], clarify)
    fix nv :: node_vars and st1 assume f: "fwd ?st st1" and nv: "nv_blockCollections nv \<longrightarrow> is_block ctx"
    have f1: "fwd st st1" by (rule same_fwd_trans [OF s f])
    have r1: "ready st1" by (rule ready_fwd [OF assms(1) f1])
    have b1: "2 * length (rest st1) + (if is_block ctx then 1 else 0) < bound + 1"
      using fwd_rest [OF f1] assms(2) by (simp split: if_splits)
    show "okay (\<lambda>(found, st'). fwd st st') (bind_res (read_content compose w ind ctx cpt nv st1)
       (\<lambda>(hasContent, st2). bind_res (resolve_tag w st2) (\<lambda>st3.
          Inr (tag st3 \<noteq> None \<or> anchor st3 \<noteq> None \<or> hasContent, emit Closed st3))))"
    proof (rule okay_bind [OF read_content_okay [OF r1 b1 nv]], clarify)
      fix c st2 assume "stays st1 (c, st2)"
      then have f2: "fwd st st2" using fwd_trans [OF f1] by simp
      show "okay (\<lambda>(found, st'). fwd st st') (bind_res (resolve_tag w st2) (\<lambda>st3.
          Inr (tag st3 \<noteq> None \<or> anchor st3 \<noteq> None \<or> c, emit Closed st3)))"
        by (rule okay_bind [OF resolve_tag_okay [OF ready_fwd [OF assms(1) f2]]])
          (simp add: fwd_same_trans [OF f2])
    qed
  qed
qed

end

lemma composeNode_composer: "node_composer (composeNode w n) n"
proof (induction n)
  case 0
  show ?case by unfold_locales simp
next
  case (Suc n)
  show ?case
  proof
    fix st ctx ind seek cpt
    assume "ready st" "2 * length (rest st) + (if is_block ctx then 1 else 0) < Suc n"
    then show "okay (\<lambda>(found, st'). fwd st st') (composeNode w (Suc n) ind ctx seek cpt st)"
      using node_composer.compose_body_okay [OF Suc.IH] by simp
  qed
qed

interpretation node: node_composer "composeNode w n" n for w n
  by (rule composeNode_composer)

end
