(* ===== verification/YamlLoad.thy ===== *)
theory YamlLoad
  imports YamlTermination
begin

text \<open>
  The loop over documents ends: every document moves the position or reaches the end of the
  text. With the node types of the library this gives the main result on the loader: it returns
  on every input, and what it throws has a mark inside the text.
\<close>

section \<open>Directives\<close>

lemma directive_args_okay:
  assumes "fwd st0 st" "length (rest st) < n" "lineIndent st = 0"
  shows "okay (\<lambda>(as, st'). fwd st0 st' \<and> lineIndent st' = 0) (directive_args n as0 st)"
  using assms
proof (induction n arbitrary: as0 st)
  case (Suc n)
  have v: "valid st" using Suc.prems(1) by (rule fwd_valid)
  define st1 where "st1 = skip_while (\<lambda>c. is_WHITE_SPACE (Some c)) st"
  have f1: "fwd st st1" using skip_while_fwd [OF v] by (simp add: st1_def)
  have v1: "valid st1" by (rule fwd_valid [OF f1])
  have i1: "lineIndent st1 = 0" using Suc.prems(3) by (simp add: st1_def)
  have g1: "fwd st0 st1" by (rule fwd_trans [OF Suc.prems(1) f1])
  have comment: "okay (\<lambda>(as, st'). fwd st0 st' \<and> lineIndent st' = 0)
      (bind_res (skip_until (\<lambda>c. c = 0 \<or> is_EOL (Some c)) (advance 1 st1)) (\<lambda>st2. Inr (as0, st2)))"
    if "ch_at st1 = Some 0x23"
  proof -
    have f: "fwd st1 (advance 1 st1)" using fwd_advance [OF v1] that by simp
    show ?thesis
      by (rule okay_bind [OF skip_until_okay [OF fwd_valid [OF f]]])
        (use i1 in \<open>auto intro: fwd_trans [OF fwd_trans [OF g1 f]] simp del: One_nat_def\<close>)
  qed
  have word: "okay (\<lambda>(as, st'). fwd st0 st' \<and> lineIndent st' = 0)
      (bind_res (skip_until word_end st1) (\<lambda>st2. directive_args n (as0 @ [input_slice st2 (position st1) (position st2)]) st2))"
    if "\<not> word_end (input st1 ! position st1)"
  proof (rule okay_bind [where Q = "\<lambda>st2. fwd st1 st2 \<and> lineIndent st2 = 0 \<and> position st1 < position st2"])
    have "0 < length (takeWhile (\<lambda>c. \<not> word_end c) (rest st1))"
      using that v1 by (cases "rest st1") (auto simp: rest_def valid_def nth_via_drop)
    with skip_until_okay [OF v1, of word_end] i1
    show "okay (\<lambda>st2. fwd st1 st2 \<and> lineIndent st2 = 0 \<and> position st1 < position st2) (skip_until word_end st1)"
      by (simp add: skip_until_def Let_def split: if_splits)
    fix st2 assume *: "fwd st1 st2 \<and> lineIndent st2 = 0 \<and> position st1 < position st2"
    show "okay (\<lambda>(as, st'). fwd st0 st' \<and> lineIndent st' = 0)
        (directive_args n (as0 @ [input_slice st2 (position st1) (position st2)]) st2)"
    proof (rule Suc.IH)
      show "fwd st0 st2" using * g1 fwd_trans by blast
      show "length (rest st2) < n"
        using * rest_less [OF v1 fwd_conf, of st2] fwd_rest [OF f1] Suc.prems(2) by simp
    qed (use * in simp)
  qed
  have stop: "okay (\<lambda>(as, st'). fwd st0 st' \<and> lineIndent st' = 0)
      (bind_res (skip_until word_end st1) (\<lambda>st2. directive_args n (as0 @ [input_slice st2 (position st1) (position st2)]) st2))"
    if "ch_at st \<noteq> Some 0" "\<not> is_EOL (ch_at st1)"
  proof (cases "word_end (input st1 ! position st1)")
    case True
    have ch1: "ch_at st1 = Some (input st1 ! position st1)" by (rule ch_Some [OF v1])
    have nw: "\<not> is_WHITE_SPACE (ch_at st1)"
      using takeWhile_stops(2) [OF v, of "\<lambda>c. is_WHITE_SPACE (Some c)"] ch1 by (simp add: st1_def skip_while_def)
    with True that(2) ch1 have z: "ch_at st1 = Some 0"
      by (auto simp: word_end_def is_WS_OR_EOL_def is_EOL_def is_WHITE_SPACE_def)
    have "position st1 \<noteq> position st"
    proof
      assume "position st1 = position st"
      then have "ch_at st1 = ch_at st" by (simp add: ch_at_def st1_def skip_while_def)
      with z that(1) show False by simp
    qed
    with f1 have less: "position st < position st1" by (simp add: fwd_def)
    have none: "takeWhile (\<lambda>c. \<not> word_end c) (rest st1) = []"
      using True v1 by (cases "rest st1") (auto simp: rest_def valid_def nth_via_drop)
    have "okay (\<lambda>(as, st'). fwd st0 st' \<and> lineIndent st' = 0) (directive_args n as' st1)" for as'
      using rest_less [OF v fwd_conf [OF f1] less] Suc.prems(2) i1 by (intro Suc.IH [OF g1]) simp_all
    with v1 none show ?thesis by (simp add: skip_until_def valid_def advance_def)
  qed (rule word)
  show ?case
    unfolding directive_args.simps Let_def st1_def [symmetric]
    using comment stop g1 i1 Suc.prems by simp
qed simp

lemma directive_okay:
  assumes "valid st"
  shows "okay (same st) (handle_directive st name as)"
proof -
  have "okay (same st) (handleYamlDirective st as)"
    using assms by (auto simp: handleYamlDirective_def Let_def split: list.split)
  moreover have "okay (same st) (handleTagDirective st as)"
    using assms by (auto simp: handleTagDirective_def split: list.split)
  ultimately show ?thesis by (simp add: handle_directive_def)
qed

lemma read_directive_okay:
  assumes "valid st" "ch_at st = Some 0x25" "lineIndent st = 0"
  shows "okay (\<lambda>st'. fwd st st' \<and> position st < position st') (read_directive st)"
proof -
  have f: "fwd st (advance 1 st)" using fwd_advance assms by simp
  show ?thesis
    unfolding read_directive_def
  proof (rule okay_bind [OF skip_until_okay [where p = word_end, OF fwd_valid [OF f] name_end_zero(2)]], elim conjE)
    fix st1 assume g: "fwd (advance 1 st) st1" and i: "lineIndent st1 = lineIndent (advance 1 st)"
    have f1: "fwd st st1" by (rule fwd_trans [OF f g])
    have p1: "position st < position st1" using fwd_position [OF g] by simp
    have v1: "valid st1" by (rule fwd_valid [OF f1])
    have args: "okay (\<lambda>(as, st'). fwd st1 st' \<and> lineIndent st' = 0) (directive_args (loop_fuel st1) [] st1)"
      using i assms(3) by (intro directive_args_okay [OF fwd_refl [OF v1]]) (simp_all add: loop_fuel_def)
    have "okay (\<lambda>st'. fwd st st' \<and> position st < position st')
        (bind_res (directive_args (loop_fuel st1) [] st1) (\<lambda>(args, st2).
         bind_res (if ch_at st2 \<noteq> Some 0 then readLineBreak st2 else Inr st2) (\<lambda>st3.
           handle_directive st3 name args)))" for name
    proof (rule okay_bind [OF args], clarify)
      fix as st2 assume f2: "fwd st1 st2" and i2: "lineIndent st2 = 0"
      have g2: "fwd st st2" by (rule fwd_trans [OF f1 f2])
      have p2: "position st < position st2" using p1 fwd_position [OF f2] by simp
      have "okay (\<lambda>st3. fwd st st3 \<and> position st < position st3)
          (if ch_at st2 \<noteq> Some 0 then readLineBreak st2 else Inr st2)"
      proof (cases "ch_at st2 = Some 0")
        case False
        have "okay (\<lambda>st3. fwd st st3 \<and> position st < position st3) (readLineBreak st2)"
          by (rule okay_mono [OF readLineBreak_okay [OF fwd_valid [OF g2]]])
            (use g2 p2 i2 in \<open>auto simp: fwd_def valid_def\<close>)
        with False show ?thesis by simp
      qed (use g2 p2 in simp)
      then show "okay (\<lambda>st'. fwd st st' \<and> position st < position st')
        (bind_res (if ch_at st2 \<noteq> Some 0 then readLineBreak st2 else Inr st2) (\<lambda>st3.
           handle_directive st3 name as))"
      proof (rule okay_bind, elim conjE)
        fix st3 assume f3: "fwd st st3" and p3: "position st < position st3"
        show "okay (\<lambda>st'. fwd st st' \<and> position st < position st') (handle_directive st3 name as)"
          by (rule okay_mono [OF directive_okay [OF fwd_valid [OF f3]]])
            (use f3 p3 in \<open>auto intro: fwd_same_trans simp: same_def\<close>)
      qed
    qed
    with v1 show "okay (\<lambda>st'. fwd st st' \<and> position st < position st')
      (let name = input_slice st1 (position st + 1) (position st1)
       in if length name < 1
          then throwError st1 (jstr ''directive name must not be less than one character in length'')
          else bind_res (directive_args (loop_fuel st1) [] st1) (\<lambda>(args, st2).
               bind_res (if ch_at st2 \<noteq> Some 0 then readLineBreak st2 else Inr st2) (\<lambda>st3.
                 handle_directive st3 name args)))" by (simp add: Let_def)
  qed
qed

lemma directive_loop_okay:
  assumes "fwd st0 st" "length (rest st) < n"
  shows "okay (\<lambda>(d, st'). fwd st0 st') (directive_loop n hdir st)"
  using assms
proof (induction n arbitrary: hdir st)
  case (Suc n)
  have v: "valid st" using Suc.prems(1) by (rule fwd_valid)
  show ?case
  proof (cases "ch_at st = Some 0")
    case False
    show ?thesis
      unfolding directive_loop.simps if_not_P [OF False]
    proof (rule okay_bind [OF skip_space_okay [OF v]])
      fix st1 assume f1: "fwd st st1"
      have v1: "valid st1" by (rule fwd_valid [OF f1])
      have zero: "lineIndent st1 = 0" if "\<not> lineIndent st1 > 0" using that v1 by (simp add: valid_def)
      have "okay (\<lambda>(d, st'). fwd st0 st') (bind_res (read_directive st1) (\<lambda>st2. directive_loop n True st2))"
        if "\<not> lineIndent st1 > 0" "ch_at st1 = Some 0x25"
      proof (rule okay_bind [OF read_directive_okay [OF v1 that(2) zero [OF that(1)]]], elim conjE)
        fix st2 assume f2: "fwd st1 st2" "position st1 < position st2"
        have g: "fwd st st2" by (rule fwd_trans [OF f1 f2(1)])
        have "position st < position st2" using fwd_position [OF f1] f2(2) by simp
        from Suc.IH [OF fwd_trans [OF Suc.prems(1) g]] rest_less [OF v fwd_conf [OF g] this] Suc.prems(2)
        show "okay (\<lambda>(d, st'). fwd st0 st') (directive_loop n True st2)" by simp
      qed
      with fwd_trans [OF Suc.prems(1) f1] show "okay (\<lambda>(d, st'). fwd st0 st')
         (if lineIndent st1 > 0 \<or> ch_at st1 \<noteq> Some 0x25 then Inr (hdir, st1)
          else bind_res (read_directive st1) (\<lambda>st2. directive_loop n True st2))" by simp
    qed
  qed (use Suc.prems in simp)
qed simp

section \<open>Documents\<close>

lemma ch_ahead_Some: "ch_ahead st n = Some c \<Longrightarrow> position st + n < length (input st)"
  by (simp add: ch_ahead_def charCodeAt_def split: if_splits)

lemma valid_advance_3:
  assumes "valid st" "ch_ahead st 2 = Some c" "c \<noteq> 0"
  shows "fwd st (advance 3 st)"
proof -
  have l: "position st + 2 < length (input st)" by (rule ch_ahead_Some [OF assms(2)])
  let ?st = "advance 2 st"
  have v: "valid ?st" using assms(1) l by (simp add: valid_def)
  have "ch_at ?st = Some c" using assms(2) by (simp add: ch_at_def ch_ahead_def)
  with assms(3) have "position ?st + 1 < length (input ?st)" by (intro not_last [OF v]) simp
  then show ?thesis using assms(1) by (simp add: fwd_def valid_def)
qed

lemma document_start_okay:
  assumes "valid st"
  shows "okay (\<lambda>st'. fwd st st' \<and>
     (lineIndent st = 0 \<and> ch_at st = Some 0x2D \<and> ch_ahead st 1 = Some 0x2D \<and> ch_ahead st 2 = Some 0x2D
      \<longrightarrow> position st < position st')) (document_start_mark b st)"
proof (cases "lineIndent st = 0 \<and> ch_at st = Some 0x2D \<and> ch_ahead st 1 = Some 0x2D \<and> ch_ahead st 2 = Some 0x2D")
  case True
  then have f: "fwd st (advance 3 st)" using assms valid_advance_3 by simp
  have "okay (\<lambda>st'. fwd st st' \<and> position st < position st') (skip_space (advance 3 st) (- 1))"
    by (rule okay_mono [OF skip_space_okay [OF fwd_valid [OF f]]])
      (use fwd_trans [OF f] fwd_position in fastforce)
  with True show ?thesis by (simp add: document_start_mark_def)
next
  case False
  then show ?thesis using assms fwd_refl by (auto simp: document_start_mark_def)
qed

text \<open>
  At the end of a document: either a separator starts the line at the position, or the position
  is at the end of the text; an end mark is skipped.
\<close>

lemma document_end_okay:
  assumes "valid st"
  shows "okay (\<lambda>st'. fwd st st' \<and>
     (position st < position st' \<or> \<not> position st' + 1 < input_length st' \<or>
      position st' = position st \<and> position st = lineStart st \<and> ch_at st = Some 0x2D \<and>
      ch_ahead st 1 = Some 0x2D \<and> ch_ahead st 2 = Some 0x2D)) (document_end st)"
proof (cases "position st = lineStart st \<and> testDocumentSeparator st")
  case True
  show ?thesis
  proof (cases "ch_at st = Some 0x2E")
    case dot: True
    from True have "ch_at st = ch_ahead st 2" by (auto simp only: testDocumentSeparator_def Let_def)
    with dot have "ch_ahead st 2 = Some 0x2E" by simp
    then have f: "fwd st (advance 3 st)" using assms valid_advance_3 by simp
    have "okay (\<lambda>st'. fwd st st' \<and> position st < position st') (skip_space (advance 3 st) (- 1))"
      by (rule okay_mono [OF skip_space_okay [OF fwd_valid [OF f]]])
        (use fwd_trans [OF f] fwd_position in fastforce)
    then have "okay (\<lambda>st'. fwd st st' \<and> (position st < position st' \<or> \<not> position st' + 1 < input_length st' \<or>
        position st' = position st \<and> position st = lineStart st \<and> ch_at st = Some 0x2D \<and>
        ch_ahead st 1 = Some 0x2D \<and> ch_ahead st 2 = Some 0x2D)) (skip_space (advance 3 st) (- 1))"
      by (rule okay_mono) simp
    with True dot show ?thesis by (simp add: document_end_def)
  next
    case False
    with True have "ch_at st = Some 0x2D \<and> ch_ahead st 1 = Some 0x2D \<and> ch_ahead st 2 = Some 0x2D"
      by (auto simp: testDocumentSeparator_def Let_def)
    with True False assms show ?thesis by (simp add: document_end_def fwd_refl)
  qed
next
  case False
  then show ?thesis using assms by (auto simp: document_end_def fwd_refl)
qed

lemma readDocument_okay:
  assumes "ready st"
  shows "okay (\<lambda>st'. fwd st st' \<and> (position st < position st' \<or> \<not> position st' + 1 < input_length st'))
     (readDocument w st)"
proof -
  have v: "valid st" by (rule ready_valid [OF assms])
  have start: "fwd st (start_document st)" "rest (start_document st) = rest st"
    using v by (simp_all add: start_document_def fwd_refl rest_def)
  show ?thesis
    unfolding readDocument_def
  proof (rule okay_bind [OF directive_loop_okay [OF start(1)]], simp add: start(2) loop_fuel_def, clarify)
    fix d st1 assume f1: "fwd st st1"
    show "okay (\<lambda>st'. fwd st st' \<and> (position st < position st' \<or> \<not> position st' + 1 < input_length st'))
     (bind_res (skip_space st1 (- 1)) (\<lambda>st2.
      bind_res (document_start_mark d st2) (\<lambda>st3.
      bind_res (composeNode w (compose_fuel st3) (lineIndent st3 - 1) BLOCK_OUT False True st3) (\<lambda>(_, st4).
      bind_res (skip_space st4 (- 1)) (\<lambda>st5.
       let st6 = (if checkLineBreaks st5 \<and> non_ascii_line_breaks (input_slice st5 (position st) (position st5))
                  then throwWarning st5 (jstr ''non-ASCII line breaks are interpreted as content'') else st5)
       in document_end (st6\<lparr>documents := documents st6 @ [result st6]\<rparr>))))))"
    proof (rule okay_bind [OF skip_space_okay [OF fwd_valid [OF f1]]])
      fix st2 assume "fwd st1 st2"
      with f1 have f2: "fwd st st2" by (rule fwd_trans)
      show "okay (\<lambda>st'. fwd st st' \<and> (position st < position st' \<or> \<not> position st' + 1 < input_length st'))
        (bind_res (document_start_mark d st2) (\<lambda>st3.
         bind_res (composeNode w (compose_fuel st3) (lineIndent st3 - 1) BLOCK_OUT False True st3) (\<lambda>(_, st4).
         bind_res (skip_space st4 (- 1)) (\<lambda>st5.
          let st6 = (if checkLineBreaks st5 \<and> non_ascii_line_breaks (input_slice st5 (position st) (position st5))
                     then throwWarning st5 (jstr ''non-ASCII line breaks are interpreted as content'') else st5)
          in document_end (st6\<lparr>documents := documents st6 @ [result st6]\<rparr>)))))"
      proof (rule okay_bind [OF document_start_okay [OF fwd_valid [OF f2]]], elim conjE)
        fix st3 assume g3: "fwd st2 st3"
          and mark: "lineIndent st2 = 0 \<and> ch_at st2 = Some 0x2D \<and> ch_ahead st2 1 = Some 0x2D \<and>
            ch_ahead st2 2 = Some 0x2D \<longrightarrow> position st2 < position st3"
        have f3: "fwd st st3" by (rule fwd_trans [OF f2 g3])
        have r3: "ready st3" by (rule ready_fwd [OF assms f3])
        have b3: "2 * length (rest st3) + (if is_block BLOCK_OUT then 1 else 0) < compose_fuel st3"
          by (simp add: compose_fuel_def is_block_def)
        show "okay (\<lambda>st'. fwd st st' \<and> (position st < position st' \<or> \<not> position st' + 1 < input_length st'))
          (bind_res (composeNode w (compose_fuel st3) (lineIndent st3 - 1) BLOCK_OUT False True st3) (\<lambda>(_, st4).
           bind_res (skip_space st4 (- 1)) (\<lambda>st5.
            let st6 = (if checkLineBreaks st5 \<and> non_ascii_line_breaks (input_slice st5 (position st) (position st5))
                       then throwWarning st5 (jstr ''non-ASCII line breaks are interpreted as content'') else st5)
            in document_end (st6\<lparr>documents := documents st6 @ [result st6]\<rparr>))))"
        proof (rule okay_bind [OF node.compose_okay [OF r3 b3]], clarify, rule okay_bind [OF skip_space_okay])
          fix st4 assume g4: "fwd st3 st4"
          show "valid st4" by (rule fwd_valid [OF g4])
          fix st5 assume "fwd st4 st5"
          with g4 have g5: "fwd st3 st5" by (rule fwd_trans)
          define st6 where "st6 = (if checkLineBreaks st5 \<and> non_ascii_line_breaks (input_slice st5 (position st) (position st5))
                       then throwWarning st5 (jstr ''non-ASCII line breaks are interpreted as content'') else st5)"
          define st7 where "st7 = st6\<lparr>documents := documents st6 @ [result st6]\<rparr>"
          have s7: "same st5 st7" by (simp add: st7_def st6_def)
          have g7: "fwd st3 st7" by (rule fwd_same_trans [OF g5 s7])
          have f7: "fwd st st7" by (rule fwd_trans [OF f3 g7])
          have g27: "fwd st2 st7" by (rule fwd_trans [OF g3 g7])
          have "okay (\<lambda>st'. fwd st st' \<and> (position st < position st' \<or> \<not> position st' + 1 < input_length st'))
              (document_end st7)"
          proof (rule okay_mono [OF document_end_okay [OF fwd_valid [OF f7]]], elim conjE, intro conjI)
            fix st' assume f': "fwd st7 st'"
              and cases: "position st7 < position st' \<or> \<not> position st' + 1 < input_length st' \<or>
                position st' = position st7 \<and> position st7 = lineStart st7 \<and> ch_at st7 = Some 0x2D \<and>
                ch_ahead st7 1 = Some 0x2D \<and> ch_ahead st7 2 = Some 0x2D"
            show "fwd st st'" by (rule fwd_trans [OF f7 f'])
            have "position st < position st7" if sep: "position st7 = lineStart st7" "ch_at st7 = Some 0x2D"
                "ch_ahead st7 1 = Some 0x2D" "ch_ahead st7 2 = Some 0x2D"
            proof (rule ccontr)
              assume "\<not> ?thesis"
              with fwd_position [OF f7] fwd_position [OF f2] fwd_position [OF g27] fwd_position [OF g7]
              have p: "position st2 = position st7" "position st3 = position st7"
                using fwd_position [OF g3] by simp_all
              have "lineStart st2 = position st2"
                using g27 p sep(1) by (auto simp: fwd_def)
              then have "lineIndent st2 = 0" using fwd_valid [OF f2] by (simp add: valid_def)
              moreover have "input st2 = input st7" using confD(1) [OF fwd_conf [OF g27]] by simp
              then have "ch_at st2 = ch_at st7" "ch_ahead st2 n = ch_ahead st7 n" for n
                using p by (simp_all add: ch_at_def ch_ahead_def)
              ultimately have "position st2 < position st3" using mark sep by simp
              with p show False by simp
            qed
            with cases fwd_position [OF f'] fwd_position [OF f7]
            show "position st < position st' \<or> \<not> position st' + 1 < input_length st'" by auto
          qed
          then show "okay (\<lambda>st'. fwd st st' \<and> (position st < position st' \<or> \<not> position st' + 1 < input_length st'))
            (let st6 = (if checkLineBreaks st5 \<and> non_ascii_line_breaks (input_slice st5 (position st) (position st5))
                       then throwWarning st5 (jstr ''non-ASCII line breaks are interpreted as content'') else st5)
             in document_end (st6\<lparr>documents := documents st6 @ [result st6]\<rparr>))"
            by (simp only: Let_def st6_def [symmetric] st7_def [symmetric])
        qed
      qed
    qed
  qed
qed

lemma document_loop_okay:
  assumes "ready st" "length (rest st) < n"
  shows "okay (\<lambda>st'. fwd st st' \<and> \<not> position st' + 1 < input_length st') (document_loop n w st)"
  using assms
proof (induction n arbitrary: st)
  case (Suc n)
  have v: "valid st" by (rule ready_valid [OF Suc.prems(1)])
  have "okay (\<lambda>st'. fwd st st' \<and> \<not> position st' + 1 < input_length st')
      (bind_res (readDocument w st) (\<lambda>st1. document_loop n w st1))"
  proof (rule okay_bind [OF readDocument_okay [OF Suc.prems(1)]], elim conjE)
    fix st1 assume f: "fwd st st1" and p: "position st < position st1 \<or> \<not> position st1 + 1 < input_length st1"
    have r1: "ready st1" by (rule ready_fwd [OF Suc.prems(1) f])
    show "okay (\<lambda>st'. fwd st st' \<and> \<not> position st' + 1 < input_length st') (document_loop n w st1)"
    proof (cases "position st1 + 1 < input_length st1")
      case True
      with p have less: "position st < position st1" by simp
      show ?thesis
        by (rule okay_mono [OF Suc.IH [OF r1]])
          (use rest_less [OF v fwd_conf [OF f] less] Suc.prems(2) fwd_trans [OF f] in auto)
    next
      case False
      have "0 < n" using Suc.prems(2) rest_pos [OF v] by linarith
      then obtain m where "n = Suc m" using gr0_conv_Suc by blast
      with False f show ?thesis by simp
    qed
  qed
  with v show ?case by (auto simp: fwd_refl)
qed simp

section \<open>The initial state\<close>

lemma with_line_end_ok: "text_ok (with_line_end s @ [0])"
proof (cases "s = []")
  case False
  define t where "t = (if last s \<noteq> 0x0A \<and> last s \<noteq> 0x0D then s @ [0x0A] else s)"
  have t: "t \<noteq> []" "is_EOL (Some (last t))" using False by (auto simp: t_def is_EOL_def)
  have "with_line_end s = (if hd t = 0xFEFF then tl t else t)"
    using False by (simp add: with_line_end_def t_def Let_def)
  moreover have "tl t \<noteq> []" if "hd t = 0xFEFF"
    using t that by (cases t) (auto simp: is_EOL_def)
  ultimately have "with_line_end s \<noteq> []" "is_EOL (Some (last (with_line_end s)))"
    using t by (auto simp: last_tl)
  then have "with_line_end s @ [0] = butlast (with_line_end s) @ [last (with_line_end s), 0]"
    by simp
  with \<open>is_EOL (Some (last (with_line_end s)))\<close> show ?thesis unfolding text_ok_def by metis
qed (simp add: with_line_end_def text_ok_def)

lemma initial_valid: "valid (initial_state s options h)"
proof -
  define st where "st = (new_state (with_line_end s) options h)\<lparr>input := with_line_end s @ [0]\<rparr>"
  have "valid st" using with_line_end_ok [of s] by (simp add: st_def valid_def new_state_def Let_def)
  then have "position st + length (takeWhile (\<lambda>c. c = 0x20) (rest st)) < length (input st)"
    by (rule takeWhile_stops(1)) simp
  with \<open>valid st\<close> show ?thesis
    unfolding initial_state_def Let_def st_def [symmetric]
    by (simp add: valid_def st_def new_state_def Let_def)
qed

lemma initial_types:
  "implicitTypes (initial_state s options h) = implicitTypes (new_state [] options h)"
  "typeMap (initial_state s options h) = typeMap (new_state [] options h)"
  by (simp_all add: initial_state_def new_state_def Let_def advance_def)

definition schema_ok :: "schema \<Rightarrow> bool" where
  "schema_ok s \<longleftrightarrow> (\<forall>t \<in> set (compiledImplicit s) \<union> set (compiledExplicit s). type_ok t)"

definition chosen_schema :: "load_options \<Rightarrow> schema" where
  "chosen_schema options = (case opt_schema options of Some (Some s) \<Rightarrow> s | _ \<Rightarrow> default_full_schema)"

lemma compileMap_range: "snd ` set (compileMap ls) \<subseteq> \<Union> (set ` set ls)"
proof -
  have set: "snd ` set (prop_set r k t) \<subseteq> insert t (snd ` set r)" for r k and t :: ytype
    by (auto simp: prop_set_def prop_insert_def Let_def split: option.splits if_splits
        dest!: set_takeWhileD set_dropWhileD)
  have inner: "snd ` set (foldl (\<lambda>r t. prop_set r (ty_tag t) t) r ts) \<subseteq> snd ` set r \<union> set ts"
    for r and ts :: "ytype list"
  proof (induction ts arbitrary: r)
    case (Cons t ts)
    from Cons [of "prop_set r (ty_tag t) t"] set [of r "ty_tag t" t] show ?case by auto
  qed simp
  have "snd ` set (foldl (\<lambda>r ts. foldl (\<lambda>r t. prop_set r (ty_tag t) t) r ts) r ls) \<subseteq>
      snd ` set r \<union> \<Union> (set ` set ls)" for r
  proof (induction ls arbitrary: r)
    case (Cons ts ls)
    from Cons [of "foldl (\<lambda>r t. prop_set r (ty_tag t) t) r ts"] inner [of r ts] show ?case by auto
  qed simp
  from this [of "[]"] show ?thesis by (simp add: compileMap_def)
qed

lemma initial_ready: "schema_ok (chosen_schema options) \<Longrightarrow> ready (initial_state s options h)"
  using compileMap_range [of "[compiledImplicit (chosen_schema options), compiledExplicit (chosen_schema options)]"]
  by (auto simp: ready_def initial_valid types_ok_def initial_types new_state_def Let_def schema_ok_def
      chosen_schema_def compiledTypeMap_def split: option.splits)

section \<open>The types of the library\<close>

lemma length_of_okay: "okay (\<lambda>_. True) (length_of h v)"
  by (auto simp: length_of_def split: jsval.split option.split cell.split)

lemma elements_of_okay: "okay (\<lambda>_. True) (elements_of h v)"
  by (auto simp: elements_of_def split: jsval.split intro!: okay_bind [OF length_of_okay])

lemma new_regexp_okay: "okay (\<lambda>_. True) (new_regexp w h p f)"
  by (simp add: new_regexp_def)

lemma pair_cells_okay: "okay (\<lambda>_. True) (pair_cells h0 h vs)"
proof (induction h0 h vs rule: pair_cells.induct)
  case (2 h0 h v vs)
  have "okay (\<lambda>_. True) (pair_cell h0 v)"
    by (auto simp: pair_cell_def split: jsval.split list.split option.split)
  with 2 show ?case
    by (auto simp: alloc_def intro!: okay_bind [of "\<lambda>_. True"])
qed simp

lemma simple_operations_ok:
  "okay (\<lambda>_. True) (construct_str w h v)"
  "okay (\<lambda>_. True) (construct_seq w h v)"
  "okay (\<lambda>_. True) (construct_map w h v)"
  "okay (\<lambda>_. True) (constructYamlNull w h v)"
  "okay (\<lambda>_. True) (constructYamlBoolean w h v)"
  "okay (\<lambda>_. True) (constructYamlInteger w h v)"
  "okay (\<lambda>_. True) (constructYamlFloat w h v)"
  "okay (\<lambda>_. True) (resolveYamlMerge w h v)"
  "okay (\<lambda>_. True) (constructYamlBinary w h v)"
  "okay (\<lambda>_. True) (constructYamlOmap w h v)"
  "okay (\<lambda>_. True) (resolveYamlSet w h v)"
  "okay (\<lambda>_. True) (constructYamlSet w h v)"
  "okay (\<lambda>_. True) (resolveJavascriptUndefined w h v)"
  "okay (\<lambda>_. True) (constructJavascriptUndefined w h v)"
  "okay (\<lambda>_. True) (resolveJavascriptFunction w h v)"
  "okay (\<lambda>_. True) (constructJavascriptFunction w h v)"
  by (simp_all add: construct_str_def construct_seq_def construct_map_def constructYamlNull_def constructYamlBoolean_def constructYamlInteger_def constructYamlFloat_def resolveYamlMerge_def constructYamlBinary_def constructYamlOmap_def resolveYamlSet_def constructYamlSet_def resolveJavascriptUndefined_def constructJavascriptUndefined_def resolveJavascriptFunction_def constructJavascriptFunction_def
      split: jsval.split option.split)

lemma resolveYamlNull_ok:
  "okay (\<lambda>_. True) (resolveYamlNull w h v)"
  by (auto simp: resolveYamlNull_def Let_def split: jsval.split option.split cell.split
      intro!: okay_bind [OF js_String_okay] okay_bind [OF length_of_okay] okay_bind [OF elements_of_okay]
        okay_bind [OF pair_cells_okay] new_regexp_okay)

lemma resolveYamlBoolean_ok:
  "okay (\<lambda>_. True) (resolveYamlBoolean w h v)"
  by (auto simp: resolveYamlBoolean_def Let_def split: jsval.split option.split cell.split
      intro!: okay_bind [OF js_String_okay] okay_bind [OF length_of_okay] okay_bind [OF elements_of_okay]
        okay_bind [OF pair_cells_okay] new_regexp_okay)

lemma resolveYamlInteger_ok:
  "okay (\<lambda>_. True) (resolveYamlInteger w h v)"
  by (auto simp: resolveYamlInteger_def Let_def split: jsval.split option.split cell.split
      intro!: okay_bind [OF js_String_okay] okay_bind [OF length_of_okay] okay_bind [OF elements_of_okay]
        okay_bind [OF pair_cells_okay] new_regexp_okay)

lemma resolveYamlFloat_ok:
  "okay (\<lambda>_. True) (resolveYamlFloat w h v)"
  by (auto simp: resolveYamlFloat_def Let_def split: jsval.split option.split cell.split
      intro!: okay_bind [OF js_String_okay] okay_bind [OF length_of_okay] okay_bind [OF elements_of_okay]
        okay_bind [OF pair_cells_okay] new_regexp_okay)

lemma resolveYamlTimestamp_ok:
  "okay (\<lambda>_. True) (resolveYamlTimestamp w h v)"
  by (auto simp: resolveYamlTimestamp_def Let_def split: jsval.split option.split cell.split
      intro!: okay_bind [OF js_String_okay] okay_bind [OF length_of_okay] okay_bind [OF elements_of_okay]
        okay_bind [OF pair_cells_okay] new_regexp_okay)

lemma constructYamlTimestamp_ok:
  "okay (\<lambda>_. True) (constructYamlTimestamp w h v)"
  by (auto simp: constructYamlTimestamp_def Let_def split: jsval.split option.split cell.split
      intro!: okay_bind [OF js_String_okay] okay_bind [OF length_of_okay] okay_bind [OF elements_of_okay]
        okay_bind [OF pair_cells_okay] new_regexp_okay)

lemma resolveYamlBinary_ok:
  "okay (\<lambda>_. True) (resolveYamlBinary w h v)"
  by (auto simp: resolveYamlBinary_def Let_def split: jsval.split option.split cell.split
      intro!: okay_bind [OF js_String_okay] okay_bind [OF length_of_okay] okay_bind [OF elements_of_okay]
        okay_bind [OF pair_cells_okay] new_regexp_okay)

lemma resolveYamlOmap_ok:
  "okay (\<lambda>_. True) (resolveYamlOmap w h v)"
  by (auto simp: resolveYamlOmap_def Let_def split: jsval.split option.split cell.split
      intro!: okay_bind [OF js_String_okay] okay_bind [OF length_of_okay] okay_bind [OF elements_of_okay]
        okay_bind [OF pair_cells_okay] new_regexp_okay)

lemma resolveYamlPairs_ok:
  "okay (\<lambda>_. True) (resolveYamlPairs w h v)"
  by (auto simp: resolveYamlPairs_def Let_def split: jsval.split option.split cell.split
      intro!: okay_bind [OF js_String_okay] okay_bind [OF length_of_okay] okay_bind [OF elements_of_okay]
        okay_bind [OF pair_cells_okay] new_regexp_okay)

lemma constructYamlPairs_ok:
  "okay (\<lambda>_. True) (constructYamlPairs w h v)"
  by (auto simp: constructYamlPairs_def Let_def split: jsval.split option.split cell.split
      intro!: okay_bind [OF js_String_okay] okay_bind [OF length_of_okay] okay_bind [OF elements_of_okay]
        okay_bind [OF pair_cells_okay] new_regexp_okay)

lemma resolveJavascriptRegExp_ok:
  "okay (\<lambda>_. True) (resolveJavascriptRegExp w h v)"
  by (auto simp: resolveJavascriptRegExp_def Let_def split: jsval.split option.split cell.split
      intro!: okay_bind [OF js_String_okay] okay_bind [OF length_of_okay] okay_bind [OF elements_of_okay]
        okay_bind [OF pair_cells_okay] new_regexp_okay)

lemma constructJavascriptRegExp_ok:
  "okay (\<lambda>_. True) (constructJavascriptRegExp w h v)"
proof -
  have plain: "okay (\<lambda>_. True) (bind_res (js_String w h d) (\<lambda>s. new_regexp w h s []))" for d
    by (rule okay_bind [OF js_String_okay]) (rule new_regexp_okay)
  have absent: "okay (\<lambda>_. True) (bind_res (if d = Undef then Inr [] else js_String w h d) (\<lambda>s. new_regexp w h s []))" for d
    using plain [of d] by (simp add: new_regexp_okay)
  show ?thesis
  proof (cases v)
    case (Str s)
    then show ?thesis by (simp add: constructJavascriptRegExp_def Let_def new_regexp_okay)
  next
    case (Ref r)
    show ?thesis
      unfolding constructJavascriptRegExp_def Ref jsval.case
      by (cases "cell_of h (Ref r)") (auto intro: plain absent new_regexp_okay split: cell.split simp del: js_String_simps)
  qed (simp_all add: constructJavascriptRegExp_def cell_of_def new_regexp_okay)
qed

lemmas operations_ok =
  simple_operations_ok resolveYamlNull_ok resolveYamlBoolean_ok resolveYamlInteger_ok resolveYamlFloat_ok resolveYamlTimestamp_ok constructYamlTimestamp_ok resolveYamlBinary_ok resolveYamlOmap_ok resolveYamlPairs_ok constructYamlPairs_ok resolveJavascriptRegExp_ok constructJavascriptRegExp_ok

lemma library_types_ok:
  "type_ok str_type" "type_ok seq_type" "type_ok map_type" "type_ok null_type" "type_ok bool_type"
  "type_ok int_type" "type_ok float_type" "type_ok merge_type" "type_ok timestamp_type"
  "type_ok binary_type" "type_ok omap_type" "type_ok pairs_type" "type_ok set_type"
  "type_ok undefined_type" "type_ok regexp_type" "type_ok function_type"
  by (simp_all add: type_ok_def type_defs type_object_def option_defs operations_ok)

lemma default_schemas_ok: "schema_ok default_full_schema" "schema_ok default_safe_schema"
  by (simp_all add: schema_ok_def compiled_implicit_full compiled_explicit_full compiled_implicit_safe
      compiled_explicit_safe library_types_ok)

section \<open>Loading returns\<close>

lemma loadDocuments_okay:
  assumes "schema_ok (chosen_schema options)"
  shows "okay (\<lambda>st. valid st \<and> \<not> position st + 1 < input_length st) (loadDocuments w h v options)"
  unfolding loadDocuments_def Let_def
  by (rule okay_bind [OF js_String_okay], rule okay_mono [OF document_loop_okay [OF initial_ready [OF assms]]])
    (auto simp: loop_fuel_def dest: fwd_valid)

lemma okay_returns: "okay P m \<Longrightarrow> m \<noteq> Inl Diverges"
  by (cases m) auto

text \<open>A host and options for the examples.\<close>

definition plain_host :: host where
  "plain_host = \<lparr>esprima_parse = (\<lambda>_. None), date_text = (\<lambda>_. []), function_text = (\<lambda>_ _. []),
     regexp_valid = (\<lambda>_ _. True), regexp_source = (\<lambda>s. s)\<rparr>"

definition no_load_options :: load_options where
  "no_load_options = \<lparr>opt_filename = None, opt_schema = None, opt_onWarning = False, opt_legacy = False,
     opt_json = False, opt_listener = False\<rparr>"

definition no_types :: load_options where
  "no_types = \<lparr>opt_filename = None, opt_schema = Some (Some (Schema [] [] [])), opt_onWarning = False,
     opt_legacy = False, opt_json = False, opt_listener = False\<rparr>"

lemma no_types_ok: "schema_ok (chosen_schema no_types)"
  by (simp add: schema_ok_def chosen_schema_def no_types_def compiledImplicit_def compiledExplicit_def
      append_types_def)

text \<open>
  C18: Loading returns on every input, whatever the text, the options and the objects around it,
  if the resolving and constructing functions of the schema do: the result is never
  \<open>Diverges\<close>, so no loop goes past the terminator of the text and the fuel is always enough.
\<close>

theorem load_returns:
  assumes "schema_ok (chosen_schema options)"
  shows "loadDocuments w h v options \<noteq> Inl Diverges \<and> load w h v options \<noteq> Inl Diverges \<and>
    loadAll w h v options \<noteq> Inl Diverges"
proof -
  have docs: "okay (\<lambda>_. True) (loadDocuments w h v options)"
    by (rule okay_mono [OF loadDocuments_okay [OF assms]]) simp
  have "okay (\<lambda>_. True) (load w h v options)"
    unfolding load_def by (rule okay_bind [OF docs]) (simp add: yaml_exception_def split: list.split)
  moreover have "okay (\<lambda>_. True) (loadAll w h v options)"
    unfolding loadAll_def by (rule okay_bind [OF docs]) simp
  ultimately show ?thesis using docs by (intro conjI okay_returns)
qed

theorem load_returns_witness:
  "\<forall>w h v. load w h v no_load_options \<noteq> Inl Diverges \<and>
     load w h v (safe_options no_load_options) \<noteq> Inl Diverges"
  using load_returns [of no_load_options] load_returns [of "safe_options no_load_options"]
  by (simp add: chosen_schema_def no_load_options_def safe_options_def default_schemas_ok)

text \<open>
  C19: The mark of an error of the loader is a position inside the text that was read, in a
  column that is not negative, so the snippet of the message exists.
\<close>

theorem load_error_mark:
  assumes "schema_ok (chosen_schema options)"
    and "loadDocuments w h v options = Inl (YAMLException reason (Some m))"
  shows "mposition m < length (mbuffer m) \<and> 0 \<le> mcolumn m \<and> getSnippet m None None \<noteq> None"
proof -
  have "mark_ok m" using loadDocuments_okay [OF assms(1), of w h v] assms(2) by simp
  then show ?thesis by (auto simp: mark_ok_def getSnippet_def Let_def split: prod.split)
qed

theorem load_error_mark_witness:
  "\<exists>reason m. loadDocuments plain_host [] (Str (jstr ''['')) no_types =
      Inl (YAMLException reason (Some m)) \<and>
     mposition m < length (mbuffer m) \<and> 0 \<le> mcolumn m \<and> getSnippet m None None \<noteq> None"
proof -
  let ?reason = "jstr ''unexpected end of the stream within a flow collection''"
  let ?m = "\<lparr>mname = None, mbuffer = [0x5B, 0x0A, 0], mposition = 2, mline = 1, mcolumn = 0\<rparr> :: mark"
  have "(case loadDocuments plain_host [] (Str (jstr ''['')) no_types of
           Inl e \<Rightarrow> Some e | Inr st \<Rightarrow> None) = Some (YAMLException ?reason (Some ?m))"
    by code_simp
  then have load: "loadDocuments plain_host [] (Str (jstr ''['')) no_types =
      Inl (YAMLException ?reason (Some ?m))" by (simp split: sum.splits)
  with load_error_mark [OF no_types_ok load] show ?thesis by blast
qed

section \<open>Behaviour of the loader that its authors cannot have meant\<close>

text \<open>
  The strip indicator of a block scalar without indentation is ignored: \<open>|-\<close> keeps the last
  line break.
\<close>

lemma strip_ignored:
  "load plain_host [] (Str (jstr ''--- |-'' @ [0x0A] @ jstr ''a'')) no_types =
     Inr ([Arr [], Obj []], Str [0x61, 0x0A])"
  by code_simp

text \<open>
  A tag on the line before its scalar is applied to a node that was resolved already. Here the
  only implicit type takes every plain scalar for \<open>true\<close>; the tag of strings is then given
  this value, and not the text.
\<close>

definition always_true :: ytype where
  "always_true = \<lparr>ty_tag = [0x62], ty_kind = Some Scalar, ty_resolve = (\<lambda>w h d. Inr True),
     ty_construct = (\<lambda>w h d. Inr (h, Bool True)), ty_instanceOf = None, ty_predicate = None,
     ty_represent = None, ty_defaultStyle = None, ty_styleAliases = []\<rparr>"

lemma tag_on_resolved_node:
  "load plain_host [] (Str (jstr ''!!str'' @ [0x0A] @ jstr '' a''))
     \<lparr>opt_filename = None, opt_schema = Some (Some (Schema [] [always_true] [str_type])), opt_onWarning = False,
      opt_legacy = False, opt_json = False, opt_listener = False\<rparr> =
     Inr ([Arr [], Obj []], Bool True)"
  by code_simp

text \<open>The eight digits of an escape are added up in 32 bits: \<open>\U80000041\<close> is read as \<open>A\<close>.\<close>

lemma long_escape_wraps:
  "load plain_host [] (Str ([0x22, 0x5C] @ jstr ''U80000041'' @ [0x22])) no_types =
     Inr ([Arr [], Obj []], Str [0x41])"
  by code_simp

text \<open>An anchor named \<open>hasOwnProperty\<close> makes every alias fail with a \<open>TypeError\<close>.\<close>

lemma anchor_hides_method:
  "load plain_host [] (Str (jstr ''[&hasOwnProperty [], *hasOwnProperty]'')) no_types =
     type_error ''state.anchorMap.hasOwnProperty is not a function''"
  by code_simp

text \<open>
  \<open>safeLoad\<close> with a property \<open>schema\<close> that is \<open>undefined\<close> loads with the full
  schema.
\<close>

lemma safe_load_full_schema:
  "opt_schema options = Some None \<Longrightarrow> chosen_schema (safe_options options) = default_full_schema"
  by (simp add: safe_options_def chosen_schema_def)

end
