(* ===== verification/YamlDump.thy ===== *)
theory YamlDump
  imports YamlWriters YamlLoad
begin

text \<open>
  \<open>dump\<close> and \<open>safeDump\<close> as a whole: the two instances of the contract of
  \<open>YamlWriters\<close>. For any types whose operations return, a dump with references returns on
  every heap; for plain data and the types of the library, it returns a text.
\<close>

section \<open>Types whose operations return\<close>

definition returns :: "yaml_error \<Rightarrow> bool" where
  "returns e \<longleftrightarrow> e \<noteq> Diverges"

lemma returns_simps [simp]:
  "\<not> returns Diverges" "returns (JsError e)" "returns (YAMLException m k)" "returns (SyntaxError s)"
  "returns (Unmodelled t)"
  by (simp_all add: returns_def)

text \<open>A representation is a text, or the value itself.\<close>

definition text_or :: "jsval \<Rightarrow> jsval \<Rightarrow> bool" where
  "text_or v u \<longleftrightarrow> u = v \<or> (\<exists>s. u = Str s)"

definition type_writes :: "ytype \<Rightarrow> bool" where
  "type_writes t \<longleftrightarrow>
     (\<forall>w h s. ends_in returns (\<lambda>_. True) (ty_resolve t w h (Str s)))
   \<and> (case ty_represent t of
        None \<Rightarrow> True
      | Some (RepFun f) \<Rightarrow> \<forall>w h v st. ends_in returns (text_or v) (f w h v st)
      | Some (RepStyles fs) \<Rightarrow> \<forall>(name, f) \<in> set fs. \<forall>w h v. ends_in returns (text_or v) (f w h v))"

definition types_write :: "dstate \<Rightarrow> bool" where
  "types_write S \<longleftrightarrow> (\<forall>t \<in> set (d_implicitTypes S) \<union> set (d_explicitTypes S). type_writes t)"

lemma style_of_returns: "ends_in returns (\<lambda>_. True) (style_of st t)"
  by (simp add: style_of_def split: option.split)

lemma represented_returns:
  assumes "type_writes t" "d_dump st = v"
  shows "ends_in returns (text_or v) (represented w h st t v)"
proof (cases "ty_represent t")
  case None
  with assms show ?thesis by (simp add: represented_def text_or_def)
next
  case (Some r)
  show ?thesis
  proof (cases r)
    case (RepFun f)
    with Some assms show ?thesis
      unfolding represented_def
      by (auto simp: type_writes_def intro!: ends_in_bind [OF style_of_returns])
  next
    case (RepStyles fs)
    with Some assms(1) have fs: "\<forall>(name, f) \<in> set fs. \<forall>w h v. ends_in returns (text_or v) (f w h v)"
      by (simp add: type_writes_def)
    have "ends_in returns (text_or v) (f w h v)" if "map_of fs name = Some f" for name f
      using fs map_of_SomeD [OF that] by auto
    with Some RepStyles show ?thesis
      unfolding represented_def
      by (auto simp: Let_def yaml_exception_def split: option.split intro!: ends_in_bind [OF style_of_returns])
  qed
qed

text \<open>The detection of a type, for any errors and any condition on the representations.\<close>

lemma detect_in_ends:
  assumes "\<And>t st'. t \<in> set ts \<Longrightarrow> type_matches h t v \<Longrightarrow> fixed st' = fixed st \<Longrightarrow> d_dump st' = v \<Longrightarrow>
      ends_in E R (represented w h st' t v)"
    and "fixed st1 = fixed st" "d_dump st1 = v"
  shows "ends_in E (\<lambda>(b, st'). fixed st' = fixed st1 \<and> d_usedDuplicates st' = d_usedDuplicates st1
      \<and> (if b then R (d_dump st') \<and> (explicit \<or> d_tag st' = Some (jstr ''?''))
         else st' = st1 \<and> (\<forall>t \<in> set ts. \<not> type_matches h t v))) (detect_in w h st1 v explicit ts)"
  using assms(1)
proof (induction ts)
  case (Cons t ts)
  show ?case
  proof (cases "type_matches h t v")
    case True
    have "ends_in E R (represented w h st1 t v)" by (rule Cons.prems) (use True assms(2,3) in auto)
    with True assms(2) show ?thesis by (auto elim!: ends_in_bind)
  next
    case False
    with Cons show ?thesis by (auto elim!: ends_in_mono)
  qed
qed simp

lemma detected_ends:
  assumes implicit: "\<And>t st'. t \<in> set (d_implicitTypes st) \<Longrightarrow> type_matches h t v \<Longrightarrow> fixed st' = fixed st \<Longrightarrow>
      d_dump st' = v \<Longrightarrow> ends_in E R (represented w h st' t v)"
    and explicit: "\<And>t st'. t \<in> set (d_explicitTypes st) \<Longrightarrow> type_matches h t v \<Longrightarrow> fixed st' = fixed st \<Longrightarrow>
      d_dump st' = v \<Longrightarrow> ends_in E R' (represented w h st' t v)"
    and Q_implicit: "\<And>st'. R (d_dump st') \<Longrightarrow> d_tag st' = Some (jstr ''?'') \<Longrightarrow> Q st'"
    and Q_explicit: "\<And>st'. R' (d_dump st') \<Longrightarrow> Q st'"
    and Q_none: "\<And>st'. \<forall>t \<in> set (d_implicitTypes st) \<union> set (d_explicitTypes st). \<not> type_matches h t v \<Longrightarrow>
      d_dump st' = v \<Longrightarrow> Q st'"
  shows "ends_in E (\<lambda>(b, st'). fixed st' = fixed st \<and> d_usedDuplicates st' = d_usedDuplicates st \<and> Q st')
           (detected w h st v)"
proof -
  let ?st = "st\<lparr>d_tag := None, d_dump := v\<rparr>"
  have types: "d_implicitTypes ?st = d_implicitTypes st" "d_explicitTypes ?st = d_explicitTypes st" by simp_all
  have first: "ends_in E (\<lambda>(b, st'). fixed st' = fixed ?st \<and> d_usedDuplicates st' = d_usedDuplicates ?st
      \<and> (if b then R (d_dump st') \<and> (False \<or> d_tag st' = Some (jstr ''?''))
         else st' = ?st \<and> (\<forall>t \<in> set (d_implicitTypes st). \<not> type_matches h t v))) (detectType w h ?st v False)"
    unfolding detectType_def if_False types by (rule detect_in_ends [OF implicit]) simp_all
  have second: "ends_in E (\<lambda>(b, st'). fixed st' = fixed ?st \<and> d_usedDuplicates st' = d_usedDuplicates ?st
      \<and> (if b then R' (d_dump st') \<and> (True \<or> d_tag st' = Some (jstr ''?''))
         else st' = ?st \<and> (\<forall>t \<in> set (d_explicitTypes st). \<not> type_matches h t v))) (detectType w h ?st v True)"
    unfolding detectType_def if_True types by (rule detect_in_ends [OF explicit]) simp_all
  show ?thesis
    unfolding detected_def
  proof (rule ends_in_bind [OF first])
    fix x :: "bool \<times> dstate"
    obtain b st1 where p: "x = (b, st1)" by (cases x)
    assume x: "case x of (b, st') \<Rightarrow> fixed st' = fixed ?st \<and> d_usedDuplicates st' = d_usedDuplicates ?st
      \<and> (if b then R (d_dump st') \<and> (False \<or> d_tag st' = Some (jstr ''?''))
         else st' = ?st \<and> (\<forall>t \<in> set (d_implicitTypes st). \<not> type_matches h t v))"
    show "ends_in E (\<lambda>(b, st'). fixed st' = fixed st \<and> d_usedDuplicates st' = d_usedDuplicates st \<and> Q st')
        (case x of (found, st1) \<Rightarrow> if found then Inr (True, st1) else detectType w h st1 v True)"
    proof (cases b)
      case True
      with x p Q_implicit show ?thesis by simp
    next
      case False
      with x p have eq: "st1 = ?st" and none: "\<forall>t \<in> set (d_implicitTypes st). \<not> type_matches h t v"
        by simp_all
      have "ends_in E (\<lambda>(b, st'). fixed st' = fixed st \<and> d_usedDuplicates st' = d_usedDuplicates st \<and> Q st')
          (detectType w h ?st v True)"
      proof (rule ends_in_mono [OF second], clarify)
        fix b' st'
        assume st': "if b' then R' (d_dump st') \<and> (True \<or> d_tag st' = Some (jstr ''?''))
            else st' = ?st \<and> (\<forall>t \<in> set (d_explicitTypes st). \<not> type_matches h t v)"
          and same: "fixed st' = fixed ?st" "d_usedDuplicates st' = d_usedDuplicates ?st"
        have "Q st'"
          using st' Q_explicit [of st'] Q_none [of st'] none by (auto simp: ball_Un split: if_splits)
        with same show "fixed st' = fixed st \<and> d_usedDuplicates st' = d_usedDuplicates st \<and> Q st'" by simp
      qed
      with False eq p show ?thesis by simp
    qed
  qed
qed

lemma any_resolves_ends:
  "\<forall>t \<in> set ts. ends_in E (\<lambda>_. True) (ty_resolve t w h (Str s)) \<Longrightarrow>
     ends_in E (\<lambda>_. True) (any_resolves w h ts s)"
proof (induction ts)
  case (Cons t ts)
  then have "ends_in E (\<lambda>_. True) (ty_resolve t w h (Str s))" by simp
  then show ?case unfolding any_resolves.simps by (rule ends_in_bind) (use Cons in simp)
qed simp

lemma escapeString_ends:
  "(\<And>c. c \<in> set s \<Longrightarrow> ends_in E (\<lambda>_. True) (encodeHex c)) \<Longrightarrow> ends_in E (\<lambda>_. True) (escapeString s)"
proof (induction s)
  case (Cons c s)
  then have "ends_in E (\<lambda>_. True) (escape_char c)" by (simp add: escape_char_def split: option.split)
  then show ?case
    unfolding escapeString.simps
    by (rule ends_in_bind) (rule ends_in_bind [OF Cons.IH], use Cons.prems in auto)
qed simp

lemma style_of_scan_ends:
  "ends_in E (\<lambda>_. True) (f string) \<Longrightarrow> ends_in E (\<lambda>_. True) (style_of_scan string ind f p b l)"
  by (auto simp: style_of_scan_def elim!: ends_in_bind)

lemma scalar_text_ends:
  assumes "\<forall>t \<in> set (d_implicitTypes st). ends_in E (\<lambda>_. True) (ty_resolve t w h (Str s))"
    and "\<And>c. c \<in> set s \<Longrightarrow> ends_in E (\<lambda>_. True) (encodeHex c)"
  shows "ends_in E (\<lambda>_. True) (scalar_text w h st s level iskey)"
proof -
  have "ends_in E (\<lambda>_. True) (testImplicitResolving w h st s)"
    unfolding testImplicitResolving_def by (rule any_resolves_ends [OF assms(1)])
  then have style: "ends_in E (\<lambda>_. True) (chooseScalarStyle s b i l (testImplicitResolving w h st))" for b i l
    unfolding chooseScalarStyle_def by (auto simp: style_of_scan_ends split: option.split)
  note escaped = escapeString_ends [OF assms(2)]
  show ?thesis
    unfolding scalar_text_def Let_def
    by (auto intro!: ends_in_bind [OF style] ends_in_bind [OF escaped] split: style.split)
qed

lemma ordered_pairs_returns: "ends_in returns (\<lambda>qs. \<forall>(k, u) \<in> set qs. u = Undef \<or> (\<exists>l. map_of ps l = Some u))
    (ordered_pairs order ps)"
  by (auto simp: ordered_pairs_def Let_def value_of_key_def yaml_exception_def
      split: sort_keys.split option.split)

interpretation returning: value_dumping w h S returns "\<lambda>v. types_write S" for w h S
proof
  fix v and st :: dstate
  assume S: "types_write S" and st: "fixed st = S"
  show "ends_in returns (\<lambda>(b, st'). fixed st' = S \<and> d_usedDuplicates st' = d_usedDuplicates st
      \<and> settled h S returns (\<lambda>v. types_write S) v st') (detected w h st v)"
    unfolding st [symmetric]
  proof (rule detected_ends)
    fix t and st' :: dstate
    assume "d_dump st' = v"
    then show "t \<in> set (d_implicitTypes st) \<Longrightarrow> ends_in returns (text_or v) (represented w h st' t v)"
      "t \<in> set (d_explicitTypes st) \<Longrightarrow> ends_in returns (text_or v) (represented w h st' t v)"
      using S unfolding st [symmetric] by (auto simp: types_write_def intro: represented_returns)
  qed (use S st in \<open>auto simp: text_or_def settled_def\<close>)
next
  fix s level iskey and st :: dstate
  assume S: "types_write S" and st: "fixed st = S"
  show "ends_in returns (\<lambda>t. True) (scalar_text w h st s level iskey)"
    using S unfolding st [symmetric]
    by (intro scalar_text_ends)
      (auto simp: types_write_def type_writes_def encodeHex_def Let_def yaml_exception_def)
next
  fix v ps
  assume S: "types_write S" and ps: "cell_of h v = Some (Obj ps)"
  have children: "set (children h v) = snd ` set ps" using ps by (simp add: children_def)
  then show "pairs_good h (\<lambda>v. types_write S) v ps" using S by (force simp: pairs_good_def)
  show "ends_in returns (pairs_good h (\<lambda>v. types_write S) v) (ordered_pairs (d_sortKeys S) ps)"
  proof (rule ends_in_mono [OF ordered_pairs_returns])
    fix qs :: "(jsstring \<times> jsval) list"
    assume qs: "\<forall>(k, u) \<in> set qs. u = Undef \<or> (\<exists>l. map_of ps l = Some u)"
    have "u \<in> set (children h v)" if "(k, u) \<in> set qs" "isObject h u" for k u
    proof -
      from that(2) have "u \<noteq> Undef" by (auto simp: isObject_def cell_of_def)
      with that(1) qs obtain l where "map_of ps l = Some u" by blast
      then show ?thesis using children by (force dest: map_of_SomeD)
    qed
    with S show "pairs_good h (\<lambda>v. types_write S) v qs" by (auto simp: pairs_good_def)
  qed
qed simp

section \<open>The types of the library\<close>

lemma type_fields [simp]:
  "ty_instanceOf str_type = None" "ty_predicate str_type = None" "ty_represent str_type = None"
  "ty_instanceOf seq_type = None" "ty_predicate seq_type = None" "ty_represent seq_type = None"
  "ty_instanceOf map_type = None" "ty_predicate map_type = None" "ty_represent map_type = None"
  "ty_instanceOf merge_type = None" "ty_predicate merge_type = None" "ty_represent merge_type = None"
  "ty_instanceOf omap_type = None" "ty_predicate omap_type = None" "ty_represent omap_type = None"
  "ty_instanceOf pairs_type = None" "ty_predicate pairs_type = None" "ty_represent pairs_type = None"
  "ty_instanceOf set_type = None" "ty_predicate set_type = None" "ty_represent set_type = None"
  "ty_instanceOf null_type = None" "ty_predicate null_type = Some isNull"
  "ty_represent null_type = Some represent_null" "ty_defaultStyle null_type = Some (jstr ''lowercase'')"
  "ty_instanceOf bool_type = None" "ty_predicate bool_type = Some isBoolean"
  "ty_represent bool_type = Some represent_bool" "ty_defaultStyle bool_type = Some (jstr ''lowercase'')"
  "ty_instanceOf int_type = None" "ty_predicate int_type = Some isInteger"
  "ty_represent int_type = Some represent_int" "ty_defaultStyle int_type = Some (jstr ''decimal'')"
  "ty_instanceOf float_type = None" "ty_predicate float_type = Some isFloat"
  "ty_represent float_type = Some (RepFun representYamlFloat)"
  "ty_defaultStyle float_type = Some (jstr ''lowercase'')"
  "ty_instanceOf timestamp_type = Some is_date" "ty_predicate timestamp_type = None"
  "ty_represent timestamp_type = Some (RepFun representYamlTimestamp)"
  "ty_instanceOf binary_type = None" "ty_predicate binary_type = Some isBinary"
  "ty_represent binary_type = Some (RepFun representYamlBinary)"
  "ty_instanceOf undefined_type = None" "ty_predicate undefined_type = Some isUndefined"
  "ty_represent undefined_type = Some (RepFun representJavascriptUndefined)"
  "ty_instanceOf regexp_type = None" "ty_predicate regexp_type = Some isRegExp"
  "ty_represent regexp_type = Some (RepFun representJavascriptRegExp)"
  "ty_instanceOf function_type = None" "ty_predicate function_type = Some is_func"
  "ty_represent function_type = Some (RepFun representJavascriptFunction)"
  by (simp_all add: type_defs type_object_def option_defs)

lemma type_ok_returns:
  assumes "type_ok t"
  shows "ends_in returns (\<lambda>_. True) (ty_resolve t w h v)"
proof -
  have "okay (\<lambda>_. True) (ty_resolve t w h v)" using assms by (simp add: type_ok_def)
  then show ?thesis by (cases "ty_resolve t w h v") (auto simp: returns_def)
qed

lemma library_representations_return:
  "ends_in returns (text_or v) (representYamlFloat w h v st)"
  "ends_in returns (text_or v) (representYamlTimestamp w h v st)"
  "ends_in returns (text_or v) (representYamlBinary w h v st)"
  "ends_in returns (text_or v) (representJavascriptUndefined w h v st)"
  "ends_in returns (text_or v) (representJavascriptRegExp w h v st)"
  "ends_in returns (text_or v) (representJavascriptFunction w h v st)"
  by (simp_all add: representYamlFloat_def representYamlTimestamp_def representYamlBinary_def
      representJavascriptUndefined_def representJavascriptRegExp_def representJavascriptFunction_def text_or_def
      split: jsval.split option.split cell.split)

lemma library_types_write:
  "type_writes str_type" "type_writes seq_type" "type_writes map_type" "type_writes null_type"
  "type_writes bool_type" "type_writes int_type" "type_writes float_type" "type_writes merge_type"
  "type_writes timestamp_type" "type_writes binary_type" "type_writes omap_type" "type_writes pairs_type"
  "type_writes set_type" "type_writes undefined_type" "type_writes regexp_type" "type_writes function_type"
  by (simp_all add: type_writes_def type_ok_returns library_types_ok library_representations_return
      represent_null_def represent_bool_def represent_int_def text_or_def Let_def split: jsval.split)

definition schema_writes :: "schema \<Rightarrow> bool" where
  "schema_writes s \<longleftrightarrow> (\<forall>t \<in> set (compiledImplicit s) \<union> set (compiledExplicit s). type_writes t)"

lemma default_schemas_write: "schema_writes default_full_schema" "schema_writes default_safe_schema"
  by (simp_all add: schema_writes_def compiled_implicit_full compiled_explicit_full compiled_implicit_safe
      compiled_explicit_safe library_types_write)

section \<open>A dump returns\<close>

definition dumped_schema :: "dump_options \<Rightarrow> schema" where
  "dumped_schema options = (case dopt_schema options of Some (Some s) \<Rightarrow> s | _ \<Rightarrow> default_full_schema)"

text \<open>The state that the constructor makes.\<close>

definition made_for :: "dump_options \<Rightarrow> dstate \<Rightarrow> bool" where
  "made_for options st \<longleftrightarrow>
     d_implicitTypes st = compiledImplicit (dumped_schema options)
   \<and> d_explicitTypes st = compiledExplicit (dumped_schema options)
   \<and> d_noRefs st = dopt_noRefs options \<and> d_skipInvalid st = dopt_skipInvalid options
   \<and> d_sortKeys st = dopt_sortKeys options \<and> d_duplicates st = [] \<and> d_usedDuplicates st = []
   \<and> (dopt_styles options = None \<longrightarrow> d_styleMap st = [])"

lemma style_entries_return: "ends_in returns (\<lambda>_. True) (style_entries types ps acc)"
proof (induction ps arbitrary: acc)
  case (Cons p ps)
  obtain name style where p: "p = (name, style)" by (cases p)
  have "ends_in returns (\<lambda>_. True) (style_entry types name style)"
    by (simp add: style_entry_def Let_def split: option.split)
  then show ?case unfolding p style_entries.simps by (rule ends_in_bind) (use Cons in auto)
qed simp

lemma new_dumper_made: "ends_in returns (made_for options) (new_dumper options)"
proof -
  have "ends_in returns (\<lambda>m. dopt_styles options = None \<longrightarrow> m = [])
      (compileStyleMap (dumped_schema options) (dopt_styles options))"
    by (auto simp: compileStyleMap_def split: option.split
        intro: ends_in_mono [OF style_entries_return])
  then show ?thesis
    unfolding new_dumper_def Let_def dumped_schema_def [symmetric]
    by (rule ends_in_bind) (simp add: made_for_def)
qed

lemma new_dumper_plain: "dopt_styles options = None \<Longrightarrow> \<exists>st. new_dumper options = Inr st"
  by (simp add: new_dumper_def compileStyleMap_def Let_def)

text \<open>The state after the search for duplicates meets what the writers need.\<close>

lemma duplicates_listed:
  assumes "made_for options st" "\<not> dopt_noRefs options"
  shows "\<exists>st1. (if d_noRefs st then Inr st else getDuplicateReferences h v st) = Inr st1
     \<and> d_implicitTypes st1 = d_implicitTypes st \<and> d_explicitTypes st1 = d_explicitTypes st
     \<and> d_skipInvalid st1 = d_skipInvalid st \<and> d_sortKeys st1 = d_sortKeys st
     \<and> d_styleMap st1 = d_styleMap st \<and> shared_listed h v (fixed st1)
     \<and> length (d_usedDuplicates st1) = length (d_duplicates (fixed st1))"
proof -
  obtain objs ds where "set objs = {u. reachable h v u}"
      "set ds = {r \<in> set objs. 2 \<le> occurrences h v objs r}"
      "getDuplicateReferences h v st = Inr (st\<lparr>d_duplicates := d_duplicates st @ ds,
          d_usedDuplicates := replicate (length ds) False\<rparr>)"
    using duplicates_counted [of h v st] by blast
  with assms show ?thesis
    by (auto simp: made_for_def shared_listed_def)
qed

text \<open>
  C20: A dump with references (the option \<open>noRefs\<close> not set) returns for every value on every
  heap, cyclic ones included, and for all options: the recursion of \<open>writeNode\<close> always ends,
  with a text or an exception. What a type of the schema has to promise is that its own functions
  return, and that its representation of a value is a text or the value itself; the types of the
  library do (lemma \<open>default_schemas_write\<close>).
\<close>

theorem dump_returns:
  assumes "schema_writes (dumped_schema options)" "\<not> dopt_noRefs options"
  shows "dump w h v options \<noteq> Inl Diverges"
proof -
  have "ends_in returns (\<lambda>_. True) (dump w h v options)"
    unfolding dump_def
  proof (rule ends_in_bind [OF new_dumper_made])
    fix st
    assume st: "made_for options st"
    obtain st1 where st1: "(if d_noRefs st then Inr st else getDuplicateReferences h v st) = Inr st1"
        "d_implicitTypes st1 = d_implicitTypes st" "d_explicitTypes st1 = d_explicitTypes st"
        "shared_listed h v (fixed st1)" "length (d_usedDuplicates st1) = length (d_duplicates (fixed st1))"
      using duplicates_listed [OF st assms(2)] by blast
    have "types_write (fixed st1)"
      using assms(1) st st1(2,3) by (simp add: types_write_def schema_writes_def made_for_def)
    note top = returning.writeNode_top [OF refl this st1(4,5)]
    show "ends_in returns (\<lambda>_. True)
        (bind_res (if d_noRefs st then Inr st else getDuplicateReferences h v st) (\<lambda>st1.
         bind_res (writeNode (depth_bound h) w h st1 0 v True True False) (\<lambda>(ok, st2).
           Inr (if ok then dumped st2 @ LF else []))))"
      unfolding st1(1) bind_res_simps by (rule ends_in_bind [OF top]) auto
  qed
  then show ?thesis by (auto simp: returns_def)
qed

section \<open>Plain data\<close>

text \<open>
  Heaps with arrays, plain objects and dates only, whose values are null, booleans, numbers,
  strings of 16-bit units and references into the heap.
\<close>

definition plain_text :: "jsstring \<Rightarrow> bool" where
  "plain_text s \<longleftrightarrow> list_all (\<lambda>c. 0 \<le> c \<and> c \<le> 0xFFFF) s"

definition plain_value :: "heap \<Rightarrow> jsval \<Rightarrow> bool" where
  "plain_value h v =
     (case v of Undef \<Rightarrow> False | Str s \<Rightarrow> plain_text s | Ref r \<Rightarrow> r < length h | _ \<Rightarrow> True)"

definition plain_cell :: "heap \<Rightarrow> cell \<Rightarrow> bool" where
  "plain_cell h c =
     (case c of
        Arr vs \<Rightarrow> list_all (plain_value h) vs
      | Obj ps \<Rightarrow> list_all (\<lambda>(k, v). plain_text k \<and> plain_value h v) ps
      | Date t \<Rightarrow> \<bar>t\<bar> \<le> 8640000000000000
      | _ \<Rightarrow> False)"

definition plain_heap :: "heap \<Rightarrow> bool" where
  "plain_heap h \<longleftrightarrow> list_all (plain_cell h) h"

definition library_state :: "dstate \<Rightarrow> bool" where
  "library_state S \<longleftrightarrow>
     d_implicitTypes S = [null_type, bool_type, int_type, float_type, timestamp_type, merge_type]
   \<and> set (d_explicitTypes S) \<subseteq> {str_type, seq_type, map_type, binary_type, omap_type, pairs_type,
       set_type, undefined_type, regexp_type, function_type}
   \<and> d_styleMap S = [] \<and> (d_sortKeys S = Unsorted \<or> d_sortKeys S = DefaultOrder)"

definition plain_node :: "heap \<Rightarrow> dstate \<Rightarrow> jsval \<Rightarrow> bool" where
  "plain_node h S v \<longleftrightarrow> plain_heap h \<and> library_state S \<and> plain_value h v"

lemma plain_cell_of: "plain_heap h \<Longrightarrow> cell_of h v = Some c \<Longrightarrow> plain_cell h c"
  by (auto simp: plain_heap_def cell_of_def list_all_iff split: jsval.splits if_splits)

lemma library_style:
  "d_styleMap st = [] \<Longrightarrow>
     t \<in> {null_type, bool_type, int_type, float_type, timestamp_type} \<Longrightarrow>
     style_of st t = Inr (ty_defaultStyle t)"
  by (auto simp: style_of_def inherited_names_def yaml_tag_def jstr_def)

text \<open>The implicit types write what they recognise.\<close>

lemma library_represents:
  assumes "d_styleMap st = []" "type_matches h t v"
    and t: "t \<in> {null_type, bool_type, int_type, float_type, timestamp_type}"
  shows "\<exists>s. represented w h st t v = Inr (Str s)"
  using t assms(2)
  by (elim insertE emptyE)
    (auto simp: represented_def library_style [OF assms(1)] type_matches_def Let_def
       isNull_def represent_null_def isBoolean_def represent_bool_def isInteger_def represent_int_def
       isFloat_def representYamlFloat_def is_date_def representYamlTimestamp_def
       split: jsval.splits option.splits cell.splits)

lemma library_detects:
  assumes "plain_node h S v" "fixed st = S"
  shows "ends_in (\<lambda>_. False) (\<lambda>(b, st'). fixed st' = S \<and> d_usedDuplicates st' = d_usedDuplicates st
      \<and> settled h S (\<lambda>_. False) (plain_node h S) v st') (detected w h st v)"
  unfolding assms(2) [symmetric]
proof (rule detected_ends)
  have S: "library_state S" "plain_heap h" "plain_value h v" using assms(1) by (simp_all add: plain_node_def)
  have lists: "d_implicitTypes st = [null_type, bool_type, int_type, float_type, timestamp_type, merge_type]"
    "set (d_explicitTypes st) \<subseteq> {str_type, seq_type, map_type, binary_type, omap_type, pairs_type,
       set_type, undefined_type, regexp_type, function_type}"
    using S(1) assms(2) by (auto simp: library_state_def)
  have other: "\<not> type_matches h t v" if "t \<in> set (d_explicitTypes st) \<union> {merge_type}" for t
    using that lists(2) S plain_cell_of [OF S(2), of v]
    by (auto simp: type_matches_def isBinary_def isUndefined_def isRegExp_def is_func_def plain_value_def
        plain_cell_def split: option.splits cell.splits)
  {
    fix t and st' :: dstate
    assume t: "t \<in> set (d_implicitTypes st)" "type_matches h t v" and st': "fixed st' = fixed st"
    with other lists(1) have "t \<in> {null_type, bool_type, int_type, float_type, timestamp_type}" by auto
    moreover have "d_styleMap st' = []"
      using S(1) assms(2) st' fixed_fields(3) [of st'] by (auto simp: library_state_def)
    ultimately obtain s where "represented w h st' t v = Inr (Str s)"
      using library_represents t(2) by blast
    then show "ends_in (\<lambda>_. False) (\<lambda>u. \<exists>s. u = Str s) (represented w h st' t v)" by simp
  next
    fix t and st' :: dstate
    assume "t \<in> set (d_explicitTypes st)" "type_matches h t v"
    with other have False by blast
    then show "ends_in (\<lambda>_. False) (\<lambda>u. False) (represented w h st' t v)" ..
  next
    fix st' :: dstate
    assume none: "\<forall>t \<in> set (d_implicitTypes st) \<union> set (d_explicitTypes st). \<not> type_matches h t v"
      and st': "d_dump st' = v"
    have "(\<exists>s. v = Str s) \<or> is_collection h v"
      using none lists(1) S plain_cell_of [OF S(2), of v]
      by (cases v) (auto simp: type_matches_def isNull_def isBoolean_def isInteger_def isFloat_def
          is_date_def isObject_def plain_value_def is_collection_def plain_cell_def cell_of_def
          split: option.splits cell.splits)
    with assms st' show "settled h (fixed st) (\<lambda>_. False) (plain_node h (fixed st)) v st'"
      by (auto simp: settled_def)
  }
qed (auto simp: settled_def)

lemma library_resolves:
  "t \<in> {null_type, bool_type, int_type, float_type, timestamp_type, merge_type} \<Longrightarrow>
     ends_in (\<lambda>_. False) (\<lambda>_. True) (ty_resolve t w h (Str s))"
  by (elim insertE emptyE)
    (simp_all add: type_defs type_object_def option_defs resolveYamlNull_def resolveYamlBoolean_def
      resolveYamlInteger_def resolveYamlFloat_def resolveYamlTimestamp_def resolveYamlMerge_def length_of_def)

lemma insert_sorted_set: "set (insert_sorted k ls) = insert k (set ls)"
  by (induction ls) auto

lemma set_sort_strings [simp]: "set (sort_strings ks) = set ks"
  by (induction ks) (auto simp: sort_strings_def insert_sorted_set)

lemma value_of_own: "k \<in> fst ` set ps \<Longrightarrow> (k, value_of_key ps k) \<in> set ps"
  using map_of_SomeD [of ps k] by (auto simp: value_of_key_def map_of_eq_None_iff split: option.split)

interpretation plain: value_dumping w h S "\<lambda>_. False" "plain_node h S" for w h S
proof
  fix v and st :: dstate
  assume "plain_node h S v" "fixed st = S"
  then show "ends_in (\<lambda>_. False) (\<lambda>(b, st'). fixed st' = S \<and> d_usedDuplicates st' = d_usedDuplicates st
      \<and> settled h S (\<lambda>_. False) (plain_node h S) v st') (detected w h st v)"
    by (rule library_detects)
next
  fix s level iskey and st :: dstate
  assume s: "plain_node h S (Str s)" and st: "fixed st = S"
  have "d_implicitTypes st = [null_type, bool_type, int_type, float_type, timestamp_type, merge_type]"
    using s st by (auto simp: plain_node_def library_state_def)
  moreover have "ends_in (\<lambda>_. False) (\<lambda>_. True) (encodeHex c)" if "c \<in> set s" for c
    using s that by (auto simp: plain_node_def plain_value_def plain_text_def list_all_iff encodeHex_def Let_def)
  ultimately show "ends_in (\<lambda>_. False) (\<lambda>t. True) (scalar_text w h st s level iskey)"
    by (intro scalar_text_ends) (auto intro: library_resolves)
next
  fix v vs u
  assume "plain_node h S v" "cell_of h v = Some (Arr vs)" "u \<in> set vs"
  then show "plain_node h S u"
    using plain_cell_of [of h v] by (auto simp: plain_node_def plain_cell_def list_all_iff)
next
  fix v ps
  assume v: "plain_node h S v" and ps: "cell_of h v = Some (Obj ps)"
  have children: "set (children h v) = snd ` set ps" using ps by (simp add: children_def)
  have cell: "plain_cell h (Obj ps)" using v ps plain_cell_of by (simp add: plain_node_def)
  have own: "plain_node h S (Str k) \<and> plain_node h S u \<and> u \<in> set (children h v)" if p: "(k, u) \<in> set ps" for k u
  proof -
    from cell p have "plain_text k" "plain_value h u" by (auto simp: plain_cell_def list_all_iff)
    moreover have "u \<in> set (children h v)" using p unfolding children by (rule rev_image_eqI) simp
    ultimately show ?thesis using v by (simp add: plain_node_def plain_value_def)
  qed
  then show "pairs_good h (plain_node h S) v ps" by (auto simp: pairs_good_def)
  have keys: "pairs_good h (plain_node h S) v (map (\<lambda>k. (k, value_of_key ps k)) ks)" if "set ks \<subseteq> fst ` set ps" for ks
  proof -
    have "(k, value_of_key ps k) \<in> set ps" if "k \<in> set ks" for k
      using \<open>set ks \<subseteq> fst ` set ps\<close> that by (intro value_of_own) auto
    with own show ?thesis by (auto simp: pairs_good_def)
  qed
  have "d_sortKeys S = Unsorted \<or> d_sortKeys S = DefaultOrder"
    using v by (simp add: plain_node_def library_state_def)
  then show "ends_in (\<lambda>_. False) (pairs_good h (plain_node h S) v) (ordered_pairs (d_sortKeys S) ps)"
    using keys [of "map fst ps"] keys [of "sort_strings (map fst ps)"]
    by (auto simp: ordered_pairs_def Let_def simp del: map_map)
qed

lemma plain_dump:
  assumes "plain_heap h" "plain_value h v" "\<not> dopt_noRefs options" "dopt_styles options = None"
    and "dopt_sortKeys options = Unsorted \<or> dopt_sortKeys options = DefaultOrder"
    and schema: "dumped_schema options = default_full_schema \<or> dumped_schema options = default_safe_schema"
  shows "\<exists>t. dump w h v options = Inr t \<and> (dopt_skipInvalid options \<or> (\<exists>s. t = s @ LF))"
proof -
  obtain st where st: "new_dumper options = Inr st" using new_dumper_plain [OF assms(4)] by blast
  then have made: "made_for options st" using new_dumper_made [of options] by simp
  obtain st1 where st1: "(if d_noRefs st then Inr st else getDuplicateReferences h v st) = Inr st1"
      "d_implicitTypes st1 = d_implicitTypes st" "d_explicitTypes st1 = d_explicitTypes st"
      "d_skipInvalid st1 = d_skipInvalid st" "d_sortKeys st1 = d_sortKeys st"
      "d_styleMap st1 = d_styleMap st" "shared_listed h v (fixed st1)"
      "length (d_usedDuplicates st1) = length (d_duplicates (fixed st1))"
    using duplicates_listed [OF made assms(3)] by blast
  have "plain_node h (fixed st1) v"
    using assms made st1 schema
    by (auto simp: plain_node_def library_state_def made_for_def compiled_implicit_full compiled_explicit_full
        compiled_implicit_safe compiled_explicit_safe)
  from plain.writeNode_top [OF refl this st1(7,8), of w 0 True True False]
  obtain ok st2 where "writeNode (depth_bound h) w h st1 0 v True True False = Inr (ok, st2)"
      "if ok then is_text st2 else d_skipInvalid st1"
    by (cases "writeNode (depth_bound h) w h st1 0 v True True False") (auto simp: node_written_def)
  with st st1(1,4) made show ?thesis by (auto simp: dump_def made_for_def)
qed

text \<open>
  C22: Plain data can always be written: if the heap holds arrays, plain objects and dates only,
  with null, booleans, numbers, strings and references as values, then \<open>dump\<close> and
  \<open>safeDump\<close> with the default schemas and styles end without an exception, whatever the
  numbers among the options are and however the objects are shared, in cycles too; and unless
  invalid values are to be skipped, the result is a text that ends with a line feed.
\<close>

theorem plain_data_dumped:
  assumes "plain_heap h" "plain_value h v" "\<not> dopt_noRefs options" "dopt_styles options = None"
    and "dopt_sortKeys options = Unsorted \<or> dopt_sortKeys options = DefaultOrder"
    and "dopt_schema options = None" "\<not> dopt_skipInvalid options"
  shows "(\<exists>t. dump w h v options = Inr (t @ LF)) \<and> (\<exists>t. safeDump w h v options = Inr (t @ LF))"
proof
  show "\<exists>t. dump w h v options = Inr (t @ LF)"
    using plain_dump [OF assms(1-5), of w] assms(6,7) by (auto simp: dumped_schema_def)
  let ?options = "safe_dump_options options"
  have "\<exists>t. dump w h v ?options = Inr t \<and> (dopt_skipInvalid ?options \<or> (\<exists>s. t = s @ LF))"
    by (rule plain_dump [OF assms(1,2)]) (use assms in \<open>simp_all add: safe_dump_options_def dumped_schema_def\<close>)
  then show "\<exists>t. safeDump w h v options = Inr (t @ LF)"
    using assms(7) by (auto simp: safeDump_def safe_dump_options_def)
qed

section \<open>Examples\<close>

definition default_dump :: dump_options where
  "default_dump = \<lparr>dopt_schema = None, dopt_indent = None, dopt_skipInvalid = False, dopt_flowLevel = None,
     dopt_styles = None, dopt_sortKeys = Unsorted, dopt_lineWidth = None, dopt_noRefs = False,
     dopt_noCompatMode = False\<rparr>"

text \<open>An array that holds itself.\<close>

lemma dump_returns_witness: "dump plain_host [Arr [Ref 0]] (Ref 0) default_dump \<noteq> Inl Diverges"
  by (rule dump_returns) (simp_all add: dumped_schema_def default_dump_def default_schemas_write)

lemma plain_data_dumped_witness:
  "(\<exists>t. dump plain_host [Obj [(jstr ''a'', Ref 0), (jstr ''b'', Num (Fin 1))]] (Ref 0) default_dump = Inr (t @ LF)) \<and>
   (\<exists>t. safeDump plain_host [Obj [(jstr ''a'', Ref 0), (jstr ''b'', Num (Fin 1))]] (Ref 0) default_dump = Inr (t @ LF))"
  by (rule plain_data_dumped)
    (simp_all add: default_dump_def plain_heap_def plain_cell_def plain_value_def plain_text_def)

end
