(* ===== verification/YamlStrings.thy ===== *)
theory YamlStrings
  imports YamlQuotes YamlDump
begin

text \<open>
  Dumping a string and loading the text again, from \<open>dump\<close> to \<open>load\<close>: for the strings
  that the dumper writes in quotes or plain, the whole way through both programs gives the
  string back.
\<close>

section \<open>The start and the end of a scalar\<close>

text \<open>A character that starts neither a collection nor a property, a comment or a directive.\<close>

definition scalar_start :: "int \<Rightarrow> bool" where
  "scalar_start c \<longleftrightarrow>
     c \<notin> {0, 0x09, 0x0A, 0x0D, 0x20, 0x21, 0x23, 0x25, 0x26, 0x2D, 0x3A, 0x3F, 0x5B, 0x7B}"

definition starts_scalar :: "lstate \<Rightarrow> bool" where
  "starts_scalar st \<longleftrightarrow> (\<exists>c. ch_at st = Some c \<and> scalar_start c)"

lemma starts_scalar_ch:
  "starts_scalar st \<Longrightarrow> ch_at st \<noteq> Some 0 \<and> ch_at st \<noteq> Some 0x21 \<and> ch_at st \<noteq> Some 0x23 \<and> ch_at st \<noteq> Some 0x25
     \<and> ch_at st \<noteq> Some 0x26 \<and> ch_at st \<noteq> Some 0x2D \<and> ch_at st \<noteq> Some 0x3A \<and> ch_at st \<noteq> Some 0x3F
     \<and> ch_at st \<noteq> Some 0x5B \<and> ch_at st \<noteq> Some 0x7B \<and> \<not> is_EOL (ch_at st) \<and> \<not> is_WHITE_SPACE (ch_at st)"
  by (auto simp: starts_scalar_def scalar_start_def is_EOL_def is_WHITE_SPACE_def)

text \<open>
  What composing a node does not change, and where it ends: before the line break, or behind it
  at the end of the text.
\<close>

definition kept :: "lstate \<Rightarrow> jsstring \<times> nat \<times> jsval list \<times> ytype list" where
  "kept st = (input st, input_length st, documents st, implicitTypes st)"

definition ends_line :: "lstate \<Rightarrow> lstate \<Rightarrow> bool" where
  "ends_line st st' \<longleftrightarrow>
     ch_at st' = Some 0x0A \<and> line st' = line st \<and> lineStart st' = lineStart st \<and> lineIndent st' = lineIndent st"

definition ends_text :: "lstate \<Rightarrow> lstate \<Rightarrow> bool" where
  "ends_text st st' \<longleftrightarrow> ch_at st' = Some 0 \<and> lineStart st' = position st' \<and> line st' \<noteq> line st"

definition scalar_read :: "lstate \<Rightarrow> jsstring \<Rightarrow> lstate \<Rightarrow> bool" where
  "scalar_read st s st' \<longleftrightarrow>
     kept st' = kept st \<and> result st' = Str s \<and> anchor st' = None
   \<and> Suc (position st') = (if ends_text st st' then length (input st) else length (input st) - 1)
   \<and> (ends_line st st' \<or> ends_text st st')"

text \<open>
  \<open>flow_reads w st s\<close>: composing in a flow context, as \<open>readBlockMapping\<close> does for a key,
  reads the scalar \<open>s\<close> from here.
\<close>

definition same_place :: "lstate \<Rightarrow> lstate \<Rightarrow> bool" where
  "same_place st st' \<longleftrightarrow> kept st' = kept st \<and> position st' = position st \<and> line st' = line st
     \<and> lineStart st' = lineStart st \<and> lineIndent st' = lineIndent st"

definition flow_reads :: "host \<Rightarrow> lstate \<Rightarrow> jsstring \<Rightarrow> bool" where
  "flow_reads w st s \<longleftrightarrow>
     (\<forall>st1 n. same_place st st1 \<longrightarrow>
        (\<exists>st'. composeNode w (Suc n) 0 FLOW_OUT False True st1 = Inr (True, st') \<and> scalar_read st1 s st'))"

text \<open>\<open>node_reads w st s\<close>: composing the node of a document reads the scalar \<open>s\<close> from here.\<close>

definition node_reads :: "host \<Rightarrow> lstate \<Rightarrow> jsstring \<Rightarrow> bool" where
  "node_reads w st s \<longleftrightarrow>
     (\<forall>st1 n. same_place st st1 \<longrightarrow>
        (\<exists>st'. composeNode w (Suc (Suc n)) (- 1) BLOCK_OUT False True st1 = Inr (True, st')
          \<and> scalar_read st1 s st'))"

lemma same_place_update [simp]:
  "same_place st (st'\<lparr>tag := t\<rparr>) = same_place st st'" "same_place st (st'\<lparr>anchor := n\<rparr>) = same_place st st'"
  "same_place st (st'\<lparr>kind := k\<rparr>) = same_place st st'" "same_place st (st'\<lparr>result := v\<rparr>) = same_place st st'"
  "same_place st (st'\<lparr>heap_of := h\<rparr>) = same_place st st'" "same_place st (st'\<lparr>events := e\<rparr>) = same_place st st'"
  "same_place st (st'\<lparr>version := x\<rparr>) = same_place st st'"
  "same_place st (st'\<lparr>checkLineBreaks := b\<rparr>) = same_place st st'"
  "same_place st (st'\<lparr>tagMap := tm\<rparr>) = same_place st st'"
  "same_place st (st'\<lparr>anchorMap := am\<rparr>) = same_place st st'" "same_place st st"
  by (simp_all add: same_place_def kept_def)

lemma same_place_ch: "same_place st st' \<Longrightarrow> ch_at st' = ch_at st"
  by (simp add: same_place_def kept_def ch_at_def)

lemma same_place_starts: "same_place st st' \<Longrightarrow> starts_scalar st' = starts_scalar st"
  using same_place_ch [of st st'] by (simp add: starts_scalar_def)

lemma same_place_flow: "same_place st st' \<Longrightarrow> flow_reads w st s \<Longrightarrow> flow_reads w st' s"
  by (auto simp: flow_reads_def same_place_def)

lemma same_place_cleared [simp]: "same_place st (clear_node (emit e st))"
  by (simp add: clear_node_def emit_def)

lemma scalar_read_place: "same_place st st1 \<Longrightarrow> scalar_read st1 s st' = scalar_read st s st'"
  by (simp add: scalar_read_def ends_line_def ends_text_def same_place_def kept_def)

lemma scalar_read_update:
  "scalar_read st s (st'\<lparr>tag := t\<rparr>) = scalar_read st s st'"
  "scalar_read st s (st'\<lparr>events := e\<rparr>) = scalar_read st s st'"
  "scalar_read st s st' \<Longrightarrow> scalar_read st s (st'\<lparr>anchor := None\<rparr>)"
proof -
  have ch: "ch_at (st'\<lparr>tag := t\<rparr>) = ch_at st'" "ch_at (st'\<lparr>events := e\<rparr>) = ch_at st'"
    "ch_at (st'\<lparr>anchor := None\<rparr>) = ch_at st'" by (simp_all add: ch_at_def)
  show "scalar_read st s (st'\<lparr>tag := t\<rparr>) = scalar_read st s st'"
    "scalar_read st s (st'\<lparr>events := e\<rparr>) = scalar_read st s st'"
    "scalar_read st s st' \<Longrightarrow> scalar_read st s (st'\<lparr>anchor := None\<rparr>)"
    by (simp_all add: scalar_read_def kept_def ends_line_def ends_text_def ch)
qed

section \<open>A node that is one scalar\<close>

lemma property_loop_none:
  "starts_scalar st \<Longrightarrow> property_loop (loop_fuel st') i b nv st = Inr (nv, st)"
  using starts_scalar_ch [of st]
  by (auto simp: loop_fuel_def or_else_def readTagProperty_def readAnchorProperty_def)

lemma flow_collection_none: "starts_scalar st \<Longrightarrow> readFlowCollection c w i st = Inr (False, st)"
  using starts_scalar_ch [of st] by (auto simp: readFlowCollection_def)

lemma read_properties_none:
  assumes "starts_scalar st"
  shows "read_properties i False b st =
    Inr (\<lparr>nv_atNewLine = False, nv_blockCollections = b, nv_indentStatus = 1\<rparr>, st)"
  using property_loop_none [OF assms] by (simp add: read_properties_def Let_def)

lemma block_sequence_none:
  assumes "starts_scalar st" "anchor st = None"
  shows "readBlockSequence c i st = Inr (False, st\<lparr>heap_of := heap_of st @ [Arr []]\<rparr>)"
  using starts_scalar_ch [OF assms(1)] assms(2)
  by (auto simp: readBlockSequence_def new_object_def alloc_def set_anchor_def loop_fuel_def ch_at_def)

text \<open>A block mapping is tried; its first key is the scalar, and no colon follows.\<close>

lemma block_mapping_scalar:
  assumes "starts_scalar st" "flow_reads w st s" "anchor st = None" "tag st = None"
  shows "\<exists>st'. readBlockMapping (composeNode w (Suc n)) w i 0 st = Inr (True, st')
    \<and> scalar_read st s st' \<and> tag st' = None"
proof -
  let ?st = "st\<lparr>heap_of := heap_of st @ [Obj []]\<rparr>"
  have "same_place st ?st" by simp
  then obtain st1 where
    st1: "composeNode w (Suc n) 0 FLOW_OUT False True ?st = Inr (True, st1)" "scalar_read ?st s st1"
    using assms(2) unfolding flow_reads_def by blast
  have ch: "ch_at ?st \<noteq> Some 0x3F" "ch_at ?st \<noteq> Some 0x3A" "ch_at ?st \<noteq> Some 0"
    using starts_scalar_ch [OF assms(1)] same_place_ch [of st ?st] by auto
  let ?st2 = "st1\<lparr>tag := tag st, anchor := anchor st\<rparr>"
  have "scalar_read st s ?st2" "tag ?st2 = None"
    using st1(2) assms(3,4) scalar_read_place [of st ?st s st1]
      scalar_read_update(3) [of st s "st1\<lparr>tag := None\<rparr>"] by (simp_all add: scalar_read_update(1))
  moreover have "readBlockMapping (composeNode w (Suc n)) w i 0 st = Inr (True, ?st2)"
  proof (cases "line st1 = line ?st")
    case True
    with st1(2) have lf: "ch_at st1 = Some 0x0A" by (auto simp: scalar_read_def ends_line_def ends_text_def)
    then have "skip_while (\<lambda>c. is_WHITE_SPACE (Some c)) st1 = st1"
      by (auto simp: skip_while_def rest_def ch_at_def charCodeAt_def is_WHITE_SPACE_def advance_def
          Cons_nth_drop_Suc [symmetric] split: if_splits)
    with True lf ch st1(1) assms(3) show ?thesis
      by (simp add: readBlockMapping_def new_object_def alloc_def set_anchor_def loop_fuel_def
          mapping_key_def mapping_epilogue_def del: composeNode.simps)
  next
    case False
    with ch st1(1) assms(3) show ?thesis
      by (simp add: readBlockMapping_def new_object_def alloc_def set_anchor_def loop_fuel_def
          mapping_key_def mapping_epilogue_def del: composeNode.simps)
  qed
  ultimately show ?thesis by blast
qed

lemma compose_scalar:
  assumes "starts_scalar st" "flow_reads w st s"
  shows "\<exists>st'. composeNode w (Suc (Suc n)) (- 1) BLOCK_OUT False True st = Inr (True, st') \<and> scalar_read st s st'"
proof -
  let ?st = "clear_node (emit Opened st)"
  let ?st1 = "?st\<lparr>heap_of := heap_of ?st @ [Arr []]\<rparr>"
  have place: "same_place st ?st" "same_place st ?st1" by simp_all
  have st: "starts_scalar ?st" "starts_scalar ?st1" "flow_reads w ?st1 s"
    using assms same_place_starts [OF place(1)] same_place_starts [OF place(2)] same_place_flow [OF place(2)]
    by blast+
  have fields: "anchor ?st = None" "tag ?st = None" by (simp_all add: clear_node_def)
  obtain st' where st': "readBlockMapping (composeNode w (Suc n)) w (int (position ?st) - int (lineStart ?st))
      0 ?st1 = Inr (True, st')" "scalar_read ?st1 s st'" "tag st' = None"
    using block_mapping_scalar [OF st(2,3), of n "int (position ?st) - int (lineStart ?st)"] fields by auto
  have "scalar_read st s (emit Closed st')"
    using st'(2) scalar_read_place [OF place(2)] by (simp add: emit_def scalar_read_update(2))
  with st'(1,3) show ?thesis
    using block_sequence_none [OF st(1) fields(1)] read_properties_none [OF st(1)] fields
    by (auto simp: compose_body_def read_content_def is_block_def and_also_def or_else_def resolve_tag_def
        simp del: composeNode.simps(2) [of w n])
qed

lemma flow_reads_node:
  assumes "starts_scalar st" "flow_reads w st s"
  shows "node_reads w st s"
  unfolding node_reads_def using assms same_place_starts same_place_flow compose_scalar by blast

section \<open>A document that is one scalar\<close>

lemma rest_ch: "ch_at st = Some c \<Longrightarrow> \<exists>cs. rest st = c # cs"
  by (auto simp: ch_at_def charCodeAt_def rest_def Cons_nth_drop_Suc [symmetric] split: if_splits)

lemma skip_while_none: "ch_at st = Some c \<Longrightarrow> \<not> p c \<Longrightarrow> skip_while p st = st"
  using rest_ch [of st c] by (auto simp: skip_while_def advance_def)

lemma skip_space_none: "starts_scalar st \<Longrightarrow> skip_space st (- 1) = Inr st"
  using starts_scalar_ch [of st] skip_while_none [of st _ "\<lambda>c. is_WHITE_SPACE (Some c)"]
  by (auto simp: starts_scalar_def skip_space_def skipSeparationSpace_def)

text \<open>The state at the terminator.\<close>

definition at_end :: "lstate \<Rightarrow> lstate \<Rightarrow> bool" where
  "at_end st st' \<longleftrightarrow> kept st' = kept st \<and> result st' = result st \<and> ch_at st' = Some 0
     \<and> Suc (position st') = length (input st)"

lemma line_end_skipped:
  assumes "input st = t @ [0x0A, 0]" "position st = length t"
  shows "skipSeparationSpace st b (- 1) = Inr (1, st\<lparr>position := length t + 1, line := line st + 1,
    lineStart := length t + 1, lineIndent := 0\<rparr>)"
proof -
  have lf: "ch_at st = Some 0x0A" using assms by (simp add: ch_at_def charCodeAt_def nth_append)
  let ?st3 = "(advance 1 st)\<lparr>line := line st + 1, lineStart := position st + 1\<rparr>"
  let ?st5 = "?st3\<lparr>lineIndent := 0\<rparr>"
  have ch: "ch_at ?st5 = Some 0" using assms by (simp add: ch_at_def charCodeAt_def advance_def nth_append)
  have "rest ?st3 = [0]" using assms by (simp add: rest_def advance_def)
  then have adv: "advance (length (takeWhile (\<lambda>c. c = 0x20) (rest ?st3)))
      (?st3\<lparr>lineIndent := int (length (takeWhile (\<lambda>c. c = 0x20) (rest ?st3)))\<rparr>) = ?st5"
    by (simp add: advance_def)
  have "readLineBreak st = Inr ?st3" using lf by (simp add: readLineBreak_def advance_def)
  moreover obtain m where m: "length (rest st) + 1 = Suc (Suc m)" using rest_ch [OF lf] by auto
  ultimately have "separation_loop (length (rest st) + 1) b 0 st = Inr (1, ?st5)"
    using lf skip_while_none [OF lf, of "\<lambda>c. is_WHITE_SPACE (Some c)"] ch adv unfolding m
    by (simp add: is_WHITE_SPACE_def is_EOL_def Let_def)
  then show ?thesis using assms(2) by (simp add: skipSeparationSpace_def advance_def)
qed

lemma skip_space_end:
  assumes "scalar_read st s st'" "input st = t @ [0x0A, 0]"
  shows "\<exists>st5. skip_space st' (- 1) = Inr st5 \<and> at_end st' st5"
proof (cases "ends_text st st'")
  case True
  then have ch: "ch_at st' = Some 0" by (simp add: ends_text_def)
  then have "skip_space st' (- 1) = Inr st'" by (simp add: skip_space_def skipSeparationSpace_def)
  moreover have "at_end st' st'" using True ch assms(1) by (simp add: at_end_def scalar_read_def kept_def)
  ultimately show ?thesis by blast
next
  case False
  with assms have pos: "position st' = length t" and inp: "input st' = t @ [0x0A, 0]"
    by (auto simp: scalar_read_def ends_line_def kept_def)
  let ?st5 = "st'\<lparr>position := length t + 1, line := line st' + 1, lineStart := length t + 1, lineIndent := 0\<rparr>"
  have "skip_space st' (- 1) = Inr ?st5" using line_end_skipped [OF inp pos] by (simp add: skip_space_def)
  moreover have "at_end st' ?st5"
    using pos inp by (simp add: at_end_def kept_def ch_at_def charCodeAt_def nth_append)
  ultimately show ?thesis by blast
qed

lemma document_scalar:
  assumes "starts_scalar st" "node_reads w (start_document st) s" "lineIndent st = 0"
    and inp: "input st = t @ [0x0A, 0]" "input_length st = length t + 1"
  shows "\<exists>st'. readDocument w st = Inr st' \<and> documents st' = documents st @ [Str s]
    \<and> input_length st' = input_length st \<and> position st' = input_length st'"
proof -
  let ?st = "start_document st"
  have place: "same_place st ?st" by (simp add: start_document_def)
  have start: "starts_scalar ?st" using assms(1) same_place_starts [OF place] by simp
  note ch = starts_scalar_ch [OF start]
  have indent: "lineIndent ?st = 0" using assms(3) place by (simp add: same_place_def)
  obtain k where fuel: "loop_fuel st = Suc k" by (simp add: loop_fuel_def)
  have "directive_loop (loop_fuel st) False ?st = Inr (False, ?st)"
    unfolding fuel using ch skip_space_none [OF start] by simp
  moreover have "document_start_mark False ?st = Inr ?st" using ch by (simp add: document_start_mark_def)
  moreover obtain k where "compose_fuel ?st = Suc (Suc k)" by (auto simp: compose_fuel_def)
  moreover from assms(2) obtain st4 where
    "composeNode w (Suc (Suc k)) (- 1) BLOCK_OUT False True ?st = Inr (True, st4)" "scalar_read ?st s st4"
    unfolding node_reads_def by (meson same_place_update)
  moreover have "input ?st = t @ [0x0A, 0]" using inp by (simp add: start_document_def)
  with skip_space_end [OF \<open>scalar_read ?st s st4\<close> this] obtain st5 where
    st5: "skip_space st4 (- 1) = Inr st5" "at_end st4 st5" by blast
  define st6 where "st6 = (if checkLineBreaks st5 \<and>
      non_ascii_line_breaks (input_slice st5 (position st) (position st5))
    then throwWarning st5 (jstr ''non-ASCII line breaks are interpreted as content'') else st5)"
  have st6: "same_place st5 st6" "result st6 = result st5" by (simp_all add: st6_def throwWarning_def)
  have kept: "kept st6 = kept st" "position st6 = input_length st" "result st6 = Str s"
    using st5(2) \<open>scalar_read ?st s st4\<close> st6 inp place
    by (auto simp: at_end_def scalar_read_def same_place_def kept_def)
  have "ch_at st6 = Some 0" using st5(2) same_place_ch [OF st6(1)] by (simp add: at_end_def)
  then have "document_end (st6\<lparr>documents := documents st6 @ [result st6]\<rparr>) =
      Inr (st6\<lparr>documents := documents st6 @ [result st6]\<rparr>)"
    using kept by (simp add: document_end_def testDocumentSeparator_def ch_at_def kept_def Let_def)
  ultimately have "readDocument w st = Inr (st6\<lparr>documents := documents st6 @ [result st6]\<rparr>)"
    using indent skip_space_none [OF start] st5(1)
    unfolding readDocument_def st6_def [symmetric]
    by (simp add: st6_def [symmetric] Let_def del: composeNode.simps)
  with kept show ?thesis by (auto simp: kept_def)
qed

text \<open>The text of one scalar with a line feed.\<close>

lemma load_scalar:
  assumes t: "t = c # cs" "scalar_start c" "c \<noteq> 0xFEFF"
    and reads: "\<And>st. input st = t @ [0x0A, 0] \<Longrightarrow> position st = 0 \<Longrightarrow> lineStart st = 0 \<Longrightarrow> lineIndent st = 0 \<Longrightarrow>
      implicitTypes st = compiledImplicit (chosen_schema options) \<Longrightarrow> node_reads w st s"
  shows "\<exists>h'. load w h (Str (t @ LF)) options = Inr (h', Str s)"
proof -
  let ?st = "initial_state (t @ LF) options h"
  have line_end: "with_line_end (t @ LF) = t @ [0x0A]" using t by (simp add: with_line_end_def)
  have "rest ((new_state (t @ [0x0A]) options h)\<lparr>input := t @ [0x0A, 0]\<rparr>) = t @ [0x0A, 0]"
    by (simp add: rest_def new_state_def Let_def)
  then have spaces: "takeWhile (\<lambda>c. c = 0x20)
      (rest ((new_state (t @ [0x0A]) options h)\<lparr>input := t @ [0x0A, 0]\<rparr>)) = []"
    using t by (simp add: scalar_start_def)
  have init: "input ?st = t @ [0x0A, 0]" "position ?st = 0" "lineStart ?st = 0" "lineIndent ?st = 0"
    "input_length ?st = length t + 1" "documents ?st = []"
    "implicitTypes ?st = compiledImplicit (chosen_schema options)"
    unfolding initial_state_def line_end Let_def
    using spaces by (simp_all add: advance_def new_state_def Let_def chosen_schema_def)
  have "starts_scalar ?st" using init(1,2) t by (simp add: starts_scalar_def ch_at_def charCodeAt_def)
  moreover have "node_reads w (start_document ?st) s"
    by (rule reads) (use init in \<open>simp_all add: start_document_def\<close>)
  ultimately obtain st' where st': "readDocument w ?st = Inr st'" "documents st' = [Str s]"
      "position st' = input_length st'" "input_length st' = length t + 1"
    using document_scalar [OF _ _ init(4,1,5)] init(5,6) by fastforce
  obtain k where "loop_fuel ?st = Suc (Suc k)" using init(1,2) t by (simp add: loop_fuel_def rest_def)
  then have "loadDocuments w h (Str (t @ LF)) options = Inr st'"
    using st'(1,3) init(2,5) t by (simp add: loadDocuments_def Let_def)
  with st'(2) show ?thesis by (simp add: load_def)
qed

end
