(* ===== verification/YamlStyles.thy ===== *)
theory YamlStyles
  imports YamlDumpText
begin

text \<open>
  What the choice of a scalar style and the texts of block scalars promise: the postconditions
  that the comments of \<open>chooseScalarStyle\<close> state, the lines of an indented text, and the
  folding of a line.
\<close>

section \<open>Lines\<close>

abbreviation lines_of :: "jsstring \<Rightarrow> jsstring list" where
  "lines_of \<equiv> split_at CHAR_LINE_FEED"

text \<open>A line that is too long for the width and may be folded.\<close>

definition too_long :: "int \<Rightarrow> jsstring \<Rightarrow> bool" where
  "too_long lineWidth l \<longleftrightarrow> int (length l) > lineWidth \<and> at_char l 0 \<noteq> Some CHAR_SPACE"

section \<open>The scans\<close>

lemma scan_single_spec:
  "scan_single plain cs =
     (if list_all isPrintable cs then Some (plain \<and> list_all isPlainSafe cs) else None)"
  by (induction cs arbitrary: plain) auto

lemma foldable_line_spec:
  assumes "string = before @ cur @ ahead" "ahead = [] \<or> hd ahead = CHAR_LINE_FEED"
  shows "foldable_line string lineWidth (int (length before) + int (length cur)) (int (length before) - 1)
    = too_long lineWidth cur"
  using assms by (cases cur; cases ahead) (auto simp: foldable_line_def too_long_def JsPrelude.at_def nth_append)

definition line_or_printable :: "int \<Rightarrow> bool" where
  "line_or_printable c \<longleftrightarrow> c = CHAR_LINE_FEED \<or> isPrintable c"

lemma LF_unsafe [simp]: "\<not> isPlainSafe 0x0A" "\<not> isPrintable 0x0A"
  by (simp_all add: isPlainSafe_def isPrintable_def)

text \<open>
  The result of the scan of \<open>cs\<close>, when \<open>cur\<close> is the part of the current line before it.
\<close>

definition scanned :: "jsstring \<Rightarrow> int \<Rightarrow> jsstring \<Rightarrow> jsstring \<Rightarrow> scan_state \<Rightarrow> scan_state option \<Rightarrow> bool" where
  "scanned string lineWidth cur cs sc r \<longleftrightarrow>
     (case r of
        None \<Rightarrow> \<not> list_all line_or_printable cs
      | Some sc' \<Rightarrow> list_all line_or_printable cs
          \<and> (sc_plain sc' \<longleftrightarrow> sc_plain sc \<and> list_all isPlainSafe cs)
          \<and> (sc_hasLineBreak sc' \<longleftrightarrow> sc_hasLineBreak sc \<or> CHAR_LINE_FEED \<in> set cs)
          \<and> (lineWidth = - 1 \<longrightarrow> sc_hasFoldableLine sc' = sc_hasFoldableLine sc)
          \<and> (lineWidth \<noteq> - 1 \<longrightarrow>
               (sc_hasFoldableLine sc'
                 \<or> foldable_line string lineWidth (int (length string)) (sc_previousLineBreak sc'))
               = (sc_hasFoldableLine sc \<or> (\<exists>l \<in> set (lines_of (cur @ cs)). too_long lineWidth l))))"

lemma scan_lines_spec:
  assumes "string = before @ cur @ cs" "CHAR_LINE_FEED \<notin> set cur"
    and "lineWidth \<noteq> - 1 \<longrightarrow> sc_previousLineBreak sc = int (length before) - 1"
  shows "scanned string lineWidth cur cs sc
    (scan_lines string lineWidth (length before + length cur) cs sc)"
  using assms
proof (induction cs arbitrary: before cur sc)
  case Nil
  then show ?case
    using foldable_line_spec [of string before cur "[]" lineWidth] by (simp add: scanned_def split_at_single)
next
  case (Cons c cs)
  show ?case
  proof (cases "c = CHAR_LINE_FEED")
    case True
    let ?fold = "foldable_line string lineWidth (int (length before + length cur)) (sc_previousLineBreak sc)"
    define sc2 where "sc2 = (if lineWidth \<noteq> - 1 then sc\<lparr>sc_hasLineBreak := True,
        sc_hasFoldableLine := sc_hasFoldableLine sc \<or> ?fold,
        sc_previousLineBreak := int (length before + length cur), sc_plain := False\<rparr>
      else sc\<lparr>sc_hasLineBreak := True, sc_plain := False\<rparr>)"
    define r where "r = scan_lines string lineWidth (length (before @ cur @ [c]) + length []) cs sc2"
    have step: "scan_lines string lineWidth (length before + length cur) (c # cs) sc = r"
      using True by (simp add: Let_def r_def sc2_def)
    have sc2: "\<not> sc_plain sc2" "sc_hasLineBreak sc2"
      "lineWidth = - 1 \<longrightarrow> sc_hasFoldableLine sc2 = sc_hasFoldableLine sc"
      "lineWidth \<noteq> - 1 \<longrightarrow> sc_hasFoldableLine sc2 = (sc_hasFoldableLine sc \<or> too_long lineWidth cur)"
      "lineWidth \<noteq> - 1 \<longrightarrow> sc_previousLineBreak sc2 = int (length (before @ cur @ [c])) - 1"
      using foldable_line_spec [of string before cur "c # cs" lineWidth] Cons.prems True
      by (simp_all add: sc2_def)
    have ih: "scanned string lineWidth [] cs sc2 r"
      using Cons.IH [of "before @ cur @ [c]" "[]" sc2] Cons.prems sc2(5) by (simp add: r_def)
    have lines: "split_at 0x0A (cur @ 0x0A # cs) = cur # split_at 0x0A cs"
      by (rule split_at_break) (use Cons.prems(2) in simp)
    show ?thesis
    proof (cases r)
      case None
      with ih True step show "scanned string lineWidth cur (c # cs) sc (scan_lines string lineWidth (length before + length cur) (c # cs) sc)"
        by (simp add: scanned_def line_or_printable_def)
    next
      case (Some sc')
      with ih sc2(1-4) True step show "scanned string lineWidth cur (c # cs) sc (scan_lines string lineWidth (length before + length cur) (c # cs) sc)"
        by (simp add: scanned_def lines line_or_printable_def)
    qed
  next
    case False
    show ?thesis
    proof (cases "isPrintable c")
      case True
      let ?sc = "sc\<lparr>sc_plain := sc_plain sc \<and> isPlainSafe c\<rparr>"
      define r where "r = scan_lines string lineWidth (length before + length (cur @ [c])) cs ?sc"
      have step: "scan_lines string lineWidth (length before + length cur) (c # cs) sc = r"
        using True False by (simp add: r_def)
      have "scanned string lineWidth (cur @ [c]) cs ?sc r"
        unfolding r_def by (rule Cons.IH) (use Cons.prems False in simp_all)
      with True False show ?thesis
        unfolding step by (cases r) (simp_all add: scanned_def line_or_printable_def)
    next
      case printable: False
      with False show ?thesis by (simp add: scanned_def line_or_printable_def)
    qed
  qed
qed

section \<open>The postconditions\<close>

text \<open>
  A string is fit for the plain style if its first character is safe, its last one is no white
  space and all are safe.
\<close>

definition fit_for_plain :: "jsstring \<Rightarrow> bool" where
  "fit_for_plain s \<longleftrightarrow>
     s \<noteq> [] \<and> isPlainSafeFirst (hd s) \<and> \<not> isWhitespace (last s) \<and> list_all isPlainSafe s"

lemma plain_start_fit: "plain_start s \<and> list_all isPlainSafe s \<longleftrightarrow> fit_for_plain s"
proof (cases s)
  case (Cons c cs)
  then have "at_char s 0 = Some (hd s)" "at_char s (int (length s) - 1) = Some (last s)"
    by (auto simp: JsPrelude.at_def last_conv_nth hd_conv_nth nat_diff_distrib)
  with Cons show ?thesis by (simp add: plain_start_def fit_for_plain_def)
qed (simp add: plain_start_def fit_for_plain_def)

definition style_promise :: "jsstring \<Rightarrow> bool \<Rightarrow> int \<Rightarrow> int \<Rightarrow> (jsstring \<Rightarrow> bool yres) \<Rightarrow> style \<Rightarrow> bool" where
  "style_promise s singleLineOnly indentPerLevel lineWidth amb st \<longleftrightarrow>
     (case st of
        STYLE_PLAIN \<Rightarrow> fit_for_plain s \<and> amb s = Inr False
      | STYLE_SINGLE \<Rightarrow> list_all isPrintable s
      | STYLE_LITERAL \<Rightarrow> \<not> singleLineOnly \<and> list_all line_or_printable s \<and> CHAR_LINE_FEED \<in> set s
          \<and> (lineWidth = - 1 \<or> (\<forall>l \<in> set (lines_of s). \<not> too_long lineWidth l))
          \<and> \<not> (at_char s 0 = Some CHAR_SPACE \<and> indentPerLevel > 9)
      | STYLE_FOLDED \<Rightarrow> \<not> singleLineOnly \<and> list_all line_or_printable s \<and> lineWidth \<noteq> - 1
          \<and> (\<exists>l \<in> set (lines_of s). too_long lineWidth l)
          \<and> \<not> (at_char s 0 = Some CHAR_SPACE \<and> indentPerLevel > 9)
      | STYLE_DOUBLE \<Rightarrow> \<not> list_all (\<lambda>c. if singleLineOnly then isPrintable c else line_or_printable c) s
          \<or> at_char s 0 = Some CHAR_SPACE \<and> indentPerLevel > 9)"

lemma style_of_scan_promise:
  assumes "style_of_scan s ind amb plain lb fl = Inr st" "plain \<longrightarrow> fit_for_plain s"
    and "lb = (CHAR_LINE_FEED \<in> set s \<and> \<not> single)" "list_all line_or_printable s"
    and "single \<longrightarrow> list_all isPrintable s"
    and "fl = (\<not> single \<and> lineWidth \<noteq> - 1 \<and> (\<exists>l \<in> set (lines_of s). too_long lineWidth l))"
  shows "style_promise s single ind lineWidth amb st"
proof -
  have "list_all isPrintable s" if "\<not> lb"
    using that assms(3-5) by (auto simp: list_all_iff line_or_printable_def)
  with assms show ?thesis
    by (cases st) (auto simp: style_of_scan_def style_promise_def bind_res_Inr_iff split: if_splits)
qed

lemma style_promised:
  assumes "chooseScalarStyle s single ind lineWidth amb = Inr st"
  shows "style_promise s single ind lineWidth amb st"
proof (cases single)
  case True
  show ?thesis
  proof (cases "list_all isPrintable s")
    case printable: True
    then have all: "list_all line_or_printable s" by (auto simp: list_all_iff line_or_printable_def)
    have "style_of_scan s ind amb (plain_start s \<and> list_all isPlainSafe s) False False = Inr st"
      using assms True printable by (simp add: chooseScalarStyle_def scan_single_spec)
    then show ?thesis
      by (rule style_of_scan_promise) (use True printable all in \<open>simp_all add: plain_start_fit\<close>)
  next
    case False
    with assms True have "st = STYLE_DOUBLE" by (simp add: chooseScalarStyle_def scan_single_spec)
    with True False show ?thesis by (simp add: style_promise_def)
  qed
next
  case False
  let ?sc = "\<lparr>sc_plain = plain_start s, sc_hasLineBreak = False, sc_hasFoldableLine = False,
    sc_previousLineBreak = - 1\<rparr>"
  define r where "r = scan_lines s lineWidth 0 s ?sc"
  have r: "scanned s lineWidth [] s ?sc r"
    using scan_lines_spec [of s "[]" "[]" s lineWidth ?sc] by (simp add: r_def)
  show ?thesis
  proof (cases r)
    case None
    with assms False have "st = STYLE_DOUBLE" by (simp add: chooseScalarStyle_def r_def)
    with r None False show ?thesis by (simp add: scanned_def style_promise_def)
  next
    case (Some sc)
    with assms False have "style_of_scan s ind amb (sc_plain sc) (sc_hasLineBreak sc)
        (sc_hasFoldableLine sc \<or> lineWidth \<noteq> - 1
          \<and> foldable_line s lineWidth (int (length s)) (sc_previousLineBreak sc)) = Inr st"
      by (simp add: chooseScalarStyle_def r_def)
    then show ?thesis
      by (rule style_of_scan_promise)
        (use r Some False in \<open>auto simp: scanned_def plain_start_fit\<close>)
  qed
qed

text \<open>
  C34: The style that is chosen for a string is one that can hold it: plain only if every
  character is safe, the ends are no white space and no implicit type of the schema would take
  the text for its own; single quotes only if every character is printable, so that there is no
  line break; a literal block only for printable text with line breaks none of whose lines is to
  be folded; a folded block only if a line is too long and the width limited; both never where
  only one line is allowed, or where the indentation indicator would need two digits.
\<close>

theorem style_postconditions:
  "chooseScalarStyle s single ind lineWidth amb = Inr st \<Longrightarrow> style_promise s single ind lineWidth amb st"
  by (rule style_promised)

lemma style_postconditions_witness:
  "style_promise (jstr ''a b'') False 2 80 (\<lambda>s. Inr False) STYLE_PLAIN"
  by (rule style_postconditions) code_simp

end
