(* ===== verification/YamlRoundTrip.thy ===== *)
theory YamlRoundTrip
  imports YamlStrings YamlStyles
begin

text \<open>
  The strings that are dumped in quotes or plain, from \<open>dump\<close> to \<open>load\<close>: each of these
  texts is read back as the string. The literal and the folded style are not covered.
\<close>

section \<open>Reading a scalar in a flow context\<close>

text \<open>
  A scalar whose tag, if it has one, is the question mark of a plain scalar, which no implicit
  type takes for its own.
\<close>

definition untyped :: "host \<Rightarrow> jsstring \<Rightarrow> lstate \<Rightarrow> bool" where
  "untyped w s st \<longleftrightarrow>
     tag st = None
   \<or> tag st = Some [0x3F] \<and> first_resolved w (heap_of st) (Str s) (implicitTypes st) = Inr None"

lemma flow_reads_scalar:
  assumes "starts_scalar st"
    and reads: "\<And>st0. same_place st st0 \<Longrightarrow> tag st0 = None \<Longrightarrow> anchor st0 = None \<Longrightarrow>
      \<exists>st1. read_scalar_node 0 FLOW_OUT st0 = Inr (True, st1) \<and> scalar_read st0 s st1 \<and> untyped w s st1"
  shows "flow_reads w st s"
  unfolding flow_reads_def
proof (intro allI impI)
  fix st1 n
  assume place: "same_place st st1"
  let ?st = "clear_node (emit Opened st1)"
  have "same_place st ?st" using place by (simp add: clear_node_def emit_def)
  then have st: "starts_scalar ?st" using assms(1) same_place_starts by blast
  have "tag ?st = None" "anchor ?st = None" by (simp_all add: clear_node_def)
  from reads [OF \<open>same_place st ?st\<close> this] obtain st2 where
    st2: "read_scalar_node 0 FLOW_OUT ?st = Inr (True, st2)" "scalar_read ?st s st2" "untyped w s st2" by blast
  have "resolve_tag w st2 = Inr st2"
    using st2(2,3) by (auto simp: untyped_def resolve_tag_def resolve_implicit_def scalar_read_def)
  moreover have "scalar_read st1 s (emit Closed st2)"
    using st2(2) scalar_read_place [OF same_place_cleared [of st1 Opened]] by (simp add: emit_def scalar_read_update(2))
  ultimately show "\<exists>st'. composeNode w (Suc n) 0 FLOW_OUT False True st1 = Inr (True, st') \<and> scalar_read st1 s st'"
    using st2(1) read_properties_none [OF st, of 0 False] flow_collection_none [OF st]
    by (auto simp: compose_body_def read_content_def is_block_def and_also_def or_else_def)
qed

text \<open>Where the scalars stand: at the start of a text with one line.\<close>

definition at_text :: "jsstring \<Rightarrow> lstate \<Rightarrow> bool" where
  "at_text t st \<longleftrightarrow> input st = t @ [0x0A, 0] \<and> position st = 0 \<and> lineStart st = 0 \<and> lineIndent st = 0"

lemma same_place_text: "same_place st st0 \<Longrightarrow> at_text t st = at_text t st0"
  by (simp add: same_place_def at_text_def kept_def)

lemma at_text_starts: "at_text (c # cs) st \<Longrightarrow> scalar_start c \<Longrightarrow> starts_scalar st"
  by (simp add: at_text_def starts_scalar_def ch_at_def charCodeAt_def)

text \<open>A scalar that has been read up to the line break.\<close>

lemma scalar_read_line:
  assumes "at_text t st" "anchor st = None"
  shows "scalar_read st s (st\<lparr>kind := k, result := Str s, position := length t\<rparr>)"
  using assms by (simp add: at_text_def scalar_read_def kept_def ends_line_def ends_text_def ch_at_def
      charCodeAt_def nth_append)

lemma load_line:
  assumes t: "t = c # cs" "scalar_start c" "c \<noteq> 0xFEFF"
    and reads: "\<And>st. at_text t st \<Longrightarrow> implicitTypes st = compiledImplicit (chosen_schema options) \<Longrightarrow>
      flow_reads w st s"
  shows "\<exists>h'. load w h (Str (t @ LF)) options = Inr (h', Str s)"
proof (rule load_scalar [OF t])
  fix st :: lstate
  assume "input st = t @ [0x0A, 0]" "position st = 0" "lineStart st = 0" "lineIndent st = 0"
    and types: "implicitTypes st = compiledImplicit (chosen_schema options)"
  then have start: "at_text t st" by (simp add: at_text_def)
  moreover have "starts_scalar st" using start t by (simp add: at_text_starts)
  ultimately show "node_reads w st s" using reads types flow_reads_node by blast
qed

section \<open>Quoted scalars\<close>

lemma single_quoted_flow:
  assumes "at_text ([0x27] @ double_quotes s @ [0x27]) st" "list_all ordinary s"
  shows "flow_reads w st s"
proof (rule flow_reads_scalar)
  let ?t = "[0x27] @ double_quotes s @ [0x27]"
  show "starts_scalar st" using at_text_starts assms(1) by (simp add: scalar_start_def)
  fix st0
  assume "same_place st st0" and none: "tag st0 = None" "anchor st0 = None"
  with assms(1) have start: "at_text ?t st0" using same_place_text by blast
  let ?st = "st0\<lparr>kind := Some Scalar, result := Str s, position := length ?t\<rparr>"
  have "readSingleQuotedScalar st0 0 = Inr (True, ?st)"
    using single_quoted_reads [of st0 "[]" s "[0x0A, 0]" 0] start assms(2) by (simp add: at_text_def)
  then have "read_scalar_node 0 FLOW_OUT st0 = Inr (True, ?st)"
    using none by (simp add: read_scalar_node_def or_else_def and_also_def is_block_def set_anchor_def)
  with scalar_read_line [OF start none(2)] none(1)
  show "\<exists>st1. read_scalar_node 0 FLOW_OUT st0 = Inr (True, st1) \<and> scalar_read st0 s st1 \<and> untyped w s st1"
    by (auto simp: untyped_def)
qed

lemma double_quoted_flow:
  assumes "at_text ([0x22] @ e @ [0x22]) st" "escapeString s = Inr e" "plain_text s"
  shows "flow_reads w st s"
proof (rule flow_reads_scalar)
  let ?t = "[0x22] @ e @ [0x22]"
  show "starts_scalar st" using at_text_starts assms(1) by (simp add: scalar_start_def)
  fix st0
  assume "same_place st st0" and none: "tag st0 = None" "anchor st0 = None"
  with assms(1) have start: "at_text ?t st0" using same_place_text by blast
  let ?st = "st0\<lparr>kind := Some Scalar, result := Str s, position := length ?t\<rparr>"
  have "readDoubleQuotedScalar st0 0 = Inr (True, ?st)"
    using double_quoted_reads [OF assms(2), of st0 "[]" "[0x0A, 0]" 0] start assms(3)
    by (simp add: at_text_def plain_text_def)
  moreover have "readSingleQuotedScalar st0 0 = Inr (False, st0)"
    using start by (simp add: readSingleQuotedScalar_def at_text_def ch_at_def charCodeAt_def)
  ultimately have "read_scalar_node 0 FLOW_OUT st0 = Inr (True, ?st)"
    using none by (simp add: read_scalar_node_def or_else_def and_also_def is_block_def set_anchor_def)
  with scalar_read_line [OF start none(2)] none(1)
  show "\<exists>st1. read_scalar_node 0 FLOW_OUT st0 = Inr (True, st1) \<and> scalar_read st0 s st1 \<and> untyped w s st1"
    by (auto simp: untyped_def)
qed

section \<open>Plain scalars\<close>

text \<open>A text that a document marker starts is not read as a scalar.\<close>

definition marker_first :: "jsstring \<Rightarrow> bool" where
  "marker_first s \<longleftrightarrow> take 3 s = [0x2E, 0x2E, 0x2E] \<and> (length s = 3 \<or> s ! 3 = 0x20)"

lemma printable_range:
  "isPrintable c \<Longrightarrow>
     0x20 \<le> c \<and> c \<le> 0x7E \<or> 0xA1 \<le> c \<and> c \<le> 0xD7FF \<or> 0xE000 \<le> c \<and> c \<le> 0xFFFD \<or> 0x10000 \<le> c"
  unfolding isPrintable_def by argo

lemma printable_unit:
  assumes "isPrintable c"
  shows "c \<notin> {0, 0x09, 0x0A, 0x0D} \<and> \<not> non_printable_unit c \<and> \<not> high_surrogate c \<and> \<not> low_surrogate c"
  using printable_range [OF assms]
  by (elim disjE) (simp_all add: non_printable_unit_def high_surrogate_def low_surrogate_def)

lemma printable_text: "list_all isPrintable s \<Longrightarrow> \<not> non_printable prev s"
  by (induction s arbitrary: prev) (use printable_unit in auto)

lemma plain_safe_char: "isPlainSafe c \<Longrightarrow> c \<notin> {0, 0x09, 0x0A, 0x0D, 0x23, 0x3A}"
  using printable_unit [of c] by (auto simp: isPlainSafe_def)

lemma plain_safe_printable: "list_all isPlainSafe s \<Longrightarrow> \<not> non_printable prev s"
  by (rule printable_text) (auto simp: list_all_iff isPlainSafe_def)

text \<open>
  The loop has read the characters \<open>before\<close> of the text; the segment ends behind the last
  one that is no white space.
\<close>

definition plain_at :: "jsstring \<Rightarrow> jsstring \<Rightarrow> lstate \<Rightarrow> bool" where
  "plain_at before ahead st \<longleftrightarrow>
     input st = before @ ahead @ [0x0A, 0] \<and> position st = length before \<and> lineStart st = 0
   \<and> lineIndent st = 0"

definition past_text :: "jsstring \<Rightarrow> lstate \<Rightarrow> lstate" where
  "past_text t st = st\<lparr>position := length t + 1, line := line st + 1, lineStart := length t + 1, lineIndent := 0\<rparr>"

lemma plain_char_step:
  assumes "plain_at before (c # s) st" "isPlainSafe c" "before = [] \<Longrightarrow> \<not> testDocumentSeparator st"
  shows "plain_loop (Suc n) 0 False 0 ce None st =
    plain_loop n 0 False 0 (if c = 0x20 then ce else length (before @ [c])) None (advance 1 st)"
    and "plain_at (before @ [c]) s (advance 1 st)"
proof -
  have ch: "ch_at st = Some c" using assms(1) by (simp add: plain_at_def ch_at_def charCodeAt_def nth_append)
  with assms plain_safe_char [OF assms(2)] show "plain_loop (Suc n) 0 False 0 ce None st =
      plain_loop n 0 False 0 (if c = 0x20 then ce else length (before @ [c])) None (advance 1 st)"
    by (auto simp: plain_at_def plain_flush_def is_EOL_def is_WHITE_SPACE_def Let_def)
  show "plain_at (before @ [c]) s (advance 1 st)" using assms(1) by (simp add: plain_at_def advance_def)
qed

lemma plain_loop_end:
  assumes "plain_at t [] st" "t \<noteq> []"
  shows "plain_loop (Suc (Suc n)) 0 False 0 ce None st = Inr (0, ce, past_text t st)"
proof -
  have inp: "input st = t @ [0x0A, 0]" "position st = length t" using assms(1) by (simp_all add: plain_at_def)
  have ch: "ch_at st = Some 0x0A" using inp by (simp add: ch_at_def charCodeAt_def nth_append)
  have ch2: "ch_at (past_text t st) = Some 0"
    using inp by (simp add: past_text_def ch_at_def charCodeAt_def nth_append)
  have indent: "lineIndent (past_text t st) = 0" by (simp add: past_text_def)
  have "position st \<noteq> lineStart st" using assms by (simp add: plain_at_def)
  with ch ch2 indent line_end_skipped [OF inp, of False, folded past_text_def] show ?thesis
    by (simp add: is_EOL_def)
qed

lemma plain_loop_reads:
  assumes "plain_at before ahead st" "list_all isPlainSafe ahead" "before = [] \<longrightarrow> \<not> testDocumentSeparator st"
    and "if ahead = [] then ce = length before else last ahead \<noteq> 0x20" "before @ ahead \<noteq> []"
    and "length ahead + 2 \<le> n"
  shows "plain_loop n 0 False 0 ce None st = Inr (0, length (before @ ahead), past_text (before @ ahead) st)"
  using assms
proof (induction ahead arbitrary: before st ce n)
  case Nil
  then obtain m where "n = Suc (Suc m)" by (cases n; cases "n - 1") auto
  with Nil plain_loop_end [of before st m ce] show ?case by simp
next
  case (Cons c s)
  then obtain m where n: "n = Suc m" by (cases n) auto
  have c: "isPlainSafe c" using Cons.prems(2) by simp
  have sep: "before = [] \<Longrightarrow> \<not> testDocumentSeparator st" using Cons.prems(3) by simp
  note step = plain_char_step [OF Cons.prems(1) c sep]
  have "plain_loop m 0 False 0 (if c = 0x20 then ce else length (before @ [c])) None (advance 1 st)
      = Inr (0, length ((before @ [c]) @ s), past_text ((before @ [c]) @ s) (advance 1 st))"
    by (rule Cons.IH [OF step(2)]) (use Cons.prems n in \<open>auto split: if_splits\<close>)
  with step(1) n show ?case by (simp add: past_text_def advance_def)
qed

lemma marker_separator:
  assumes "plain_at [] t st" "t \<noteq> []" "hd t \<noteq> 0x2D" "list_all isPlainSafe t"
  shows "testDocumentSeparator st \<longleftrightarrow> marker_first t"
proof -
  have inp: "input st = t @ [0x0A, 0]" "position st = 0" using assms(1) by (simp_all add: plain_at_def)
  have safe: "\<forall>c \<in> set t. c \<noteq> 0 \<and> c \<noteq> 0x09 \<and> c \<noteq> 0x0A \<and> c \<noteq> 0x0D"
    using assms(4) plain_safe_char by (auto simp: list_all_iff)
  consider a where "t = [a]" | a b where "t = [a, b]" | a b c where "t = [a, b, c]"
    | a b c d u where "t = a # b # c # d # u"
    using assms(2) by (metis list.exhaust)
  then show ?thesis
    by cases (use inp safe assms(3) in \<open>auto simp: testDocumentSeparator_def ch_at_def ch_ahead_def
        charCodeAt_def marker_first_def is_WS_OR_EOL_def Let_def\<close>)
qed

lemma fit_for_plain_start:
  assumes "fit_for_plain s"
  shows "scalar_start (hd s)" "\<not> plain_excluded (Some (hd s))" "hd s \<noteq> 0x2D" "hd s \<noteq> 0x3F"
    "hd s \<noteq> 0xFEFF" "last s \<noteq> 0x20"
  using assms by (auto simp: fit_for_plain_def isPlainSafeFirst_def isPrintable_def scalar_start_def
      plain_excluded_def is_WS_OR_EOL_def is_FLOW_INDICATOR_def isWhitespace_def)

lemma readPlainScalar_reads:
  assumes "at_text s st" "fit_for_plain s" "\<not> marker_first s"
  shows "readPlainScalar st 0 False =
    Inr (True, past_text s (st\<lparr>kind := Some Scalar, result := Str s\<rparr>))"
proof -
  note start = fit_for_plain_start [OF assms(2)]
  have s: "s \<noteq> []" "list_all isPlainSafe s" using assms(2) by (simp_all add: fit_for_plain_def)
  let ?st = "st\<lparr>kind := Some Scalar, result := Str []\<rparr>"
  have at: "plain_at [] s ?st" using assms(1) by (simp add: plain_at_def at_text_def)
  have ch: "ch_at st = Some (hd s)"
    using assms(1) s(1) by (cases s) (simp_all add: at_text_def ch_at_def charCodeAt_def)
  have sep: "\<not> testDocumentSeparator ?st" using marker_separator [OF at s(1) start(3) s(2)] assms(3) by simp
  have "plain_loop (loop_fuel st) 0 False 0 0 None ?st = Inr (0, length s, past_text s ?st)"
    using plain_loop_reads [OF at s(2), of 0 "loop_fuel st"] sep s(1) start(6) assms(1)
    by (simp add: loop_fuel_def rest_def at_text_def del: plain_loop.simps)
  moreover have "captureSegment (past_text s ?st) 0 (length s) False =
      Inr (past_text s (st\<lparr>kind := Some Scalar, result := Str s\<rparr>))"
    using s assms(1) plain_safe_printable [OF s(2)]
    by (simp add: captureSegment_def past_text_def input_slice_def at_text_def append_result_def Let_def)
  ultimately show ?thesis
    using ch start(2,3,4) s(1) assms(1) by (simp add: readPlainScalar_def at_text_def past_text_def)
qed

lemma plain_flow:
  assumes "at_text s st" "fit_for_plain s" "\<not> marker_first s"
    and "\<And>h. first_resolved w h (Str s) (implicitTypes st) = Inr None"
  shows "flow_reads w st s"
proof (rule flow_reads_scalar)
  note first = fit_for_plain_start [OF assms(2)]
  have s: "s = hd s # tl s" using assms(2) by (simp add: fit_for_plain_def)
  show "starts_scalar st" using at_text_starts [of "hd s" "tl s" st] assms(1) s first(1) by simp
  fix st0
  assume place: "same_place st st0" and none: "tag st0 = None" "anchor st0 = None"
  with assms(1) have start: "at_text s st0" using same_place_text by blast
  have types: "implicitTypes st0 = implicitTypes st" using place by (simp add: same_place_def kept_def)
  let ?st = "past_text s (st0\<lparr>kind := Some Scalar, result := Str s\<rparr>)"
  have ch: "ch_at st0 = Some (hd s)" using start s by (metis at_text_def ch_at_def charCodeAt_def nth_append_left
    nth_Cons_0 append_Cons list.size(4) length_append less_Suc_eq_0_disj add_gr_0 zero_less_Suc)
  with first(2) have "readSingleQuotedScalar st0 0 = Inr (False, st0)"
    "readDoubleQuotedScalar st0 0 = Inr (False, st0)" "read_alias_node st0 = Inr (False, st0)"
    by (auto simp: readSingleQuotedScalar_def readDoubleQuotedScalar_def read_alias_node_def readAlias_def
        plain_excluded_def)
  then have "read_scalar_node 0 FLOW_OUT st0 = Inr (True, ?st\<lparr>tag := Some [0x3F]\<rparr>)"
    using none readPlainScalar_reads [OF start assms(2,3)]
    by (simp add: read_scalar_node_def or_else_def and_also_def is_block_def set_anchor_def
        read_plain_node_def past_text_def)
  moreover have "scalar_read st0 s (?st\<lparr>tag := Some [0x3F]\<rparr>)"
    using start none by (simp add: at_text_def scalar_read_def past_text_def kept_def ends_line_def
        ends_text_def ch_at_def charCodeAt_def nth_append)
  moreover have "untyped w s (?st\<lparr>tag := Some [0x3F]\<rparr>)"
    using assms(4) types by (simp add: untyped_def past_text_def)
  ultimately show "\<exists>st1. read_scalar_node 0 FLOW_OUT st0 = Inr (True, st1) \<and> scalar_read st0 s st1 \<and> untyped w s st1"
    by blast
qed

section \<open>The text of a string\<close>

lemma compat_words: "s \<in> set DEPRECATED_BOOLEANS_SYNTAX \<Longrightarrow> list_all isPrintable s \<and> double_quotes s = s"
  by (auto simp: DEPRECATED_BOOLEANS_SYNTAX_def isPrintable_def jstr_def)

lemma compat_ordinary: "s \<in> set DEPRECATED_BOOLEANS_SYNTAX \<Longrightarrow> list_all ordinary s"
  using compat_words printable_ordinary by (auto simp: list_all_iff)

text \<open>The text is the string itself, or the string in single or double quotes, or a block.\<close>

definition written_plain :: "host \<Rightarrow> heap \<Rightarrow> dstate \<Rightarrow> jsstring \<Rightarrow> jsstring \<Rightarrow> bool" where
  "written_plain w h st s t \<longleftrightarrow> t = s \<and> fit_for_plain s \<and> testImplicitResolving w h st s = Inr False"

definition written_single :: "jsstring \<Rightarrow> jsstring \<Rightarrow> bool" where
  "written_single s t \<longleftrightarrow> t = [0x27] @ double_quotes s @ [0x27] \<and> list_all ordinary s"

definition written_double :: "jsstring \<Rightarrow> jsstring \<Rightarrow> bool" where
  "written_double s t \<longleftrightarrow> (\<exists>e. t = [0x22] @ e @ [0x22] \<and> escapeString s = Inr e)"

definition block_text :: "jsstring \<Rightarrow> bool" where
  "block_text t \<longleftrightarrow> at_char t 0 = Some CHAR_VERTICAL_LINE \<or> at_char t 0 = Some CHAR_GREATER_THAN"

lemma block_text_start [simp]: "block_text (c # t) \<longleftrightarrow> c = 0x7C \<or> c = 0x3E" "\<not> block_text []"
  by (auto simp: block_text_def JsPrelude.at_def)

text \<open>The text for each style.\<close>

definition style_text :: "dstate \<Rightarrow> jsstring \<Rightarrow> nat \<Rightarrow> style \<Rightarrow> jsstring yres" where
  "style_text st string level style =
     (let indent = d_indent st * max 1 (int level) in
      case style of
        STYLE_PLAIN \<Rightarrow> Inr string
      | STYLE_SINGLE \<Rightarrow> Inr ([CHAR_SINGLE_QUOTE] @ double_quotes string @ [CHAR_SINGLE_QUOTE])
      | STYLE_LITERAL \<Rightarrow>
          Inr ([CHAR_VERTICAL_LINE] @ blockHeader string (d_indent st)
               @ dropEndingNewline (indentString string indent))
      | STYLE_FOLDED \<Rightarrow>
          Inr ([CHAR_GREATER_THAN] @ blockHeader string (d_indent st)
               @ dropEndingNewline (indentString (foldString string (scalar_width st indent)) indent))
      | STYLE_DOUBLE \<Rightarrow>
          bind_res (escapeString string) (\<lambda>s. Inr ([CHAR_DOUBLE_QUOTE] @ s @ [CHAR_DOUBLE_QUOTE])))"

definition single_line :: "dstate \<Rightarrow> nat \<Rightarrow> bool \<Rightarrow> bool" where
  "single_line st level iskey \<longleftrightarrow> iskey \<or> d_flowLevel st > - 1 \<and> int level \<ge> d_flowLevel st"

lemma scalar_text_styled:
  "scalar_text w h st s level iskey =
     (if s = [] \<or> \<not> d_noCompatMode st \<and> s \<in> set DEPRECATED_BOOLEANS_SYNTAX
      then Inr ([0x27] @ s @ [0x27])
      else bind_res (chooseScalarStyle s (single_line st level iskey) (d_indent st)
             (scalar_width st (d_indent st * max 1 (int level))) (testImplicitResolving w h st))
           (style_text st s level))"
  by (simp add: scalar_text_def single_line_def style_text_def [abs_def] Let_def)

lemma style_text_written:
  assumes "style_promise s single ind width amb sty" "style_text st s level sty = Inr t"
    and "amb = testImplicitResolving w h st"
  shows "if sty = STYLE_LITERAL \<or> sty = STYLE_FOLDED then block_text t \<and> \<not> single
    else written_plain w h st s t \<and> \<not> block_text t \<or> written_single s t \<or> written_double s t"
proof (cases sty)
  case STYLE_PLAIN
  then have "written_plain w h st s t" using assms by (simp add: style_promise_def style_text_def written_plain_def)
  moreover have "\<not> block_text t"
    using assms STYLE_PLAIN by (cases s) (auto simp: style_promise_def style_text_def fit_for_plain_def isPlainSafeFirst_def)
  ultimately show ?thesis using STYLE_PLAIN by simp
next
  case STYLE_SINGLE
  then have "t = [0x27] @ double_quotes s @ [0x27]" "list_all isPrintable s"
    using assms by (simp_all add: style_promise_def style_text_def)
  then have "written_single s t" using printable_ordinary by (auto simp: written_single_def list_all_iff)
  then show ?thesis using STYLE_SINGLE by simp
next
  case STYLE_DOUBLE
  then have "written_double s t"
    using assms by (auto simp: style_text_def written_double_def bind_res_Inr_iff)
  then show ?thesis using STYLE_DOUBLE by simp
qed (use assms in \<open>auto simp: style_promise_def style_text_def Let_def\<close>)

lemma string_written:
  assumes "scalar_text w h st s level iskey = Inr t"
  shows "block_text t \<and> \<not> single_line st level iskey
    \<or> written_plain w h st s t \<and> \<not> block_text t \<or> written_single s t \<or> written_double s t"
proof (cases "s = [] \<or> \<not> d_noCompatMode st \<and> s \<in> set DEPRECATED_BOOLEANS_SYNTAX")
  case True
  with assms have "t = [0x27] @ s @ [0x27]" by (simp add: scalar_text_styled)
  moreover have "double_quotes s = s" "list_all ordinary s"
    using True compat_words compat_ordinary by auto
  ultimately have "written_single s t" by (simp add: written_single_def)
  then show ?thesis by blast
next
  case False
  let ?width = "scalar_width st (d_indent st * max 1 (int level))"
  from False assms obtain sty where
    sty: "chooseScalarStyle s (single_line st level iskey) (d_indent st) ?width (testImplicitResolving w h st) = Inr sty"
      "style_text st s level sty = Inr t"
    unfolding scalar_text_styled by (auto simp: bind_res_Inr_iff)
  from style_text_written [OF style_promised [OF sty(1)] sty(2) refl] show ?thesis
    by (auto split: if_splits)
qed

section \<open>Dumping a string\<close>

definition library_schema :: "schema \<Rightarrow> bool" where
  "library_schema sch \<longleftrightarrow> sch = default_full_schema \<or> sch = default_safe_schema"

lemma library_implicit:
  "library_schema sch \<Longrightarrow>
     compiledImplicit sch = [null_type, bool_type, int_type, float_type, timestamp_type, merge_type]"
  by (auto simp: library_schema_def compiled_implicit_full compiled_implicit_safe)

lemma string_undetected:
  assumes "library_schema sch" "t \<in> set (compiledImplicit sch) \<union> set (compiledExplicit sch)"
  shows "\<not> type_matches h t (Str s)"
proof -
  have "t \<in> {null_type, bool_type, int_type, float_type, timestamp_type, merge_type, str_type, seq_type,
      map_type, binary_type, omap_type, pairs_type, set_type, undefined_type, regexp_type, function_type}"
    using assms by (auto simp: library_schema_def compiled_implicit_full compiled_explicit_full
        compiled_implicit_safe compiled_explicit_safe)
  then show ?thesis
    by (elim insertE emptyE)
      (simp_all add: type_matches_def isNull_def isBoolean_def isInteger_def isFloat_def is_date_def isBinary_def
        isUndefined_def isRegExp_def is_func_def cell_of_def)
qed

lemma nothing_detected:
  "\<forall>t \<in> set ts. \<not> type_matches h t v \<Longrightarrow> detect_in w h st v explicit ts = Inr (False, st)"
  by (induction ts) auto

lemma dump_string:
  assumes "library_schema (dumped_schema options)" "new_dumper options = Inr st"
  shows "dump w h (Str s) options = bind_res (scalar_text w h st s 0 False) (\<lambda>t. Inr (t @ LF))"
proof -
  have made: "made_for options st" using new_dumper_made [of options] assms(2) by simp
  have types: "d_implicitTypes st = compiledImplicit (dumped_schema options)"
    "d_explicitTypes st = compiledExplicit (dumped_schema options)" "d_duplicates st = []"
    using made by (simp_all add: made_for_def)
  let ?st = "if d_noRefs st then st else st\<lparr>d_duplicates := [], d_usedDuplicates := []\<rparr>"
  have "inspectNode (depth_bound h) h (Str s) ([], []) = Inr ([], [])"
    by (simp add: depth_bound_def isObject_def cell_of_def)
  then have search: "(if d_noRefs st then Inr st else getDuplicateReferences h (Str s) st) = Inr ?st"
    using types(3) by (simp add: getDuplicateReferences_def)
  let ?node = "?st\<lparr>d_tag := None, d_dump := Str s\<rparr>"
  have "detectType w h ?node (Str s) e = Inr (False, ?node)" for e
    unfolding detectType_def
    by (rule nothing_detected) (use types string_undetected [OF assms(1)] in auto)
  moreover have "\<not> is_collection h (Str s)" by (simp add: is_collection_def cell_of_def)
  moreover obtain k where "depth_bound h = Suc k" by (simp add: depth_bound_def)
  moreover have "scalar_text w h ?node s 0 False = scalar_text w h st s 0 False"
    by (simp add: scalar_text_def scalar_width_def testImplicitResolving_def [abs_def] Let_def)
  ultimately have "writeNode (depth_bound h) w h ?st 0 (Str s) True True False =
      bind_res (scalar_text w h st s 0 False) (\<lambda>t. Inr (True, ?node\<lparr>d_dump := Str t\<rparr>))"
    by (simp add: node_body_def write_value_def writeScalar_def tagged_def bind_res_assoc)
  with search assms(2) show ?thesis by (simp add: dump_def dumped_def bind_res_assoc)
qed

section \<open>The round trip\<close>

text \<open>The library types resolve a text in the same way everywhere.\<close>

lemma library_resolves_same:
  "t \<in> {null_type, bool_type, int_type, float_type, timestamp_type, merge_type} \<Longrightarrow>
     ty_resolve t w h (Str s) = ty_resolve t w' h' (Str s)"
  by (elim insertE emptyE)
    (simp_all add: type_defs type_object_def option_defs resolveYamlNull_def resolveYamlBoolean_def
      resolveYamlInteger_def resolveYamlFloat_def resolveYamlTimestamp_def resolveYamlMerge_def length_of_def)

lemma unresolved:
  assumes "any_resolves w h ts s = Inr False"
    and "\<forall>t \<in> set ts. ty_resolve t w h (Str s) = ty_resolve t w' h' (Str s)"
  shows "first_resolved w' h' (Str s) ts = Inr None"
  using assms
proof (induction ts)
  case (Cons t ts)
  from Cons.prems(1) have "ty_resolve t w h (Str s) = Inr False" "any_resolves w h ts s = Inr False"
    by (auto simp: bind_res_Inr_iff split: if_splits)
  with Cons.IH Cons.prems(2) have "ty_resolve t w' h' (Str s) = Inr False" "first_resolved w' h' (Str s) ts = Inr None"
    by simp_all
  then show ?case by simp
qed simp

lemma dumped_string_loaded:
  assumes schemas: "library_schema (dumped_schema options)" "library_schema (chosen_schema loptions)"
    and dumped: "dump w h (Str s) options = Inr t" "plain_text s" "\<not> block_text t" "\<not> marker_first s"
  shows "\<exists>h'. load w' h2 (Str t) loptions = Inr (h', Str s)"
proof -
  from dumped(1) obtain st where st: "new_dumper options = Inr st"
    by (auto simp: dump_def bind_res_Inr_iff)
  have types: "d_implicitTypes st = compiledImplicit (chosen_schema loptions)"
    using new_dumper_made [of options] st library_implicit [OF schemas(1)] library_implicit [OF schemas(2)]
    by (simp add: made_for_def)
  from dumped(1) dump_string [OF schemas(1) st] obtain u where
    u: "scalar_text w h st s 0 False = Inr u" "t = u @ LF" by (auto simp: bind_res_Inr_iff)
  have "\<not> block_text u" using dumped(3) u(2) by (cases u) simp_all
  with string_written [OF u(1)] have "written_plain w h st s u \<or> written_single s u \<or> written_double s u" by blast
  then show ?thesis unfolding u(2)
  proof (elim disjE)
    assume "written_plain w h st s u"
    then have s: "u = s" "fit_for_plain s" "any_resolves w h (compiledImplicit (chosen_schema loptions)) s = Inr False"
      using types by (simp_all add: written_plain_def testImplicitResolving_def)
    note start = fit_for_plain_start [OF s(2)]
    have "u = hd s # tl s" using s(1,2) by (simp add: fit_for_plain_def)
    moreover have "first_resolved w' h' (Str s) (compiledImplicit (chosen_schema loptions)) = Inr None" for h'
      using s(3) unfolding library_implicit [OF schemas(2)]
      by (rule unresolved) (intro ballI library_resolves_same, simp)
    ultimately show "\<exists>h'. load w' h2 (Str (u @ LF)) loptions = Inr (h', Str s)"
      using start(1,5) plain_flow [OF _ s(2) dumped(4)] s(1)
      by (intro load_line [of u "hd s" "tl s"]) (simp_all add: at_text_def)
  next
    assume "written_single s u"
    then have "u = [0x27] @ double_quotes s @ [0x27]" "list_all ordinary s" by (simp_all add: written_single_def)
    then show "\<exists>h'. load w' h2 (Str (u @ LF)) loptions = Inr (h', Str s)"
      using single_quoted_flow
      by (intro load_line [of u "0x27" "double_quotes s @ [0x27]"]) (simp_all add: at_text_def scalar_start_def)
  next
    assume "written_double s u"
    then obtain e where "u = [0x22] @ e @ [0x22]" "escapeString s = Inr e" by (auto simp: written_double_def)
    then show "\<exists>h'. load w' h2 (Str (u @ LF)) loptions = Inr (h', Str s)"
      using double_quoted_flow dumped(2)
      by (intro load_line [of u "0x22" "e @ [0x22]"]) (simp_all add: at_text_def scalar_start_def)
  qed
qed

end
