(* ===== verification/YamlLiterals.thy ===== *)
theory YamlLiterals
  imports YamlRoundTrip
begin

text \<open>
  The literal style from \<open>dump\<close> to \<open>load\<close>: what \<open>indentString\<close> and
  \<open>blockHeader\<close> write is read back by \<open>readBlockScalar\<close>, if the first line that is not
  empty starts with no space; and the round trip of all strings that are not folded.
\<close>

section \<open>The lines of a block\<close>

definition lines_text :: "jsstring list \<Rightarrow> jsstring" where
  "lines_text ls = concat (map (\<lambda>l. l @ [0x0A]) ls)"

definition block_body :: "nat \<Rightarrow> jsstring list \<Rightarrow> jsstring" where
  "block_body n ls = concat (map (\<lambda>l. (if l = [] then [] else replicate n 0x20 @ l) @ [0x0A]) ls)"

lemma lines_simps [simp]:
  "lines_text [] = []" "lines_text (l # ls) = l @ 0x0A # lines_text ls"
  "lines_text (ls @ ks) = lines_text ls @ lines_text ks"
  "block_body n [] = []"
  "block_body n (l # ls) = (if l = [] then [] else replicate n 0x20 @ l) @ 0x0A # block_body n ls"
  "block_body n (ls @ ks) = block_body n ls @ block_body n ks"
  by (simp_all add: lines_text_def block_body_def)

definition unbroken :: "jsstring list \<Rightarrow> bool" where
  "unbroken ls \<longleftrightarrow> list_all (\<lambda>l. 0x0A \<notin> set l) ls"

lemma lines_exist:
  "\<exists>ls l. s = lines_text ls @ l \<and> unbroken ls \<and> 0x0A \<notin> set l"
proof (induction s)
  case Nil
  show ?case by (rule exI [of _ "[]"]) (simp add: unbroken_def)
next
  case (Cons c s)
  then obtain ls l where s: "s = lines_text ls @ l" "unbroken ls" "0x0A \<notin> set l" by blast
  show ?case
  proof (cases "c = 0x0A")
    case True
    with s have "c # s = lines_text ([] # ls) @ l" "unbroken ([] # ls)" by (simp_all add: unbroken_def)
    with s(3) show ?thesis by blast
  next
    case c: False
    show ?thesis
    proof (cases ls)
      case Nil
      with s c have "c # s = lines_text [] @ (c # l)" "0x0A \<notin> set (c # l)" by simp_all
      with s(2) Nil show ?thesis by blast
    next
      case (Cons k ks)
      with s c have "c # s = lines_text ((c # k) # ks) @ l" "unbroken ((c # k) # ks)"
        by (simp_all add: unbroken_def)
      with s(3) show ?thesis by blast
    qed
  qed
qed

lemma take_line: "0x0A \<notin> set l \<Longrightarrow> takeWhile (\<lambda>c. c \<noteq> 0x0A) (l @ 0x0A # r) = l"
  "0x0A \<notin> set l \<Longrightarrow> takeWhile (\<lambda>c. c \<noteq> 0x0A) l = (l :: jsstring)"
  by (induction l) auto

lemma indentString_lines:
  assumes "unbroken ls" "0x0A \<notin> set l"
  shows "indentString (lines_text ls @ l) (int n) =
    block_body n ls @ (if l = [] then [] else replicate n 0x20 @ l)"
  using assms(1)
proof (induction ls)
  case Nil
  have "l \<noteq> [0x0A]" using assms(2) by auto
  then show ?case
    by (cases "l = []") (simp_all add: indentString.simps [of l] indentString.simps [of "[]"] repeat_char Let_def
        take_line(2) [OF assms(2)])
next
  case (Cons k ks)
  then have "0x0A \<notin> set k" by (simp add: unbroken_def)
  from take_line(1) [OF this] Cons show ?case
    by (simp add: indentString.simps [of "k @ 0x0A # r" for r] repeat_char Let_def unbroken_def)
qed

lemma lines_text_Nil [simp]: "lines_text ls = [] \<longleftrightarrow> ls = []"
  by (cases ls) simp_all

lemma last_lines: "ls \<noteq> [] \<Longrightarrow> last (lines_text ls) = 0x0A"
  by (induction ls) auto

section \<open>Chomping\<close>

definition chomped :: "chomping \<Rightarrow> jsstring \<Rightarrow> jsstring" where
  "chomped mode s = (if mode = STRIP then butlast s else s)"

definition mode_of :: "jsstring \<Rightarrow> chomping" where
  "mode_of s =
     (if last s \<noteq> 0x0A then STRIP else if s = [0x0A] \<or> last (butlast s) = 0x0A then KEEP else CLIP)"

definition mode_text :: "chomping \<Rightarrow> jsstring" where
  "mode_text m = (case m of KEEP \<Rightarrow> [0x2B] | STRIP \<Rightarrow> [0x2D] | CLIP \<Rightarrow> [])"

lemma blockHeader_mode:
  assumes "s \<noteq> []"
  shows "blockHeader s n = (if hd s = 0x20 then decimal_str n else []) @ mode_text (mode_of s) @ [0x0A]"
proof -
  have hd: "at_char s 0 = Some 0x20 \<longleftrightarrow> hd s = 0x20" using assms by (simp add: JsPrelude.at_def hd_conv_nth)
  have clip: "at_char s (int (length s) - 1) = Some (last s)"
    using assms(1) by (simp add: JsPrelude.at_def last_conv_nth nat_diff_distrib')
  have keep: "at_char s (int (length s) - 2) = Some (last (butlast s))" if "butlast s \<noteq> []"
  proof -
    from that have "2 \<le> length s" by (cases s; cases "tl s") auto
    with that show ?thesis
      by (simp add: JsPrelude.at_def last_conv_nth nat_diff_distrib' nth_butlast numeral_2_eq_2)
  qed
  have one: "s = [last s]" "at_char s (int (length s) - 2) = None" if "butlast s = []"
    using that assms(1) by (cases s; auto simp: JsPrelude.at_def split: if_splits)+
  show ?thesis
  proof (cases "butlast s = []")
    case True
    with one hd clip show ?thesis
      by (auto simp: blockHeader_def mode_of_def mode_text_def jstr_def Let_def)
  next
    case False
    then have "s \<noteq> [0x0A]" by auto
    with keep [OF False] hd clip show ?thesis
      by (auto simp: blockHeader_def mode_of_def mode_text_def jstr_def Let_def)
  qed
qed

text \<open>
  The text behind the header with its line feed, and what the chomping makes of the lines.
\<close>

lemma block_written:
  assumes "s \<noteq> []"
  shows "\<exists>ls. dropEndingNewline (indentString s (int n)) @ LF = block_body n ls \<and> unbroken ls
    \<and> s = chomped (mode_of s) (lines_text ls) \<and> ls \<noteq> [] \<and> (mode_of s = KEEP \<or> last ls \<noteq> [])"
proof -
  obtain ls l where s: "s = lines_text ls @ l" "unbroken ls" "0x0A \<notin> set l" using lines_exist by blast
  note body = indentString_lines [OF s(2,3), of n, folded s(1)]
  show ?thesis
  proof (cases "l = []")
    case True
    with s assms have ls: "ls \<noteq> []" "last s = 0x0A" by (auto simp: last_lines)
    then obtain ks k where ks: "ls = ks @ [k]" by (cases ls rule: rev_cases) auto
    have "dropEndingNewline (indentString s (int n)) @ LF = block_body n ls"
      using body True ks by (auto simp: dropEndingNewline_def JsPrelude.at_def nth_append butlast_append)
    moreover have "mode_of s \<noteq> STRIP" using ls(2) by (simp add: mode_of_def)
    moreover have "mode_of s = KEEP \<or> k \<noteq> []"
    proof (cases "k = []")
      case True
      then have "s = lines_text ks @ [0x0A]" using s(1) \<open>l = []\<close> ks by simp
      then show ?thesis by (cases "ks = []") (simp_all add: mode_of_def last_lines)
    qed simp
    ultimately show ?thesis using s True ks ls(1) by (intro exI [of _ ls]) (auto simp: chomped_def)
  next
    case False
    then have last: "last s = last l" "last l \<noteq> 0x0A" using s last_in_set by (simp, metis)
    have "dropEndingNewline (indentString s (int n)) @ LF = block_body n (ls @ [l])"
    proof -
      have "indentString s (int n) \<noteq> []" "last (indentString s (int n)) \<noteq> 0x0A" using body False last(2) by simp_all
      then have "dropEndingNewline (indentString s (int n)) = indentString s (int n)"
        by (simp add: dropEndingNewline_def JsPrelude.at_def last_conv_nth nat_diff_distrib')
      with body False show ?thesis by simp
    qed
    moreover have "mode_of s = STRIP" using last by (simp add: mode_of_def)
    ultimately show ?thesis using s False
      by (intro exI [of _ "ls @ [l]"]) (simp add: chomped_def butlast_append unbroken_def)
  qed
qed

section \<open>Reading the lines\<close>

text \<open>The state after the scalar, at the terminator.\<close>

definition ends_block :: "lstate \<Rightarrow> lstate \<Rightarrow> jsstring \<Rightarrow> bool" where
  "ends_block st st' s \<longleftrightarrow>
     kept st' = kept st \<and> result st' = Str s \<and> tag st' = tag st \<and> anchor st' = anchor st
   \<and> ch_at st' = Some 0 \<and> Suc (position st') = length (input st') \<and> lineStart st' = position st'
   \<and> line st < line st'"

lemma ends_block_trans:
  "ends_block st1 st' s \<Longrightarrow> kept st1 = kept st \<Longrightarrow> tag st1 = tag st \<Longrightarrow> anchor st1 = anchor st \<Longrightarrow>
     line st \<le> line st1 \<Longrightarrow> ends_block st st' s"
  by (simp add: ends_block_def)

text \<open>The first line that is not empty starts with no space.\<close>

definition flush :: "jsstring list \<Rightarrow> bool" where
  "flush ls \<longleftrightarrow> (case dropWhile (\<lambda>l. l = []) ls of [] \<Rightarrow> True | l # _ \<Rightarrow> hd l \<noteq> 0x20)"

lemma flush_simps [simp]:
  "flush []" "flush (l # ls) = (if l = [] then flush ls else hd l \<noteq> 0x20)"
  by (simp_all add: flush_def)

lemma chomped_append [simp]: "s \<noteq> [] \<Longrightarrow> chomped mode (t @ s) = t @ chomped mode s"
  by (simp add: chomped_def butlast_append)

text \<open>A line break with the spaces after it.\<close>

definition next_line :: "nat \<Rightarrow> lstate \<Rightarrow> lstate" where
  "next_line indent st = st\<lparr>position := position st + 1 + indent, line := line st + 1,
     lineStart := position st + 1, lineIndent := int indent\<rparr>"

lemma block_line:
  assumes "ch_at st = Some 0x0A"
    and "indent = (if det then min (length (takeWhile (\<lambda>c. c = 0x20) s)) (nat ti)
                   else length (takeWhile (\<lambda>c. c = 0x20) s))"
    and "drop (Suc (position st)) (input st) = s"
  defines "st2 \<equiv> next_line indent st"
  defines "ti2 \<equiv> (if \<not> det \<and> int indent > ti then int indent else ti)"
  shows "block_lines (Suc m) False mode did det ti e deep st =
    (if is_EOL (ch_at st2) then block_lines m False mode did det ti2 (e + 1) deep st2
     else if int indent < ti2 then Inr (append_result (block_end mode did e) st2)
     else
       let st3 = append_result (repeat [0x0A] (if did then 1 + int e else int e)) st2
       in bind_res (skip_until (\<lambda>c. is_EOL (Some c) \<or> c = 0) st3) (\<lambda>st4.
          bind_res (captureSegment st4 (position st3) (position st4) False) (\<lambda>st5.
            block_lines m False mode True True ti2 0 deep st5)))"
proof -
  define st1 where "st1 = (advance 1 st)\<lparr>line := line st + 1, lineStart := position st + 1\<rparr>"
  have step: "readLineBreak st = Inr st1" "rest st1 = s"
    "advance i (st1\<lparr>lineIndent := int i\<rparr>) = next_line i st" for i
    using assms(1,3) by (simp_all add: readLineBreak_def advance_def rest_def next_line_def st1_def)
  have "ch_at st \<noteq> Some 0" using assms(1) by simp
  then show ?thesis
    unfolding block_lines.simps(2) step(1) bind_res_simps Let_def step(2) assms(2) [symmetric] step(3)
      st2_def [symmetric] ti2_def [symmetric]
    by (simp add: block_breaks_def Let_def)
qed

text \<open>At a line break, with the lines \<open>ls\<close> and the terminator ahead.\<close>

definition at_break :: "nat \<Rightarrow> jsstring list \<Rightarrow> jsstring \<Rightarrow> lstate \<Rightarrow> bool" where
  "at_break n ls acc st \<longleftrightarrow>
     drop (position st) (input st) = 0x0A # block_body n ls @ [0] \<and> result st = Str acc"

lemma at_break_drop:
  assumes "at_break n ls acc st"
  shows "ch_at st = Some 0x0A" "drop (Suc (position st)) (input st) = block_body n ls @ [0]"
    "position st < length (input st)"
proof -
  from assms have drop: "drop (position st) (input st) = 0x0A # block_body n ls @ [0]" by (simp add: at_break_def)
  then show len: "position st < length (input st)" by (metis drop_eq_Nil2 list.simps(3) not_le)
  with drop show "ch_at st = Some 0x0A"
    by (simp add: ch_at_def charCodeAt_def Cons_nth_drop_Suc [symmetric])
  from drop len show "drop (Suc (position st)) (input st) = block_body n ls @ [0]"
    by (simp add: Cons_nth_drop_Suc [symmetric])
qed

lemma drop_ch: "drop p s = c # t \<Longrightarrow> charCodeAt s p = Some c"
proof -
  assume drop: "drop p s = c # t"
  then have "p < length s" by (metis drop_eq_Nil2 list.simps(3) not_le)
  with drop show ?thesis by (simp add: charCodeAt_def Cons_nth_drop_Suc [symmetric])
qed

lemma next_line_ch: "drop (Suc (position st)) (input st) = s \<Longrightarrow> i < length s \<Longrightarrow> ch_at (next_line i st) = Some (s ! i)"
proof -
  assume s: "drop (Suc (position st)) (input st) = s" and i: "i < length s"
  have "drop (position st + 1 + i) (input st) = drop i s"
    unfolding s [symmetric] by (simp add: add.commute add.left_commute)
  with i have "drop (position st + 1 + i) (input st) = s ! i # drop (Suc i) s" by (simp add: Cons_nth_drop_Suc)
  then show ?thesis by (simp add: ch_at_def next_line_def drop_ch)
qed

lemma breaks_count: "repeat [0x0A] (1 + int e) = 0x0A # replicate e 0x0A"
proof -
  have "nat (1 + int e) = Suc e" by arith
  then show ?thesis by (simp add: repeat_char)
qed

lemma block_end_read:
  assumes "mode = KEEP \<or> e = 0"
  shows "block_end mode True e = chomped mode (0x0A # replicate e 0x0A)"
  using assms breaks_count [of e] breaks_count [of 0]
  by (cases mode) (auto simp: block_end_def chomped_def simp del: repeat_def)

text \<open>The end of the lines.\<close>

lemma block_lines_end:
  assumes "at_break n [] acc st" "1 \<le> n" "if did then ti = int n else ti = 0"
    and "mode = KEEP \<or> did \<and> e = 0"
  shows "\<exists>st'. block_lines (Suc (Suc m)) False mode did did ti e False st = Inr st'
    \<and> ends_block st st' (acc @ chomped mode (replicate (if did then Suc e else e) 0x0A))"
proof -
  note br = at_break_drop [OF assms(1)]
  have drop: "drop (Suc (position st)) (input st) = [0]" using br(2) by simp
  then have "length (drop (Suc (position st)) (input st)) = 1" by simp
  then have len: "length (input st) = position st + 2" by simp
  have "0 = (if did then min (length (takeWhile (\<lambda>c. c = 0x20) [0 :: int])) (nat ti)
      else length (takeWhile (\<lambda>c. c = 0x20) [0 :: int]))" by simp
  note line = block_line [OF br(1) this drop, of "Suc m" mode did e False]
  have ch: "ch_at (next_line 0 st) = Some 0" using next_line_ch [OF drop, of 0] by simp
  have acc: "result (next_line i st) = Str acc" for i using assms(1) by (simp add: at_break_def next_line_def)
  have ends: "ends_block st (next_line 0 st\<lparr>result := Str s\<rparr>) s" for s
    using ch len by (simp add: ends_block_def next_line_def kept_def ch_at_def)
  show ?thesis
  proof (cases did)
    case True
    have "append_result (block_end mode True e) (next_line 0 st) =
        next_line 0 st\<lparr>result := Str (acc @ chomped mode (replicate (Suc e) 0x0A))\<rparr>"
      using acc [of 0] assms(4) True block_end_read [of mode e] by (simp add: append_result_def)
    moreover have "block_lines (Suc (Suc m)) False mode did did ti e False st =
        Inr (append_result (block_end mode True e) (next_line 0 st))"
      using line True assms(2,3) ch by (simp add: is_EOL_def del: block_lines.simps)
    ultimately show ?thesis using ends True by auto
  next
    case False
    let ?st3 = "append_result (repeat [0x0A] (int e)) (next_line 0 st)"
    have st3: "?st3 = next_line 0 st\<lparr>result := Str (acc @ replicate e 0x0A)\<rparr>"
      using acc [of 0] by (simp add: append_result_def repeat_char)
    have ch3: "ch_at ?st3 = Some 0" using ch unfolding st3 by (simp add: ch_at_def)
    have "rest ?st3 = [0]" using drop unfolding st3 by (simp add: rest_def next_line_def)
    then have "skip_until (\<lambda>c. is_EOL (Some c) \<or> c = 0) ?st3 = Inr ?st3"
      using len unfolding st3 by (simp add: skip_until_def next_line_def advance_def)
    then have "block_lines (Suc (Suc m)) False mode did did ti e False st = block_lines (Suc m) False mode True True 0 0 False ?st3"
      using line False assms(3) ch by (simp add: is_EOL_def captureSegment_def Let_def del: block_lines.simps)
    also have "\<dots> = Inr ?st3" using ch3 by simp
    finally show ?thesis using False assms(4) ends unfolding st3 by (simp add: chomped_def del: block_lines.simps)
  qed
qed

lemma takeWhile_replicate_spaces:
  "takeWhile (\<lambda>c. c = 0x20) (replicate n 0x20 @ s) = replicate n 0x20 @ takeWhile (\<lambda>c. c = 0x20) (s :: jsstring)"
  by (induction n) simp_all

text \<open>A line that is not empty.\<close>

lemma block_lines_content:
  assumes at: "at_break n (l # ls) acc st" and l: "l \<noteq> []" "list_all isPrintable l"
    and ti: "if det then ti = int n else ti = 0 \<and> hd l \<noteq> 0x20" "1 \<le> n"
  shows "\<exists>st5. block_lines (Suc m) False mode did det ti e False st = block_lines m False mode True True (int n) 0 False st5
    \<and> at_break n ls (acc @ replicate (if did then Suc e else e) 0x0A @ l) st5
    \<and> kept st5 = kept st \<and> tag st5 = tag st \<and> anchor st5 = anchor st \<and> line st \<le> line st5"
proof -
  let ?s = "replicate n 0x20 @ l @ 0x0A # block_body n ls @ [0]"
  note br = at_break_drop [OF at]
  have drop: "drop (Suc (position st)) (input st) = ?s" using br(2) l by simp
  note spaces = takeWhile_replicate_spaces [of n "l @ 0x0A # block_body n ls @ [0]"]
  have "hd l \<noteq> 0x20 \<Longrightarrow> takeWhile (\<lambda>c. c = 0x20) (l @ 0x0A # block_body n ls @ [0]) = []"
    using l(1) by (cases l) simp_all
  with spaces ti have indent: "n = (if det then min (length (takeWhile (\<lambda>c. c = 0x20) ?s)) (nat ti)
      else length (takeWhile (\<lambda>c. c = 0x20) ?s))" by simp
  note line = block_line [OF br(1) this drop, of m mode did e False]
  have ch: "ch_at (next_line n st) = Some (hd l)"
    using next_line_ch [OF drop, of n] l(1) by (simp add: nth_append hd_conv_nth)
  moreover have "isPrintable (hd l)" using l by (cases l) simp_all
  ultimately have eol: "\<not> is_EOL (ch_at (next_line n st))" using printable_unit [of "hd l"] by (auto simp: is_EOL_def)
  define acc2 where "acc2 = acc @ replicate (if did then Suc e else e) 0x0A"
  define st3 where "st3 = append_result (repeat [0x0A] (if did then 1 + int e else int e)) (next_line n st)"
  have st3: "st3 = next_line n st\<lparr>result := Str acc2\<rparr>"
    using at breaks_count [of e]
    by (simp add: st3_def append_result_def at_break_def next_line_def repeat_char acc2_def)
  have rest3: "drop (position st3) (input st3) = l @ 0x0A # block_body n ls @ [0]"
  proof -
    have "drop (position st3) (input st3) = drop n ?s"
      unfolding st3 drop [symmetric] by (simp add: next_line_def add.commute add.left_commute)
    then show ?thesis by simp
  qed
  let ?st4 = "advance (length l) st3"
  have clean: "list_all (\<lambda>c. \<not> is_EOL (Some c) \<and> c \<noteq> 0) l"
    using l(2) printable_unit by (auto simp: list_all_iff is_EOL_def)
  then have take: "takeWhile (\<lambda>c. \<not> (is_EOL (Some c) \<or> c = 0)) (l @ 0x0A # block_body n ls @ [0]) = l"
    by (induction l) (auto simp: is_EOL_def)
  have "length (input st3) - position st3 = length l + 1 + length (block_body n ls) + 1"
    using arg_cong [OF rest3, of length] by simp
  then have "position st3 + length l < length (input st3)" by arith
  with take rest3 have skip: "skip_until (\<lambda>c. is_EOL (Some c) \<or> c = 0) st3 = Inr ?st4"
    by (simp add: skip_until_def rest_def)
  let ?st5 = "?st4\<lparr>result := Str (acc2 @ l)\<rparr>"
  have "input_slice ?st4 (position st3) (position ?st4) = l"
    using rest3 by (simp add: input_slice_def advance_def drop_take)
  moreover have "position st3 < position ?st4" using l(1) by (simp add: advance_def)
  moreover have "result ?st4 = Str acc2" by (simp add: advance_def st3)
  ultimately have "captureSegment ?st4 (position st3) (position ?st4) False = Inr ?st5"
    using printable_text [OF l(2), of None] by (simp add: captureSegment_def Let_def append_result_def)
  with line eol skip ti have "block_lines (Suc m) False mode did det ti e False st =
      block_lines m False mode True True (int n) 0 False ?st5"
    unfolding st3_def [symmetric] by (cases det) (simp_all add: Let_def del: block_lines.simps)
  moreover have "at_break n ls (acc2 @ l) ?st5"
  proof -
    have "drop (position ?st5) (input ?st5) = drop (length l) (drop (position st3) (input st3))"
      by (simp add: advance_def add.commute)
    then show ?thesis unfolding at_break_def rest3 by simp
  qed
  ultimately show ?thesis
    by (intro exI [of _ ?st5]) (simp add: acc2_def st3 next_line_def kept_def advance_def)
qed

text \<open>An empty line.\<close>

lemma block_lines_empty:
  assumes at: "at_break n ([] # ls) acc st" and ti: "did \<or> ti = 0"
  shows "\<exists>st2. block_lines (Suc m) False mode did did ti e False st = block_lines m False mode did did ti (e + 1) False st2
    \<and> at_break n ls acc st2 \<and> kept st2 = kept st \<and> tag st2 = tag st \<and> anchor st2 = anchor st \<and> line st \<le> line st2"
proof -
  note br = at_break_drop [OF at]
  have drop: "drop (Suc (position st)) (input st) = 0x0A # block_body n ls @ [0]" using br(2) by simp
  have "0 = (if did then min (length (takeWhile (\<lambda>c. c = 0x20) (0x0A # block_body n ls @ [0]))) (nat ti)
      else length (takeWhile (\<lambda>c. c = 0x20) (0x0A # block_body n ls @ [0])))" by simp
  note line = block_line [OF br(1) this drop, of m mode did e False]
  have "ch_at (next_line 0 st) = Some 0x0A" using next_line_ch [OF drop, of 0] by simp
  with line ti have "block_lines (Suc m) False mode did did ti e False st =
      block_lines m False mode did did ti (e + 1) False (next_line 0 st)"
    by (auto simp: is_EOL_def simp del: block_lines.simps)
  moreover have "at_break n ls acc (next_line 0 st)" using at drop by (simp add: at_break_def next_line_def)
  ultimately show ?thesis by (intro exI [of _ "next_line 0 st"]) (simp add: next_line_def kept_def)
qed

lemma block_lines_read:
  assumes "at_break n ls acc st" "unbroken ls" "list_all (list_all isPrintable) ls" "1 \<le> n"
    and "if did then ti = int n else ti = 0 \<and> flush ls"
    and "mode = KEEP \<or> (if ls = [] then did \<and> e = 0 else last ls \<noteq> [])" "length ls + 2 \<le> m"
  shows "\<exists>st'. block_lines m False mode did did ti e False st = Inr st'
    \<and> ends_block st st' (acc @ chomped mode (replicate (if did then Suc e else e) 0x0A @ lines_text ls))"
  using assms
proof (induction ls arbitrary: acc st did ti e m)
  case Nil
  then obtain k where "m = Suc (Suc k)" by (cases m; cases "m - 1") auto
  with Nil block_lines_end [of n acc st did ti mode e k] show ?case by (auto split: if_splits)
next
  case (Cons l ls)
  then obtain k where m: "m = Suc k" by (cases m) auto
  show ?case
  proof (cases "l = []")
    case True
    from block_lines_empty [of n ls acc st did ti k mode e] Cons.prems(1,5) True obtain st2 where
      st2: "block_lines (Suc k) False mode did did ti e False st = block_lines k False mode did did ti (e + 1) False st2"
        "at_break n ls acc st2" "kept st2 = kept st" "tag st2 = tag st" "anchor st2 = anchor st" "line st \<le> line st2"
      by (auto split: if_splits)
    have "\<exists>st'. block_lines k False mode did did ti (e + 1) False st2 = Inr st'
        \<and> ends_block st2 st' (acc @ chomped mode (replicate (if did then Suc (e + 1) else e + 1) 0x0A @ lines_text ls))"
      by (rule Cons.IH [OF st2(2)]) (use Cons.prems True m in \<open>auto simp: unbroken_def split: if_splits\<close>)
    moreover have "replicate (if did then Suc (e + 1) else e + 1) 0x0A @ lines_text ls =
        replicate (if did then Suc e else e) 0x0A @ lines_text (l # ls)"
      using True by (simp add: replicate_app_Cons_same)
    ultimately show ?thesis using st2 ends_block_trans unfolding m by metis
  next
    case False
    from block_lines_content [of n l ls acc st did ti k mode did e] Cons.prems False obtain st5 where
      st5: "block_lines (Suc k) False mode did did ti e False st = block_lines k False mode True True (int n) 0 False st5"
        "at_break n ls (acc @ replicate (if did then Suc e else e) 0x0A @ l) st5"
        "kept st5 = kept st" "tag st5 = tag st" "anchor st5 = anchor st" "line st \<le> line st5"
      by (auto split: if_splits)
    have "\<exists>st'. block_lines k False mode True True (int n) 0 False st5 = Inr st'
        \<and> ends_block st5 st' ((acc @ replicate (if did then Suc e else e) 0x0A @ l)
             @ chomped mode (replicate (if True then Suc 0 else 0) 0x0A @ lines_text ls))"
      by (rule Cons.IH [OF st5(2)]) (use Cons.prems False m in \<open>auto simp: unbroken_def split: if_splits\<close>)
    moreover have "(acc @ replicate (if did then Suc e else e) 0x0A @ l)
        @ chomped mode (replicate (if True then Suc 0 else 0) 0x0A @ lines_text ls) =
        acc @ chomped mode (replicate (if did then Suc e else e) 0x0A @ lines_text (l # ls))"
      using chomped_append [of "0x0A # lines_text ls" mode "replicate (if did then Suc e else e) 0x0A @ l"] by simp
    ultimately show ?thesis using st5 ends_block_trans unfolding m by metis
  qed
qed

section \<open>A document that is one literal scalar\<close>

text \<open>The header and the lines stand at the start of the input.\<close>

definition at_literal :: "nat \<Rightarrow> chomping \<Rightarrow> jsstring list \<Rightarrow> lstate \<Rightarrow> bool" where
  "at_literal n mode ls st \<longleftrightarrow>
     input st = [0x7C] @ mode_text mode @ 0x0A # block_body n ls @ [0] \<and> position st = 0"

lemma literal_header:
  assumes "at_literal n mode ls st" "result st = Str []"
  shows "\<exists>st1. block_indicators (loop_fuel st) 0 CLIP False 0 st = Inr (mode, False, 0, st1)
    \<and> at_break n ls [] st1 \<and> kept st1 = kept st \<and> tag st1 = tag st \<and> anchor st1 = anchor st \<and> line st1 = line st"
proof -
  let ?st1 = "advance (1 + length (mode_text mode)) st"
  obtain k where k: "loop_fuel st = Suc (Suc k)" using assms(1) by (simp add: loop_fuel_def rest_def at_literal_def)
  have "block_indicators (loop_fuel st) 0 CLIP False 0 st = Inr (mode, False, 0, ?st1)"
    using assms(1) unfolding k
    by (cases mode) (simp_all add: at_literal_def mode_text_def advance_def ch_at_def charCodeAt_def
        fromDecimalCode_def Let_def)
  moreover have "at_break n ls [] ?st1" using assms by (simp add: at_break_def at_literal_def advance_def)
  ultimately show ?thesis by (intro exI [of _ ?st1]) (simp add: kept_def advance_def)
qed

lemma readBlockScalar_reads:
  assumes "at_literal n mode ls st" "unbroken ls" "list_all (list_all isPrintable) ls" "1 \<le> n" "flush ls"
    and "ls \<noteq> []" "mode = KEEP \<or> last ls \<noteq> []"
  shows "\<exists>st'. readBlockScalar st 0 = Inr (True, st') \<and> ends_block st st' (chomped mode (lines_text ls))"
proof -
  let ?st = "st\<lparr>kind := Some Scalar, result := Str []\<rparr>"
  have "at_literal n mode ls ?st" using assms(1) by (simp add: at_literal_def)
  from literal_header [OF this] obtain st1 where st1:
    "block_indicators (loop_fuel st) 0 CLIP False 0 ?st = Inr (mode, False, 0, st1)" "at_break n ls [] st1"
    "kept st1 = kept st" "tag st1 = tag st" "anchor st1 = anchor st" "line st1 = line st"
    by (auto simp: loop_fuel_def rest_def kept_def)
  have "length (block_body n ls) \<ge> length ls" by (induction ls) auto
  moreover have "length (rest st1) = length (block_body n ls) + 2"
    using st1(2) by (simp add: at_break_def rest_def)
  ultimately have "length ls + 2 \<le> loop_fuel st1" by (simp add: loop_fuel_def)
  with block_lines_read [OF st1(2) assms(2-4), of False 0 mode 0 "loop_fuel st1"] assms(5-7) obtain st' where
    st': "block_lines (loop_fuel st1) False mode False False 0 0 False st1 = Inr st'"
      "ends_block st1 st' (chomped mode (lines_text ls))" by auto
  have "ch_at st = Some 0x7C" using assms(1) by (simp add: at_literal_def ch_at_def charCodeAt_def)
  moreover have "block_comment st1 = Inr st1"
    using at_break_drop(1) [OF st1(2)] by (simp add: block_comment_def is_WHITE_SPACE_def)
  moreover have "ends_block st st' (chomped mode (lines_text ls))"
    using ends_block_trans [OF st'(2) st1(3-5)] st1(6) by simp
  ultimately show ?thesis using st1(1) st'(1) by (simp add: readBlockScalar_def del: block_lines.simps block_indicators.simps)
qed

text \<open>
  A node that is no scalar in a flow context: tried as the key of a block mapping, it is nothing.
\<close>

definition no_flow_scalar :: "lstate \<Rightarrow> bool" where
  "no_flow_scalar st \<longleftrightarrow>
     (\<forall>st1. same_place st st1 \<longrightarrow> anchor st1 = None \<longrightarrow> read_scalar_node 0 FLOW_OUT st1 = Inr (False, st1))"

lemma no_flow_place: "same_place st st' \<Longrightarrow> no_flow_scalar st \<Longrightarrow> no_flow_scalar st'"
  by (simp add: no_flow_scalar_def same_place_def)

lemma key_fails:
  assumes "starts_scalar st" "no_flow_scalar st"
  shows "composeNode w (Suc n) 0 FLOW_OUT False True st = Inr (False, emit Closed (clear_node (emit Opened st)))"
proof -
  let ?st = "clear_node (emit Opened st)"
  have place: "same_place st ?st" by simp
  have fields: "tag ?st = None" "anchor ?st = None" by (simp_all add: clear_node_def)
  have "starts_scalar ?st" using assms(1) same_place_starts [OF place] by simp
  moreover have "read_scalar_node 0 FLOW_OUT ?st = Inr (False, ?st)"
    using assms(2) place fields(2) by (simp add: no_flow_scalar_def)
  ultimately show ?thesis
    using fields read_properties_none [of ?st 0 False] flow_collection_none [of ?st]
    by (simp add: compose_body_def read_content_def is_block_def and_also_def or_else_def resolve_tag_def emit_def)
qed

lemma block_mapping_fails:
  assumes "starts_scalar st" "no_flow_scalar st" "anchor st = None"
  shows "\<exists>st'. readBlockMapping (composeNode w (Suc n)) w i 0 st = Inr (False, st')
    \<and> same_place st st' \<and> tag st' = None \<and> anchor st' = None \<and> result st' = Null"
proof -
  let ?st = "st\<lparr>heap_of := heap_of st @ [Obj []]\<rparr>"
  let ?st' = "emit Closed (clear_node (emit Opened ?st))"
  have place: "same_place st ?st" by simp
  have "starts_scalar ?st" "no_flow_scalar ?st"
    using assms(1) same_place_starts [OF place] no_flow_place [OF place assms(2)] by simp_all
  note key = key_fails [OF this, of w n]
  have ch: "ch_at ?st \<noteq> Some 0" "ch_at ?st \<noteq> Some 0x3F" "ch_at ?st \<noteq> Some 0x3A"
    using starts_scalar_ch [OF assms(1)] same_place_ch [OF place] by auto
  obtain k where k: "loop_fuel ?st = Suc k" by (simp add: loop_fuel_def)
  have "readBlockMapping (composeNode w (Suc n)) w i 0 st = Inr (False, ?st')"
    using key ch assms(3) k
    by (simp add: readBlockMapping_def new_object_def alloc_def set_anchor_def mapping_key_def
        mapping_epilogue_def del: composeNode.simps)
  moreover have "same_place st ?st'" "tag ?st' = None" "anchor ?st' = None" "result ?st' = Null"
    by (simp_all add: emit_def clear_node_def)
  ultimately show ?thesis by blast
qed

lemma literal_no_flow_scalar:
  assumes "ch_at st = Some 0x7C"
  shows "no_flow_scalar st"
  unfolding no_flow_scalar_def
proof (intro allI impI)
  fix st1 :: lstate
  assume "same_place st st1" and none: "anchor st1 = None"
  then have "ch_at st1 = Some 0x7C" using assms same_place_ch by simp
  with none show "read_scalar_node 0 FLOW_OUT st1 = Inr (False, st1)"
    by (simp add: read_scalar_node_def or_else_def and_also_def is_block_def readSingleQuotedScalar_def
        readDoubleQuotedScalar_def read_alias_node_def readAlias_def read_plain_node_def readPlainScalar_def
        plain_excluded_def set_anchor_def)
qed

text \<open>
  At the top level such a node is what the readers of scalars make of it in a block context.
\<close>

lemma compose_top:
  assumes "starts_scalar st" "no_flow_scalar st"
    and reads: "\<And>st2. same_place st st2 \<Longrightarrow> tag st2 = None \<Longrightarrow> anchor st2 = None \<Longrightarrow> result st2 = Null \<Longrightarrow>
      \<exists>st3. read_scalar_node 0 BLOCK_OUT st2 = Inr (found, st3) \<and> tag st3 = None \<and> anchor st3 = None \<and> Q st2 st3"
  shows "\<exists>st2 st3. same_place st st2 \<and> Q st2 st3
    \<and> composeNode w (Suc (Suc m)) (- 1) BLOCK_OUT False True st = Inr (found, emit Closed st3)"
proof -
  let ?st = "clear_node (emit Opened st)"
  let ?st1 = "?st\<lparr>heap_of := heap_of ?st @ [Arr []]\<rparr>"
  have place: "same_place st ?st" "same_place st ?st1" by simp_all
  have start: "starts_scalar ?st" "starts_scalar ?st1" "no_flow_scalar ?st1"
    using assms(1) same_place_starts [OF place(1)] same_place_starts [OF place(2)] no_flow_place [OF place(2) assms(2)]
    by simp_all
  have fields: "anchor ?st = None" by (simp add: clear_node_def)
  obtain st2 where st2: "readBlockMapping (composeNode w (Suc m)) w (int (position ?st) - int (lineStart ?st)) 0 ?st1
      = Inr (False, st2)" "same_place ?st1 st2" "tag st2 = None" "anchor st2 = None" "result st2 = Null"
    using block_mapping_fails [OF start(2,3), of w m "int (position ?st) - int (lineStart ?st)"] fields by auto
  have place2: "same_place st st2" using st2(2) place(2) by (simp add: same_place_def)
  from reads [OF this st2(3-5)] obtain st3 where
    st3: "read_scalar_node 0 BLOCK_OUT st2 = Inr (found, st3)" "tag st3 = None" "anchor st3 = None" "Q st2 st3" by blast
  have "starts_scalar st2" using assms(1) same_place_starts [OF place2] by simp
  then have "readFlowCollection (composeNode w (Suc m)) w 0 st2 = Inr (False, st2)" by (rule flow_collection_none)
  then have "composeNode w (Suc (Suc m)) (- 1) BLOCK_OUT False True st = Inr (found, emit Closed st3)"
    using block_sequence_none [OF start(1) fields] read_properties_none [OF start(1)] st2(1) st3(1-3)
    by (auto simp: compose_body_def read_content_def is_block_def and_also_def or_else_def resolve_tag_def
        simp del: composeNode.simps(2) [of w m])
  with place2 st3(4) show ?thesis by blast
qed

lemma ends_block_read: "ends_block st st' s \<Longrightarrow> anchor st = None \<Longrightarrow> scalar_read st s st'"
  by (simp add: ends_block_def scalar_read_def ends_text_def kept_def)

lemma compose_literal:
  assumes ch: "ch_at st = Some 0x7C"
    and reads: "\<And>st2. same_place st st2 \<Longrightarrow> \<exists>st3. readBlockScalar st2 0 = Inr (True, st3) \<and> ends_block st2 st3 s"
  shows "\<exists>st'. composeNode w (Suc (Suc m)) (- 1) BLOCK_OUT False True st = Inr (True, st') \<and> scalar_read st s st'"
proof -
  have "starts_scalar st" using ch by (simp add: starts_scalar_def scalar_start_def)
  moreover have "\<exists>st3. read_scalar_node 0 BLOCK_OUT st2 = Inr (True, st3) \<and> tag st3 = None \<and> anchor st3 = None
      \<and> scalar_read st2 s st3" if st2: "same_place st st2" "tag st2 = None" "anchor st2 = None" for st2
  proof -
    from reads [OF st2(1)] obtain st3 where "readBlockScalar st2 0 = Inr (True, st3)" "ends_block st2 st3 s" by blast
    with st2(2,3) ends_block_read show ?thesis
      by (auto simp: read_scalar_node_def or_else_def and_also_def is_block_def set_anchor_def ends_block_def)
  qed
  ultimately obtain st2 st3 where "same_place st st2" "scalar_read st2 s st3"
    "composeNode w (Suc (Suc m)) (- 1) BLOCK_OUT False True st = Inr (True, emit Closed st3)"
    using compose_top [OF _ literal_no_flow_scalar [OF ch], of True "\<lambda>st2 st3. scalar_read st2 s st3" w m] by blast
  then show ?thesis using scalar_read_place [of st st2 s st3] by (auto simp: emit_def scalar_read_update(2))
qed

lemma literal_node:
  assumes "\<And>st1. same_place st st1 \<Longrightarrow> \<exists>st3. readBlockScalar st1 0 = Inr (True, st3) \<and> ends_block st1 st3 s"
    and "ch_at st = Some 0x7C"
  shows "node_reads w st s"
  unfolding node_reads_def
proof (intro allI impI)
  fix st1 n
  assume place: "same_place st st1"
  show "\<exists>st'. composeNode w (Suc (Suc n)) (- 1) BLOCK_OUT False True st1 = Inr (True, st') \<and> scalar_read st1 s st'"
  proof (rule compose_literal)
    show "ch_at st1 = Some 0x7C" using same_place_ch [OF place] assms(2) by simp
    fix st2
    assume "same_place st1 st2"
    then have "same_place st st2" using place by (simp add: same_place_def)
    then show "\<exists>st3. readBlockScalar st2 0 = Inr (True, st3) \<and> ends_block st2 st3 s" by (rule assms(1))
  qed
qed

section \<open>The round trip of strings\<close>

lemma literal_written:
  assumes "scalar_text w h st s level iskey = Inr t" "at_char t 0 = Some 0x7C"
  shows "s \<noteq> [] \<and> list_all line_or_printable s \<and> (hd s = 0x20 \<longrightarrow> d_indent st \<le> 9)
    \<and> t = 0x7C # blockHeader s (d_indent st) @ dropEndingNewline (indentString s (d_indent st * max 1 (int level)))"
proof (cases "s = [] \<or> \<not> d_noCompatMode st \<and> s \<in> set DEPRECATED_BOOLEANS_SYNTAX")
  case True
  with assms(1) have "t = 0x27 # s @ [0x27]" by (simp add: scalar_text_styled)
  with assms(2) show ?thesis by (simp add: JsPrelude.at_def)
next
  case False
  let ?width = "scalar_width st (d_indent st * max 1 (int level))"
  from False assms(1) obtain sty where
    sty: "chooseScalarStyle s (single_line st level iskey) (d_indent st) ?width (testImplicitResolving w h st) = Inr sty"
      "style_text st s level sty = Inr t"
    unfolding scalar_text_styled by (auto simp: bind_res_Inr_iff)
  note promise = style_promised [OF sty(1)]
  have "sty = STYLE_LITERAL"
    using sty(2) assms(2) promise
    by (cases sty; cases s) (auto simp: style_text_def JsPrelude.at_def Let_def bind_res_Inr_iff style_promise_def
        fit_for_plain_def isPlainSafeFirst_def)
  with False sty(2) promise show ?thesis
    by (auto simp: style_text_def style_promise_def Let_def JsPrelude.at_def hd_conv_nth)
qed

text \<open>The first character that is no line feed is a space.\<close>

definition leads_with_space :: "jsstring \<Rightarrow> bool" where
  "leads_with_space s \<longleftrightarrow> at_char (dropWhile (\<lambda>c. c = 0x0A) s) 0 = Some 0x20"

lemma not_flush: "\<not> flush ls \<Longrightarrow> \<exists>k t. lines_text ls = replicate k 0x0A @ 0x20 # t \<and> t \<noteq> []"
proof (induction ls)
  case (Cons l ls)
  show ?case
  proof (cases l)
    case Nil
    with Cons obtain k t where "lines_text ls = replicate k 0x0A @ 0x20 # t" "t \<noteq> []" by auto
    with Nil have "lines_text (l # ls) = replicate (Suc k) 0x0A @ 0x20 # t" by simp
    with \<open>t \<noteq> []\<close> show ?thesis by blast
  next
    case (Cons c cs)
    with Cons.prems have "lines_text (l # ls) = replicate 0 0x0A @ 0x20 # cs @ 0x0A # lines_text ls" by simp
    then show ?thesis by blast
  qed
qed simp

lemma flush_lines:
  assumes "\<not> leads_with_space (chomped mode (lines_text ls))"
  shows "flush ls"
proof (rule ccontr)
  assume "\<not> flush ls"
  then obtain k t where t: "lines_text ls = replicate k 0x0A @ 0x20 # t" "t \<noteq> []" using not_flush by blast
  have "chomped mode (lines_text ls) = replicate k 0x0A @ 0x20 # chomped mode t"
    using t by (simp add: chomped_def butlast_append)
  moreover have "dropWhile (\<lambda>c. c = 0x0A) (replicate k 0x0A @ 0x20 # u) = 0x20 # u" for u :: jsstring
    by (induction k) simp_all
  ultimately show False using assms by (simp add: leads_with_space_def JsPrelude.at_def)
qed

lemma printable_lines:
  assumes "list_all line_or_printable (chomped mode (lines_text ls))" "unbroken ls" "ls \<noteq> []"
  shows "list_all (list_all isPrintable) ls"
proof -
  have "lines_text ls = butlast (lines_text ls) @ [0x0A]"
    using last_lines [OF assms(3)] assms(3) append_butlast_last_id [of "lines_text ls"] by simp
  then have "set (lines_text ls) = insert 0x0A (set (butlast (lines_text ls)))"
    by (metis Un_insert_right list.set(1) list.simps(15) set_append sup_bot_right)
  then have "set (lines_text ls) \<subseteq> insert 0x0A (set (chomped mode (lines_text ls)))" by (auto simp: chomped_def)
  moreover have "set l \<subseteq> set (lines_text ls)" if "l \<in> set ls" for l
    using that by (auto simp: lines_text_def)
  ultimately have "c = 0x0A \<or> c \<in> set (chomped mode (lines_text ls))" if "l \<in> set ls" "c \<in> set l" for l c
    using that by blast
  with assms(1,2) show ?thesis by (fastforce simp: list_all_iff unbroken_def line_or_printable_def)
qed

text \<open>Loading a text of a literal scalar, whatever wrote it.\<close>

lemma block_text_loaded:
  assumes "t = 0x7C # u @ LF"
    and reads: "\<And>st. input st = t @ [0] \<Longrightarrow> position st = 0 \<Longrightarrow>
      \<exists>st'. readBlockScalar st 0 = Inr (True, st') \<and> ends_block st st' s"
  shows "\<exists>h'. load w h (Str t) options = Inr (h', Str s)"
proof -
  have "\<exists>h'. load w h (Str ((0x7C # u) @ LF)) options = Inr (h', Str s)"
  proof (rule load_scalar [OF refl])
    fix st :: lstate
    assume st: "input st = (0x7C # u) @ [0x0A, 0]" "position st = 0"
    show "node_reads w st s"
    proof (rule literal_node)
      fix st1
      assume "same_place st st1"
      then have "input st1 = t @ [0]" "position st1 = 0" using st assms(1) by (simp_all add: same_place_def kept_def)
      then show "\<exists>st3. readBlockScalar st1 0 = Inr (True, st3) \<and> ends_block st1 st3 s" by (rule reads)
    qed (use st in \<open>simp add: ch_at_def charCodeAt_def\<close>)
  qed (simp_all add: scalar_start_def)
  with assms(1) show ?thesis by simp
qed

lemma block_body_end: "ls \<noteq> [] \<Longrightarrow> \<exists>u. block_body n ls = u @ LF"
  by (cases ls rule: rev_cases) auto

lemma literal_loaded:
  assumes t: "t = 0x7C # mode_text mode @ 0x0A # block_body n ls"
    and ls: "unbroken ls" "list_all (list_all isPrintable) ls" "1 \<le> n" "flush ls" "ls \<noteq> []"
      "mode = KEEP \<or> last ls \<noteq> []"
  shows "\<exists>h'. load w h (Str t) options = Inr (h', Str (chomped mode (lines_text ls)))"
proof -
  obtain u where "block_body n ls = u @ LF" using block_body_end [OF ls(5)] by blast
  with t have "t = 0x7C # (mode_text mode @ 0x0A # u) @ LF" by simp
  then show ?thesis
    by (rule block_text_loaded) (rule readBlockScalar_reads [OF _ ls], use t in \<open>simp add: at_literal_def\<close>)
qed

text \<open>What the dumper has done if it has chosen the literal style.\<close>

lemma dumped_literal:
  assumes schemas: "library_schema (dumped_schema options)"
    and dumped: "dump w h (Str s) options = Inr t" "at_char t 0 = Some 0x7C"
  shows "\<exists>n ls. 1 \<le> n \<and> n = nat (max 1 (or_number (dopt_indent options) 2))
    \<and> t = 0x7C # (if hd s = 0x20 then decimal_str n else []) @ mode_text (mode_of s) @ 0x0A # block_body n ls
    \<and> (hd s = 0x20 \<longrightarrow> n \<le> 9) \<and> s \<noteq> []
    \<and> unbroken ls \<and> list_all (list_all isPrintable) ls \<and> ls \<noteq> [] \<and> (mode_of s = KEEP \<or> last ls \<noteq> [])
    \<and> s = chomped (mode_of s) (lines_text ls)"
proof -
  from dumped(1) obtain st where st: "new_dumper options = Inr st"
    by (auto simp: dump_def bind_res_Inr_iff)
  define n where "n = nat (d_indent st)"
  have indent: "d_indent st = max 1 (or_number (dopt_indent options) 2)"
    using st by (auto simp: new_dumper_def bind_res_Inr_iff Let_def)
  then have n: "d_indent st = int n" "1 \<le> n" "n = nat (max 1 (or_number (dopt_indent options) 2))"
    by (simp_all add: n_def)
  from dumped(1) dump_string [OF schemas st] obtain u where
    u: "scalar_text w h st s 0 False = Inr u" "t = u @ LF" by (auto simp: bind_res_Inr_iff)
  have "at_char u 0 = Some 0x7C" using dumped(2) u(2) by (cases u) (auto simp: JsPrelude.at_def split: if_splits)
  from literal_written [OF u(1) this] n(1) have
    s: "s \<noteq> []" "list_all line_or_printable s" "hd s = 0x20 \<longrightarrow> n \<le> 9"
      "u = 0x7C # blockHeader s n @ dropEndingNewline (indentString s (int n))" by simp_all
  from block_written [OF s(1), of n] obtain ls where
    ls: "dropEndingNewline (indentString s (int n)) @ LF = block_body n ls" "unbroken ls"
      "s = chomped (mode_of s) (lines_text ls)" "ls \<noteq> []" "mode_of s = KEEP \<or> last ls \<noteq> []" by blast
  have "t = 0x7C # (if hd s = 0x20 then decimal_str n else []) @ mode_text (mode_of s) @ 0x0A # block_body n ls"
    using u(2) s(4) ls(1) blockHeader_mode [OF s(1), of n] by simp
  moreover have "list_all (list_all isPrintable) ls" using printable_lines s(2) ls(2-4) by metis
  ultimately show ?thesis using n(2,3) s(1,3) ls(2-5) by blast
qed

lemma dumped_literal_loaded:
  assumes "library_schema (dumped_schema options)" "dump w h (Str s) options = Inr t" "at_char t 0 = Some 0x7C"
    and "\<not> leads_with_space s"
  shows "\<exists>h'. load w' h2 (Str t) loptions = Inr (h', Str s)"
proof -
  from dumped_literal [OF assms(1-3)] obtain n ls where ls: "1 \<le> n"
    "t = 0x7C # (if hd s = 0x20 then decimal_str n else []) @ mode_text (mode_of s) @ 0x0A # block_body n ls"
    "s \<noteq> []" "unbroken ls" "list_all (list_all isPrintable) ls" "ls \<noteq> []" "mode_of s = KEEP \<or> last ls \<noteq> []"
    "s = chomped (mode_of s) (lines_text ls)" by blast
  have "hd s \<noteq> 0x20" using assms(4) ls(3) by (cases s) (auto simp: leads_with_space_def JsPrelude.at_def)
  with ls(2) have "t = 0x7C # mode_text (mode_of s) @ 0x0A # block_body n ls" by simp
  moreover have "flush ls" using flush_lines assms(4) ls(8) by metis
  ultimately show ?thesis using literal_loaded [of t "mode_of s" n ls] ls by simp
qed

text \<open>The texts of folded strings start with this character, no other does.\<close>

definition folded_text :: "jsstring \<Rightarrow> bool" where
  "folded_text t \<longleftrightarrow> at_char t 0 = Some CHAR_GREATER_THAN"

lemma string_loaded:
  assumes "library_schema (dumped_schema options)" "library_schema (chosen_schema loptions)"
    and "dump w h (Str s) options = Inr t" "plain_text s"
    and "\<not> folded_text t" "\<not> marker_first s" "\<not> leads_with_space s \<or> \<not> block_text t"
  shows "\<exists>h'. load w' h2 (Str t) loptions = Inr (h', Str s)"
proof (cases "block_text t")
  case True
  with assms(5) have "at_char t 0 = Some 0x7C" by (simp add: block_text_def folded_text_def)
  with dumped_literal_loaded assms True show ?thesis by blast
next
  case False
  with dumped_string_loaded assms show ?thesis by blast
qed

text \<open>
  With the option \<open>flowLevel\<close> 0 no block is written, so that nothing but the document
  marker is in the way.
\<close>

lemma flow_string_loaded:
  assumes "library_schema (dumped_schema options)" "library_schema (chosen_schema loptions)"
    and "dopt_flowLevel options = Some 0" "dopt_styles options = None" "plain_text s" "\<not> marker_first s"
  shows "\<exists>t h'. dump w h (Str s) options = Inr t \<and> load w' h2 (Str t) loptions = Inr (h', Str s)"
proof -
  obtain st where st: "new_dumper options = Inr st" using new_dumper_plain [OF assms(4)] by blast
  then have types: "d_implicitTypes st = compiledImplicit (dumped_schema options)" "d_flowLevel st = 0"
    using new_dumper_made [of options] assms(3)
    by (auto simp: made_for_def new_dumper_def bind_res_Inr_iff Let_def)
  have "ends_in (\<lambda>_. False) (\<lambda>_. True) (scalar_text w h st s 0 False)"
  proof (rule scalar_text_ends)
    show "\<forall>t \<in> set (d_implicitTypes st). ends_in (\<lambda>_. False) (\<lambda>_. True) (ty_resolve t w h (Str s))"
      unfolding types(1) library_implicit [OF assms(1)] by (intro ballI library_resolves) simp
    show "ends_in (\<lambda>_. False) (\<lambda>_. True) (encodeHex c)" if "c \<in> set s" for c
      using that assms(5) by (auto simp: plain_text_def list_all_iff encodeHex_def Let_def)
  qed
  then obtain u where u: "scalar_text w h st s 0 False = Inr u"
    by (cases "scalar_text w h st s 0 False") auto
  then have dumped: "dump w h (Str s) options = Inr (u @ LF)" using dump_string [OF assms(1) st] by simp
  have "\<not> block_text u"
    using string_written [OF u] types(2) by (auto simp: single_line_def written_single_def written_double_def)
  then have "\<not> block_text (u @ LF)" by (cases u) simp_all
  then have "\<not> folded_text (u @ LF)" by (simp add: block_text_def folded_text_def)
  from string_loaded [OF assms(1,2) dumped assms(5) this assms(6)] \<open>\<not> block_text (u @ LF)\<close> dumped
  show ?thesis by blast
qed

section \<open>The properties\<close>

text \<open>
  C23: A string survives \<open>dump\<close> and \<open>load\<close> with the default schemas, whatever style the
  dumper has chosen, plain, single quoted, double quoted or literal, and whatever the other options
  of both are, if the text is not folded, the string does not start like a document marker, and a
  literal text does not lead with a space.
\<close>

theorem string_roundtrip:
  assumes "library_schema (dumped_schema options)" "library_schema (chosen_schema loptions)"
    and "dump w h (Str s) options = Inr t" "plain_text s"
    and "\<not> folded_text t" "\<not> marker_first s" "\<not> leads_with_space s \<or> \<not> block_text t"
  shows "\<exists>h'. load w' h2 (Str t) loptions = Inr (h', Str s)"
  using assms by (rule string_loaded)

text \<open>
  C24: With \<open>flowLevel\<close> 0 the dumper writes every string on one line, and the loader gives
  every string back that does not start like a document marker: control characters, line breaks,
  single surrogates and texts that look like numbers, dates or keywords included.
\<close>

theorem flow_string_roundtrip:
  assumes "library_schema (dumped_schema options)" "library_schema (chosen_schema loptions)"
    and "dopt_flowLevel options = Some 0" "dopt_styles options = None" "plain_text s" "\<not> marker_first s"
  shows "\<exists>t h'. dump w h (Str s) options = Inr t \<and> load w' h2 (Str t) loptions = Inr (h', Str s)"
  using assms by (rule flow_string_loaded)

section \<open>Examples\<close>

text \<open>The default options, and two lines that are written as a literal block.\<close>

lemma default_dumped:
  assumes "\<And>st. d_indent st = 2 \<Longrightarrow> d_lineWidth st = 80 \<Longrightarrow> d_flowLevel st = - 1 \<Longrightarrow> \<not> d_noCompatMode st \<Longrightarrow>
      d_implicitTypes st = compiledImplicit default_full_schema \<Longrightarrow> scalar_text w h st s 0 False = Inr u"
    and "t = u @ LF"
  shows "dump w h (Str s) default_dump = Inr t"
proof -
  obtain st where st: "new_dumper default_dump = Inr st" "d_indent st = 2" "d_lineWidth st = 80" "d_flowLevel st = - 1"
    "\<not> d_noCompatMode st" "d_implicitTypes st = compiledImplicit default_full_schema"
    by (auto simp: new_dumper_def default_dump_def compileStyleMap_def or_number_def Let_def)
  have "library_schema (dumped_schema default_dump)"
    by (simp add: library_schema_def dumped_schema_def default_dump_def)
  from dump_string [OF this st(1)] assms(1) [OF st(2-)] assms(2) show ?thesis by simp
qed

lemmas block_evaluation =
  scalar_text_def DEPRECATED_BOOLEANS_SYNTAX_def jstr_def scalar_width_def chooseScalarStyle_def
  style_of_scan_def foldable_line_def isPrintable_def JsPrelude.at_def Let_def blockHeader_def
  dropEndingNewline_def indentString.simps repeat_char numeral_2_eq_2 nth_Cons' radix_str.simps digit_char_def

lemma two_lines_dumped:
  "dump plain_host [] (Str [0x61, 0x0A, 0x62]) default_dump = Inr ((jstr ''|-'' @ LF @ jstr ''  a'' @ LF @ jstr ''  b'') @ LF)"
  by (rule default_dumped [OF _ refl]) (simp add: block_evaluation)

lemma string_roundtrip_witness:
  "\<exists>h'. load plain_host [] (Str ((jstr ''|-'' @ LF @ jstr ''  a'' @ LF @ jstr ''  b'') @ LF)) no_load_options =
     Inr (h', Str [0x61, 0x0A, 0x62])"
  by (rule string_roundtrip [OF _ _ two_lines_dumped])
    (simp_all add: library_schema_def dumped_schema_def default_dump_def chosen_schema_def no_load_options_def
      plain_text_def folded_text_def marker_first_def leads_with_space_def jstr_def JsPrelude.at_def)

lemma flow_string_roundtrip_witness:
  "\<exists>t h'. dump plain_host [] (Str [0x0A, 0x20, 0xD800]) (default_dump\<lparr>dopt_flowLevel := Some 0\<rparr>) = Inr t
    \<and> load plain_host [] (Str t) no_load_options = Inr (h', Str [0x0A, 0x20, 0xD800])"
  by (rule flow_string_roundtrip)
    (simp_all add: library_schema_def dumped_schema_def default_dump_def chosen_schema_def no_load_options_def
      plain_text_def marker_first_def)

end
