(* ===== verification/YamlLostStrings.thy ===== *)
theory YamlLostStrings
  imports YamlLiterals
begin

text \<open>
  The strings that \<open>dump\<close> writes and \<open>load\<close> does not give back: the exceptions of the
  round trip of \<open>YamlLiterals\<close> are real.
\<close>

section \<open>A literal text with an indentation indicator\<close>

text \<open>A space before every line that is not empty.\<close>

fun widen :: "bool \<Rightarrow> jsstring \<Rightarrow> jsstring" where
  "widen line_start [] = []"
| "widen line_start (c # s) =
     (if line_start \<and> c \<noteq> CHAR_LINE_FEED then [CHAR_SPACE] else []) @ c # widen (c = CHAR_LINE_FEED) s"

definition pad :: "jsstring \<Rightarrow> jsstring" where
  "pad l = (if l = [] then [] else 0x20 # l)"

lemma pad_simps [simp]: "pad [] = []" "pad (c # l) = 0x20 # c # l" "pad l = [] \<longleftrightarrow> l = []"
  by (simp_all add: pad_def)

lemma widen_line: "0x0A \<notin> set l \<Longrightarrow> widen False (l @ s) = l @ widen (l = [] \<and> False) s"
  by (induction l) auto

lemma widen_lines: "unbroken ls \<Longrightarrow> widen True (lines_text ls) = lines_text (map pad ls)"
proof (induction ls)
  case (Cons l ls)
  then have "0x0A \<notin> set l" "widen True (lines_text ls) = lines_text (map pad ls)" by (simp_all add: unbroken_def)
  then show ?case by (cases l) (auto simp: widen_line)
qed simp

lemma widen_append: "widen b (s @ [0x0A]) = widen b s @ [0x0A]"
  by (induction s arbitrary: b) auto

lemma widen_chomped:
  assumes "unbroken ls" "ls \<noteq> []"
  shows "widen True (chomped mode (lines_text ls)) = chomped mode (lines_text (map pad ls))"
proof -
  obtain u where u: "lines_text ls = u @ [0x0A]"
    using last_lines [OF assms(2)] assms(2) append_butlast_last_id [of "lines_text ls"] by (metis lines_text_Nil)
  then have "lines_text (map pad ls) = widen True u @ [0x0A]"
    using widen_lines [OF assms(1)] by (simp add: widen_append)
  with u widen_lines [OF assms(1)] show ?thesis by (simp add: chomped_def)
qed

lemma widen_longer: "hd s = 0x20 \<Longrightarrow> s \<noteq> [] \<Longrightarrow> length s < length (widen True s)"
proof -
  have longer: "length t \<le> length (widen b t)" for b t by (induction t arbitrary: b) (auto intro: le_SucI)
  assume "hd s = 0x20" "s \<noteq> []"
  then obtain t where "s = 0x20 # t" by (cases s) auto
  with longer [of t False] show ?thesis by simp
qed

lemma pad_unbroken: "unbroken ls \<Longrightarrow> unbroken (map pad ls)"
  by (auto simp: unbroken_def list_all_iff pad_def)

lemma pad_printable: "list_all (list_all isPrintable) ls \<Longrightarrow> list_all (list_all isPrintable) (map pad ls)"
proof -
  have "isPrintable 0x20" by (simp add: isPrintable_def)
  then show "list_all (list_all isPrintable) ls \<Longrightarrow> list_all (list_all isPrintable) (map pad ls)"
    by (auto simp: list_all_iff pad_def)
qed

lemma body_pad: "block_body (Suc n) ls = block_body n (map pad ls)"
  by (induction ls) (auto simp: pad_def replicate_app_Cons_same)

text \<open>
  At the top level the indicator \<open>n\<close> stands for \<open>n - 1\<close> columns, because the indentation
  of the parent is taken for -1.
\<close>

definition at_indicated :: "nat \<Rightarrow> chomping \<Rightarrow> jsstring list \<Rightarrow> lstate \<Rightarrow> bool" where
  "at_indicated n mode ls st \<longleftrightarrow>
     input st = [0x7C, 0x30 + int n] @ mode_text mode @ 0x0A # block_body n ls @ [0] \<and> position st = 0"

lemma indicated_header:
  assumes "at_indicated n mode ls st" "result st = Str []" "1 \<le> n" "n \<le> 9"
  shows "\<exists>st1. block_indicators (loop_fuel st) 0 CLIP False 0 st = Inr (mode, True, int n - 1, st1)
    \<and> at_break n ls [] st1 \<and> kept st1 = kept st \<and> tag st1 = tag st \<and> anchor st1 = anchor st \<and> line st1 = line st"
proof -
  let ?st1 = "advance (2 + length (mode_text mode)) st"
  obtain k where k: "loop_fuel st = Suc (Suc (Suc k))"
    using assms(1) by (simp add: loop_fuel_def rest_def at_indicated_def)
  have "block_indicators (loop_fuel st) 0 CLIP False 0 st = Inr (mode, True, int n - 1, ?st1)"
    using assms(1,3,4) unfolding k
    by (cases mode) (simp_all add: at_indicated_def mode_text_def advance_def ch_at_def charCodeAt_def
        fromDecimalCode_def Let_def nth_Cons')
  moreover have "at_break n ls [] ?st1" using assms by (simp add: at_break_def at_indicated_def advance_def)
  ultimately show ?thesis by (intro exI [of _ ?st1]) (simp add: kept_def advance_def)
qed

lemma indicated_reads:
  assumes "at_indicated (Suc n) mode (l # ls) st" "unbroken (l # ls)" "list_all (list_all isPrintable) (l # ls)"
    and "1 \<le> n" "n \<le> 8" "l \<noteq> []" "mode = KEEP \<or> last (l # ls) \<noteq> []"
  shows "\<exists>st'. readBlockScalar st 0 = Inr (True, st')
    \<and> ends_block st st' (chomped mode (lines_text (map pad (l # ls))))"
proof -
  let ?st = "st\<lparr>kind := Some Scalar, result := Str []\<rparr>"
  let ?ls = "map pad ls"
  have "at_indicated (Suc n) mode (l # ls) ?st" using assms(1) by (simp add: at_indicated_def)
  from indicated_header [OF this] assms(5) obtain st1 where st1:
    "block_indicators (loop_fuel st) 0 CLIP False 0 ?st = Inr (mode, True, int n, st1)"
    "at_break (Suc n) (l # ls) [] st1"
    "kept st1 = kept st" "tag st1 = tag st" "anchor st1 = anchor st" "line st1 = line st"
    by (auto simp: loop_fuel_def rest_def kept_def)
  have break: "at_break n (pad l # ?ls) [] st1"
    using st1(2) body_pad [of n "l # ls"] unfolding at_break_def by simp
  note padded = pad_unbroken [OF assms(2)] pad_printable [OF assms(3)]
  have pad: "pad l \<noteq> []" "list_all isPrintable (pad l)" "unbroken ?ls" "list_all (list_all isPrintable) ?ls"
    using assms(6) padded by (simp_all add: unbroken_def)
  have last: "mode = KEEP \<or> last (pad l # ?ls) \<noteq> []" using assms(6,7) by (auto simp: last_map)
  obtain k where k: "loop_fuel st1 = Suc k" by (simp add: loop_fuel_def)
  from block_lines_content [OF break pad(1,2), of True "int n" k mode False 0] assms(4) obtain st5 where
    st5: "block_lines (Suc k) False mode False True (int n) 0 False st1 = block_lines k False mode True True (int n) 0 False st5"
      "at_break n ?ls (pad l) st5" "kept st5 = kept st1" "tag st5 = tag st1" "anchor st5 = anchor st1"
      "line st1 \<le> line st5" by auto
  have "length (block_body n (pad l # ?ls)) \<ge> length (pad l # ?ls) + 1"
  proof -
    have "length (block_body n ks) \<ge> length ks" for ks by (induction ks) auto
    from this [of ?ls] pad(1) show ?thesis by (cases "pad l") auto
  qed
  moreover have "length (rest st1) = length (block_body n (pad l # ?ls)) + 2"
    using break by (simp add: at_break_def rest_def)
  ultimately have "length ?ls + 2 \<le> k" using k by (simp add: loop_fuel_def)
  with block_lines_read [OF st5(2) pad(3,4) assms(4), of True "int n" mode 0 k] last obtain st' where
    st': "block_lines k False mode True True (int n) 0 False st5 = Inr st'"
      "ends_block st5 st' (pad l @ chomped mode (0x0A # lines_text ?ls))" by (auto split: if_splits)
  have "ch_at st = Some 0x7C" using assms(1) by (simp add: at_indicated_def ch_at_def charCodeAt_def)
  moreover have "block_comment st1 = Inr st1"
    using at_break_drop(1) [OF st1(2)] by (simp add: block_comment_def is_WHITE_SPACE_def)
  moreover have "ends_block st st' (chomped mode (lines_text (map pad (l # ls))))"
    using ends_block_trans [OF st'(2), of st] st1(3-6) st5(3-6) chomped_append [of "0x0A # lines_text ?ls" mode "pad l"]
    by simp
  ultimately show ?thesis using st1(1) st5(1) st'(1) k
    by (simp add: readBlockScalar_def del: block_lines.simps block_indicators.simps)
qed

lemma decimal_digit: "n \<le> 9 \<Longrightarrow> decimal_str (int n) = [0x30 + int n]"
  by (simp add: radix_str.simps [of 10 "int n"] digit_char_def)

lemma indicated_loaded:
  assumes "library_schema (dumped_schema options)" "dump w h (Str s) options = Inr t"
    and "at_char t 0 = Some 0x7C" "at_char s 0 = Some 0x20" "2 \<le> or_number (dopt_indent options) 2"
  shows "\<exists>h'. load w' h2 (Str t) loptions = Inr (h', Str (widen True s))"
proof -
  from dumped_literal [OF assms(1-3)] obtain n ls where n: "n = nat (max 1 (or_number (dopt_indent options) 2))"
      "hd s = 0x20 \<longrightarrow> n \<le> 9"
      "t = 0x7C # (if hd s = 0x20 then decimal_str n else []) @ mode_text (mode_of s) @ 0x0A # block_body n ls"
    and s: "s \<noteq> []" "s = chomped (mode_of s) (lines_text ls)"
    and ls: "unbroken ls" "list_all (list_all isPrintable) ls" "ls \<noteq> []" "mode_of s = KEEP \<or> last ls \<noteq> []" by blast
  have hd: "hd s = 0x20" using assms(4) s(1) by (simp add: JsPrelude.at_def hd_conv_nth split: if_splits)
  have two: "2 \<le> n" "n \<le> 9" using n(1,2) hd assms(5) by simp_all
  then obtain m where m: "n = Suc m" "1 \<le> m" "m \<le> 8" by (cases n) auto
  have t: "t = 0x7C # (0x30 + int n) # mode_text (mode_of s) @ 0x0A # block_body n ls"
    using n(3) hd decimal_digit [OF two(2)] by simp
  obtain l ks where lk: "ls = l # ks" using ls(3) by (cases ls) auto
  have "l \<noteq> []"
  proof
    assume "l = []"
    with lk s hd have "chomped (mode_of s) (0x0A # lines_text ks) \<noteq> []"
      "hd (chomped (mode_of s) (0x0A # lines_text ks)) = 0x20" by simp_all
    then show False by (auto simp: chomped_def split: if_splits)
  qed
  obtain u where "block_body n ls = u @ LF" using block_body_end [OF ls(3)] by blast
  with t have "t = 0x7C # ((0x30 + int n) # mode_text (mode_of s) @ 0x0A # u) @ LF" by simp
  then have "\<exists>h'. load w' h2 (Str t) loptions = Inr (h', Str (chomped (mode_of s) (lines_text (map pad ls))))"
  proof (rule block_text_loaded)
    fix st :: lstate
    assume "input st = t @ [0]" "position st = 0"
    then have "at_indicated (Suc m) (mode_of s) (l # ks) st" using t m(1) lk by (simp add: at_indicated_def)
    from indicated_reads [OF this _ _ m(2,3) \<open>l \<noteq> []\<close>] ls lk
    show "\<exists>st'. readBlockScalar st 0 = Inr (True, st') \<and> ends_block st st' (chomped (mode_of s) (lines_text (map pad ls)))"
      by simp
  qed
  then show ?thesis using widen_chomped [OF ls(1,3), of "mode_of s"] s(2) by simp
qed

section \<open>A leading line break before a space\<close>

text \<open>
  No indicator is written then, although the first line that is not empty starts with a space:
  the loader takes this space for indentation.
\<close>

lemma leading_break_dumped:
  "dump plain_host [] (Str [0x0A, 0x20, 0x61]) default_dump = Inr ((jstr ''|-'' @ LF @ LF @ jstr ''   a'') @ LF)"
  by (rule default_dumped [OF _ refl]) (simp add: block_evaluation)

lemma leading_break_loaded:
  "\<exists>h'. load w h (Str ((jstr ''|-'' @ LF @ LF @ jstr ''   a'') @ LF)) options = Inr (h', Str [0x0A, 0x61])"
proof -
  have text_eq: "(jstr ''|-'' @ LF @ LF @ jstr ''   a'') @ LF = 0x7C # mode_text STRIP @ 0x0A # block_body 3 [[], [0x61]]"
    by (simp add: jstr_def mode_text_def numeral_3_eq_3)
  have result_eq: "[0x0A, 0x61] = chomped STRIP (lines_text [[], [0x61]])" by (simp add: chomped_def)
  show ?thesis
    unfolding text_eq result_eq by (rule literal_loaded [OF refl]) (simp_all add: unbroken_def isPrintable_def)
qed

section \<open>A document marker\<close>

definition at_marker :: "lstate \<Rightarrow> bool" where
  "at_marker st \<longleftrightarrow> input st = [0x2E, 0x2E, 0x2E, 0x0A, 0] \<and> position st = 0 \<and> lineStart st = 0"

lemma at_marker_place: "same_place st st' \<Longrightarrow> at_marker st \<Longrightarrow> at_marker st'"
  by (simp add: at_marker_def same_place_def kept_def)

lemma at_marker_ch: "at_marker st \<Longrightarrow> ch_at st = Some 0x2E \<and> testDocumentSeparator st"
  by (simp add: at_marker_def ch_at_def charCodeAt_def testDocumentSeparator_def ch_ahead_def is_WS_OR_EOL_def)

lemma marker_no_scalar:
  assumes "at_marker st" "anchor st = None"
  shows "read_scalar_node 0 ctx st = Inr (False, st)"
proof -
  note ch = at_marker_ch [OF assms(1)]
  obtain k where k: "loop_fuel st = Suc k" by (simp add: loop_fuel_def)
  have "testDocumentSeparator (st\<lparr>kind := Some Scalar, result := Str []\<rparr>)"
    using conjunct2 [OF ch] unfolding testDocumentSeparator_def ch_at_def ch_ahead_def by simp
  then have "readPlainScalar st 0 b = Inr (False, st)" for b
    using ch assms(1) unfolding readPlainScalar_def k
    by (simp add: plain_excluded_def is_WS_OR_EOL_def is_FLOW_INDICATOR_def at_marker_def captureSegment_def
        ch_at_def Let_def)
  with ch assms(2) show ?thesis
    by (simp add: read_scalar_node_def or_else_def and_also_def readBlockScalar_def readSingleQuotedScalar_def
        readDoubleQuotedScalar_def read_alias_node_def readAlias_def read_plain_node_def set_anchor_def)
qed

lemma marker_starts: "at_marker st \<Longrightarrow> starts_scalar st \<and> no_flow_scalar st"
  using at_marker_ch [of st] at_marker_place marker_no_scalar
  by (auto simp: starts_scalar_def scalar_start_def no_flow_scalar_def)

lemma marker_composed:
  assumes "at_marker st"
  shows "\<exists>st'. composeNode w (Suc (Suc m)) (- 1) BLOCK_OUT False True st = Inr (False, st')
    \<and> same_place st st' \<and> result st' = Null"
proof -
  have "\<exists>st3. read_scalar_node 0 BLOCK_OUT st2 = Inr (False, st3) \<and> tag st3 = None \<and> anchor st3 = None
      \<and> (st3 = st2 \<and> result st2 = Null)"
    if "same_place st st2" "tag st2 = None" "anchor st2 = None" "result st2 = Null" for st2
    using marker_no_scalar [of st2 BLOCK_OUT] at_marker_place [OF that(1) assms] that by simp
  from compose_top [OF _ _ this, where w = w and m = m] marker_starts [OF assms] obtain st2 where
    "same_place st st2" "result st2 = Null"
    "composeNode w (Suc (Suc m)) (- 1) BLOCK_OUT False True st = Inr (False, emit Closed st2)" by blast
  then show ?thesis by (auto simp: emit_def)
qed

lemma marker_document:
  assumes st: "at_marker st" "lineIndent st = 0" "input_length st = 4"
  shows "\<exists>st'. readDocument w st = Inr st' \<and> documents st' = documents st @ [Null]
    \<and> position st' = 4 \<and> input_length st' = 4"
proof -
  let ?st = "start_document st"
  have place: "same_place st ?st" by (simp add: start_document_def)
  have mark: "at_marker ?st" using at_marker_place [OF place st(1)] .
  note start = marker_starts [OF mark]
  note ch = starts_scalar_ch [OF conjunct1 [OF start]]
  have indent: "lineIndent ?st = 0" using st(2) place by (simp add: same_place_def)
  obtain k where fuel: "loop_fuel st = Suc k" by (simp add: loop_fuel_def)
  have "directive_loop (loop_fuel st) False ?st = Inr (False, ?st)"
    unfolding fuel using ch skip_space_none [OF conjunct1 [OF start]] by simp
  moreover have "document_start_mark False ?st = Inr ?st" using ch by (simp add: document_start_mark_def)
  moreover obtain k where "compose_fuel ?st = Suc (Suc k)" by (auto simp: compose_fuel_def)
  moreover obtain st4 where st4: "composeNode w (Suc (Suc k)) (- 1) BLOCK_OUT False True ?st = Inr (False, st4)"
      "same_place ?st st4" "result st4 = Null"
    using marker_composed [OF mark] by blast
  moreover have "skip_space st4 (- 1) = Inr st4"
    using skip_space_none same_place_starts [OF st4(2)] start by blast
  moreover define st6 where "st6 = (if checkLineBreaks st4 \<and>
      non_ascii_line_breaks (input_slice st4 (position st) (position st4))
    then throwWarning st4 (jstr ''non-ASCII line breaks are interpreted as content'') else st4)"
  have st6: "same_place st4 st6" "result st6 = Null" "documents st6 = documents st" "input_length st6 = 4"
    using st(3) st4(2,3) place by (simp_all add: st6_def throwWarning_def same_place_def kept_def)
  let ?st7 = "st6\<lparr>documents := documents st @ [Null]\<rparr>"
  have mark7: "at_marker ?st7"
    using at_marker_place [OF st6(1) at_marker_place [OF st4(2) mark]] by (simp add: at_marker_def)
  have end7: "skip_space (advance 3 ?st7) (- 1) = Inr (advance 3 ?st7\<lparr>position := 4, line := line st6 + 1,
      lineStart := 4, lineIndent := 0\<rparr>)"
    using line_end_skipped [of "advance 3 ?st7" "[0x2E, 0x2E, 0x2E]" True] mark7
    by (simp add: skip_space_def at_marker_def advance_def)
  have "document_end ?st7 = Inr (advance 3 ?st7\<lparr>position := 4, line := line st6 + 1, lineStart := 4, lineIndent := 0\<rparr>)"
    using at_marker_ch [OF mark7] mark7 end7 unfolding document_end_def at_marker_def by simp
  ultimately have "readDocument w st = Inr (advance 3 ?st7\<lparr>position := 4, line := line st6 + 1,
      lineStart := 4, lineIndent := 0\<rparr>)"
    using indent skip_space_none [OF conjunct1 [OF start]] st6(2,3)
    unfolding readDocument_def st6_def [symmetric]
    by (simp add: st6_def [symmetric] Let_def del: composeNode.simps)
  with st6(4) show ?thesis by (simp add: advance_def)
qed

lemma marker_loaded: "\<exists>h'. load w h (Str (jstr ''...'' @ LF)) options = Inr (h', Null)"
proof -
  let ?t = "[0x2E, 0x2E, 0x2E, 0x0A]"
  let ?st = "initial_state ?t options h"
  have line_end: "with_line_end ?t = ?t" by (simp add: with_line_end_def)
  have init: "input ?st = ?t @ [0]" "position ?st = 0" "lineStart ?st = 0" "lineIndent ?st = 0"
    "input_length ?st = 4" "documents ?st = []"
    unfolding initial_state_def line_end Let_def by (simp_all add: advance_def new_state_def rest_def Let_def)
  then obtain st' where st': "readDocument w ?st = Inr st'" "documents st' = [Null]" "position st' = 4"
      "input_length st' = 4"
    using marker_document [of ?st w] by (auto simp: at_marker_def)
  obtain k where "loop_fuel ?st = Suc (Suc k)" using init(1,2) by (simp add: loop_fuel_def rest_def)
  then have "loadDocuments w h (Str ?t) options = Inr st'"
    using st' init(2,5) by (simp add: loadDocuments_def Let_def)
  with st'(2) show ?thesis by (simp add: load_def jstr_def)
qed

lemma marker_dumped: "dump plain_host [] (Str (jstr ''...'')) default_dump = Inr (jstr ''...'' @ LF)"
proof (rule default_dumped [OF _ refl])
  fix st :: dstate
  assume st: "d_indent st = 2" "d_lineWidth st = 80" "d_flowLevel st = - 1" "\<not> d_noCompatMode st"
    and types: "d_implicitTypes st = compiledImplicit default_full_schema"
  have "any_resolves plain_host [] [null_type, bool_type, int_type, float_type, timestamp_type, merge_type]
      (jstr ''...'') = Inr False"
    by code_simp
  then have "testImplicitResolving plain_host [] st (jstr ''...'') = Inr False"
    using types by (simp add: testImplicitResolving_def compiled_implicit_full)
  then show "scalar_text plain_host [] st (jstr ''...'') 0 False = Inr (jstr ''...'')"
    using st by (simp add: block_evaluation isPlainSafe_def isPlainSafeFirst_def plain_start_def isWhitespace_def)
qed

section \<open>The properties\<close>

text \<open>
  C25: A string that starts with a space and is written as a literal text does not survive, for
  every indentation of at least two: the dumper writes its indentation as the indicator, the
  loader reads the indicator relative to a parent at column -1, and every line that is not empty
  comes back with one space more.
\<close>

theorem leading_space_grows:
  assumes "library_schema (dumped_schema options)" "dump w h (Str s) options = Inr t"
    and "at_char t 0 = Some CHAR_VERTICAL_LINE" "at_char s 0 = Some CHAR_SPACE"
    and "2 \<le> or_number (dopt_indent options) 2"
  shows "(\<exists>h'. load w' h2 (Str t) loptions = Inr (h', Str (widen True s))) \<and> widen True s \<noteq> s"
proof
  show "\<exists>h'. load w' h2 (Str t) loptions = Inr (h', Str (widen True s))"
    using indicated_loaded assms by simp
  have "s \<noteq> []" "hd s = 0x20" using assms(4) by (auto simp: JsPrelude.at_def hd_conv_nth split: if_splits)
  then show "widen True s \<noteq> s" using widen_longer [of s] by auto
qed

section \<open>Examples\<close>

lemma leading_space_dumped:
  "dump plain_host [] (Str [0x20, 0x61, 0x0A, 0x62]) default_dump =
     Inr ((jstr ''|2-'' @ LF @ jstr ''   a'' @ LF @ jstr ''  b'') @ LF)"
  by (rule default_dumped [OF _ refl]) (simp add: block_evaluation)

lemma leading_space_grows_witness:
  "(\<exists>h'. load plain_host [] (Str ((jstr ''|2-'' @ LF @ jstr ''   a'' @ LF @ jstr ''  b'') @ LF)) no_load_options =
      Inr (h', Str (widen True [0x20, 0x61, 0x0A, 0x62])))
   \<and> widen True [0x20, 0x61, 0x0A, 0x62] \<noteq> [0x20, 0x61, 0x0A, 0x62]"
  by (rule leading_space_grows [OF _ leading_space_dumped])
    (simp_all add: library_schema_def dumped_schema_def default_dump_def or_number_def jstr_def JsPrelude.at_def)

end
