(* ===== verification/Es5Numbers.thy ===== *)
theory Es5Numbers
  imports YamlDates
begin

text \<open>
  The conversions and \<open>Number.prototype.toFixed\<close> of \<open>lib/es5-shim.js\<close>, which the
  pages of the REST interface load first in browsers without ES5.

  \<open>toFixed\<close> computes with six digits to the base \<open>10 ^ 7\<close> in an array that all calls
  share. The digits are below \<open>10 ^ 7\<close> and the sums on the way below \<open>2 ^ 53\<close>; the arithmetic
  of the language is exact there and on products with powers of two, so that the numbers are
  modelled as rationals. They are integers but for arguments just above \<open>1e-21\<close>, where the lowest
  digit starts with a fraction.
\<close>

section \<open>Conversions\<close>

definition jsnum_floor :: "jsnum \<Rightarrow> jsnum" where
  "jsnum_floor x = (case x of Fin q \<Rightarrow> Fin (of_int \<lfloor>q\<rfloor>) | _ \<Rightarrow> x)"

text \<open>\<open>(n > 0 || -1) * Math.floor(Math.abs(n))\<close> for a number that is finite and not zero.\<close>

definition ToInteger :: "jsnum \<Rightarrow> jsnum" where
  "ToInteger n =
     (case n of
        NaN \<Rightarrow> Fin 0
      | Fin q \<Rightarrow>
          if q = 0 then n
          else if q > 0 then Fin (of_int \<lfloor>q\<rfloor>)
          else if \<lfloor>- q\<rfloor> = 0 then NegZero else Fin (- of_int \<lfloor>- q\<rfloor>)
      | _ \<Rightarrow> n)"

text \<open>\<open>x >>> 0\<close>\<close>

definition ToUint32 :: "jsnum \<Rightarrow> int" where
  "ToUint32 x =
     (case x of Fin q \<Rightarrow> (if q < 0 then - \<lfloor>- q\<rfloor> else \<lfloor>q\<rfloor>) mod 2 ^ 32 | _ \<Rightarrow> 0)"

section \<open>The helpers of toFixed\<close>

definition base :: rat where "base = 10000000"

text \<open>\<open>a % b\<close> for numbers that are not negative.\<close>

definition remainder :: "rat \<Rightarrow> rat \<Rightarrow> rat" where
  "remainder a b = a - b * of_int \<lfloor>a / b\<rfloor>"

text \<open>The digits are listed from the lowest on, as in the array.\<close>

fun multiply_loop :: "rat \<Rightarrow> rat \<Rightarrow> rat list \<Rightarrow> rat list" where
  "multiply_loop n c2 [] = []"
| "multiply_loop n c2 (d # ds) =
     (let c = c2 + n * d in remainder c base # multiply_loop n (of_int \<lfloor>c / base\<rfloor>) ds)"

definition multiply :: "rat \<Rightarrow> rat \<Rightarrow> rat list \<Rightarrow> rat list" where
  "multiply n c data = multiply_loop n c data"

text \<open>The division starts at the highest digit.\<close>

fun divide_loop :: "rat \<Rightarrow> rat \<Rightarrow> rat list \<Rightarrow> rat list" where
  "divide_loop n c [] = []"
| "divide_loop n c (d # ds) =
     (let c1 = c + d in of_int \<lfloor>c1 / n\<rfloor> # divide_loop n (remainder c1 n * base) ds)"

definition divide :: "rat \<Rightarrow> rat list \<Rightarrow> rat list" where
  "divide n data = rev (divide_loop n 0 (rev data))"

text \<open>The loop from the highest digit down; the last one left is written even if it is 0.\<close>

fun digits_text :: "jsstring \<Rightarrow> rat list \<Rightarrow> jsstring" where
  "digits_text s [] = s"
| "digits_text s (d # ds) =
     digits_text
       (if s \<noteq> [] \<or> ds = [] \<or> d \<noteq> 0 then
          (let t = num_to_string (Fin d) in
           if s = [] then t else s @ js_slice (jstr ''0000000'') 0 (7 - int (length t)) @ t)
        else s) ds"

definition numToString :: "rat list \<Rightarrow> jsstring" where
  "numToString data = digits_text [] (rev data)"

fun pow :: "int \<Rightarrow> nat \<Rightarrow> int \<Rightarrow> int" where
  "pow x n acc =
     (if n = 0 then acc else if n mod 2 = 1 then pow x (n - 1) (acc * x) else pow (x * x) (n div 2) acc)"

declare pow.simps [simp del]

function log_small :: "rat \<Rightarrow> int \<Rightarrow> int" where
  "log_small x2 n = (if x2 \<ge> 2 then log_small (x2 / 2) (n + 1) else n)"
  by pat_completeness auto
termination
proof (relation "measure (\<lambda>(x, n). nat \<lfloor>x\<rfloor>)")
  fix x2 :: rat and n :: int
  assume "x2 \<ge> 2"
  then have "\<lfloor>x2 / 2\<rfloor> < \<lfloor>x2\<rfloor>" "1 \<le> \<lfloor>x2\<rfloor>" by linarith+
  then show "((x2 / 2, n + 1), (x2, n)) \<in> measure (\<lambda>(x, n). nat \<lfloor>x\<rfloor>)" by simp
qed simp

function log_large :: "rat \<Rightarrow> int \<Rightarrow> rat \<times> int" where
  "log_large x2 n = (if x2 \<ge> 4096 then log_large (x2 / 4096) (n + 12) else (x2, n))"
  by pat_completeness auto
termination
proof (relation "measure (\<lambda>(x, n). nat \<lfloor>x\<rfloor>)")
  fix x2 :: rat and n :: int
  assume "x2 \<ge> 4096"
  then have "\<lfloor>x2 / 4096\<rfloor> < \<lfloor>x2\<rfloor>" "1 \<le> \<lfloor>x2\<rfloor>" by linarith+
  then show "((x2 / 4096, n + 12), (x2, n)) \<in> measure (\<lambda>(x, n). nat \<lfloor>x\<rfloor>)" by simp
qed simp

declare log_small.simps [simp del] log_large.simps [simp del]

text \<open>The largest \<open>n\<close> such that \<open>2 ^ n\<close> is at most the argument, 0 for arguments below 1.\<close>

definition log2_floor :: "rat \<Rightarrow> int" where
  "log2_floor x = (let (x2, n) = log_large x 0 in log_small x2 n)"

section \<open>toFixed\<close>

text \<open>\<open>while (j >= 7) { multiply(1e7, 0); j -= 7; }\<close>, and the division by \<open>1 << 23\<close>.\<close>

fun multiply_rounds :: "nat \<Rightarrow> rat list \<Rightarrow> rat list \<times> nat" where
  "multiply_rounds j data = (if 7 \<le> j then multiply_rounds (j - 7) (multiply base 0 data) else (data, j))"

fun divide_rounds :: "nat \<Rightarrow> rat list \<Rightarrow> rat list \<times> nat" where
  "divide_rounds j data = (if 23 \<le> j then divide_rounds (j - 23) (divide (of_int (js_shl 1 23)) data) else (data, j))"

declare multiply_rounds.simps [simp del] divide_rounds.simps [simp del]

text \<open>The double that the literal \<open>1e-21\<close> stands for.\<close>

definition tiny :: rat where
  "tiny = 5316911983139663 / 2 ^ 122"

text \<open>The digits of a number above \<open>1e-21\<close>, with the new contents of the array.\<close>

definition mantissa :: "rat \<Rightarrow> int \<Rightarrow> rat" where
  "mantissa x e =
     (if e < 0 then x * of_int (pow 2 (nat (- e)) 1) else x / of_int (pow 2 (nat e) 1)) * 0x10000000000000"

definition fixed_digits :: "rat list \<Rightarrow> rat \<Rightarrow> nat \<Rightarrow> rat list \<times> jsstring" where
  "fixed_digits data x f =
     (let e0 = log2_floor (x * of_int (pow 2 69 1)) - 69;
          z = mantissa x e0;
          e = 52 - e0;
          data1 = multiply 0 z data
      in if e > 0 then
           let (data2, j) = multiply_rounds f data1;
               data3 = multiply (of_int (pow 10 j 1)) 0 data2;
               (data4, j2) = divide_rounds (nat (e - 1)) data3;
               data5 = divide (of_int (js_shl 1 j2)) data4;
               data6 = divide 2 (multiply 1 1 data5)
           in (data6, numToString data6)
         else
           let data2 = multiply (of_int (js_shl 1 (nat (- e)))) 0 data1
           in (data2, numToString data2 @ js_slice (jstr ''0.00000000000000000000'') 2 (2 + int f)))"

definition place_point :: "jsstring \<Rightarrow> jsstring \<Rightarrow> nat \<Rightarrow> jsstring" where
  "place_point s m f =
     (if f > 0 then
        let k = length m in
        if k \<le> f then s @ js_slice (jstr ''0.0000000000000000000'') 0 (int f - int k + 2) @ m
        else s @ take (k - f) m @ jstr ''.'' @ drop (k - f) m
      else s @ m)"

definition toFixed :: "rat list \<Rightarrow> jsnum \<Rightarrow> jsnum \<Rightarrow> rat list \<times> jsstring res" where
  "toFixed data this fractionDigits =
     (let f0 = (if fractionDigits = NaN then Fin 0 else jsnum_floor fractionDigits);
          invalid = (data, Inl (RangeError ''Number.toFixed called with invalid number of decimals''))
      in case (if f0 = NegZero then Fin 0 else f0) of
           Fin fq \<Rightarrow>
             (if fq < 0 \<or> fq > 20 then invalid
              else
                let f = nat \<lfloor>fq\<rfloor> in
                case (if this = NegZero then Fin 0 else this) of
                  Fin x \<Rightarrow>
                    (if x \<le> - (10 ^ 21) \<or> x \<ge> 10 ^ 21 then (data, Inr (num_to_string (Fin x)))
                     else
                       let s = (if x < 0 then jstr ''-'' else []);
                           (data1, m) = (if \<bar>x\<bar> > tiny then fixed_digits data \<bar>x\<bar> f else (data, jstr ''0''))
                       in (data1, Inr (place_point s m f)))
                | NaN \<Rightarrow> (data, Inr (jstr ''NaN''))
                | y \<Rightarrow> (data, Inr (num_to_string y)))
         | _ \<Rightarrow> invalid)"

end
