(* ===== verification/Es5Fixed.thy ===== *)
theory Es5Fixed
  imports Es5Numbers
begin

text \<open>
  \<open>toFixed\<close> of \<open>lib/es5-shim.js\<close> against the specification of the language: the digits in
  the array represent a number, the helpers compute with it, and the text that comes out is the
  number rounded to the given count of decimals.
\<close>

section \<open>The number in the array\<close>

fun number :: "rat list \<Rightarrow> rat" where
  "number [] = 0"
| "number (d # ds) = d + base * number ds"

definition digits :: "rat list \<Rightarrow> bool" where
  "digits ds \<longleftrightarrow> list_all (\<lambda>d. 0 \<le> d \<and> d < base) ds"

definition whole :: "rat \<Rightarrow> bool" where
  "whole q \<longleftrightarrow> of_int \<lfloor>q\<rfloor> = q"

text \<open>Only the lowest digit may have a fraction.\<close>

definition proper :: "rat list \<Rightarrow> bool" where
  "proper ds \<longleftrightarrow> digits ds \<and> list_all whole (tl ds)"

lemma base_pos [simp]: "0 < base" "base \<noteq> 0" "0 \<le> base"
  by (simp_all add: base_def)

lemma digits_simps [simp]:
  "digits []" "digits (d # ds) \<longleftrightarrow> 0 \<le> d \<and> d < base \<and> digits ds"
  "digits (rev ds) \<longleftrightarrow> digits ds" "digits (ds @ es) \<longleftrightarrow> digits ds \<and> digits es"
  by (auto simp: digits_def)

lemma whole_of_int [simp]: "whole (of_int k)" "whole 0" "whole 1"
  by (simp_all add: whole_def)

lemma whole_iff: "whole q \<longleftrightarrow> (\<exists>k. q = of_int k)"
  by (metis floor_of_int whole_def)

lemma whole_arith [intro]: "whole a \<Longrightarrow> whole b \<Longrightarrow> whole (a + b)" "whole a \<Longrightarrow> whole b \<Longrightarrow> whole (a - b)"
  "whole a \<Longrightarrow> whole b \<Longrightarrow> whole (a * b)"
  unfolding whole_iff by (metis of_int_add) (metis of_int_diff, metis of_int_mult)

lemma whole_base [simp]: "whole base"
  unfolding whole_iff base_def by (rule exI [of _ 10000000]) simp

lemma number_nonneg: "digits ds \<Longrightarrow> 0 \<le> number ds"
  by (induction ds) auto

lemma floor_div_bounds:
  fixes a b :: rat
  assumes "0 < b"
  shows "b * of_int \<lfloor>a / b\<rfloor> \<le> a" "a < b * of_int \<lfloor>a / b\<rfloor> + b"
proof -
  have eq: "b * (a / b) = a" using assms by simp
  have "b * of_int \<lfloor>a / b\<rfloor> \<le> b * (a / b)" "b * (a / b) < b * (of_int \<lfloor>a / b\<rfloor> + 1)"
    using assms by (simp_all only: mult_le_cancel_left_pos mult_less_cancel_left_pos, linarith+)
  then show "b * of_int \<lfloor>a / b\<rfloor> \<le> a" "a < b * of_int \<lfloor>a / b\<rfloor> + b"
    unfolding eq by (simp_all add: algebra_simps)
qed

lemma remainder_bounds: "0 < b \<Longrightarrow> 0 \<le> remainder a b \<and> remainder a b < b"
  using floor_div_bounds [of b a] by (simp add: remainder_def)

lemma remainder_eq: "b * of_int \<lfloor>a / b\<rfloor> + remainder a b = a"
  by (simp add: remainder_def)

lemma remainder_whole: "whole a \<Longrightarrow> whole b \<Longrightarrow> whole (remainder a b)"
  unfolding remainder_def by (intro whole_arith) simp_all

section \<open>The helpers\<close>

lemma multiply_number:
  assumes "digits ds" "0 \<le> n" "0 \<le> c" "c + n * number ds < base ^ length ds" "ds = [] \<longrightarrow> whole c"
  shows "number (multiply_loop n c ds) = c + n * number ds \<and> digits (multiply_loop n c ds)
    \<and> length (multiply_loop n c ds) = length ds"
  using assms
proof (induction ds arbitrary: c)
  case Nil
  then have "\<lfloor>c\<rfloor> = 0" by (simp add: floor_eq_iff)
  with Nil have "c = 0" by (simp add: whole_def)
  then show ?case by simp
next
  case (Cons d ds)
  let ?c = "c + n * d"
  let ?q = "of_int \<lfloor>?c / base\<rfloor> :: rat"
  have c: "0 \<le> ?c" using Cons.prems by simp
  then have q: "0 \<le> ?q" by simp
  have total: "?c + base * (n * number ds) < base * base ^ length ds"
    using Cons.prems(4) by (simp add: algebra_simps)
  have "base * ?q \<le> ?c" by (rule floor_div_bounds) simp
  with total have "base * (?q + n * number ds) < base * base ^ length ds" by (simp add: algebra_simps)
  then have "?q + n * number ds < base ^ length ds" by simp
  with Cons.IH [of ?q] Cons.prems q have ih: "number (multiply_loop n ?q ds) = ?q + n * number ds"
    "digits (multiply_loop n ?q ds)" "length (multiply_loop n ?q ds) = length ds" by simp_all
  have "remainder ?c base + base * (?q + n * number ds) = ?c + base * (n * number ds)"
    using remainder_eq [of base ?c] by (simp add: algebra_simps)
  with ih remainder_bounds [of base ?c] show ?case by (simp add: Let_def algebra_simps)
qed

text \<open>From the highest digit down.\<close>

definition high_number :: "rat \<Rightarrow> rat list \<Rightarrow> rat" where
  "high_number v ds = foldl (\<lambda>v d. v * base + d) v ds"

lemma multiply_whole:
  "whole n \<Longrightarrow> list_all whole ds \<Longrightarrow> whole c \<Longrightarrow> list_all whole (multiply_loop n c ds)"
proof (induction ds arbitrary: c)
  case (Cons d ds)
  have "whole (c + n * d)" using Cons.prems by (simp add: whole_arith)
  then have "whole (remainder (c + n * d) base)" by (rule remainder_whole) simp
  with Cons show ?case by (simp add: Let_def)
qed simp

lemma high_number_whole: "whole v \<Longrightarrow> list_all whole ks \<Longrightarrow> whole (high_number v ks)"
proof (induction ks arbitrary: v)
  case (Cons k ks)
  then have "whole (v * base + k)" by (simp add: whole_arith)
  with Cons show ?case by (simp add: high_number_def)
qed (simp add: high_number_def)

lemma high_number_simps [simp]:
  "high_number v [] = v" "high_number v (d # ds) = high_number (v * base + d) ds"
  by (simp_all add: high_number_def)

lemma high_number_shift: "high_number (v + u) ds = v * base ^ length ds + high_number u ds"
proof (induction ds arbitrary: v u)
  case (Cons d ds)
  show ?case using Cons [of "v * base" "u * base + d"] by (simp add: algebra_simps)
qed simp

lemma number_rev: "number (rev ds) = high_number 0 ds"
proof -
  have "number (ds @ [d]) = number ds + d * base ^ length ds" for ds d
    by (induction ds) (simp_all add: algebra_simps)
  note snoc = this
  have "number (rev ds) + v * base ^ length ds = high_number v ds" for v
  proof (induction ds arbitrary: v)
    case (Cons d ds)
    show ?case using Cons [of "v * base + d"] snoc [of "rev ds" d] by (simp add: algebra_simps)
  qed simp
  from this [of 0] show ?thesis by simp
qed

lemma divide_number:
  assumes "0 < n" "whole n" "digits ds" "list_all whole (butlast ds)" "0 \<le> r" "r < n" "ds \<noteq> []" "whole r"
  shows "\<exists>rem. 0 \<le> rem \<and> rem < n
    \<and> high_number r ds = n * high_number 0 (divide_loop n (r * base) ds) + rem
    \<and> digits (divide_loop n (r * base) ds) \<and> list_all whole (divide_loop n (r * base) ds)
    \<and> length (divide_loop n (r * base) ds) = length ds"
  using assms
proof (induction ds arbitrary: r)
  case (Cons d ds)
  let ?c = "r * base + d"
  let ?q = "of_int \<lfloor>?c / n\<rfloor> :: rat" and ?r = "remainder ?c n"
  have c: "0 \<le> ?c" using Cons.prems by simp
  have "r \<le> n - 1"
  proof -
    obtain i j where ij: "r = of_int i" "n = of_int j" using Cons.prems(2,8) by (auto simp: whole_iff)
    with Cons.prems(6) have "i \<le> j - 1" by simp
    then have "(of_int i :: rat) \<le> of_int (j - 1)" by (simp only: of_int_le_iff)
    with ij show ?thesis by simp
  qed
  then have "r * base \<le> (n - 1) * base" by (rule mult_right_mono) simp
  then have "?c < n * base" using Cons.prems(3) by (simp add: algebra_simps)
  then have "?c / n < base" using Cons.prems(1) by (simp add: pos_divide_less_eq mult.commute)
  then have q: "0 \<le> ?q" "?q < base" using c Cons.prems(1) by (simp, linarith)
  have r: "0 \<le> ?r" "?r < n" using remainder_bounds [OF Cons.prems(1)] by auto
  have eq: "?c = n * ?q + ?r" using remainder_eq [of n ?c] by simp
  show ?case
  proof (cases "ds = []")
    case True
    with q r eq show ?thesis by (auto simp: Let_def)
  next
    case False
    then have "whole d" using Cons.prems(4) by simp
    then have "whole ?r" using Cons.prems(2,8) by (intro remainder_whole whole_arith) simp_all
    with Cons.IH [of ?r] Cons.prems r False obtain rem where rem: "0 \<le> rem" "rem < n"
        "high_number ?r ds = n * high_number 0 (divide_loop n (?r * base) ds) + rem"
        "digits (divide_loop n (?r * base) ds)" "list_all whole (divide_loop n (?r * base) ds)"
        "length (divide_loop n (?r * base) ds) = length ds" by auto
    have "high_number r (d # ds) = n * ?q * base ^ length ds + high_number ?r ds"
      using high_number_shift [of "n * ?q" ?r ds] eq by simp
    also have "\<dots> = n * high_number 0 (?q # divide_loop n (?r * base) ds) + rem"
      using rem(3,6) high_number_shift [of ?q 0 "divide_loop n (?r * base) ds"] by (simp add: algebra_simps)
    finally show ?thesis using rem q by (auto simp: Let_def)
  qed
qed simp

lemma butlast_rev_whole: "list_all whole (butlast (rev ds)) \<longleftrightarrow> list_all whole (tl ds)"
  by (cases ds) (simp_all add: list_all_iff)

text \<open>The division drops the remainder.\<close>

lemma divide_floor:
  assumes "0 < n" "whole n" "proper ds" "ds \<noteq> []"
  shows "number (divide n ds) = of_int \<lfloor>number ds / n\<rfloor> \<and> digits (divide n ds) \<and> list_all whole (divide n ds)
    \<and> length (divide n ds) = length ds"
proof -
  obtain rem where rem: "0 \<le> rem" "rem < n"
      "high_number 0 (rev ds) = n * high_number 0 (divide_loop n 0 (rev ds)) + rem"
      "digits (divide_loop n 0 (rev ds))" "list_all whole (divide_loop n 0 (rev ds))"
      "length (divide_loop n 0 (rev ds)) = length ds"
    using divide_number [of n "rev ds" 0] assms by (auto simp: proper_def butlast_rev_whole)
  let ?q = "high_number 0 (divide_loop n 0 (rev ds))"
  have "whole ?q" using high_number_whole [OF _ rem(5)] by simp
  then obtain k where k: "?q = of_int k" by (auto simp: whole_iff)
  have "number ds = n * ?q + rem" using rem(3) number_rev [of "rev ds"] by simp
  then have "number ds / n = ?q + rem / n" using assms(1) by (simp add: field_simps)
  moreover have "0 \<le> rem / n" "rem / n < 1" using rem(1,2) assms(1) by simp_all
  ultimately have "\<lfloor>number ds / n\<rfloor> = k" unfolding k by linarith
  then have "of_int \<lfloor>number ds / n\<rfloor> = ?q" using k by simp
  with rem show ?thesis by (simp add: divide_def number_rev list_all_iff)
qed

text \<open>The result of a multiplication is proper again.\<close>

lemma multiply_proper:
  assumes "proper ds" "whole n" "0 \<le> n" "0 \<le> c" "c + n * number ds < base ^ length ds" "ds \<noteq> []"
  shows "proper (multiply n c ds)" "number (multiply n c ds) = c + n * number ds"
    "length (multiply n c ds) = length ds"
proof -
  have *: "number (multiply_loop n c ds) = c + n * number ds \<and> digits (multiply_loop n c ds)
      \<and> length (multiply_loop n c ds) = length ds"
    by (rule multiply_number) (use assms in \<open>simp_all add: proper_def\<close>)
  then show "number (multiply n c ds) = c + n * number ds" "length (multiply n c ds) = length ds"
    by (simp_all add: multiply_def)
  obtain d ks where ds: "ds = d # ks" using assms(6) by (cases ds) auto
  have "list_all whole (tl (multiply n c ds))"
    using assms(1,2) unfolding ds multiply_def
    by (simp add: Let_def multiply_whole proper_def)
  with * show "proper (multiply n c ds)" by (simp add: proper_def multiply_def)
qed

text \<open>Multiplication with 0 forgets what the array held.\<close>

lemma multiply_forgets: "length ds = length es \<Longrightarrow> multiply 0 c ds = multiply 0 c es"
  unfolding multiply_def by (induction ds es arbitrary: c rule: list_induct2) (simp_all add: Let_def)

section \<open>The text of the digits\<close>

lemma pad_zero: "0 < n \<Longrightarrow> pad_digits n 0 = replicate n 0x30"
  using replicate_append_same [of "n - 1" "0x30 :: int"]
  by (cases n) (simp_all add: pad_digits_def decimal_str_step digit_char_decimal)

lemma decimal_append:
  assumes "0 < v" "0 \<le> d" "d < 10 ^ k" "0 < k"
  shows "decimal_str (v * 10 ^ k + d) = decimal_str v @ pad_digits k d"
  using assms
proof (induction k arbitrary: d)
  case (Suc k)
  have "10 \<le> v * 10 ^ Suc k" using Suc.prems(1) by (simp add: order_trans [of 10 "10 * 10 ^ k"])
  then have ge: "\<not> v * 10 ^ Suc k + d < 10" using Suc.prems(2) by simp
  have "v * 10 ^ Suc k = 10 * (v * 10 ^ k)" by simp
  then have split: "(v * 10 ^ Suc k + d) div 10 = v * 10 ^ k + d div 10" "(v * 10 ^ Suc k + d) mod 10 = d mod 10"
    by (simp_all only: div_mult_self4 mod_mult_self4)
  have last: "decimal_str (v * 10 ^ Suc k + d) = decimal_str (v * 10 ^ k + d div 10) @ [0x30 + d mod 10]"
    unfolding decimal_str_step [of "v * 10 ^ Suc k + d"] split using ge by (simp add: digit_char_decimal)
  show ?case
  proof (cases "k = 0")
    case True
    with Suc.prems last show ?thesis by (simp add: pad_one [simplified])
  next
    case False
    have "d div 10 < 10 ^ k" using Suc.prems by simp
    with Suc False last show ?thesis by (simp add: pad_step pos_imp_zdiv_nonneg_iff)
  qed
qed simp

lemma whole_text:
  assumes "0 \<le> k" "k < 10000000"
  shows "num_to_string (Fin (of_int k)) = decimal_str k"
  using assms by (simp add: num_to_string_def positive_to_string_def)

lemma decimal_length:
  assumes "0 \<le> k" "k < 10 ^ n" "0 < n"
  shows "length (decimal_str k) \<le> n" "replicate (n - length (decimal_str k)) 0x30 @ decimal_str k = pad_digits n k"
  using pad_props(1) [OF assms] by (simp_all add: pad_digits_def Let_def)

lemma padded_text:
  assumes "0 \<le> k" "k < 10000000"
  shows "js_slice (jstr ''0000000'') 0 (7 - int (length (decimal_str k))) @ decimal_str k = pad_digits 7 k"
proof -
  have len: "length (decimal_str k) \<le> 7" "replicate (7 - length (decimal_str k)) 0x30 @ decimal_str k = pad_digits 7 k"
    using decimal_length [of k 7] assms by simp_all
  have "jstr ''0000000'' = replicate 7 0x30" by (simp add: eval_nat_numeral)
  then have "js_slice (jstr ''0000000'') 0 (7 - int (length (decimal_str k))) = replicate (7 - length (decimal_str k)) 0x30"
    using len(1) by (simp add: js_slice_def nat_diff_distrib)
  with len(2) show ?thesis by simp
qed

lemma digits_text_number:
  assumes "digits ds" "list_all whole ds" "0 < v"
  shows "digits_text (decimal_str v) ds = decimal_str \<lfloor>high_number (of_int v) ds\<rfloor>"
  using assms
proof (induction ds arbitrary: v)
  case (Cons d ds)
  obtain k where k: "d = of_int k" using Cons.prems(2) by (auto simp: whole_iff)
  with Cons.prems(1) have range: "0 \<le> k" "k < 10000000" by (simp_all add: base_def)
  have ne: "decimal_str v \<noteq> []" by (subst decimal_str_step) simp
  have "decimal_str (v * 10 ^ 7 + k) = decimal_str v @ pad_digits 7 k"
    by (rule decimal_append) (use Cons.prems(3) range in simp_all)
  then have "digits_text (decimal_str v) (d # ds) = digits_text (decimal_str (v * 10 ^ 7 + k)) ds"
    using ne padded_text [OF range] k whole_text [OF range] by (simp add: Let_def)
  moreover have "0 < v * 10 ^ 7 + k" using Cons.prems(3) range by simp
  ultimately show ?case using Cons k by (simp add: base_def)
qed simp

lemma numToString_number:
  assumes "digits ds" "list_all whole ds" "ds \<noteq> []"
  shows "numToString ds = decimal_str \<lfloor>number ds\<rfloor>"
proof -
  have "digits_text [] ks = decimal_str \<lfloor>high_number 0 ks\<rfloor>" if "digits ks" "list_all whole ks" "ks \<noteq> []" for ks
    using that
  proof (induction ks)
    case (Cons d ks)
    obtain k where k: "d = of_int k" using Cons.prems(2) by (auto simp: whole_iff)
    with Cons.prems(1) have range: "0 \<le> k" "k < 10000000" by (simp_all add: base_def)
    show ?case
    proof (cases "ks = []")
      case True
      with k whole_text [OF range] show ?thesis by simp
    next
      case False
      show ?thesis
      proof (cases "k = 0")
        case True
        with False k Cons show ?thesis by simp
      next
        case nonzero: False
        with range have "0 < k" by simp
        with digits_text_number [of ks k] Cons.prems k nonzero whole_text [OF range] show ?thesis by simp
      qed
    qed
  qed simp
  from this [of "rev ds"] assms show ?thesis
    using number_rev [of "rev ds"] by (simp add: numToString_def list_all_iff)
qed

section \<open>Powers and logarithms\<close>

lemma pow_power: "pow x n acc = acc * x ^ n"
proof (induction x n acc rule: pow.induct)
  case (1 x n acc)
  consider "n = 0" | "0 < n" "n mod 2 = 1" | "0 < n" "n mod 2 = 0" by fastforce
  then show ?case
  proof cases
    case 2
    then have "x ^ n = x * x ^ (n - 1)" by (cases n) simp_all
    with 1 2 show ?thesis by (simp add: pow.simps [of x n])
  next
    case 3
    have "2 * (n div 2) = n" using 3 by presburger
    then have "x ^ n = (x * x) ^ (n div 2)"
      using power_mult [of x 2 "n div 2"] by (simp add: power2_eq_square)
    with 1 3 show ?thesis by (simp add: pow.simps [of x n])
  qed (simp add: pow.simps)
qed

lemma log_small_spec:
  "1 \<le> x \<Longrightarrow> \<exists>k. log_small x n = n + int k \<and> 2 ^ k \<le> x \<and> x < 2 ^ Suc k"
proof (induction x n rule: log_small.induct)
  case (1 x n)
  show ?case
  proof (cases "x \<ge> 2")
    case True
    with 1 obtain k where "log_small (x / 2) (n + 1) = n + 1 + int k" "2 ^ k \<le> x / 2" "x / 2 < 2 ^ Suc k" by auto
    with True show ?thesis by (intro exI [of _ "Suc k"]) (simp add: log_small.simps [of x n])
  next
    case False
    with 1(2) show ?thesis by (intro exI [of _ 0]) (simp add: log_small.simps [of x n])
  qed
qed

lemma log_large_spec:
  "1 \<le> x \<Longrightarrow> \<exists>k y. log_large x n = (y, n + int k) \<and> x = y * 2 ^ k \<and> 1 \<le> y"
proof (induction x n rule: log_large.induct)
  case (1 x n)
  show ?case
  proof (cases "x \<ge> 4096")
    case True
    then have "1 \<le> x / 4096" by simp
    from 1(1) [OF True this] obtain k y where y: "log_large (x / 4096) (n + 12) = (y, n + 12 + int k)"
      "x / 4096 = y * 2 ^ k" "1 \<le> y" by blast
    have "log_large x n = (y, n + int (k + 12))"
      using True y(1) log_large.simps [of x n] by simp
    moreover have "x = y * 2 ^ (k + 12)" using y(2) by (simp add: power_add)
    ultimately show ?thesis using y(3) by blast
  next
    case False
    with 1(2) show ?thesis by (intro exI [of _ 0] exI [of _ x]) (simp add: log_large.simps [of x n])
  qed
qed

lemma log2_floor_spec: "1 \<le> x \<Longrightarrow> \<exists>k. log2_floor x = int k \<and> 2 ^ k \<le> x \<and> x < 2 ^ Suc k"
proof -
  assume "1 \<le> x"
  then obtain k y where y: "log_large x 0 = (y, int k)" "x = y * 2 ^ k" "1 \<le> y" using log_large_spec [of x 0] by auto
  then obtain j where j: "log_small y (int k) = int k + int j" "2 ^ j \<le> y" "y < 2 ^ Suc j"
    using log_small_spec [of y "int k"] by auto
  have "2 ^ (k + j) \<le> x" "x < 2 ^ Suc (k + j)"
    using y(2) j(2,3) by (simp_all add: power_add mult.commute [of "2 ^ k"])
  with y(1) j(1) show ?thesis by (intro exI [of _ "k + j"]) (simp add: log2_floor_def)
qed

lemma log2_floor_small: "x < 1 \<Longrightarrow> log2_floor x = 0"
  by (simp add: log2_floor_def log_large.simps [of x 0] log_small.simps [of x 0])

section \<open>The rounds\<close>

lemma multiply_rounds_spec:
  assumes "proper ds" "number ds * 10 ^ j < base ^ length ds" "ds \<noteq> []"
  shows "\<exists>es. multiply_rounds j ds = (es, j mod 7) \<and> proper es \<and> length es = length ds
    \<and> number es * 10 ^ (j mod 7) = number ds * 10 ^ j"
  using assms
proof (induction j arbitrary: ds rule: less_induct)
  case (less j)
  show ?case
  proof (cases "7 \<le> j")
    case True
    have nonneg: "0 \<le> number ds" using less.prems(1) number_nonneg by (simp add: proper_def)
    have ten: "(10 :: rat) ^ j = base * 10 ^ (j - 7)"
      using True power_add [of "10 :: rat" 7 "j - 7"] by (simp add: base_def)
    have "base * number ds * 1 \<le> base * number ds * 10 ^ (j - 7)"
      using nonneg by (intro mult_left_mono) simp_all
    also have "\<dots> = number ds * 10 ^ j" unfolding ten by (simp only: ac_simps)
    finally have "0 + base * number ds < base ^ length ds" using less.prems(2) by simp
    from multiply_proper [OF less.prems(1) whole_base base_pos(3) order_refl this less.prems(3)]
    have step: "proper (multiply base 0 ds)" "number (multiply base 0 ds) = base * number ds"
      "length (multiply base 0 ds) = length ds" by simp_all
    have "number (multiply base 0 ds) * 10 ^ (j - 7) = number ds * 10 ^ j" using step(2) ten by simp
    moreover have "multiply base 0 ds \<noteq> []" using step(3) less.prems(3) by auto
    ultimately obtain es where "multiply_rounds (j - 7) (multiply base 0 ds) = (es, (j - 7) mod 7)" "proper es"
        "length es = length ds" "number es * 10 ^ ((j - 7) mod 7) = number ds * 10 ^ j"
      using less.IH [of "j - 7" "multiply base 0 ds"] step(1,3) less.prems(2) True by auto
    moreover have "(j - 7) mod 7 = j mod 7" using True by (simp add: le_mod_geq)
    ultimately show ?thesis using True by (simp add: multiply_rounds.simps [of j])
  next
    case False
    with less.prems show ?thesis by (simp add: multiply_rounds.simps [of j])
  qed
qed

lemma floor_floor_div:
  fixes x :: rat
  assumes "0 < n"
  shows "\<lfloor>of_int \<lfloor>x\<rfloor> / of_int n :: rat\<rfloor> = \<lfloor>x / of_int n\<rfloor>"
proof -
  have "k \<le> \<lfloor>of_int \<lfloor>x\<rfloor> / of_int n :: rat\<rfloor> \<longleftrightarrow> k \<le> \<lfloor>x / of_int n\<rfloor>" for k
  proof -
    have "k \<le> \<lfloor>of_int \<lfloor>x\<rfloor> / of_int n :: rat\<rfloor> \<longleftrightarrow> of_int (k * n) \<le> (of_int \<lfloor>x\<rfloor> :: rat)"
      using assms by (simp add: le_floor_iff pos_le_divide_eq)
    also have "\<dots> \<longleftrightarrow> k * n \<le> \<lfloor>x\<rfloor>" by (simp only: of_int_le_iff)
    also have "\<dots> \<longleftrightarrow> of_int (k * n) \<le> x" by (simp only: le_floor_iff)
    also have "\<dots> \<longleftrightarrow> k \<le> \<lfloor>x / of_int n\<rfloor>" using assms by (simp add: le_floor_iff pos_le_divide_eq)
    finally show ?thesis .
  qed
  then show ?thesis by (meson order_antisym order_refl)
qed

lemma shift_power: "j \<le> 30 \<Longrightarrow> js_shl 1 j = 2 ^ j"
proof -
  assume "j \<le> 30"
  then have "(2 :: int) ^ j \<le> 2 ^ 30" by (intro power_increasing) simp_all
  then show ?thesis using js_shl_mult [of 1 j] by simp
qed

lemma divide_shift:
  assumes "proper ds" "ds \<noteq> []" "j \<le> 30"
  shows "proper (divide (of_int (js_shl 1 j)) ds)" "list_all whole (divide (of_int (js_shl 1 j)) ds)"
    "length (divide (of_int (js_shl 1 j)) ds) = length ds"
    "number (divide (of_int (js_shl 1 j)) ds) = of_int \<lfloor>number ds / 2 ^ j\<rfloor>"
proof -
  have n: "(of_int (js_shl 1 j) :: rat) = 2 ^ j" using shift_power [OF assms(3)] by simp
  have "number (divide (2 ^ j) ds) = of_int \<lfloor>number ds / 2 ^ j\<rfloor> \<and> digits (divide (2 ^ j) ds)
      \<and> list_all whole (divide (2 ^ j) ds) \<and> length (divide (2 ^ j) ds) = length ds"
  proof (rule divide_floor)
    have "whole (of_int (2 ^ j))" by (rule whole_of_int)
    then show "whole (2 ^ j)" by simp
  qed (use assms in simp_all)
  moreover have "list_all whole (tl es)" if "list_all whole es" for es using that by (cases es) simp_all
  ultimately show "proper (divide (of_int (js_shl 1 j)) ds)" "list_all whole (divide (of_int (js_shl 1 j)) ds)"
    "length (divide (of_int (js_shl 1 j)) ds) = length ds"
    "number (divide (of_int (js_shl 1 j)) ds) = of_int \<lfloor>number ds / 2 ^ j\<rfloor>"
    unfolding n proper_def by blast+
qed

lemma floor_div_powers:
  "\<lfloor>(of_int \<lfloor>(x :: rat) / 2 ^ a\<rfloor> :: rat) / 2 ^ b\<rfloor> = \<lfloor>x / 2 ^ (a + b)\<rfloor>"
  using floor_floor_div [of "2 ^ b" "x / 2 ^ a"] by (simp add: power_add)

lemma divide_rounds_spec:
  assumes "proper ds" "ds \<noteq> []"
  shows "\<exists>es. divide_rounds j ds = (es, j mod 23) \<and> proper es \<and> length es = length ds
    \<and> \<lfloor>number es / 2 ^ (j mod 23)\<rfloor> = \<lfloor>number ds / 2 ^ j\<rfloor>"
  using assms
proof (induction j arbitrary: ds rule: less_induct)
  case (less j)
  show ?case
  proof (cases "23 \<le> j")
    case True
    let ?es = "divide (of_int (js_shl 1 23)) ds"
    note step = divide_shift [OF less.prems, of 23]
    have "?es \<noteq> []" using step(3) less.prems(2) by auto
    with less.IH [of "j - 23" ?es] step(1,3) True obtain es where
      "divide_rounds (j - 23) ?es = (es, (j - 23) mod 23)" "proper es" "length es = length ds"
      "\<lfloor>number es / 2 ^ ((j - 23) mod 23)\<rfloor> = \<lfloor>number ?es / 2 ^ (j - 23)\<rfloor>" by auto
    moreover have "(j - 23) mod 23 = j mod 23" using True by (simp add: le_mod_geq)
    moreover have "\<lfloor>number ?es / 2 ^ (j - 23)\<rfloor> = \<lfloor>number ds / 2 ^ j\<rfloor>"
      using floor_div_powers [of "number ds" 23 "j - 23"] step(4) True by simp
    ultimately show ?thesis using True by (simp add: divide_rounds.simps [of j])
  next
    case False
    with less.prems show ?thesis by (simp add: divide_rounds.simps [of j])
  qed
qed

end
