(* ===== verification/Es5ToFixed.thy ===== *)
theory Es5ToFixed
  imports Es5Fixed
begin

text \<open>
  The outcome of \<open>toFixed\<close>: the rounding that the specification of the language asks for, for
  every double and every count of decimals, and whatever an earlier call left in the array.
\<close>

section \<open>Doubles\<close>

definition double :: "rat \<Rightarrow> bool" where
  "double x \<longleftrightarrow> (\<exists>m e. \<bar>m\<bar> < 2 ^ 53 \<and> - 1074 \<le> e \<and> e \<le> 971 \<and> x = of_int m * 2 powi e)"

lemma double_uminus: "double x \<Longrightarrow> double (- x)"
proof -
  assume "double x"
  then obtain m e where "\<bar>m\<bar> < 2 ^ 53" "- 1074 \<le> e" "e \<le> 971" "x = of_int m * 2 powi e"
    unfolding double_def by blast
  then show ?thesis unfolding double_def by (intro exI [of _ "- m"] exI [of _ e]) simp
qed

lemma double_abs: "double x \<Longrightarrow> double \<bar>x\<bar>"
  using double_uminus [of x] by (simp add: abs_if)

text \<open>Above \<open>2 ^ 52\<close> they are integers, and multiples of their last place.\<close>

lemma double_multiple:
  assumes "double x" "2 ^ (52 + n) \<le> x"
  shows "\<exists>k. x = of_int k * 2 ^ n"
proof -
  obtain m e where m: "\<bar>m\<bar> < 2 ^ 53" "x = of_int m * 2 powi e" using assms(1) by (auto simp: double_def)
  have "of_int m < (of_int (2 ^ 53) :: rat)" using m(1) by (subst of_int_less_iff) simp
  then have "of_int m * 2 powi e < (2 ^ 53 * 2 powi e :: rat)" by simp
  also have "\<dots> = 2 powi (53 + e)" by (simp add: power_int_add)
  finally have "(2 :: rat) powi int (52 + n) < 2 powi (53 + e)"
    using assms(2) m(2) by (simp only: power_int_of_nat)
  then have le: "int n \<le> e"
    using power_int_increasing [of "53 + e" "int (52 + n)" "2 :: rat"] by fastforce
  have "(2 :: rat) powi e = 2 powi (int n + (e - int n))" by simp
  also have "\<dots> = 2 powi int n * 2 powi (e - int n)" by (rule power_int_add) simp
  also have "\<dots> = 2 ^ n * 2 ^ nat (e - int n)" using le by (simp add: power_int_nonneg_exp)
  finally have "x = of_int (m * 2 ^ nat (e - int n)) * 2 ^ n" using m(2) by simp
  then show ?thesis by blast
qed

section \<open>The mantissa\<close>

lemma pow_two: "of_int (pow 2 n 1) = (2 :: rat) ^ n"
  by (simp add: pow_power)

lemma base_digits: "base ^ 6 = 10 ^ 42"
  by (simp add: base_def)

text \<open>The exponent of the argument, and the mantissa: an integer where the exponent is at least 52.\<close>

definition log_exponent :: "rat \<Rightarrow> int" where
  "log_exponent x = log2_floor (x * of_int (pow 2 69 1)) - 69"

lemma exponent_mantissa:
  assumes "0 < x" "x < 10 ^ 21"
  shows "log_exponent x < 52 \<Longrightarrow> mantissa x (log_exponent x) = x * 2 ^ nat (52 - log_exponent x)"
    "log_exponent x \<ge> 52 \<Longrightarrow> mantissa x (log_exponent x) * 2 ^ nat (log_exponent x - 52) = x \<and> 2 ^ nat (log_exponent x) \<le> x"
    "0 \<le> mantissa x (log_exponent x)" "mantissa x (log_exponent x) < 2 ^ 53"
    "- 69 \<le> log_exponent x" "log_exponent x < 70"
proof -
  let ?y = "x * 2 ^ 69" and ?e = "log_exponent x"
  have e: "?e = log2_floor ?y - 69" by (simp add: log_exponent_def pow_two)
  have "\<exists>k. log2_floor ?y = int k \<and> (k = 0 \<or> 2 ^ k \<le> ?y) \<and> ?y < 2 ^ Suc k"
  proof (cases "1 \<le> ?y")
    case True
    then show ?thesis using log2_floor_spec by blast
  next
    case False
    then show ?thesis using log2_floor_small [of ?y] by (intro exI [of _ 0]) simp
  qed
  then obtain k where k: "log2_floor ?y = int k" "k = 0 \<or> 2 ^ k \<le> ?y" "?y < 2 ^ Suc k" by blast
  have ek: "?e = int k - 69" using e k(1) by simp
  have "k < 139"
  proof (rule ccontr)
    assume "\<not> k < 139"
    then have "(2 :: rat) ^ 139 \<le> 2 ^ k" by (intro power_increasing) simp_all
    with \<open>\<not> k < 139\<close> k(2) have "2 ^ 139 \<le> ?y" by simp
    with assms(2) show False by simp
  qed
  then show "?e < 70" "- 69 \<le> ?e" using ek by simp_all
  have low: "mantissa x ?e = x * 2 ^ nat (52 - ?e)" if "?e < 52"
  proof (cases "?e < 0")
    case True
    then have "nat (52 - ?e) = nat (- ?e) + 52" by simp
    with True show ?thesis by (simp only: mantissa_def pow_two power_add) simp
  next
    case False
    then have "52 = nat (52 - ?e) + nat ?e" using that by simp
    then have "(0x10000000000000 :: rat) = 2 ^ nat (52 - ?e) * 2 ^ nat ?e" by (simp add: power_add [symmetric])
    then have "x * 0x10000000000000 / 2 ^ nat ?e = x * 2 ^ nat (52 - ?e)" unfolding \<open>0x10000000000000 = _\<close> by simp
    with False show ?thesis by (simp add: mantissa_def pow_two)
  qed
  then show "?e < 52 \<Longrightarrow> mantissa x ?e = x * 2 ^ nat (52 - ?e)" .
  have high: "mantissa x ?e * 2 ^ nat (?e - 52) = x" if "?e \<ge> 52"
  proof -
    have "nat ?e = 52 + nat (?e - 52)" using that by simp
    then have "(2 :: rat) ^ nat ?e = 0x10000000000000 * 2 ^ nat (?e - 52)" by (simp add: power_add)
    with that show ?thesis by (simp add: mantissa_def pow_two)
  qed
  moreover have "2 ^ nat ?e \<le> x" if "?e \<ge> 52"
  proof -
    have "k = nat ?e + 69" using ek that by simp
    then have "2 ^ nat ?e * 2 ^ 69 \<le> x * 2 ^ 69" using k(2) by (simp only: power_add [symmetric]) simp
    then show ?thesis by simp
  qed
  ultimately show "?e \<ge> 52 \<Longrightarrow> mantissa x ?e * 2 ^ nat (?e - 52) = x \<and> 2 ^ nat ?e \<le> x" by simp
  show "0 \<le> mantissa x ?e" using assms(1) by (simp add: mantissa_def pow_two)
  show "mantissa x ?e < 2 ^ 53"
  proof (cases "?e < 52")
    case True
    then have "nat (52 - ?e) + Suc k = 122" using ek by simp
    then have "(2 :: rat) ^ nat (52 - ?e) * 2 ^ Suc k = 2 ^ 122" by (simp only: power_add [symmetric])
    moreover have "?y * 2 ^ nat (52 - ?e) < 2 ^ Suc k * 2 ^ nat (52 - ?e)" using k(3) by simp
    ultimately have "x * 2 ^ nat (52 - ?e) * 2 ^ 69 < 2 ^ 53 * 2 ^ 69" by (simp add: ac_simps)
    then show ?thesis using low [OF True] by simp
  next
    case False
    then have "Suc k = 53 + nat (?e - 52) + 69" using ek by simp
    then have "x * 2 ^ 69 < 2 ^ 53 * 2 ^ nat (?e - 52) * 2 ^ 69" using k(3) by (simp only: power_add)
    then have "mantissa x ?e * 2 ^ nat (?e - 52) < 2 ^ 53 * 2 ^ nat (?e - 52)" using high False by simp
    then show ?thesis by simp
  qed
qed

section \<open>The digits\<close>

text \<open>The first multiplication forgets what an earlier call left.\<close>

lemma started:
  assumes "length ds = 6" "0 \<le> z" "z < 10 ^ 42"
  shows "proper (multiply 0 z ds)" "number (multiply 0 z ds) = z" "length (multiply 0 z ds) = 6"
proof -
  have eq: "multiply 0 z ds = multiply 0 z (replicate 6 0)" using assms(1) by (intro multiply_forgets) simp
  have "proper (replicate 6 0)" by (simp add: proper_def digits_def list_all_iff)
  from multiply_proper [OF this, of 0 z] assms(2,3)
  show "proper (multiply 0 z ds)" "number (multiply 0 z ds) = z" "length (multiply 0 z ds) = 6"
    unfolding eq by (simp_all add: base_digits)
qed

lemma six_nonempty: "length ds = 6 \<Longrightarrow> ds \<noteq> []"
  by auto

text \<open>A half is added to what the divisions leave, and the rest is dropped.\<close>

lemma half_up: "\<lfloor>(1 + of_int \<lfloor>(y :: rat) / 2 ^ n\<rfloor>) / 2 :: rat\<rfloor> = \<lfloor>y / 2 ^ Suc n + 1 / 2\<rfloor>"
proof -
  have "\<lfloor>of_int \<lfloor>y / 2 ^ n + 1\<rfloor> / of_int 2 :: rat\<rfloor> = \<lfloor>(y / 2 ^ n + 1) / of_int 2\<rfloor>"
    by (rule floor_floor_div) simp
  moreover have "(y / 2 ^ n + 1) / of_int 2 = y / 2 ^ Suc n + 1 / 2" by (simp add: add_divide_distrib)
  moreover have "of_int \<lfloor>y / 2 ^ n + 1\<rfloor> = (1 + of_int \<lfloor>y / 2 ^ n\<rfloor> :: rat)" by simp
  ultimately show ?thesis by (simp only: add.commute [of 1] of_int_numeral)
qed

lemma fixed_digits_fraction:
  assumes "length ds = 6" "0 < x" "x < 10 ^ 21" "f \<le> 20" "log_exponent x < 52"
  shows "snd (fixed_digits ds x f) = decimal_str \<lfloor>x * 10 ^ f + 1 / 2\<rfloor> \<and> length (fst (fixed_digits ds x f)) = 6"
proof -
  let ?e = "52 - log_exponent x" and ?z = "mantissa x (log_exponent x)"
  note m = exponent_mantissa [OF assms(2,3)]
  have z: "0 \<le> ?z" "?z < 2 ^ 53" "?z = x * 2 ^ nat ?e" using m(1,3,4) assms(5) by simp_all
  have start: "proper (multiply 0 ?z ds)" "number (multiply 0 ?z ds) = ?z" "length (multiply 0 ?z ds) = 6"
    using started [OF assms(1) z(1)] z(2) by simp_all
  then have ne: "multiply 0 ?z ds \<noteq> []" by auto
  have ten: "(10 :: rat) ^ f \<le> 10 ^ 20" using assms(4) by (intro power_increasing) simp_all
  have "?z * 10 ^ f \<le> 2 ^ 53 * 10 ^ 20" using z(1,2) ten by (intro mult_mono) simp_all
  then have bound: "?z * 10 ^ f < 10 ^ 42" "?z * 10 ^ f + 1 < 10 ^ 42" by simp_all
  obtain data2 where d2: "multiply_rounds f (multiply 0 ?z ds) = (data2, f mod 7)" "proper data2"
      "length data2 = 6" "number data2 * 10 ^ (f mod 7) = ?z * 10 ^ f"
    using multiply_rounds_spec [OF start(1) _ ne, of f] start(2,3) bound(1) by (auto simp: base_digits)
  define n where "n = (of_int (pow 10 (f mod 7) 1) :: rat)"
  have n: "n = 10 ^ (f mod 7)" by (simp add: n_def pow_power)
  have wn: "whole n" unfolding n_def by simp
  have d3: "proper (multiply n 0 data2)" "number (multiply n 0 data2) = ?z * 10 ^ f" "length (multiply n 0 data2) = 6"
    using multiply_proper [OF d2(2) wn _ _ _ six_nonempty [OF d2(3)], of 0] d2(3,4) n bound(1) by (auto simp: base_digits mult.commute)
  let ?j = "nat (?e - 1)"
  obtain data4 where d4: "divide_rounds ?j (multiply n 0 data2) = (data4, ?j mod 23)" "proper data4"
      "length data4 = 6" "\<lfloor>number data4 / 2 ^ (?j mod 23)\<rfloor> = \<lfloor>?z * 10 ^ f / 2 ^ ?j\<rfloor>"
    using divide_rounds_spec [OF d3(1) six_nonempty [OF d3(3)], of ?j] d3(2,3) by force
  let ?data5 = "divide (of_int (js_shl 1 (?j mod 23))) data4"
  have "?j mod 23 < 23" by simp
  then have d5: "proper ?data5" "length ?data5 = 6" "number ?data5 = of_int \<lfloor>?z * 10 ^ f / 2 ^ ?j\<rfloor>"
    using divide_shift [OF d4(2) six_nonempty [OF d4(3)], of "?j mod 23"] d4(3,4) by auto
  have "number ?data5 \<le> ?z * 10 ^ f"
  proof -
    have "?z * 10 ^ f * 1 \<le> ?z * 10 ^ f * 2 ^ ?j" using z(1) by (intro mult_left_mono) simp_all
    then have "?z * 10 ^ f / 2 ^ ?j \<le> ?z * 10 ^ f" by (simp add: pos_divide_le_eq)
    then show ?thesis unfolding d5(3) using of_int_floor_le order_trans by blast
  qed
  then have fits: "1 + 1 * number ?data5 < base ^ length ?data5" using bound(2) d5(2) by (simp add: base_digits)
  have d6: "proper (multiply 1 1 ?data5)" "number (multiply 1 1 ?data5) = 1 + number ?data5"
      "length (multiply 1 1 ?data5) = 6"
    using multiply_proper [OF d5(1) _ _ _ fits six_nonempty [OF d5(2)]] d5(2) by auto
  have two: "whole 2" by (simp add: whole_def)
  have d7: "number (divide 2 (multiply 1 1 ?data5)) = of_int \<lfloor>(1 + number ?data5) / 2\<rfloor>"
      "digits (divide 2 (multiply 1 1 ?data5))" "list_all whole (divide 2 (multiply 1 1 ?data5))"
      "length (divide 2 (multiply 1 1 ?data5)) = 6"
    using divide_floor [OF _ two d6(1) six_nonempty [OF d6(3)]] d6(2,3) by auto
  have "Suc ?j = nat ?e" using assms(5) by simp
  then have "\<lfloor>(1 + number ?data5) / 2\<rfloor> = \<lfloor>?z * 10 ^ f / 2 ^ nat ?e + 1 / 2\<rfloor>"
    using half_up [of "?z * 10 ^ f" ?j] d5(3) by simp
  also have "?z * 10 ^ f / 2 ^ nat ?e = x * 10 ^ f" using z(3) by simp
  finally have "numToString (divide 2 (multiply 1 1 ?data5)) = decimal_str \<lfloor>x * 10 ^ f + 1 / 2\<rfloor>"
    using numToString_number [OF d7(2,3)] d7(1,4) by force
  moreover have "fixed_digits ds x f = (divide 2 (multiply 1 1 ?data5), numToString (divide 2 (multiply 1 1 ?data5)))"
    using assms(5) d2(1) d4(1)
    by (simp add: fixed_digits_def log_exponent_def [symmetric] n_def [symmetric] Let_def)
  ultimately show ?thesis using d7(4) by simp
qed

lemma fixed_digits_integer:
  assumes "length ds = 6" "double x" "0 < x" "x < 10 ^ 21" "f \<le> 20" "52 \<le> log_exponent x"
  shows "snd (fixed_digits ds x f) = decimal_str \<lfloor>x * 10 ^ f + 1 / 2\<rfloor> \<and> length (fst (fixed_digits ds x f)) = 6"
proof -
  let ?k = "nat (log_exponent x - 52)" and ?z = "mantissa x (log_exponent x)"
  note m = exponent_mantissa [OF assms(3,4)]
  have z: "0 \<le> ?z" "?z < 2 ^ 53" "?z * 2 ^ ?k = x" "2 ^ nat (log_exponent x) \<le> x" using m(2,3,4) assms(6) by simp_all
  have "nat (log_exponent x) = 52 + ?k" using assms(6) by simp
  then obtain i where "x = of_int i * 2 ^ ?k" using double_multiple [OF assms(2), of ?k] z(4) by auto
  from trans [OF z(3) this] have "?z = of_int i" by simp
  then have whole: "whole ?z" by simp
  have start: "proper (multiply 0 ?z ds)" "number (multiply 0 ?z ds) = ?z" "length (multiply 0 ?z ds) = 6"
    using started [OF assms(1) z(1)] z(2) by simp_all
  have low: "list_all whole (multiply 0 ?z ds)"
  proof -
    have "multiply 0 ?z ds = multiply 0 ?z (replicate 6 0)" using assms(1) by (intro multiply_forgets) simp
    moreover have "list_all whole (replicate 6 0)" by (simp add: list_all_iff)
    ultimately show ?thesis using whole multiply_whole [of 0 "replicate 6 0" ?z] by (simp only: multiply_def whole_of_int)
  qed
  have "?k \<le> 30" using m(6) by simp
  then have shift: "(of_int (js_shl 1 ?k) :: rat) = 2 ^ ?k" using shift_power by simp
  have two: "whole ((2 :: rat) ^ ?k)" by (metis of_int_numeral of_int_power whole_of_int(1))
  have fits: "0 + 2 ^ ?k * number (multiply 0 ?z ds) < base ^ length (multiply 0 ?z ds)"
    using start(2,3) z(3) assms(4) by (simp add: base_digits mult.commute)
  let ?data = "multiply (2 ^ ?k) 0 (multiply 0 ?z ds)"
  have d: "proper ?data" "number ?data = x" "length ?data = 6"
    using multiply_proper [OF start(1) two _ _ fits six_nonempty [OF start(3)]] start(2,3) z(3) by (auto simp: mult.commute)
  have "list_all whole ?data" using low two by (simp add: multiply_def [of "2 ^ ?k"] multiply_whole)
  then have shown: "numToString ?data = decimal_str \<lfloor>x\<rfloor>"
    using numToString_number [of ?data] d by (force simp: proper_def)
  have x: "x = of_int (i * 2 ^ ?k)" using \<open>x = of_int i * 2 ^ ?k\<close> by simp
  then have "0 < i * 2 ^ ?k" using assms(3) by (simp only: of_int_0_less_iff)
  have "js_slice (jstr ''0.00000000000000000000'') 2 (2 + int f) = replicate f 0x30"
  proof -
    have "jstr ''0.00000000000000000000'' = [0x30, 0x2E] @ replicate 20 0x30" by (simp add: eval_nat_numeral)
    moreover have "nat (2 + int f) = Suc (Suc f)" by simp
    ultimately show ?thesis using assms(5) by (simp only: js_slice_def) (simp add: min_def)
  qed
  moreover have "decimal_str \<lfloor>x\<rfloor> @ replicate f 0x30 = decimal_str \<lfloor>x * 10 ^ f + 1 / 2\<rfloor>"
  proof -
    have "\<lfloor>x * 10 ^ f + 1 / 2\<rfloor> = i * 2 ^ ?k * 10 ^ f"
    proof -
      have "x * 10 ^ f + 1 / 2 = of_int (i * 2 ^ ?k * 10 ^ f) + (1 / 2 :: rat)" using x by simp
      then show ?thesis by linarith
    qed
    moreover have "\<lfloor>x\<rfloor> = i * 2 ^ ?k" using floor_of_int [of "i * 2 ^ ?k", where ?'a = rat] x by metis
    moreover have "decimal_str (i * 2 ^ ?k * 10 ^ f) = decimal_str (i * 2 ^ ?k) @ replicate f 0x30"
    proof (cases "f = 0")
      case False
      then show ?thesis
        using decimal_append [OF \<open>0 < i * 2 ^ ?k\<close>, of 0 f] pad_zero [of f] by simp
    qed simp
    ultimately show ?thesis by simp
  qed
  moreover have "nat (- (52 - log_exponent x)) = ?k" by simp
  then have "fixed_digits ds x f = (?data, numToString ?data @ js_slice (jstr ''0.00000000000000000000'') 2 (2 + int f))"
    using assms(6) shift
    by (simp add: fixed_digits_def log_exponent_def [symmetric] Let_def)
  ultimately show ?thesis using shown d(3) by simp
qed

section \<open>The specification\<close>

text \<open>The integer nearest to a number, the larger one of two.\<close>

definition nearest :: "rat \<Rightarrow> int \<Rightarrow> bool" where
  "nearest y n \<longleftrightarrow> (\<forall>k. \<bar>of_int n - y\<bar> \<le> \<bar>of_int k - y\<bar> \<and> (\<bar>of_int k - y\<bar> = \<bar>of_int n - y\<bar> \<longrightarrow> k \<le> n))"

lemma nearest_half_up: "nearest y \<lfloor>y + 1 / 2\<rfloor>"
proof -
  let ?n = "\<lfloor>y + 1 / 2\<rfloor>"
  have n: "of_int ?n \<le> y + 1 / 2" "y < of_int ?n + 1 / 2" by linarith+
  have "\<bar>of_int ?n - y\<bar> \<le> \<bar>of_int k - y\<bar> \<and> (\<bar>of_int k - y\<bar> = \<bar>of_int ?n - y\<bar> \<longrightarrow> k \<le> ?n)" for k
  proof (cases k ?n rule: linorder_cases)
    case less
    then have "(of_int k :: rat) \<le> of_int ?n - 1" by linarith
    with n less show ?thesis by linarith
  next
    case greater
    then have "(of_int k :: rat) \<ge> of_int ?n + 1" by linarith
    with n show ?thesis by linarith
  qed simp
  then show ?thesis by (simp add: nearest_def)
qed

lemma nearest_unique: "nearest y n \<longleftrightarrow> n = \<lfloor>y + 1 / 2\<rfloor>"
  using nearest_half_up [of y] unfolding nearest_def by (metis order_antisym)

text \<open>The text of \<open>n / 10 ^ f\<close> with \<open>f\<close> decimals: zeros in front so that a digit precedes the point.\<close>

definition fixed_text :: "nat \<Rightarrow> int \<Rightarrow> jsstring" where
  "fixed_text f n =
     (if f = 0 then decimal_str n
      else let m = decimal_str n; p = replicate (f + 1 - length m) 0x30 @ m
           in take (length p - f) p @ jstr ''.'' @ drop (length p - f) p)"

lemma decimal_nonempty: "decimal_str n \<noteq> []"
  by (subst decimal_str_step) simp

lemma place_point_spec:
  assumes "f \<le> 20"
  shows "place_point s (decimal_str n) f = s @ fixed_text f n"
proof (cases "0 < f \<and> length (decimal_str n) \<le> f")
  case True
  let ?m = "decimal_str n" and ?r = "f + 1 - length (decimal_str n)"
  have len: "0 < length ?m" using decimal_nonempty by simp
  have few: "f - length ?m \<le> 19" using len assms by linarith
  have zeros: "jstr ''0.0000000000000000000'' = [0x30, 0x2E] @ replicate 19 0x30" by (simp add: eval_nat_numeral)
  have r: "?r = Suc (f - length ?m)" "nat (int f - int (length ?m) + 2) = 2 + (f - length ?m)"
    using conjunct2 [OF True] by arith+
  have "js_slice (jstr ''0.0000000000000000000'') 0 (int f - int (length ?m) + 2) = [0x30, 0x2E] @ replicate (f - length ?m) 0x30"
    using True few r(2) unfolding zeros by (simp add: js_slice_def min_def)
  moreover have "length (replicate ?r 0x30 @ ?m) - f = 1" using True by simp
  moreover have "take 1 (replicate ?r 0x30 @ ?m) = [0x30]" "drop 1 (replicate ?r 0x30 @ ?m) = replicate (f - length ?m) 0x30 @ ?m"
    unfolding r(1) by simp_all
  ultimately show ?thesis using True by (simp add: place_point_def fixed_text_def Let_def)
next
  case False
  then show ?thesis by (auto simp: place_point_def fixed_text_def Let_def)
qed

lemma fixed_digits_spec:
  assumes "length ds = 6" "double x" "0 < x" "x < 10 ^ 21" "f \<le> 20"
  shows "snd (fixed_digits ds x f) = decimal_str \<lfloor>x * 10 ^ f + 1 / 2\<rfloor> \<and> length (fst (fixed_digits ds x f)) = 6"
  using fixed_digits_fraction [OF assms(1,3,4,5)] fixed_digits_integer [OF assms] by linarith

lemma tiny_rounded:
  assumes "0 \<le> x" "x \<le> tiny" "f \<le> 20"
  shows "\<lfloor>x * 10 ^ f + 1 / 2\<rfloor> = 0"
proof -
  have "(10 :: rat) ^ f \<le> 10 ^ 20" using assms(3) by (intro power_increasing) simp_all
  then have "x * 10 ^ f \<le> tiny * 10 ^ 20" using assms(1,2) by (intro mult_mono) simp_all
  also have "\<dots> < 1 / 2" by (simp add: tiny_def)
  finally show ?thesis using assms(1) by (simp add: floor_eq_iff)
qed

lemma toFixed_text:
  assumes "length ds = 6" "double x" "\<bar>x\<bar> < 10 ^ 21" "0 \<le> q" "q < 21"
  shows "\<exists>es. toFixed ds (Fin x) (Fin q)
      = (es, Inr ((if x < 0 then jstr ''-'' else []) @ fixed_text (nat \<lfloor>q\<rfloor>) \<lfloor>\<bar>x\<bar> * 10 ^ nat \<lfloor>q\<rfloor> + 1 / 2\<rfloor>))
    \<and> length es = 6"
proof -
  let ?f = "nat \<lfloor>q\<rfloor>" and ?s = "if x < 0 then jstr ''-'' else []"
  have f: "0 \<le> \<lfloor>q\<rfloor>" "\<lfloor>q\<rfloor> \<le> 20" using assms(4,5) by (simp, linarith)
  then have f20: "?f \<le> 20" by (simp only: nat_le_iff)
  have ge: "(0 :: rat) \<le> of_int \<lfloor>q\<rfloor>" "(of_int \<lfloor>q\<rfloor> :: rat) \<le> 20" using f by simp_all
  obtain es m where em: "(if \<bar>x\<bar> > tiny then fixed_digits ds \<bar>x\<bar> ?f else (ds, jstr ''0'')) = (es, m)" by fastforce
  have "m = decimal_str \<lfloor>\<bar>x\<bar> * 10 ^ ?f + 1 / 2\<rfloor> \<and> length es = 6"
  proof (cases "\<bar>x\<bar> > tiny")
    case True
    then have "0 < \<bar>x\<bar>" by (simp add: tiny_def)
    with True em fixed_digits_spec [OF assms(1) double_abs [OF assms(2)] _ assms(3) f20] show ?thesis by simp
  next
    case False
    with em tiny_rounded [of "\<bar>x\<bar>" ?f] f20 assms(1) show ?thesis
      by (simp add: decimal_str_step digit_char_decimal)
  qed
  moreover have "toFixed ds (Fin x) (Fin q) = (es, Inr (place_point ?s m ?f))"
    using em ge assms(3) by (simp add: toFixed_def jsnum_floor_def Let_def abs_less_iff)
  ultimately show ?thesis using place_point_spec [OF f20] by auto
qed

text \<open>
  C29: \<open>toFixed\<close> gives the text that the specification of the language demands: for a double below
  \<open>10 ^ 21\<close> and \<open>f\<close> decimals, the sign and the decimal text of the integer nearest to
  \<open>\<bar>x\<bar> * 10 ^ f\<close>, the larger one of two, with the point placed. What the shared array held before does
  not matter, and the array keeps its size for the next call.
\<close>

theorem toFixed_spec:
  assumes "length ds = 6" "double x" "\<bar>x\<bar> < 10 ^ 21" "0 \<le> q" "q < 21"
  shows "\<exists>es n. toFixed ds (Fin x) (Fin q) = (es, Inr ((if x < 0 then jstr ''-'' else []) @ fixed_text (nat \<lfloor>q\<rfloor>) n))
    \<and> nearest (\<bar>x\<bar> * 10 ^ nat \<lfloor>q\<rfloor>) n \<and> length es = 6"
  using toFixed_text [OF assms] nearest_half_up by blast

theorem toFixed_spec_witness:
  "\<exists>es n. toFixed [7, 0, 9999999, 0, 0, 1] (Fin (- 5 / 4)) (Fin 1) = (es, Inr (jstr ''-'' @ fixed_text 1 n))
    \<and> nearest (25 / 2) n \<and> length es = 6"
proof -
  have "(- 5 / 4 :: rat) = of_int (- 5) * 2 powi (- 2)" by (simp add: power_int_def power2_eq_square)
  then have "double (- 5 / 4)" unfolding double_def by (intro exI [of _ "- 5"] exI [of _ "- 2"]) (simp only:, simp)
  then show ?thesis using toFixed_spec [of "[7, 0, 9999999, 0, 0, 1]" "- 5 / 4" 1] by simp
qed

text \<open>A number that is too large, and an error.\<close>

lemma toFixed_large: "snd (toFixed (replicate 6 0) (Fin (10 ^ 21)) (Fin 2)) = Inr (num_to_string (Fin (10 ^ 21)))"
  by (simp add: toFixed_def jsnum_floor_def)

text \<open>A count of decimals between -1 and 0 is rounded down here and not towards 0.\<close>

lemma toFixed_minus_half:
  "snd (toFixed ds (Fin x) (Fin (- 1 / 2))) = Inl (RangeError ''Number.toFixed called with invalid number of decimals'')"
  by (simp add: toFixed_def jsnum_floor_def)

end
