(* ===== verification/CookieJar.thy ===== *)
theory CookieJar
  imports YamlText "HOL-Library.Sublist"
begin

text \<open>
  The cookies of \<open>swagger-ui.js\<close> (module 18, \<open>cookiejar\<close>): the constructor
  \<open>Cookie\<close> with the reader of a \<open>Set-Cookie\<close> text, the test whether a cookie belongs to a
  request, and the jar with its operations.

  Texts of dates are left to the engine by the language, so that \<open>Date.parse\<close> and \<open>toGMTString\<close>
  are parameters; the time of \<open>Date.now()\<close> is an argument, the same for all tests of
  one call.
\<close>

section \<open>Cookies\<close>

text \<open>A domain is \<open>undefined\<close>, \<open>null\<close> or a string.\<close>

datatype domain = Absent | NullDomain | Name jsstring

fun given_domain :: "domain \<Rightarrow> bool" where
  "given_domain (Name s) \<longleftrightarrow> s \<noteq> []"
| "given_domain _ \<longleftrightarrow> False"

record access_info =
  a_domain :: domain
  a_path :: jsstring
  a_secure :: bool
  a_script :: bool

definition CookieAccessInfo :: "domain \<Rightarrow> jsstring option \<Rightarrow> bool \<Rightarrow> bool \<Rightarrow> access_info" where
  "CookieAccessInfo domain path secure script =
     \<lparr>a_domain = (if given_domain domain then domain else Absent),
      a_path = (case path of Some (c # p) \<Rightarrow> c # p | _ \<Rightarrow> jstr ''/''),
      a_secure = secure, a_script = script\<rparr>"

text \<open>The name and the value are \<open>null\<close> in a cookie made from an empty text.\<close>

record cookie =
  c_name :: "jsstring option"
  c_value :: "jsstring option"
  expiration_date :: jsnum
  c_path :: jsstring
  explicit_path :: bool
  c_domain :: domain
  explicit_domain :: bool
  c_secure :: bool
  noscript :: bool

definition text_of :: "jsstring option \<Rightarrow> jsstring" where
  "text_of s = (case s of None \<Rightarrow> jstr ''null'' | Some s \<Rightarrow> s)"

definition domain_text :: "domain \<Rightarrow> jsstring" where
  "domain_text d = (case d of Absent \<Rightarrow> jstr ''undefined'' | NullDomain \<Rightarrow> jstr ''null'' | Name s \<Rightarrow> s)"

definition toValueString :: "cookie \<Rightarrow> jsstring" where
  "toValueString c = text_of (c_name c) @ jstr ''='' @ text_of (c_value c)"

definition cookie_parts :: "(jsnum \<Rightarrow> jsstring) \<Rightarrow> cookie \<Rightarrow> jsstring list" where
  "cookie_parts toGMTString c =
     [toValueString c] @
     (if expiration_date c \<noteq> PosInf then [jstr ''expires='' @ toGMTString (expiration_date c)] else []) @
     (if given_domain (c_domain c) then [jstr ''domain='' @ domain_text (c_domain c)] else []) @
     (if c_path c \<noteq> [] then [jstr ''path='' @ c_path c] else []) @
     (if c_secure c then [jstr ''secure''] else []) @
     (if noscript c then [jstr ''httponly''] else [])"

definition cookie_toString :: "(jsnum \<Rightarrow> jsstring) \<Rightarrow> cookie \<Rightarrow> jsstring" where
  "cookie_toString toGMTString c = join_with (jstr ''; '') (cookie_parts toGMTString c)"

section \<open>Reading a text\<close>

text \<open>
  \<open>/([^=]+)=([\s\S]*)/\<close> and \<open>/([^=]+)(?:=([\s\S]*))?/\<close>. Neither is anchored: a match starts at the first
  character that is not an equals sign and takes all that follow it, as far as the next one.
\<close>

definition match_pair :: "jsstring \<Rightarrow> (jsstring \<times> jsstring) option" where
  "match_pair s =
     (let t = dropWhile (\<lambda>c. c = 0x3D) s; key = takeWhile (\<lambda>c. c \<noteq> 0x3D) t
      in case dropWhile (\<lambda>c. c \<noteq> 0x3D) t of [] \<Rightarrow> None | _ # v \<Rightarrow> Some (key, v))"

definition match_attribute :: "jsstring \<Rightarrow> (jsstring \<times> jsstring option) option" where
  "match_attribute s =
     (let t = dropWhile (\<lambda>c. c = 0x3D) s; key = takeWhile (\<lambda>c. c \<noteq> 0x3D) t
      in if key = [] then None
         else Some (key, case dropWhile (\<lambda>c. c \<noteq> 0x3D) t of [] \<Rightarrow> None | _ # v \<Rightarrow> Some v))"

definition js_trim :: "jsstring \<Rightarrow> jsstring" where
  "js_trim s = rev (dropWhile js_space (rev (dropWhile js_space s)))"

text \<open>
  One case of the \<open>switch\<close>. Of \<open>toLowerCase\<close> only the letters of ASCII matter, as no other
  character has one of the letters of the five words for its small letter.
\<close>

definition parse_attribute :: "(jsstring \<Rightarrow> jsnum) \<Rightarrow> jsstring \<Rightarrow> jsstring option \<Rightarrow> cookie \<Rightarrow> cookie" where
  "parse_attribute parseDate key value c =
     (let key = lower_ascii (js_trim key);
          given = (case value of None \<Rightarrow> [] | Some v \<Rightarrow> v)
      in if key = jstr ''httponly'' then c\<lparr>noscript := True\<rparr>
         else if key = jstr ''expires'' then
           c\<lparr>expiration_date := (if given \<noteq> [] then parseDate given else PosInf)\<rparr>
         else if key = jstr ''path'' then
           c\<lparr>c_path := (if given \<noteq> [] then js_trim given else []), explicit_path := True\<rparr>
         else if key = jstr ''domain'' then
           (let d = (if given \<noteq> [] then js_trim given else [])
            in c\<lparr>c_domain := Name d, explicit_domain := (d \<noteq> [])\<rparr>)
         else if key = jstr ''secure'' then c\<lparr>c_secure := True\<rparr>
         else c)"

fun parse_attributes :: "(jsstring \<Rightarrow> jsnum) \<Rightarrow> jsstring list \<Rightarrow> cookie \<Rightarrow> cookie res" where
  "parse_attributes parseDate [] c = Inr c"
| "parse_attributes parseDate (p # ps) c =
     (case match_attribute p of
        None \<Rightarrow> Inl (TypeError ''pair is null'')
      | Some (key, value) \<Rightarrow> parse_attributes parseDate ps (parse_attribute parseDate key value c))"

definition request_or_root :: "jsstring option \<Rightarrow> jsstring" where
  "request_or_root p = (case p of Some (c # q) \<Rightarrow> c # q | _ \<Rightarrow> jstr ''/'')"

definition cookie_parse :: "(jsstring \<Rightarrow> jsnum) \<Rightarrow> cookie \<Rightarrow> jsstring \<Rightarrow> domain \<Rightarrow> jsstring option \<Rightarrow> cookie res" where
  "cookie_parse parseDate c str request_domain request_path =
     (case filter (\<lambda>p. p \<noteq> []) (split_at 0x3B str) of
        [] \<Rightarrow> Inl (TypeError ''parts[0] is undefined'')
      | p # ps \<Rightarrow>
          (case match_pair p of
             None \<Rightarrow> Inl (TypeError ''pair is null'')
           | Some (key, value) \<Rightarrow>
               bind_res (parse_attributes parseDate ps (c\<lparr>c_name := Some key, c_value := Some value\<rparr>)) (\<lambda>c1.
               let c2 = (if \<not> explicit_path c1 then c1\<lparr>c_path := request_or_root request_path\<rparr> else c1)
               in Inr (if \<not> explicit_domain c2 then c2\<lparr>c_domain := request_domain\<rparr> else c2))))"

definition new_cookie :: "domain \<Rightarrow> jsstring option \<Rightarrow> cookie" where
  "new_cookie request_domain request_path =
     \<lparr>c_name = None, c_value = None, expiration_date = PosInf,
      c_path = request_or_root request_path, explicit_path = False,
      c_domain = (if given_domain request_domain then request_domain else NullDomain), explicit_domain = False,
      c_secure = False, noscript = False\<rparr>"

text \<open>What the constructor is given: a cookie, which it returns, or a text.\<close>

datatype item = Made cookie | Text jsstring

definition Cookie :: "(jsstring \<Rightarrow> jsnum) \<Rightarrow> item \<Rightarrow> domain \<Rightarrow> jsstring option \<Rightarrow> cookie res" where
  "Cookie parseDate x request_domain request_path =
     (case x of
        Made c \<Rightarrow> Inr c
      | Text s \<Rightarrow>
          let c = new_cookie request_domain request_path
          in if s \<noteq> [] then cookie_parse parseDate c s request_domain request_path else Inr c)"

section \<open>Which requests a cookie belongs to\<close>

text \<open>\<open>s.indexOf(t)\<close>\<close>

fun first_index :: "jsstring \<Rightarrow> jsstring \<Rightarrow> int" where
  "first_index [] t = (if t = [] then 0 else - 1)"
| "first_index (c # s) t =
     (if prefix t (c # s) then 0 else let i = first_index s t in if i < 0 then i else i + 1)"

text \<open>\<open>replace(/^[\.]/, '')\<close>\<close>

fun strip_dot :: "domain \<Rightarrow> domain" where
  "strip_dot (Name (c # s)) = (if c = 0x2E then Name s else Name (c # s))"
| "strip_dot d = d"

definition collidesWith :: "cookie \<Rightarrow> domain \<Rightarrow> jsstring \<Rightarrow> bool" where
  "collidesWith c domain path =
     (if (c_path c \<noteq> [] \<and> path = []) \<or> (given_domain (c_domain c) \<and> \<not> given_domain domain) then False
      else if c_path c \<noteq> [] \<and> first_index path (c_path c) \<noteq> 0 then False
      else if explicit_path c \<and> first_index path (c_path c) \<noteq> 0 then False
      else
        let access_domain = (if given_domain domain then strip_dot domain else domain);
            cookie_domain = (if given_domain (c_domain c) then strip_dot (c_domain c) else c_domain c)
        in if cookie_domain = access_domain then True
           else if given_domain cookie_domain then
             (if \<not> explicit_domain c then False
              else
                let a = domain_text access_domain; d = domain_text cookie_domain; wildcard = first_index a d
                in \<not> (wildcard = - 1 \<or> wildcard \<noteq> int (length a) - int (length d)))
           else True)"

definition matches :: "cookie \<Rightarrow> access_info \<Rightarrow> bool" where
  "matches c a =
     (if noscript c \<and> a_script a \<or> c_secure c \<and> \<not> a_secure a \<or> \<not> collidesWith c (a_domain a) (a_path a)
      then False else True)"

section \<open>The jar\<close>

text \<open>
  The cookies by name, in the order of the properties of an object: names that are array indices first,
  by their number, then the others as they came in.
\<close>

type_synonym jar = "(jsstring \<times> cookie list) list"

text \<open>\<open>expiration_date <= Date.now()\<close>\<close>

definition expired :: "rat \<Rightarrow> cookie \<Rightarrow> bool" where
  "expired now c =
     (case expiration_date c of Fin q \<Rightarrow> q \<le> now | NegZero \<Rightarrow> 0 \<le> now | NegInf \<Rightarrow> True | PosInf \<Rightarrow> False | NaN \<Rightarrow> False)"

definition key_of :: "cookie \<Rightarrow> jsstring" where
  "key_of c = text_of (c_name c)"

text \<open>The loop over the cookies of the name: the first one that collides is replaced or removed.\<close>

fun replace_colliding :: "bool \<Rightarrow> cookie \<Rightarrow> cookie list \<Rightarrow> cookie list option" where
  "replace_colliding remove c [] = None"
| "replace_colliding remove c (d # ds) =
     (if collidesWith d (c_domain c) (c_path c) then Some (if remove then ds else c # ds)
      else map_option ((#) d) (replace_colliding remove c ds))"

text \<open>What \<open>setCookie\<close> returns: \<open>false\<close>, the cookie, or the new list of the name.\<close>

datatype set_result = Refused | Stored cookie | StoredList "cookie list"

definition put_cookie :: "rat \<Rightarrow> jar \<Rightarrow> cookie \<Rightarrow> jar \<times> set_result" where
  "put_cookie now jar c =
     (let remove = expired now c; k = key_of c
      in case map_of jar k of
           Some ds \<Rightarrow>
             (case replace_colliding remove c ds of
                Some es \<Rightarrow>
                  if remove then
                    (if es = [] then prop_delete jar k else prop_set jar k es, Refused)
                  else (prop_set jar k es, Stored c)
              | None \<Rightarrow>
                  if remove then (jar, Refused) else (prop_set jar k (ds @ [c]), Stored c))
         | None \<Rightarrow> if remove then (jar, Refused) else (prop_set jar k [c], StoredList [c]))"

definition setCookie ::
    "(jsstring \<Rightarrow> jsnum) \<Rightarrow> rat \<Rightarrow> jar \<Rightarrow> item \<Rightarrow> domain \<Rightarrow> jsstring option \<Rightarrow> (jar \<times> set_result) res" where
  "setCookie parseDate now jar x request_domain request_path =
     bind_res (Cookie parseDate x request_domain request_path) (\<lambda>c. Inr (put_cookie now jar c))"

text \<open>A cookie that has expired is passed over; the list is not empty there, so that nothing is deleted.\<close>

fun get_loop :: "rat \<Rightarrow> access_info \<Rightarrow> cookie list \<Rightarrow> cookie option" where
  "get_loop now a [] = None"
| "get_loop now a (c # cs) =
     (if expired now c then get_loop now a cs
      else if matches c a then Some c
      else get_loop now a cs)"

definition getCookie :: "rat \<Rightarrow> jar \<Rightarrow> jsstring \<Rightarrow> access_info \<Rightarrow> cookie option" where
  "getCookie now jar cookie_name a =
     (case map_of jar cookie_name of None \<Rightarrow> None | Some cs \<Rightarrow> get_loop now a cs)"

definition getCookies :: "rat \<Rightarrow> jar \<Rightarrow> access_info \<Rightarrow> cookie list" where
  "getCookies now jar a = List.map_filter (\<lambda>k. getCookie now jar k a) (map fst jar)"

text \<open>The methods of the list that \<open>getCookies\<close> returns.\<close>

definition cookies_toString :: "(jsnum \<Rightarrow> jsstring) \<Rightarrow> cookie list \<Rightarrow> jsstring" where
  "cookies_toString toGMTString cs = join_with (jstr '':'') (map (cookie_toString toGMTString) cs)"

definition cookies_toValueString :: "cookie list \<Rightarrow> jsstring" where
  "cookies_toValueString cs = join_with (jstr '';'') (map toValueString cs)"

section \<open>Several cookies\<close>

text \<open>\<open>/[:](?=\s*[a-zA-Z0-9_\-]+\s*[=])/g\<close>: a colon with a name and an equals sign after it.\<close>

definition name_char :: "int \<Rightarrow> bool" where
  "name_char c \<longleftrightarrow> 0x61 \<le> c \<and> c \<le> 0x7A \<or> 0x41 \<le> c \<and> c \<le> 0x5A \<or> 0x30 \<le> c \<and> c \<le> 0x39 \<or> c = 0x5F \<or> c = 0x2D"

definition pair_follows :: "jsstring \<Rightarrow> bool" where
  "pair_follows s =
     (let t = dropWhile js_space s
      in takeWhile name_char t \<noteq> [] \<and>
         (case dropWhile js_space (dropWhile name_char t) of c # _ \<Rightarrow> c = 0x3D | [] \<Rightarrow> False))"

fun cookie_str_splitter :: "jsstring \<Rightarrow> jsstring list" where
  "cookie_str_splitter [] = [[]]"
| "cookie_str_splitter (c # s) =
     (if c = 0x3A \<and> pair_follows s then [] # cookie_str_splitter s
      else case cookie_str_splitter s of w # ws \<Rightarrow> (c # w) # ws | [] \<Rightarrow> [[c]])"

text \<open>The argument of \<open>setCookies\<close>: an array, or a text with all the cookies.\<close>

datatype cookies_arg = Items "item list" | Joined jsstring

definition items_of :: "cookies_arg \<Rightarrow> item list" where
  "items_of x = (case x of Items xs \<Rightarrow> xs | Joined s \<Rightarrow> map Text (cookie_str_splitter s))"

fun put_loop :: "rat \<Rightarrow> jar \<Rightarrow> cookie list \<Rightarrow> jar \<times> cookie list" where
  "put_loop now jar [] = (jar, [])"
| "put_loop now jar (c # cs) =
     (let (jar1, r) = put_cookie now jar c; (jar2, successful) = put_loop now jar1 cs
      in (jar2, if r = Refused then successful else c # successful))"

definition setCookies ::
    "(jsstring \<Rightarrow> jsnum) \<Rightarrow> rat \<Rightarrow> jar \<Rightarrow> cookies_arg \<Rightarrow> domain \<Rightarrow> jsstring option \<Rightarrow> (jar \<times> cookie list) res" where
  "setCookies parseDate now jar cookies request_domain request_path =
     bind_res (traverse (\<lambda>x. Cookie parseDate x request_domain request_path) (items_of cookies)) (\<lambda>cs.
     Inr (put_loop now jar cs))"

end
