(* ===== verification/CookieLaws.thy ===== *)
theory CookieLaws
  imports CookieJar
begin

text \<open>
  What the jar of \<open>cookiejar\<close> promises: the effect of storing a cookie on the list of its name,
  the invariant of every jar that can arise, which cookies it answers, and the round trip of
  the text of a cookie. The last section has the requests that get a cookie against the rules for cookies,
  and other surprises.
\<close>

section \<open>Matching\<close>

lemma first_index_lower: "- 1 \<le> first_index s t"
  by (induction s) (auto simp: Let_def)

lemma first_index_zero: "first_index s t = 0 \<longleftrightarrow> prefix t s"
  by (cases s) (auto simp: Let_def)

lemma first_index_found: "0 \<le> first_index s t \<Longrightarrow> prefix t (drop (nat (first_index s t)) s)"
  by (induction s) (auto simp: Let_def nat_add_distrib split: if_splits)

lemma first_index_end:
  assumes "first_index s t \<noteq> - 1" "first_index s t = int (length s) - int (length t)"
  shows "suffix t s"
proof -
  have pos: "0 \<le> first_index s t" using assms(1) first_index_lower [of s t] by linarith
  then have found: "prefix t (drop (nat (first_index s t)) s)" by (rule first_index_found)
  then have "length (drop (nat (first_index s t)) s) = length t" using assms(2) pos by auto
  with found have "drop (nat (first_index s t)) s = t" by (metis prefix_order.eq_iff prefix_length_prefix order_refl)
  then show ?thesis by (metis suffix_drop)
qed

text \<open>
  The rule for domains: a cookie without one goes everywhere; otherwise the domain of the request is
  the same, a leading dot aside, or the cookie names its domain itself and the domain of
  the request ends in it.
\<close>

definition domain_ok :: "cookie \<Rightarrow> domain \<Rightarrow> bool" where
  "domain_ok c d \<longleftrightarrow>
     (given_domain (c_domain c) \<longrightarrow>
        given_domain d \<and>
        (let h = domain_text (strip_dot d); x = domain_text (strip_dot (c_domain c))
         in x = h \<or> x = [] \<or> explicit_domain c \<and> suffix x h))"

definition may_be_sent :: "cookie \<Rightarrow> access_info \<Rightarrow> bool" where
  "may_be_sent c a \<longleftrightarrow>
     (noscript c \<longrightarrow> \<not> a_script a) \<and> (c_secure c \<longrightarrow> a_secure a) \<and>
     prefix (c_path c) (a_path a) \<and> domain_ok c (a_domain a)"

lemma strip_dot_name: "given_domain d \<Longrightarrow> \<exists>s. strip_dot d = Name s"
  by (cases d rule: strip_dot.cases) auto

lemma collides_path: "collidesWith c d p \<Longrightarrow> prefix (c_path c) p"
  unfolding collidesWith_def by (cases "c_path c = []") (simp_all add: first_index_zero split: if_splits)

lemma collides_domain:
  assumes "collidesWith c d p"
  shows "domain_ok c d"
proof (cases "given_domain (c_domain c)")
  case True
  with assms have d: "given_domain d" by (auto simp: collidesWith_def split: if_splits)
  then obtain h x where hx: "strip_dot d = Name h" "strip_dot (c_domain c) = Name x"
    using strip_dot_name True by blast
  have "x = h \<or> x = [] \<or> explicit_domain c \<and> first_index h x \<noteq> - 1 \<and> first_index h x = int (length h) - int (length x)"
    using assms True d hx by (auto simp: collidesWith_def Let_def domain_text_def split: if_splits)
  then show ?thesis using True d hx first_index_end [of h x] by (auto simp: domain_ok_def domain_text_def)
qed (simp add: domain_ok_def)

lemma matches_sent: "matches c a \<Longrightarrow> may_be_sent c a"
  using collides_path collides_domain by (auto simp: matches_def may_be_sent_def split: if_splits)

section \<open>Storing\<close>

text \<open>The cookies of a name, and the list after a cookie of this name was put.\<close>

definition cookies_of :: "jar \<Rightarrow> jsstring \<Rightarrow> cookie list" where
  "cookies_of jar k = (case map_of jar k of None \<Rightarrow> [] | Some cs \<Rightarrow> cs)"

definition apart :: "cookie \<Rightarrow> cookie \<Rightarrow> bool" where
  "apart c d \<longleftrightarrow> \<not> collidesWith d (c_domain c) (c_path c)"

definition put_list :: "rat \<Rightarrow> cookie \<Rightarrow> cookie list \<Rightarrow> cookie list" where
  "put_list now c ds =
     takeWhile (apart c) ds @ (if expired now c then [] else [c]) @ drop 1 (dropWhile (apart c) ds)"

lemma replace_colliding_Some:
  "replace_colliding remove c ds = Some es \<Longrightarrow>
    es = takeWhile (apart c) ds @ (if remove then [] else [c]) @ drop 1 (dropWhile (apart c) ds)"
  by (induction ds arbitrary: es) (auto simp: apart_def split: if_splits)

lemma replace_colliding_None:
  "replace_colliding remove c ds = None \<Longrightarrow> takeWhile (apart c) ds = ds \<and> dropWhile (apart c) ds = []"
  by (induction ds) (auto simp: apart_def split: if_splits)

lemma cookies_of_update [simp]:
  "cookies_of (prop_set jar k cs) k' = (if k' = k then cs else cookies_of jar k')"
  by (simp add: cookies_of_def)

lemma cookies_of_delete [simp]:
  "cookies_of (prop_delete jar k) k' = (if k' = k then [] else cookies_of jar k')"
  by (simp add: cookies_of_def)

lemma put_cookie_list:
  "cookies_of (fst (put_cookie now jar c)) k =
     (if k = key_of c then put_list now c (cookies_of jar k) else cookies_of jar k)"
proof (cases "map_of jar (key_of c)")
  case None
  then have "cookies_of jar (key_of c) = []" by (simp add: cookies_of_def)
  with None show ?thesis by (simp add: put_cookie_def Let_def put_list_def)
next
  case (Some ds)
  then have ds: "cookies_of jar (key_of c) = ds" by (simp add: cookies_of_def)
  show ?thesis
  proof (cases "replace_colliding (expired now c) c ds")
    case None
    note same = replace_colliding_None [OF None, THEN conjunct1] replace_colliding_None [OF None, THEN conjunct2]
    from None ds Some show ?thesis by (simp add: put_cookie_def Let_def put_list_def same)
  next
    case es: (Some es)
    with replace_colliding_Some [OF es] ds Some show ?thesis
      by (simp add: put_cookie_def Let_def put_list_def)
  qed
qed

lemma put_cookie_result:
  "snd (put_cookie now jar c) = Refused \<longleftrightarrow> expired now c"
  by (simp add: put_cookie_def Let_def split: option.split)

text \<open>
  C27: storing a cookie changes the list of its own name only. There the first cookie that collides
  with it gives way, to it or, where it has expired, to nothing; without a collision it goes to the
  end. \<open>false\<close> is returned exactly for a cookie that has expired, and a text that is no cookie
  changes nothing.
\<close>

theorem setCookie_effect:
  "case setCookie parseDate now jar x request_domain request_path of
     Inl e \<Rightarrow> Cookie parseDate x request_domain request_path = Inl e
   | Inr (jar', r) \<Rightarrow>
       \<exists>c. Cookie parseDate x request_domain request_path = Inr c \<and>
         (\<forall>k. cookies_of jar' k =
            (if k = key_of c
             then takeWhile (apart c) (cookies_of jar k) @ (if expired now c then [] else [c])
               @ drop 1 (dropWhile (apart c) (cookies_of jar k))
             else cookies_of jar k)) \<and>
         (r = Refused \<longleftrightarrow> expired now c)"
proof (cases "Cookie parseDate x request_domain request_path")
  case (Inr c)
  obtain jar' r where "put_cookie now jar c = (jar', r)" by fastforce
  with Inr put_cookie_list [of now jar c] put_cookie_result [of now jar c] show ?thesis
    by (simp add: setCookie_def put_list_def)
qed (simp add: setCookie_def)

section \<open>The jars that arise\<close>

inductive reachable :: "jar \<Rightarrow> bool" where
  empty: "reachable []"
| set_one: "reachable jar \<Longrightarrow> setCookie parseDate now jar x rd rp = Inr (jar', r) \<Longrightarrow> reachable jar'"
| set_many: "reachable jar \<Longrightarrow> setCookies parseDate now jar xs rd rp = Inr (jar', r) \<Longrightarrow> reachable jar'"

definition jar_ok :: "jar \<Rightarrow> bool" where
  "jar_ok jar \<longleftrightarrow> distinct (map fst jar) \<and>
     (\<forall>k cs. map_of jar k = Some cs \<longrightarrow> cs \<noteq> [] \<and> (\<forall>c \<in> set cs. key_of c = k))"

lemma jar_ok_map_of: "jar_ok jar \<Longrightarrow> map_of jar k = Some cs \<Longrightarrow> cs \<noteq> [] \<and> (\<forall>c \<in> set cs. key_of c = k)"
  by (simp add: jar_ok_def)

lemma jar_ok_update:
  assumes "jar_ok jar" "cs \<noteq> []" "\<forall>c \<in> set cs. key_of c = k"
  shows "jar_ok (prop_set jar k cs)"
  using assms distinct_prop_set [of jar k cs] by (simp add: jar_ok_def)

lemma jar_ok_delete: "jar_ok jar \<Longrightarrow> jar_ok (prop_delete jar k)"
  by (simp add: jar_ok_def) (simp add: prop_delete_def distinct_map_filter)

lemma put_cookie_ok:
  assumes "jar_ok jar"
  shows "jar_ok (fst (put_cookie now jar c))"
proof (cases "map_of jar (key_of c)")
  case None
  with assms show ?thesis by (simp add: put_cookie_def Let_def jar_ok_update)
next
  case (Some ds)
  note ds = jar_ok_map_of [OF assms Some]
  show ?thesis
  proof (cases "replace_colliding (expired now c) c ds")
    case None
    with Some ds assms show ?thesis by (auto simp: put_cookie_def Let_def intro!: jar_ok_update)
  next
    case es: (Some es)
    have "\<forall>e \<in> set es. key_of e = key_of c"
      using replace_colliding_Some [OF es] ds
      by (auto dest: set_takeWhileD set_dropWhileD in_set_dropD split: if_splits)
    moreover have "es \<noteq> []" if "\<not> expired now c" using replace_colliding_Some [OF es] that by simp
    ultimately show ?thesis
      using Some es assms by (simp add: put_cookie_def Let_def jar_ok_update jar_ok_delete)
  qed
qed

lemma put_loop_ok: "jar_ok jar \<Longrightarrow> jar_ok (fst (put_loop now jar cs))"
proof (induction cs arbitrary: jar)
  case (Cons c cs)
  from Cons.IH [OF put_cookie_ok [OF Cons.prems, of now c]] show ?case
    by (simp add: Let_def split_beta)
qed simp

lemma reachable_ok: "reachable jar \<Longrightarrow> jar_ok jar"
proof (induction rule: reachable.induct)
  case (set_one jar parseDate now x rd rp jar' r)
  from set_one.hyps(2) obtain c where "put_cookie now jar c = (jar', r)"
    by (auto simp: setCookie_def bind_res_Inr_iff)
  with put_cookie_ok [OF set_one.IH, of now c] show ?case by simp
next
  case (set_many jar parseDate now xs rd rp jar' r)
  from set_many.hyps(2) obtain cs where "put_loop now jar cs = (jar', r)"
    by (auto simp: setCookies_def bind_res_Inr_iff)
  with put_loop_ok [OF set_many.IH, of now cs] show ?case by simp
qed (simp add: jar_ok_def)

section \<open>Answering\<close>

lemma get_loop_Some: "get_loop now a cs = Some c \<Longrightarrow> c \<in> set cs \<and> \<not> expired now c \<and> matches c a"
  by (induction cs) (auto split: if_splits)

lemma get_loop_finds: "c \<in> set cs \<Longrightarrow> \<not> expired now c \<Longrightarrow> matches c a \<Longrightarrow> get_loop now a cs \<noteq> None"
  by (induction cs) auto

lemma set_map_filter: "set (List.map_filter f xs) = {y. \<exists>x \<in> set xs. f x = Some y}"
  by (induction xs) (auto simp: List.map_filter_simps split: option.split)

lemma getCookie_Some:
  assumes "jar_ok jar" "getCookie now jar k a = Some c"
  shows "c \<in> set (cookies_of jar k)" "key_of c = k" "\<not> expired now c" "matches c a"
proof -
  from assms(2) obtain cs where cs: "map_of jar k = Some cs" "get_loop now a cs = Some c"
    by (auto simp: getCookie_def split: option.splits)
  with get_loop_Some [OF cs(2)] jar_ok_map_of [OF assms(1) cs(1)]
  show "c \<in> set (cookies_of jar k)" "key_of c = k" "\<not> expired now c" "matches c a"
    by (auto simp: cookies_of_def)
qed

lemma distinct_answers:
  assumes "distinct ks" "\<And>k c. f k = Some c \<Longrightarrow> key_of c = k"
  shows "distinct (map key_of (List.map_filter f ks))"
  using assms(1)
proof (induction ks)
  case (Cons k ks)
  have "key_of c \<in> set ks" if "c \<in> set (List.map_filter f ks)" for c
    using that assms(2) by (auto simp: set_map_filter)
  with Cons assms(2) show ?case by (auto simp: List.map_filter_simps split: option.split)
qed (simp add: List.map_filter_simps)

text \<open>
  C26: a jar filled by \<open>setCookie\<close> and \<open>setCookies\<close> answers a request with cookies that
  it holds, that have not expired, and that may go with the request: \<open>secure\<close> and
  \<open>httponly\<close> are respected, the path of the cookie is a prefix, and the domain fits. It
  answers with at most one cookie of a name, and with one whenever a cookie of the name
  is alive and matches.
\<close>

theorem jar_answers:
  assumes "reachable jar"
  shows "(\<forall>c \<in> set (getCookies now jar a). c \<in> set (cookies_of jar (key_of c)) \<and> \<not> expired now c \<and> may_be_sent c a)
    \<and> distinct (map key_of (getCookies now jar a))
    \<and> (\<forall>k. \<forall>c \<in> set (cookies_of jar k). \<not> expired now c \<and> matches c a \<longrightarrow>
         (\<exists>d \<in> set (getCookies now jar a). key_of d = k))"
proof (intro conjI ballI allI impI)
  note ok = reachable_ok [OF assms]
  have some: "key_of c = k" if "getCookie now jar k a = Some c" for k c using getCookie_Some [OF ok that] by simp
  show "distinct (map key_of (getCookies now jar a))"
    unfolding getCookies_def using ok some by (intro distinct_answers) (simp_all add: jar_ok_def)
  fix c
  { assume "c \<in> set (getCookies now jar a)"
    then obtain k where "getCookie now jar k a = Some c" by (auto simp: getCookies_def set_map_filter)
    with getCookie_Some [OF ok this] matches_sent
    show "c \<in> set (cookies_of jar (key_of c))" "\<not> expired now c" "may_be_sent c a" by auto }
  fix k
  assume c: "c \<in> set (cookies_of jar k)" "\<not> expired now c \<and> matches c a"
  then obtain cs where cs: "map_of jar k = Some cs" "c \<in> set cs"
    by (cases "map_of jar k") (auto simp: cookies_of_def)
  with c get_loop_finds obtain d where d: "getCookie now jar k a = Some d"
    by (fastforce simp: getCookie_def)
  have "k \<in> set (map fst jar)" using map_of_SomeD [OF cs(1)] by force
  with d have "d \<in> set (getCookies now jar a)" by (auto simp: getCookies_def set_map_filter)
  with some [OF d] show "\<exists>d \<in> set (getCookies now jar a). key_of d = k" by blast
qed

text \<open>A jar with two cookies, filled by one text.\<close>

theorem jar_answers_witness:
  "\<exists>jar. reachable jar \<and> jar \<noteq> [] \<and> distinct (map key_of (getCookies 0 jar (CookieAccessInfo (Name (jstr ''a.com'')) None False False)))"
proof -
  let ?s = "jstr ''a=b; secure:c=d''"
  have "case setCookies (\<lambda>_. NaN) 0 [] (Joined ?s) (Name (jstr ''a.com'')) None of
      Inl e \<Rightarrow> False | Inr (jar, r) \<Rightarrow> jar \<noteq> []" by code_simp
  then obtain jar r where jar: "setCookies (\<lambda>_. NaN) 0 [] (Joined ?s) (Name (jstr ''a.com'')) None = Inr (jar, r)" "jar \<noteq> []"
    by (auto split: sum.splits prod.splits)
  have "reachable jar" by (rule set_many [OF reachable.empty jar(1)])
  with jar(2) jar_answers [OF this] show ?thesis by blast
qed

section \<open>The text of a cookie\<close>

lemma named_attribute:
  assumes "v \<noteq> []"
  shows "parse_attributes pd ((0x20 # jstr ''expires='' @ v) # ps) c = parse_attributes pd ps (c\<lparr>expiration_date := pd v\<rparr>)"
    "parse_attributes pd ((0x20 # jstr ''path='' @ v) # ps) c =
       parse_attributes pd ps (c\<lparr>c_path := js_trim v, explicit_path := True\<rparr>)"
    "parse_attributes pd ((0x20 # jstr ''domain='' @ v) # ps) c =
       parse_attributes pd ps (c\<lparr>c_domain := Name (js_trim v), explicit_domain := (js_trim v \<noteq> [])\<rparr>)"
  using assms
  by (simp_all add: match_attribute_def parse_attribute_def js_trim_def js_space_def lower_ascii_def Let_def)

lemma flag_attribute:
  "parse_attributes pd ((0x20 # jstr ''secure'') # ps) c = parse_attributes pd ps (c\<lparr>c_secure := True\<rparr>)"
  "parse_attributes pd ((0x20 # jstr ''httponly'') # ps) c = parse_attributes pd ps (c\<lparr>noscript := True\<rparr>)"
  by (simp_all add: match_attribute_def parse_attribute_def js_trim_def js_space_def lower_ascii_def Let_def)

lemma match_pair_named:
  assumes "n \<noteq> []" "0x3D \<notin> set n"
  shows "match_pair (n @ 0x3D # v) = Some (n, v)"
proof -
  have "takeWhile (\<lambda>c. c \<noteq> 0x3D) (n @ 0x3D # v) = n" "dropWhile (\<lambda>c. c \<noteq> 0x3D) (n @ 0x3D # v) = 0x3D # v"
    using assms(2) by (induction n) auto
  moreover have "dropWhile (\<lambda>c. c = 0x3D) (n @ 0x3D # v) = n @ 0x3D # v"
    using assms by (cases n) auto
  ultimately show ?thesis by (simp add: match_pair_def Let_def)
qed

text \<open>
  C28: the text of a cookie is read as the same cookie, with its domain and its path now explicit. A
  domain or a path that is missing or empty is not written, and is taken from the request
  instead. This holds for a cookie whose name is not empty and has no equals sign, whose domain and
  path are not padded with white space, with no semicolon in any part, and with an
  expiry that the engine reads from its own text.
\<close>

theorem cookie_roundtrip:
  assumes "c_name c = Some n" "n \<noteq> []" "0x3D \<notin> set n" "c_value c = Some v" "0x3B \<notin> set (n @ v @ c_path c)"
    and "js_trim (c_path c) = c_path c"
    and "given_domain (c_domain c) \<Longrightarrow>
      js_trim (domain_text (c_domain c)) = domain_text (c_domain c) \<and> 0x3B \<notin> set (domain_text (c_domain c))"
    and "expiration_date c \<noteq> PosInf \<Longrightarrow>
      toGMTString (expiration_date c) \<noteq> [] \<and> 0x3B \<notin> set (toGMTString (expiration_date c)) \<and>
      parseDate (toGMTString (expiration_date c)) = expiration_date c"
  shows "Cookie parseDate (Text (cookie_toString toGMTString c)) request_domain request_path
    = Inr (c\<lparr>c_path := (if c_path c = [] then request_or_root request_path else c_path c),
             explicit_path := (c_path c \<noteq> []),
             c_domain := (if given_domain (c_domain c) then c_domain c else request_domain),
             explicit_domain := given_domain (c_domain c)\<rparr>)"
proof -
  let ?e = "if expiration_date c \<noteq> PosInf then [jstr ''expires='' @ toGMTString (expiration_date c)] else []"
  let ?rest = "?e @ (if given_domain (c_domain c) then [jstr ''domain='' @ domain_text (c_domain c)] else []) @
    (if c_path c \<noteq> [] then [jstr ''path='' @ c_path c] else []) @
    (if c_secure c then [jstr ''secure''] else []) @ (if noscript c then [jstr ''httponly''] else [])"
  let ?first = "n @ 0x3D # v"
  let ?start = "(new_cookie request_domain request_path)\<lparr>c_name := Some n, c_value := Some v\<rparr>"
  have parts: "cookie_parts toGMTString c = ?first # ?rest"
    using assms(1,4) by (simp add: cookie_parts_def toValueString_def text_of_def)
  have "list_all (\<lambda>s. 0x3B \<notin> set s) (?first # ?rest)" using assms(5,7,8) by (auto simp: list_all_iff)
  then have "split_at 0x3B (cookie_toString toGMTString c) = ?first # map ((@) [0x20]) ?rest"
    unfolding cookie_toString_def parts using split_at_join [of "0x3B" ?first ?rest "[0x20]"] by simp
  moreover have "cookie_toString toGMTString c \<noteq> []"
    using assms(2) unfolding cookie_toString_def parts by (cases ?rest) simp_all
  moreover have "filter (\<lambda>p. p \<noteq> []) (?first # map ((@) [0x20]) ?rest) = ?first # map ((@) [0x20]) ?rest"
    using assms(2) by (simp add: filter_map comp_def)
  moreover have "parse_attributes parseDate (map ((@) [0x20]) ?rest) ?start
    = Inr (c\<lparr>c_path := (if c_path c = [] then request_or_root request_path else c_path c),
             explicit_path := (c_path c \<noteq> []),
             c_domain := (if given_domain (c_domain c) then c_domain c else c_domain ?start),
             explicit_domain := given_domain (c_domain c)\<rparr>)"
    using assms(1,4,6-8) named_attribute flag_attribute
    by (cases c; cases "c_domain c") (simp_all add: new_cookie_def domain_text_def)
  ultimately show ?thesis
    using match_pair_named [OF assms(2,3)] by (simp add: Cookie_def cookie_parse_def Let_def)
qed

theorem cookie_roundtrip_witness:
  "Cookie (\<lambda>_. Fin 86400000) (Text (cookie_toString (\<lambda>_. jstr ''Fri, 02 Jan 1970 00:00:00 GMT'')
      \<lparr>c_name = Some (jstr ''a''), c_value = Some (jstr ''b=c''), expiration_date = Fin 86400000, c_path = [],
       explicit_path = True, c_domain = Name (jstr ''.a.com''), explicit_domain = False, c_secure = True, noscript = False\<rparr>))
      Absent (Some (jstr ''/x''))
    = Inr \<lparr>c_name = Some (jstr ''a''), c_value = Some (jstr ''b=c''), expiration_date = Fin 86400000, c_path = jstr ''/x'',
       explicit_path = False, c_domain = Name (jstr ''.a.com''), explicit_domain = True, c_secure = True, noscript = False\<rparr>"
  by (subst cookie_roundtrip [where n = "jstr ''a''" and v = "jstr ''b=c''"])
    (simp_all add: js_trim_def js_space_def domain_text_def request_or_root_def)

section \<open>Surprises\<close>

text \<open>The cookie that a text gives, if any.\<close>

definition cookie_of :: "string \<Rightarrow> string \<Rightarrow> cookie option" where
  "cookie_of s host = (case Cookie (\<lambda>_. NaN) (Text (jstr s)) (Name (jstr host)) None of Inl e \<Rightarrow> None | Inr c \<Rightarrow> Some c)"

definition request :: "string \<Rightarrow> string \<Rightarrow> access_info" where
  "request host path = CookieAccessInfo (Name (jstr host)) (Some (jstr path)) False False"

definition sent :: "string \<Rightarrow> string \<Rightarrow> string \<Rightarrow> string \<Rightarrow> bool" where
  "sent s from host path = (case cookie_of s from of None \<Rightarrow> False | Some c \<Rightarrow> matches c (request host path))"

text \<open>The domain of a cookie need not begin at a dot of the domain of the request.\<close>

lemma domain_inside_label: "sent ''a=b; domain=ample.com'' ''ample.com'' ''example.com'' ''/''"
  by code_simp

text \<open>A host may set a cookie for any domain.\<close>

lemma foreign_domain: "sent ''a=b; domain=bank.com'' ''evil.org'' ''bank.com'' ''/''"
  by code_simp

text \<open>Only the first occurrence of the domain counts, also where it ends the domain of the request.\<close>

lemma domain_repeated: "\<not> sent ''a=b; domain=a.com'' ''a.com'' ''a.com.a.com'' ''/''"
  by code_simp

text \<open>The path of a cookie need not end at a slash.\<close>

lemma path_inside_segment: "sent ''a=b; path=/foo'' ''a.com'' ''a.com'' ''/foobar''"
  by code_simp

text \<open>A cookie takes the place of the one with its name on a shorter path, which its requests then miss.\<close>

definition two_paths :: "(jar \<times> cookie list) res" where
  "two_paths = setCookies (\<lambda>_. NaN) 0 [] (Items [Text (jstr ''a=1; path=/''), Text (jstr ''a=2; path=/x'')])
    (Name (jstr ''a.com'')) None"

lemma longer_path_replaces:
  "case two_paths of
     Inl e \<Rightarrow> False
   | Inr (jar, r) \<Rightarrow> length r = 2 \<and> length (cookies_of jar (jstr ''a'')) = 1
       \<and> getCookies 0 jar (request ''a.com'' ''/'') = []"
  by code_simp

text \<open>An empty text is stored as a cookie with the name \<open>null\<close>.\<close>

lemma empty_text_stored:
  "case setCookies (\<lambda>_. NaN) 0 [] (Joined []) Absent None of
     Inl e \<Rightarrow> False | Inr (jar, r) \<Rightarrow> cookies_toValueString r = jstr ''null=null'' \<and> map fst jar = [jstr ''null'']"
  by code_simp

text \<open>The first cookie of a name is answered with a list, later ones with themselves.\<close>

lemma first_stored_list:
  "map_of jar (key_of c) = None \<Longrightarrow> \<not> expired now c \<Longrightarrow> snd (put_cookie now jar c) = StoredList [c]"
  by (simp add: put_cookie_def)

text \<open>A lone equals sign among the attributes throws, as does a text without one before the first semicolon.\<close>

lemma lone_equals_throws: "Cookie pd (Text (jstr ''a=b;='')) d p = Inl (TypeError ''pair is null'')"
  "Cookie pd (Text (jstr ''secure'')) d p = Inl (TypeError ''pair is null'')"
  by (simp_all add: Cookie_def cookie_parse_def match_pair_def match_attribute_def Let_def)

text \<open>A cookie with the empty path is written without it and read with the path of the request.\<close>

lemma empty_path_lost:
  "case cookie_of ''a=b; path='' ''a.com'' of
     None \<Rightarrow> False
   | Some c \<Rightarrow> c_path c = [] \<and>
       (case Cookie (\<lambda>_. NaN) (Text (cookie_toString (\<lambda>_. []) c)) Absent (Some (jstr ''/x'')) of
          Inl e \<Rightarrow> False | Inr d \<Rightarrow> c_path d = jstr ''/x'')"
  by code_simp

end
