(* ===== verification/Es5Arrays.thy ===== *)
theory Es5Arrays
  imports Es5Numbers
begin

text \<open>
  The methods of arrays in \<open>lib/es5-shim.js\<close>: iteration with a callback, the search for an
  element, \<open>splice\<close> and \<open>push\<close>.

  They work on every object with a length, and elements may be missing. A callback may throw and
  may change the object it is called for, and anything else, so that its type has a state; the
  length is read once, and an element when its turn comes. The value of \<open>this\<close> that a callback sees is
  part of the callback. Strings, which the methods split first in browsers that cannot index
  them, and elements inherited from a prototype are not modelled.
\<close>

section \<open>Objects with a length\<close>

record 'v listlike =
  len :: jsnum
  props :: "nat \<Rightarrow> 'v option"

text \<open>\<open>this\<close> is \<open>None\<close> for \<open>undefined\<close> and \<open>null\<close>; the length is that of the state at the call.\<close>

definition ToObject :: "'a option \<Rightarrow> 'a res" where
  "ToObject this =
     (case this of None \<Rightarrow> Inl (TypeError ''can't convert this to object'') | Some ob \<Rightarrow> Inr ob)"

definition object_length :: "'v listlike \<Rightarrow> nat" where
  "object_length ob = nat (ToUint32 (len ob))"

text \<open>
  The state: the object and the rest of the world. A callback gets an element and its index; it ends with a
  value or an exception.
\<close>

type_synonym ('v, 's) state = "'v listlike \<times> 's"
type_synonym ('v, 's, 'b) callback = "'v \<Rightarrow> nat \<Rightarrow> ('v, 's) state \<Rightarrow> 'b res \<times> ('v, 's) state"

text \<open>
  What all methods with a callback do first. There is no state without an object, \<open>None\<close> stands for
  a call on \<open>undefined\<close> or \<open>null\<close>; a callback that is \<open>None\<close> is not callable.
\<close>

definition with_callback ::
    "string \<Rightarrow> 'c option \<Rightarrow> ('v, 's) state option \<Rightarrow> ('c \<Rightarrow> nat \<Rightarrow> ('v, 's) state \<Rightarrow> 'b res \<times> ('v, 's) state)
      \<Rightarrow> 'b res \<times> ('v, 's) state option" where
  "with_callback name cb st run =
     (case ToObject st of
        Inl e \<Rightarrow> (Inl e, st)
      | Inr st1 \<Rightarrow>
          (case cb of
             None \<Rightarrow> (Inl (TypeError (''Array.prototype.'' @ name @ '' callback must be a function'')), st)
           | Some f \<Rightarrow> (let (r, st2) = run f (object_length (fst st1)) st1 in (r, Some st2))))"

section \<open>Iteration\<close>

text \<open>The loops count the rounds that are left; \<open>i\<close> is the index.\<close>

fun forEach_loop :: "('v, 's, 'b) callback \<Rightarrow> nat \<Rightarrow> nat \<Rightarrow> ('v, 's) state \<Rightarrow> unit res \<times> ('v, 's) state" where
  "forEach_loop f 0 i st = (Inr (), st)"
| "forEach_loop f (Suc n) i st =
     (case props (fst st) i of
        None \<Rightarrow> forEach_loop f n (i + 1) st
      | Some v \<Rightarrow>
          (case f v i st of
             (Inl e, st1) \<Rightarrow> (Inl e, st1)
           | (Inr _, st1) \<Rightarrow> forEach_loop f n (i + 1) st1))"

definition forEach :: "('v, 's, 'b) callback option \<Rightarrow> ('v, 's) state option \<Rightarrow> unit res \<times> ('v, 's) state option" where
  "forEach cb st = with_callback ''forEach'' cb st (\<lambda>f n st. forEach_loop f n 0 st)"

text \<open>The result of \<open>map\<close> has the length of the object from the start, and its elements come one by one.\<close>

fun map_loop ::
    "('v, 's, 'b) callback \<Rightarrow> nat \<Rightarrow> nat \<Rightarrow> 'b listlike \<Rightarrow> ('v, 's) state \<Rightarrow> 'b listlike res \<times> ('v, 's) state" where
  "map_loop f 0 i acc st = (Inr acc, st)"
| "map_loop f (Suc n) i acc st =
     (case props (fst st) i of
        None \<Rightarrow> map_loop f n (i + 1) acc st
      | Some v \<Rightarrow>
          (case f v i st of
             (Inl e, st1) \<Rightarrow> (Inl e, st1)
           | (Inr b, st1) \<Rightarrow> map_loop f n (i + 1) (acc\<lparr>props := (props acc)(i := Some b)\<rparr>) st1))"

definition array_map :: "('v, 's, 'b) callback option \<Rightarrow> ('v, 's) state option \<Rightarrow> 'b listlike res \<times> ('v, 's) state option" where
  "array_map cb st = with_callback ''map'' cb st
     (\<lambda>f n st. map_loop f n 0 \<lparr>len = Fin (of_nat n), props = \<lambda>_. None\<rparr> st)"

text \<open>The callbacks of \<open>filter\<close>, \<open>every\<close> and \<open>some\<close> give a value of which only the truth matters.\<close>

fun filter_loop ::
    "('v, 's, bool) callback \<Rightarrow> nat \<Rightarrow> nat \<Rightarrow> 'v list \<Rightarrow> ('v, 's) state \<Rightarrow> 'v list res \<times> ('v, 's) state" where
  "filter_loop f 0 i acc st = (Inr acc, st)"
| "filter_loop f (Suc n) i acc st =
     (case props (fst st) i of
        None \<Rightarrow> filter_loop f n (i + 1) acc st
      | Some v \<Rightarrow>
          (case f v i st of
             (Inl e, st1) \<Rightarrow> (Inl e, st1)
           | (Inr b, st1) \<Rightarrow> filter_loop f n (i + 1) (if b then acc @ [v] else acc) st1))"

definition array_filter :: "('v, 's, bool) callback option \<Rightarrow> ('v, 's) state option \<Rightarrow> 'v list res \<times> ('v, 's) state option" where
  "array_filter cb st = with_callback ''filter'' cb st (\<lambda>f n st. filter_loop f n 0 [] st)"

fun every_loop :: "('v, 's, bool) callback \<Rightarrow> nat \<Rightarrow> nat \<Rightarrow> ('v, 's) state \<Rightarrow> bool res \<times> ('v, 's) state" where
  "every_loop f 0 i st = (Inr True, st)"
| "every_loop f (Suc n) i st =
     (case props (fst st) i of
        None \<Rightarrow> every_loop f n (i + 1) st
      | Some v \<Rightarrow>
          (case f v i st of
             (Inl e, st1) \<Rightarrow> (Inl e, st1)
           | (Inr b, st1) \<Rightarrow> if \<not> b then (Inr False, st1) else every_loop f n (i + 1) st1))"

definition every :: "('v, 's, bool) callback option \<Rightarrow> ('v, 's) state option \<Rightarrow> bool res \<times> ('v, 's) state option" where
  "every cb st = with_callback ''every'' cb st (\<lambda>f n st. every_loop f n 0 st)"

fun some_loop :: "('v, 's, bool) callback \<Rightarrow> nat \<Rightarrow> nat \<Rightarrow> ('v, 's) state \<Rightarrow> bool res \<times> ('v, 's) state" where
  "some_loop f 0 i st = (Inr False, st)"
| "some_loop f (Suc n) i st =
     (case props (fst st) i of
        None \<Rightarrow> some_loop f n (i + 1) st
      | Some v \<Rightarrow>
          (case f v i st of
             (Inl e, st1) \<Rightarrow> (Inl e, st1)
           | (Inr b, st1) \<Rightarrow> if b then (Inr True, st1) else some_loop f n (i + 1) st1))"

definition some :: "('v, 's, bool) callback option \<Rightarrow> ('v, 's) state option \<Rightarrow> bool res \<times> ('v, 's) state option" where
  "some cb st = with_callback ''some'' cb st (\<lambda>f n st. some_loop f n 0 st)"

section \<open>Reduction\<close>

type_synonym ('v, 's, 'b) combine = "'b \<Rightarrow> 'v \<Rightarrow> nat \<Rightarrow> ('v, 's) state \<Rightarrow> 'b res \<times> ('v, 's) state"

fun reduce_loop :: "('v, 's, 'b) combine \<Rightarrow> nat \<Rightarrow> nat \<Rightarrow> 'b \<Rightarrow> ('v, 's) state \<Rightarrow> 'b res \<times> ('v, 's) state" where
  "reduce_loop f 0 i acc st = (Inr acc, st)"
| "reduce_loop f (Suc n) i acc st =
     (case props (fst st) i of
        None \<Rightarrow> reduce_loop f n (i + 1) acc st
      | Some v \<Rightarrow>
          (case f acc v i st of
             (Inl e, st1) \<Rightarrow> (Inl e, st1)
           | (Inr b, st1) \<Rightarrow> reduce_loop f n (i + 1) b st1))"

text \<open>Without an initial value the first element that is there is taken: its value, the index after it, and the rounds left.\<close>

fun first_element :: "nat \<Rightarrow> nat \<Rightarrow> (nat \<Rightarrow> 'v option) \<Rightarrow> ('v \<times> nat \<times> nat) option" where
  "first_element 0 i p = None"
| "first_element (Suc n) i p = (case p i of Some v \<Rightarrow> Some (v, i + 1, n) | None \<Rightarrow> first_element n (i + 1) p)"

text \<open>The initial value has the type of the elements where it may be absent.\<close>

definition reduce ::
    "('v, 's, 'v) combine option \<Rightarrow> 'v option \<Rightarrow> ('v, 's) state option \<Rightarrow> 'v res \<times> ('v, 's) state option" where
  "reduce cb initial st = with_callback ''reduce'' cb st (\<lambda>f n st.
     case initial of
       Some acc \<Rightarrow> reduce_loop f n 0 acc st
     | None \<Rightarrow>
         (case first_element n 0 (props (fst st)) of
            None \<Rightarrow> (Inl (TypeError ''reduce of empty array with no initial value''), st)
          | Some (acc, i, m) \<Rightarrow> reduce_loop f m i acc st))"

text \<open>From the last index down; \<open>n\<close> is the index plus one.\<close>

fun reduceRight_loop :: "('v, 's, 'b) combine \<Rightarrow> nat \<Rightarrow> 'b \<Rightarrow> ('v, 's) state \<Rightarrow> 'b res \<times> ('v, 's) state" where
  "reduceRight_loop f 0 acc st = (Inr acc, st)"
| "reduceRight_loop f (Suc i) acc st =
     (case props (fst st) i of
        None \<Rightarrow> reduceRight_loop f i acc st
      | Some v \<Rightarrow>
          (case f acc v i st of
             (Inl e, st1) \<Rightarrow> (Inl e, st1)
           | (Inr b, st1) \<Rightarrow> reduceRight_loop f i b st1))"

fun last_element :: "nat \<Rightarrow> (nat \<Rightarrow> 'v option) \<Rightarrow> ('v \<times> nat) option" where
  "last_element 0 p = None"
| "last_element (Suc i) p = (case p i of Some v \<Rightarrow> Some (v, i) | None \<Rightarrow> last_element i p)"

definition reduceRight ::
    "('v, 's, 'v) combine option \<Rightarrow> 'v option \<Rightarrow> ('v, 's) state option \<Rightarrow> 'v res \<times> ('v, 's) state option" where
  "reduceRight cb initial st = with_callback ''reduceRight'' cb st (\<lambda>f n st.
     case initial of
       Some acc \<Rightarrow> reduceRight_loop f n acc st
     | None \<Rightarrow>
         (case last_element n (props (fst st)) of
            None \<Rightarrow> (Inl (TypeError ''reduceRight of empty array with no initial value''), st)
          | Some (acc, m) \<Rightarrow> reduceRight_loop f m acc st))"

section \<open>Search\<close>

text \<open>
  The operator \<open>===\<close> is the argument \<open>eq\<close>, the third argument is absent or a number, and the indices 0 and -0 are
  not told apart. Nothing is called here, so that the object is all there is.
\<close>

fun indexOf_loop :: "('v \<Rightarrow> 'v \<Rightarrow> bool) \<Rightarrow> (nat \<Rightarrow> 'v option) \<Rightarrow> 'v \<Rightarrow> nat \<Rightarrow> nat \<Rightarrow> int" where
  "indexOf_loop eq p x 0 i = - 1"
| "indexOf_loop eq p x (Suc n) i =
     (case p i of
        Some v \<Rightarrow> if eq v x then int i else indexOf_loop eq p x n (i + 1)
      | None \<Rightarrow> indexOf_loop eq p x n (i + 1))"

definition start_index :: "nat \<Rightarrow> jsnum \<Rightarrow> nat" where
  "start_index n i =
     (case i of
        Fin q \<Rightarrow> if q \<ge> 0 then nat \<lfloor>q\<rfloor> else nat (max 0 (int n + \<lfloor>q\<rfloor>))
      | PosInf \<Rightarrow> n
      | _ \<Rightarrow> 0)"

definition array_indexOf :: "('v \<Rightarrow> 'v \<Rightarrow> bool) \<Rightarrow> 'v listlike option \<Rightarrow> 'v \<Rightarrow> jsnum option \<Rightarrow> int res" where
  "array_indexOf eq this x fromIndex =
     bind_res (ToObject this) (\<lambda>ob.
     let n = object_length ob
     in if n = 0 then Inr (- 1)
        else
          let i = (case fromIndex of None \<Rightarrow> 0 | Some k \<Rightarrow> start_index n (ToInteger k))
          in Inr (indexOf_loop eq (props ob) x (n - i) i))"

text \<open>The last index to look at plus one, 0 for none.\<close>

definition end_index :: "nat \<Rightarrow> jsnum \<Rightarrow> nat" where
  "end_index n i =
     (case i of
        Fin q \<Rightarrow> let j = min (int n - 1) \<lfloor>q\<rfloor> in if j \<ge> 0 then nat (j + 1) else nat (int n - \<bar>j\<bar> + 1)
      | PosInf \<Rightarrow> n
      | NegInf \<Rightarrow> 0
      | _ \<Rightarrow> 1)"

fun lastIndexOf_loop :: "('v \<Rightarrow> 'v \<Rightarrow> bool) \<Rightarrow> (nat \<Rightarrow> 'v option) \<Rightarrow> 'v \<Rightarrow> nat \<Rightarrow> int" where
  "lastIndexOf_loop eq p x 0 = - 1"
| "lastIndexOf_loop eq p x (Suc i) =
     (case p i of
        Some v \<Rightarrow> if eq x v then int i else lastIndexOf_loop eq p x i
      | None \<Rightarrow> lastIndexOf_loop eq p x i)"

definition array_lastIndexOf :: "('v \<Rightarrow> 'v \<Rightarrow> bool) \<Rightarrow> 'v listlike option \<Rightarrow> 'v \<Rightarrow> jsnum option \<Rightarrow> int res" where
  "array_lastIndexOf eq this x fromIndex =
     bind_res (ToObject this) (\<lambda>ob.
     let n = object_length ob
     in if n = 0 then Inr (- 1)
        else Inr (lastIndexOf_loop eq (props ob) x
          (case fromIndex of None \<Rightarrow> n | Some k \<Rightarrow> end_index n (ToInteger k))))"

section \<open>splice and push\<close>

text \<open>\<open>if (owns(O, from)) { O[to] = O[from]; } else { delete O[to]; }\<close>\<close>

definition move :: "(nat \<Rightarrow> 'v option) \<Rightarrow> nat \<Rightarrow> nat \<Rightarrow> nat \<Rightarrow> 'v option" where
  "move p source target = (case p source of Some v \<Rightarrow> p(target := Some v) | None \<Rightarrow> p(target := None))"

text \<open>The elements that go, with their holes.\<close>

fun taken_loop :: "(nat \<Rightarrow> 'v option) \<Rightarrow> nat \<Rightarrow> nat \<Rightarrow> nat \<Rightarrow> (nat \<Rightarrow> 'v option) \<Rightarrow> nat \<Rightarrow> 'v option" where
  "taken_loop p start 0 k acc = acc"
| "taken_loop p start (Suc n) k acc =
     taken_loop p start n (k + 1) (case p (start + k) of Some v \<Rightarrow> acc(k := Some v) | None \<Rightarrow> acc)"

fun shift_down :: "nat \<Rightarrow> nat \<Rightarrow> nat \<Rightarrow> nat \<Rightarrow> (nat \<Rightarrow> 'v option) \<Rightarrow> nat \<Rightarrow> 'v option" where
  "shift_down d c 0 k p = p"
| "shift_down d c (Suc n) k p = shift_down d c n (k + 1) (move p (k + d) (k + c))"

fun delete_down :: "nat \<Rightarrow> nat \<Rightarrow> (nat \<Rightarrow> 'v option) \<Rightarrow> nat \<Rightarrow> 'v option" where
  "delete_down 0 k p = p"
| "delete_down (Suc n) k p = delete_down n (k - 1) (p(k - 1 := None))"

fun shift_up :: "nat \<Rightarrow> nat \<Rightarrow> nat \<Rightarrow> nat \<Rightarrow> (nat \<Rightarrow> 'v option) \<Rightarrow> nat \<Rightarrow> 'v option" where
  "shift_up d c 0 k p = p"
| "shift_up d c (Suc n) k p = shift_up d c n (k - 1) (move p (k + d - 1) (k + c - 1))"

fun put_items :: "nat \<Rightarrow> 'v list \<Rightarrow> (nat \<Rightarrow> 'v option) \<Rightarrow> nat \<Rightarrow> 'v option" where
  "put_items k [] p = p"
| "put_items k (x # xs) p = put_items (k + 1) xs (p(k := Some x))"

text \<open>A number that \<open>ToInteger\<close> gives, cut to the range from 0 to a length; negative ones count from the end.\<close>

definition actual_start :: "nat \<Rightarrow> jsnum \<Rightarrow> nat" where
  "actual_start n i =
     (case i of
        Fin q \<Rightarrow> if q < 0 then nat (max (int n + \<lfloor>q\<rfloor>) 0) else nat (min \<lfloor>q\<rfloor> (int n))
      | PosInf \<Rightarrow> n
      | _ \<Rightarrow> 0)"

definition actual_count :: "nat \<Rightarrow> jsnum \<Rightarrow> nat" where
  "actual_count m i = (case i of Fin q \<Rightarrow> nat (min (max \<lfloor>q\<rfloor> 0) (int m)) | PosInf \<Rightarrow> m | _ \<Rightarrow> 0)"

text \<open>
  \<open>splice(start, deleteCount, ...items)\<close>: the removed elements, and the object after. A missing argument is the number NaN.
\<close>

definition array_splice ::
    "'v listlike option \<Rightarrow> jsnum \<Rightarrow> jsnum \<Rightarrow> 'v list \<Rightarrow> ((nat \<Rightarrow> 'v option) \<times> 'v listlike) res" where
  "array_splice this start deleteCount items =
     bind_res (ToObject this) (\<lambda>ob.
     let n = object_length ob;
         s = actual_start n (ToInteger start);
         d = actual_count (n - s) (ToInteger deleteCount);
         taken = taken_loop (props ob) s d 0 (\<lambda>_. None);
         c = length items;
         p = (if c < d then delete_down (d - c) n (shift_down d c (n - d - s) s (props ob))
              else if c > d then shift_up d c (n - d - s) (n - d) (props ob)
              else props ob)
     in Inr (taken, ob\<lparr>props := put_items s items p, len := Fin (of_nat (n - d + c))\<rparr>))"

text \<open>\<open>push\<close> on any object with a length: the new length, and the object after.\<close>

definition pushShim :: "'v listlike option \<Rightarrow> 'v list \<Rightarrow> (nat \<times> 'v listlike) res" where
  "pushShim this items =
     bind_res (ToObject this) (\<lambda>ob.
     let n = object_length ob; m = n + length items
     in Inr (m, ob\<lparr>props := put_items n items (props ob), len := Fin (of_nat m)\<rparr>))"

end
