(* ===== verification/Es5ArrayLaws.thy ===== *)
theory Es5ArrayLaws
  imports Es5Arrays
begin

text \<open>
  The methods of arrays against their meaning on the elements that are there: iteration with callbacks that
  only compute as functions on lists, the search as a search in a list of indices, and \<open>splice\<close> as
  the replacement of a range, for arrays with holes and objects with any elements beyond their length.
\<close>

section \<open>Iteration\<close>

text \<open>The elements with their indices.\<close>

definition present_from :: "nat \<Rightarrow> nat \<Rightarrow> (nat \<Rightarrow> 'v option) \<Rightarrow> ('v \<times> nat) list" where
  "present_from i n p = List.map_filter (\<lambda>j. map_option (\<lambda>v. (v, j)) (p j)) [i..<i + n]"

definition present :: "'v listlike \<Rightarrow> ('v \<times> nat) list" where
  "present ob = present_from 0 (object_length ob) (props ob)"

lemma present_from_0 [simp]: "present_from i 0 p = []"
  by (simp add: present_from_def List.map_filter_simps)

lemma present_from_Suc [simp]:
  "present_from i (Suc n) p = (case p i of None \<Rightarrow> [] | Some v \<Rightarrow> [(v, i)]) @ present_from (Suc i) n p"
proof -
  have "[i..<i + Suc n] = i # [Suc i..<Suc i + n]" by (simp add: upt_rec)
  then show ?thesis by (simp add: present_from_def List.map_filter_simps split: option.split)
qed

lemma present_from_snoc:
  "present_from i (Suc n) p = present_from i n p @ (case p (i + n) of None \<Rightarrow> [] | Some v \<Rightarrow> [(v, i + n)])"
  by (simp add: present_from_def List.map_filter_def split: option.split)

text \<open>A callback that only computes.\<close>

definition computing :: "('v \<Rightarrow> nat \<Rightarrow> 'b) \<Rightarrow> ('v, 's, 'b) callback" where
  "computing g = (\<lambda>v i st. (Inr (g v i), st))"

definition combining :: "('b \<Rightarrow> 'v \<Rightarrow> nat \<Rightarrow> 'b) \<Rightarrow> ('v, 's, 'b) combine" where
  "combining g = (\<lambda>acc v i st. (Inr (g acc v i), st))"

lemma forEach_computes: "forEach_loop (computing g) n i st = (Inr (), st)"
  by (induction n arbitrary: i) (auto simp: computing_def split: option.split)

lemma map_computes:
  "map_loop (computing g) n i acc st =
    (Inr (acc\<lparr>props := \<lambda>j. if i \<le> j \<and> j < i + n then (case props (fst st) j of None \<Rightarrow> props acc j | Some v \<Rightarrow> Some (g v j))
       else props acc j\<rparr>), st)"
  unfolding computing_def
proof (induction n arbitrary: i acc)
  case (Suc n)
  have step: "i \<le> j \<and> j < i + Suc n \<longleftrightarrow> j = i \<or> Suc i \<le> j \<and> j < Suc i + n" for j by auto
  show ?case
    by (cases "props (fst st) i")
      (auto simp: Suc step fun_eq_iff Suc_le_eq le_less intro!: listlike.equality split: option.split)
qed (auto simp: fun_eq_iff intro!: listlike.equality)

lemma filter_computes:
  "filter_loop (computing g) n i acc st =
    (Inr (acc @ map fst (filter (\<lambda>(v, j). g v j) (present_from i n (props (fst st))))), st)"
  by (induction n arbitrary: i acc) (auto simp: computing_def split: option.split)

lemma every_computes:
  "every_loop (computing g) n i st = (Inr (list_all (\<lambda>(v, j). g v j) (present_from i n (props (fst st)))), st)"
  by (induction n arbitrary: i) (auto simp: computing_def split: option.split)

lemma some_computes:
  "some_loop (computing g) n i st = (Inr (list_ex (\<lambda>(v, j). g v j) (present_from i n (props (fst st)))), st)"
  by (induction n arbitrary: i) (auto simp: computing_def split: option.split)

lemma reduce_computes:
  "reduce_loop (combining g) n i acc st =
    (Inr (foldl (\<lambda>acc (v, j). g acc v j) acc (present_from i n (props (fst st)))), st)"
  by (induction n arbitrary: i acc) (auto simp: combining_def split: option.split)

lemma reduceRight_computes:
  "reduceRight_loop (combining g) n acc st =
    (Inr (foldl (\<lambda>acc (v, j). g acc v j) acc (rev (present_from 0 n (props (fst st))))), st)"
  by (induction n arbitrary: acc) (auto simp: combining_def present_from_snoc simp del: present_from_Suc split: option.split)

lemma first_element_None: "first_element n i p = None \<Longrightarrow> present_from i n p = []"
  by (induction n arbitrary: i) (auto split: option.splits)

lemma first_element_Some: "first_element n i p = Some (v, j, m) \<Longrightarrow> \<exists>k. present_from i n p = (v, k) # present_from j m p"
  by (induction n arbitrary: i) (auto split: option.splits)

lemma last_element_present:
  "case last_element n p of
     None \<Rightarrow> present_from 0 n p = []
   | Some (v, m) \<Rightarrow> present_from 0 n p = present_from 0 m p @ [(v, m)]"
  by (induction n) (auto simp: present_from_snoc simp del: present_from_Suc split: option.splits prod.split)

lemmas callback_start = with_callback_def ToObject_def present_def

lemma forEach_pure:
  "forEach (Some (computing g)) (Some st) = (Inr (), Some st)"
  by (simp add: forEach_def callback_start forEach_computes)

lemma map_pure:
  "array_map (Some (computing g)) (Some st) =
      (Inr \<lparr>len = Fin (of_nat (object_length (fst st))),
            props = \<lambda>j. if j < object_length (fst st) then map_option (\<lambda>v. g v j) (props (fst st) j) else None\<rparr>, Some st)"
  by (auto simp: array_map_def callback_start map_computes split: option.split)

lemma filter_pure:
  "array_filter (Some (computing h)) (Some st) = (Inr (map fst (filter (\<lambda>(v, j). h v j) (present (fst st)))), Some st)"
  by (simp add: array_filter_def callback_start filter_computes)

lemma every_pure:
  "every (Some (computing h)) (Some st) = (Inr (list_all (\<lambda>(v, j). h v j) (present (fst st))), Some st)"
  by (simp add: every_def callback_start every_computes)

lemma some_pure:
  "some (Some (computing h)) (Some st) = (Inr (list_ex (\<lambda>(v, j). h v j) (present (fst st))), Some st)"
  by (simp add: some_def callback_start some_computes)

lemma reduce_pure:
  "reduce (Some (combining f)) initial (Some st) =
      (case initial of
         Some acc \<Rightarrow> (Inr (foldl (\<lambda>acc (v, j). f acc v j) acc (present (fst st))), Some st)
       | None \<Rightarrow> (case present (fst st) of
            [] \<Rightarrow> (Inl (TypeError ''reduce of empty array with no initial value''), Some st)
          | (v, i) # ys \<Rightarrow> (Inr (foldl (\<lambda>acc (v, j). f acc v j) v ys), Some st)))"
proof (cases "first_element (object_length (fst st)) 0 (props (fst st))")
  case None
  with first_element_None [OF None] show ?thesis
    by (simp add: reduce_def callback_start reduce_computes split: option.split)
next
  case (Some a)
  obtain v j m where a: "a = (v, j, m)" by (cases a) auto
  from first_element_Some [OF Some [unfolded a]] Some a show ?thesis
    by (auto simp: reduce_def callback_start reduce_computes split: option.split)
qed

lemma reduceRight_pure:
  "reduceRight (Some (combining f)) initial (Some st) =
      (case initial of
         Some acc \<Rightarrow> (Inr (foldl (\<lambda>acc (v, j). f acc v j) acc (rev (present (fst st)))), Some st)
       | None \<Rightarrow> (case rev (present (fst st)) of
            [] \<Rightarrow> (Inl (TypeError ''reduceRight of empty array with no initial value''), Some st)
          | (v, i) # ys \<Rightarrow> (Inr (foldl (\<lambda>acc (v, j). f acc v j) v ys), Some st)))"
  using last_element_present [of "object_length (fst st)" "props (fst st)"]
  by (auto simp: reduceRight_def callback_start reduceRight_computes split: option.split)

text \<open>
  C31: with callbacks that only compute, the methods are functions on the list of the elements that
  are there, with their indices: \<open>map\<close> keeps holes and length, \<open>filter\<close>, \<open>every\<close> and \<open>some\<close> are those of
  lists, \<open>reduce\<close> and \<open>reduceRight\<close> are folds from either end, which without an initial value start
  with the first element or throw on none; and the object is left as it was.
\<close>

theorem iteration_computes:
  "forEach (Some (computing g)) (Some st) = (Inr (), Some st)
    \<and> array_map (Some (computing g)) (Some st) =
      (Inr \<lparr>len = Fin (of_nat (object_length (fst st))),
            props = \<lambda>j. if j < object_length (fst st) then map_option (\<lambda>v. g v j) (props (fst st) j) else None\<rparr>, Some st)
    \<and> array_filter (Some (computing h)) (Some st) = (Inr (map fst (filter (\<lambda>(v, j). h v j) (present (fst st)))), Some st)
    \<and> every (Some (computing h)) (Some st) = (Inr (list_all (\<lambda>(v, j). h v j) (present (fst st))), Some st)
    \<and> some (Some (computing h)) (Some st) = (Inr (list_ex (\<lambda>(v, j). h v j) (present (fst st))), Some st)
    \<and> reduce (Some (combining f)) initial (Some st) =
      (case initial of
         Some acc \<Rightarrow> (Inr (foldl (\<lambda>acc (v, j). f acc v j) acc (present (fst st))), Some st)
       | None \<Rightarrow> (case present (fst st) of
            [] \<Rightarrow> (Inl (TypeError ''reduce of empty array with no initial value''), Some st)
          | (v, i) # ys \<Rightarrow> (Inr (foldl (\<lambda>acc (v, j). f acc v j) v ys), Some st)))
    \<and> reduceRight (Some (combining f)) initial (Some st) =
      (case initial of
         Some acc \<Rightarrow> (Inr (foldl (\<lambda>acc (v, j). f acc v j) acc (rev (present (fst st)))), Some st)
       | None \<Rightarrow> (case rev (present (fst st)) of
            [] \<Rightarrow> (Inl (TypeError ''reduceRight of empty array with no initial value''), Some st)
          | (v, i) # ys \<Rightarrow> (Inr (foldl (\<lambda>acc (v, j). f acc v j) v ys), Some st)))"
  by (intro conjI forEach_pure map_pure filter_pure every_pure some_pure reduce_pure reduceRight_pure)

text \<open>A callback with effects is called for what is there when its turn comes, in the order of the indices.\<close>

definition logging :: "('v, 's, 'b) callback \<Rightarrow> ('v, 's \<times> ('v \<times> nat \<times> 'v option) list, 'b) callback" where
  "logging f = (\<lambda>v i (ob, s, calls).
     let (r, ob1, s1) = f v i (ob, s) in (r, ob1, s1, calls @ [(v, i, props ob i)]))"

lemma forEach_calls:
  "\<exists>calls. snd (snd (snd (forEach_loop (logging f) n i (ob, s, before)))) = before @ calls
    \<and> sorted_wrt (<) (map (\<lambda>(v, j, e). j) calls)
    \<and> list_all (\<lambda>(v, j, e). i \<le> j \<and> j < i + n \<and> e = Some v) calls"
proof (induction n arbitrary: i ob s before)
  case (Suc n)
  show ?case
  proof (cases "props ob i")
    case None
    obtain calls where "snd (snd (snd (forEach_loop (logging f) n (i + 1) (ob, s, before)))) = before @ calls"
        "sorted_wrt (<) (map (\<lambda>(v, j, e). j) calls)" "list_all (\<lambda>(v, j, e). i + 1 \<le> j \<and> j < i + 1 + n \<and> e = Some v) calls"
      using Suc.IH by blast
    with None show ?thesis by (intro exI [of _ calls]) (auto simp: list_all_iff)
  next
    case (Some v)
    obtain r ob1 s1 where f: "f v i (ob, s) = (r, ob1, s1)" by (cases "f v i (ob, s)") auto
    show ?thesis
    proof (cases r)
      case (Inl e)
      with Some f show ?thesis by (intro exI [of _ "[(v, i, Some v)]"]) (simp add: logging_def)
    next
      case (Inr b)
      obtain calls where calls: "snd (snd (snd (forEach_loop (logging f) n (i + 1) (ob1, s1, before @ [(v, i, Some v)])))) =
            (before @ [(v, i, Some v)]) @ calls"
          "sorted_wrt (<) (map (\<lambda>(v, j, e). j) calls)" "list_all (\<lambda>(v, j, e). i + 1 \<le> j \<and> j < i + 1 + n \<and> e = Some v) calls"
        using Suc.IH by blast
      have "logging f v i (ob, s, before) = (Inr b, ob1, s1, before @ [(v, i, Some v)])"
        using f Inr Some by (simp add: logging_def)
      with Some calls show ?thesis
        by (intro exI [of _ "(v, i, Some v) # calls"]) (auto simp: list_all_iff)
    qed
  qed
qed simp

section \<open>Search\<close>

definition hit :: "('v \<Rightarrow> 'v \<Rightarrow> bool) \<Rightarrow> 'v listlike \<Rightarrow> 'v \<Rightarrow> nat \<Rightarrow> bool" where
  "hit eq ob x i = (case props ob i of None \<Rightarrow> False | Some v \<Rightarrow> eq v x)"

definition index_or_minus :: "nat option \<Rightarrow> int" where
  "index_or_minus i = (case i of None \<Rightarrow> - 1 | Some i \<Rightarrow> int i)"

lemma indexOf_loop_find: "indexOf_loop eq (props ob) x n i = index_or_minus (List.find (hit eq ob x) [i..<i + n])"
proof (induction n arbitrary: i)
  case (Suc n)
  have "[i..<i + Suc n] = i # [Suc i..<Suc i + n]" by (simp add: upt_rec)
  with Suc show ?case by (simp add: hit_def index_or_minus_def split: option.split)
qed (simp add: index_or_minus_def)

lemma lastIndexOf_loop_find:
  "lastIndexOf_loop eq (props ob) x n = index_or_minus (List.find (hit (\<lambda>v x. eq x v) ob x) (rev [0..<n]))"
  by (induction n) (simp_all add: hit_def index_or_minus_def split: option.split)

lemma upto_length: "[i..<i + (n - i)] = [i..<n]"
  by (cases "i \<le> n") simp_all

lemma indexOf_finds:
  "array_indexOf eq (Some ob) x fromIndex =
    Inr (index_or_minus (List.find (hit eq ob x)
      [(case fromIndex of None \<Rightarrow> 0 | Some k \<Rightarrow> start_index (object_length ob) (ToInteger k))..<object_length ob]))"
  unfolding array_indexOf_def ToObject_def
  by (cases fromIndex) (auto simp: Let_def indexOf_loop_find upto_length index_or_minus_def)

lemma lastIndexOf_finds:
  "object_length ob \<noteq> 0 \<Longrightarrow> array_lastIndexOf eq (Some ob) x fromIndex =
    Inr (index_or_minus (List.find (hit (\<lambda>v x. eq x v) ob x)
      (rev [0..<(case fromIndex of None \<Rightarrow> object_length ob | Some k \<Rightarrow> end_index (object_length ob) (ToInteger k))])))"
  by (simp add: array_lastIndexOf_def ToObject_def lastIndexOf_loop_find Let_def)

section \<open>splice\<close>

lemma move_eq: "move p i j = p(j := p i)"
  by (simp add: move_def split: option.split)

lemma taken_loop_eq:
  "taken_loop p s n k (\<lambda>j. if j < k then p (s + j) else None) = (\<lambda>j. if j < k + n then p (s + j) else None)"
proof (induction n arbitrary: k)
  case (Suc n)
  have "(case p (s + k) of Some v \<Rightarrow> (\<lambda>j. if j < k then p (s + j) else None)(k := Some v)
      | None \<Rightarrow> (\<lambda>j. if j < k then p (s + j) else None)) = (\<lambda>j. if j < k + 1 then p (s + j) else None)"
    by (rule ext) (auto simp: less_Suc_eq split: option.split)
  with Suc [of "k + 1"] show ?case by simp
qed simp

lemma shift_down_eq:
  "c \<le> d \<Longrightarrow> shift_down d c n k p = (\<lambda>i. if k + c \<le> i \<and> i < k + c + n then p (i + d - c) else p i)"
proof (induction n arbitrary: k p)
  case (Suc n)
  show ?case
    unfolding shift_down.simps move_eq Suc.IH [OF Suc.prems]
    by (rule ext) (use Suc.prems in \<open>auto simp: less_Suc_eq Suc_le_eq\<close>)
qed (auto simp: fun_eq_iff)

lemma delete_down_eq:
  "n \<le> k \<Longrightarrow> delete_down n k p = (\<lambda>i. if k - n \<le> i \<and> i < k then None else p i)"
proof (induction n arbitrary: k p)
  case (Suc n)
  then have "n \<le> k - 1" by simp
  show ?case
    unfolding delete_down.simps Suc.IH [OF \<open>n \<le> k - 1\<close>]
    by (rule ext) (use Suc.prems in auto)
qed (auto simp: fun_eq_iff)

lemma shift_up_eq:
  "d \<le> c \<Longrightarrow> n \<le> k \<Longrightarrow> shift_up d c n k p = (\<lambda>i. if k + c - n \<le> i \<and> i < k + c then p (i + d - c) else p i)"
proof (induction n arbitrary: k p)
  case (Suc n)
  then have "n \<le> k - 1" by simp
  show ?case
    unfolding shift_up.simps move_eq Suc.IH [OF Suc.prems(1) \<open>n \<le> k - 1\<close>]
    by (rule ext) (use Suc.prems in \<open>auto simp: less_Suc_eq Suc_le_eq\<close>)
qed (auto simp: fun_eq_iff)

lemma put_items_eq: "put_items k xs p = (\<lambda>i. if k \<le> i \<and> i < k + length xs then Some (xs ! (i - k)) else p i)"
proof (induction xs arbitrary: k p)
  case (Cons x xs)
  show ?case
    unfolding put_items.simps Cons.IH
    by (rule ext) (auto simp: nth_Cons')
qed (auto simp: fun_eq_iff)

lemma actual_bounds: "actual_start n i \<le> n" "actual_count m i \<le> m"
  by (auto simp: actual_start_def actual_count_def nat_le_iff floor_le_iff split: jsnum.split)

lemma splice_effect:
  fixes ob :: "'v listlike" and start deleteCount :: jsnum
  defines "n \<equiv> object_length ob" and "p \<equiv> props ob"
  defines "s \<equiv> actual_start n (ToInteger start)"
  defines "d \<equiv> actual_count (n - s) (ToInteger deleteCount)"
  shows "array_splice (Some ob) start deleteCount items =
      Inr (\<lambda>k. if k < d then p (s + k) else None,
           ob\<lparr>len := Fin (of_nat (n - d + length items)),
              props := (\<lambda>i. if i < s then p i
                            else if i < s + length items then Some (items ! (i - s))
                            else if i < n - d + length items then p (i + d - length items)
                            else if i < n then None
                            else p i)\<rparr>)"
    and "s + d \<le> n"
proof -
  let ?c = "length items"
  have s: "s \<le> n" unfolding s_def by (rule actual_bounds)
  moreover have "d \<le> n - s" unfolding d_def by (rule actual_bounds)
  ultimately show sd: "s + d \<le> n" by simp
  have taken: "taken_loop p s d 0 (\<lambda>_. None) = (\<lambda>k. if k < d then p (s + k) else None)"
    using taken_loop_eq [of p s d 0] by simp
  have code: "array_splice (Some ob) start deleteCount items =
      Inr (taken_loop p s d 0 (\<lambda>_. None),
        ob\<lparr>props := put_items s items (if ?c < d then delete_down (d - ?c) n (shift_down d ?c (n - d - s) s p)
             else if ?c > d then shift_up d ?c (n - d - s) (n - d) p else p), len := Fin (of_nat (n - d + ?c))\<rparr>)"
    by (simp only: array_splice_def ToObject_def Let_def option.case bind_res_simps n_def p_def s_def d_def)
  have "put_items s items (if ?c < d then delete_down (d - ?c) n (shift_down d ?c (n - d - s) s p)
        else if ?c > d then shift_up d ?c (n - d - s) (n - d) p else p) =
      (\<lambda>i. if i < s then p i else if i < s + ?c then Some (items ! (i - s))
           else if i < n - d + ?c then p (i + d - ?c) else if i < n then None else p i)"
  proof (cases ?c d rule: linorder_cases)
    case less
    then have le: "?c \<le> d" "d - ?c \<le> n" using sd by simp_all
    show ?thesis
      unfolding put_items_eq shift_down_eq [OF le(1)] delete_down_eq [OF le(2)] using less sd
      by (intro ext) auto
  next
    case equal
    with sd show ?thesis unfolding put_items_eq by (intro ext) auto
  next
    case greater
    then have le: "d \<le> ?c" "n - d - s \<le> n - d" by simp_all
    show ?thesis
      unfolding put_items_eq shift_up_eq [OF le] using greater sd
      by (intro ext) auto
  qed
  with taken show "array_splice (Some ob) start deleteCount items =
      Inr (\<lambda>k. if k < d then p (s + k) else None,
           ob\<lparr>len := Fin (of_nat (n - d + ?c)),
              props := (\<lambda>i. if i < s then p i else if i < s + ?c then Some (items ! (i - s))
                            else if i < n - d + ?c then p (i + d - ?c) else if i < n then None else p i)\<rparr>)"
    unfolding code by simp
qed

text \<open>
  C30: \<open>splice\<close> returns the elements of the range, with its holes, and leaves the items in their place: what was
  before the range stays, what was after it moves to the end of the items, holes included, the places
  that become free up to the old length are empty, and nothing beyond the old and the new length
  changes. The range lies within the object.
\<close>

theorem splice_replaces:
  "let n = object_length ob; p = props ob; c = length items;
       s = actual_start n (ToInteger start); d = actual_count (n - s) (ToInteger deleteCount)
   in array_splice (Some ob) start deleteCount items =
        Inr (\<lambda>k. if k < d then p (s + k) else None,
             ob\<lparr>len := Fin (of_nat (n - d + c)),
                props := (\<lambda>i. if i < s then p i
                              else if i < s + c then Some (items ! (i - s))
                              else if i < n - d + c then p (i + d - c)
                              else if i < n then None
                              else p i)\<rparr>)
      \<and> s + d \<le> n"
  unfolding Let_def by (intro conjI splice_effect)

text \<open>On the elements of a list, this is the list with the range replaced.\<close>

definition of_list :: "'v list \<Rightarrow> nat \<Rightarrow> 'v option" where
  "of_list xs i = (if i < length xs then Some (xs ! i) else None)"

lemma splice_of_list:
  assumes "length xs < 2 ^ 32" "s \<le> length xs" "s + d \<le> length xs"
  shows "array_splice (Some \<lparr>len = Fin (of_nat (length xs)), props = of_list xs\<rparr>) (Fin (of_nat s)) (Fin (of_nat d)) items =
    (let ys = take s xs @ items @ drop (s + d) xs
     in Inr (of_list (take d (drop s xs)), \<lparr>len = Fin (of_nat (length ys)), props = of_list ys\<rparr>))"
proof -
  let ?ob = "\<lparr>len = Fin (of_nat (length xs)), props = of_list xs\<rparr>"
  have n: "object_length ?ob = length xs"
    using assms(1) by (simp add: object_length_def ToUint32_def)
  have start: "actual_start (length xs) (ToInteger (Fin (of_nat s))) = s"
    "actual_count (length xs - s) (ToInteger (Fin (of_nat d))) = d"
    using assms(2,3) by (auto simp: actual_start_def actual_count_def ToInteger_def)
  show ?thesis
    using splice_effect(1) [of ?ob "Fin (of_nat s)" "Fin (of_nat d)" items] assms(2,3)
    unfolding n start
    by (auto simp: of_list_def Let_def nth_append fun_eq_iff add.commute)
qed

section \<open>push\<close>

lemma push_appends:
  "pushShim (Some ob) items =
    Inr (object_length ob + length items,
      ob\<lparr>len := Fin (of_nat (object_length ob + length items)),
         props := \<lambda>i. if object_length ob \<le> i \<and> i < object_length ob + length items then Some (items ! (i - object_length ob)) else props ob i\<rparr>)"
  by (simp add: pushShim_def ToObject_def put_items_eq Let_def)

text \<open>Without a count nothing is removed, where the other \<open>splice\<close> of the file removes the rest.\<close>

lemma splice_without_count:
  "array_splice (Some ob) start NaN [] =
    Inr (\<lambda>_. None, ob\<lparr>len := Fin (of_nat (object_length ob))\<rparr>)"
proof -
  have "actual_count m (ToInteger NaN) = 0" for m by (simp add: actual_count_def ToInteger_def)
  then show ?thesis using splice_effect(1) [of ob start NaN "[]"] by (auto intro!: listlike.equality)
qed

end
