(* ===== verification/Es5Strings.thy ===== *)
theory Es5Strings
  imports Es5Numbers "HOL-Library.Sublist"
begin

text \<open>
  The methods of strings in \<open>lib/es5-shim.js\<close> that do not hand the work to the engine: \<open>trim\<close> and
  \<open>lastIndexOf\<close>; what \<open>substr\<close>, \<open>parseInt\<close> and \<open>parseFloat\<close> do to their arguments and results before and after
  the function of the engine, which is an argument here; and the texts of errors and
  regular expressions.
\<close>

section \<open>trim\<close>

definition ws :: "int \<Rightarrow> bool" where
  "ws c \<longleftrightarrow> c \<in> {0x09, 0x0A, 0x0B, 0x0C, 0x0D, 0x20, 0xA0, 0x1680, 0x180E, 0x2000, 0x2001, 0x2002, 0x2003,
     0x2004, 0x2005, 0x2006, 0x2007, 0x2008, 0x2009, 0x200A, 0x202F, 0x205F, 0x3000, 0x2028, 0x2029, 0xFEFF}"

text \<open>The expressions take one white space at an end of the string and all that is next to it.\<close>

definition trim_begin :: "jsstring \<Rightarrow> jsstring" where
  "trim_begin s = dropWhile ws s"

definition trim_end :: "jsstring \<Rightarrow> jsstring" where
  "trim_end s = rev (dropWhile ws (rev s))"

text \<open>\<open>this\<close> is \<open>None\<close> for \<open>undefined\<close> and \<open>null\<close>.\<close>

definition string_this :: "jsstring option \<Rightarrow> jsstring res" where
  "string_this this =
     (case this of None \<Rightarrow> Inl (TypeError ''can't convert this to object'') | Some s \<Rightarrow> Inr s)"

definition shim_trim :: "jsstring option \<Rightarrow> jsstring res" where
  "shim_trim this = bind_res (string_this this) (\<lambda>s. Inr (trim_end (trim_begin s)))"

section \<open>lastIndexOf\<close>

text \<open>\<open>S.indexOf(t)\<close>, \<open>None\<close> for -1.\<close>

fun first_occurrence :: "jsstring \<Rightarrow> jsstring \<Rightarrow> nat option" where
  "first_occurrence [] t = (if t = [] then Some 0 else None)"
| "first_occurrence (c # s) t = (if prefix t (c # s) then Some 0 else map_option Suc (first_occurrence s t))"

text \<open>The window of the search moves to the left by the length of the text, and grows.\<close>

function last_loop :: "jsstring \<Rightarrow> jsstring \<Rightarrow> nat \<Rightarrow> nat \<Rightarrow> int" where
  "last_loop s t start k =
     (if k = 0 then - 1
      else
        let k1 = k - length t in
        case first_occurrence (drop k1 (take (start + length t) s)) t of
          Some index \<Rightarrow> int (k1 + index)
        | None \<Rightarrow> last_loop s t start k1)"
  by pat_completeness auto
termination
proof (relation "measure (\<lambda>(s, t, start, k). k)")
  fix s t :: jsstring and start k k1 :: nat
  assume k: "k \<noteq> 0" "k1 = k - length t" "first_occurrence (drop k1 (take (start + length t) s)) t = None"
  have "first_occurrence u [] = Some 0" for u by (cases u) simp_all
  with k(3) have "t \<noteq> []" by auto
  with k(1,2) show "((s, t, start, k1), (s, t, start, k)) \<in> measure (\<lambda>(s, t, start, k). k)" by simp
qed simp

declare last_loop.simps [simp del]

text \<open>The position is absent or a number; the result of \<open>ToInteger\<close> is cut to the length.\<close>

definition last_start :: "jsstring \<Rightarrow> jsnum option \<Rightarrow> nat" where
  "last_start s position =
     (case position of
        None \<Rightarrow> length s
      | Some NaN \<Rightarrow> length s
      | Some p \<Rightarrow>
          (case ToInteger p of
             Fin q \<Rightarrow> nat (min (max \<lfloor>q\<rfloor> 0) (int (length s)))
           | PosInf \<Rightarrow> length s
           | _ \<Rightarrow> 0))"

definition shim_lastIndexOf :: "jsstring option \<Rightarrow> jsstring \<Rightarrow> jsnum option \<Rightarrow> int res" where
  "shim_lastIndexOf this t position =
     bind_res (string_this this) (\<lambda>s.
     let start = last_start s position in Inr (last_loop s t start (start + length t)))"

section \<open>Around functions of the engine\<close>

definition shim_substr :: "(jsstring \<Rightarrow> int \<Rightarrow> int option \<Rightarrow> jsstring) \<Rightarrow> jsstring \<Rightarrow> int \<Rightarrow> int option \<Rightarrow> jsstring" where
  "shim_substr string_substr s start count =
     string_substr s (if start < 0 then max (int (length s) + start) 0 else start) count"

text \<open>\<open>/^[\-+]?0[xX]/\<close>\<close>

definition hex_prefixed :: "jsstring \<Rightarrow> bool" where
  "hex_prefixed s =
     (let t = (case s of c # r \<Rightarrow> if c = 0x2D \<or> c = 0x2B then r else s | [] \<Rightarrow> [])
      in take 2 t = [0x30, 0x78] \<or> take 2 t = [0x30, 0x58])"

text \<open>\<open>$Number(radix) || ...\<close>: the radix is absent, or a number that is not 0, or counts as absent.\<close>

definition shim_parseInt :: "(jsstring \<Rightarrow> jsnum \<Rightarrow> jsnum) \<Rightarrow> jsstring \<Rightarrow> jsnum \<Rightarrow> jsnum" where
  "shim_parseInt origParseInt str radix =
     (let s = trim_end (trim_begin str)
      in origParseInt s
           (if radix \<noteq> NaN \<and> radix \<noteq> NegZero \<and> radix \<noteq> Fin 0 then radix
            else if hex_prefixed s then Fin 16 else Fin 10))"

definition shim_parseFloat :: "(jsstring \<Rightarrow> jsnum) \<Rightarrow> jsstring \<Rightarrow> jsnum" where
  "shim_parseFloat origParseFloat str =
     (let s = trim_end (trim_begin str); r = origParseFloat s
      in if (r = Fin 0 \<or> r = NegZero) \<and> take 1 s = [0x2D] then NegZero else r)"

section \<open>Texts of errors and regular expressions\<close>

text \<open>The name and the message are absent or have been turned into strings.\<close>

definition errorToString :: "jsstring option \<Rightarrow> jsstring option \<Rightarrow> jsstring" where
  "errorToString name message =
     (let n = (case name of None \<Rightarrow> jstr ''Error'' | Some n \<Rightarrow> n);
          m = (case message of None \<Rightarrow> [] | Some m \<Rightarrow> m)
      in if n = [] then m else if m = [] then n else n @ jstr '': '' @ m)"

definition regexToString :: "jsstring \<Rightarrow> bool \<Rightarrow> bool \<Rightarrow> bool \<Rightarrow> jsstring" where
  "regexToString source global ignoreCase multiline =
     jstr ''/'' @ source @ jstr ''/'' @ (if global then jstr ''g'' else []) @
     (if ignoreCase then jstr ''i'' else []) @ (if multiline then jstr ''m'' else [])"

section \<open>What they give\<close>

lemma dropWhile_hd: "dropWhile p s \<noteq> [] \<Longrightarrow> \<not> p (hd (dropWhile p s))"
  by (induction s) auto

lemma trim_outer:
  "\<exists>a b. s = a @ trim_end (trim_begin s) @ b \<and> list_all ws (a @ b)"
proof -
  have dw: "\<exists>a. u = a @ dropWhile ws u \<and> list_all ws a" for u
    by (rule exI [of _ "takeWhile ws u"]) (auto simp: list_all_iff dest: set_takeWhileD)
  obtain a where a: "s = a @ trim_begin s" "list_all ws a" using dw [of s] by (auto simp: trim_begin_def)
  obtain b where b: "rev (trim_begin s) = b @ dropWhile ws (rev (trim_begin s))" "list_all ws b"
    using dw [of "rev (trim_begin s)"] by auto
  from arg_cong [OF b(1), of rev] have "trim_begin s = trim_end (trim_begin s) @ rev b"
    by (simp add: trim_end_def)
  with a b(2) show ?thesis
    by (intro exI [of _ a] exI [of _ "rev b"]) (auto simp: list_all_iff)
qed

lemma trim_ends:
  "trim_end (trim_begin s) \<noteq> [] \<Longrightarrow> \<not> ws (hd (trim_end (trim_begin s))) \<and> \<not> ws (last (trim_end (trim_begin s)))"
proof -
  let ?t = "trim_begin s" and ?u = "trim_end (trim_begin s)"
  assume ne: "?u \<noteq> []"
  then have "dropWhile ws (rev ?t) \<noteq> []" by (simp add: trim_end_def)
  from dropWhile_hd [OF this] have "\<not> ws (last ?u)" by (simp add: trim_end_def last_rev)
  moreover have "\<not> ws (hd ?u)"
  proof -
    have "prefix ?u ?t"
      using suffix_dropWhile [of ws "rev ?t"] by (simp add: trim_end_def suffix_to_prefix)
    with ne obtain r where "?t = ?u @ r" by (auto simp: prefix_def)
    moreover have "?t \<noteq> []" using ne \<open>?t = ?u @ r\<close> by auto
    ultimately show ?thesis using ne dropWhile_hd [of ws s] by (metis hd_append2 trim_begin_def)
  qed
  ultimately show ?thesis by simp
qed

lemma first_occurrence_Some: "first_occurrence s t = Some i \<Longrightarrow> prefix t (drop i s)"
  by (induction s arbitrary: i) (auto split: if_splits)

lemma first_occurrence_None: "first_occurrence s t = None \<Longrightarrow> i \<le> length s \<Longrightarrow> \<not> prefix t (drop i s)"
proof (induction s arbitrary: i)
  case (Cons c s)
  then show ?case by (cases i) (auto split: if_splits)
qed (auto split: if_splits)

lemma prefix_window:
  "prefix t (drop i (take (start + length t) s)) \<longleftrightarrow> prefix t (drop i s) \<and> (i \<le> start \<or> t = [])"
proof (cases "t = []")
  case False
  have "prefix t (drop i (take (start + length t) s)) \<longleftrightarrow> take (length t) (drop i (take (start + length t) s)) = t"
    by (metis append_eq_conv_conj prefix_def take_is_prefix)
  also have "\<dots> \<longleftrightarrow> take (length t) (drop i s) = t \<and> i \<le> start"
  proof (cases "i \<le> start")
    case True
    then have "min (length t) (start + length t - i) = length t" by simp
    then show ?thesis using True by (simp add: drop_take)
  next
    case False
    then have "start + length t - i < length t" using \<open>t \<noteq> []\<close> by (cases t) auto
    then have "length (take (length t) (drop i (take (start + length t) s))) < length t" by simp
    then have "take (length t) (drop i (take (start + length t) s)) \<noteq> t" by force
    then show ?thesis using False by blast
  qed
  also have "take (length t) (drop i s) = t \<longleftrightarrow> prefix t (drop i s)"
    by (metis append_eq_conv_conj prefix_def take_is_prefix)
  finally show ?thesis using False by simp
qed simp

lemma last_loop_found:
  assumes "t \<noteq> []" "\<And>i. k \<le> i \<Longrightarrow> i \<le> start \<Longrightarrow> \<not> prefix t (drop i s)"
  shows "if \<exists>i \<le> start. prefix t (drop i s)
    then \<exists>i \<le> start. last_loop s t start k = int i \<and> prefix t (drop i s)
    else last_loop s t start k = - 1"
  using assms
proof (induction s t start k rule: last_loop.induct)
  case (1 s t start k)
  define k1 where "k1 = k - length t"
  let ?w = "drop k1 (take (start + length t) s)"
  show ?case
  proof (cases "k = 0")
    case True
    with 1(3) show ?thesis by (auto simp: last_loop.simps [of s t start 0])
  next
    case nonzero: False
    show ?thesis
    proof (cases "first_occurrence ?w t")
      case None
      have none: "\<not> prefix t (drop i s)" if "k1 \<le> i" "i \<le> start" for i
      proof
        assume "prefix t (drop i s)"
        with that have "prefix t (drop i (take (start + length t) s))" using prefix_window by blast
        then have found: "prefix t (drop (i - k1) ?w)" using that(1) by simp
        then have "drop (i - k1) ?w \<noteq> []" using 1(2) by auto
        then have "i - k1 \<le> length ?w" by simp
        with first_occurrence_None [OF None] found show False by blast
      qed
      have "last_loop s t start k = last_loop s t start k1"
        using nonzero None by (simp add: last_loop.simps [of s t start k] k1_def Let_def)
      with 1(1) [OF nonzero k1_def None 1(2) none] show ?thesis by simp
    next
      case (Some index)
      have "prefix t (drop (k1 + index) (take (start + length t) s))"
        using first_occurrence_Some [OF Some] by (simp add: add.commute)
      then have "prefix t (drop (k1 + index) s)" "k1 + index \<le> start"
        using 1(2) prefix_window by blast+
      moreover have "last_loop s t start k = int (k1 + index)"
        using nonzero Some by (simp add: last_loop.simps [of s t start k] k1_def Let_def)
      ultimately show ?thesis by auto
    qed
  qed
qed

lemma last_loop_empty: "last_loop s [] start k = (if k = 0 then - 1 else int k)"
proof -
  have "first_occurrence u [] = Some 0" for u by (cases u) simp_all
  then show ?thesis by (simp add: last_loop.simps [of s "[]" start k] Let_def)
qed

text \<open>
  C39: \<open>lastIndexOf\<close> gives the index of an occurrence that starts at the position or before it whenever
  there is one, and -1 otherwise, with one exception: the empty text is not found at the
  position 0, where it occurs. The occurrence need not be the last one, as the windows of the
  search overlap (\<open>lastIndexOf_not_last\<close>).
\<close>

theorem lastIndexOf_occurrence:
  "\<exists>r. shim_lastIndexOf (Some s) t position = Inr r \<and>
    (if t = [] \<and> last_start s position = 0 then r = - 1
     else if \<exists>i \<le> last_start s position. prefix t (drop i s)
     then \<exists>i \<le> last_start s position. r = int i \<and> prefix t (drop i s)
     else r = - 1)"
proof (cases "t = []")
  case True
  then show ?thesis by (auto simp: shim_lastIndexOf_def string_this_def Let_def last_loop_empty)
next
  case False
  have "\<not> prefix t (drop i s)" if "last_start s position + length t \<le> i" "i \<le> last_start s position" for i
    using that False by (cases t) simp_all
  from last_loop_found [OF False this] False show ?thesis
    by (simp add: shim_lastIndexOf_def string_this_def Let_def)
qed

lemma lastIndexOf_not_last:
  "shim_lastIndexOf (Some (jstr ''aaaa'')) (jstr ''aa'') (Some (Fin 3)) = Inr 1"
  "prefix (jstr ''aa'') (drop 2 (jstr ''aaaa''))"
  by (simp_all add: shim_lastIndexOf_def string_this_def last_start_def ToInteger_def last_loop.simps Let_def)

text \<open>The empty text is not found in the empty string.\<close>

lemma lastIndexOf_empty: "shim_lastIndexOf (Some []) [] None = Inr (- 1)"
  by (simp add: shim_lastIndexOf_def string_this_def last_start_def last_loop.simps Let_def)

text \<open>An error without a name and a message, and one with both.\<close>

lemma error_texts:
  "errorToString (Some (jstr ''RangeError'')) (Some (jstr ''test'')) = jstr ''RangeError: test''"
  "errorToString None None = jstr ''Error''" "errorToString (Some []) (Some []) = []"
  by (simp_all add: errorToString_def)

end
