(* ===== verification/Spec2Isabelle.thy ===== *)
theory Spec2Isabelle
  imports BufferStrings YamlLostStrings Es5ToFixed CookieLaws Es5ArrayLaws Es5Strings
begin

text \<open>
  Verification of the JavaScript that the node serves with the pages of its REST interface.

  The repository is a blockchain node in Scala; the JavaScript in it is the documentation of the
  interface, below \<open>src/main/resources/swagger-ui\<close>. Its core is \<open>swagger-ui.js\<close>, a bundle of
  numbered modules that reads a description of the interface (JSON or YAML, by \<open>js-yaml\<close>),
  carries binary data (\<open>Buffer\<close> with \<open>base64-js\<close>), keeps cookies for its requests
  (\<open>cookiejar\<close>) and draws pages. \<open>lib/es5-shim.js\<close> is loaded before it and supplies what old
  browsers lack. This development models the modules with a logic of their own: the buffers, the
  whole of \<open>js-yaml\<close>, the cookies, and parts of the shim. Findings are listed in the manifest;
  each is a lemma here.

  \<^bold>\<open>Values.\<close> A string is a list of UTF-16 code units (\<open>jsstring\<close>, \<open>JsPrelude\<close>), a thrown
  error is the left of a sum (\<open>'a res\<close>), the 32-bit operators are \<open>js_and\<close>, \<open>js_shl\<close> and the
  like on integers, by way of \<open>32 word\<close>. Where the code only meets integers they are \<open>int\<close>; a general
  number is \<open>jsnum\<close> (\<open>YamlValues\<close>): a rational, an infinity, NaN or -0. An object or an array
  of \<open>js-yaml\<close> is an index into a heap, so that sharing and cycles are there. The parts of the engine
  that the code relies on are written out where the code needs them (\<open>YamlText\<close>: parseInt,
  parseFloat, String, regular expressions with a matcher; \<open>YamlDates\<close>: the calendar of
  \<open>Date.UTC\<close>). What is not in the repository, like \<open>esprima\<close> and the engine's parsing of
  regular expressions, is a parameter (the record \<open>host\<close>), and a theorem holds for all its values.

  \<^bold>\<open>Buffer and base64-js (modules 14 and 15).\<close> A buffer is a list of bytes; a write returns the new
  list. \<open>Base64\<close> has \<open>b64ToByteArray\<close> and \<open>uint8ToBase64\<close> against RFC 4648.
  \<open>BufferCodecs\<close> has the conversions between strings and bytes, \<open>BufferInts\<close> the accessors for
  integers of one to six bytes in both orders, with the typed and the object store, \<open>BufferOps\<close> the
  constructor, comparison, search, \<open>copy\<close>, \<open>fill\<close>, \<open>slice\<close> and \<open>concat\<close>. The
  contracts are locales: \<open>accessor_pair\<close> (a writer and a reader over a representation of numbers as
  bytes, interpreted on every pair of accessors) and \<open>string_codec\<close> and \<open>byte_codec\<close> (an
  encoding of text as bytes, interpreted on the encodings of \<open>BufferStrings\<close>). The properties: what is
  written is read back and nothing else changes, the exact conditions of the errors, and that every
  encoding gives text or bytes back as far as it can.

  \<^bold>\<open>js-yaml: types (modules 26 to 48).\<close> \<open>YamlSchema\<close> compiles lists of types,
  \<open>YamlTypes\<close>, \<open>YamlInts\<close>, \<open>YamlBinary\<close> and \<open>YamlDates\<close> have the node types,
  \<open>YamlSchemas\<close> the five schemas. A type resolves, constructs, recognises and represents a value; the
  properties are round trips between the last two and the first two.

  \<^bold>\<open>js-yaml: loader (modules 23 to 25).\<close> \<open>YamlMark\<close> has the error marks. The state of the loader is
  the record \<open>lstate\<close> of \<open>YamlState\<close>; every function of \<open>loader.js\<close> takes and returns it:
  scalars in \<open>YamlScalars\<close>, collections in \<open>YamlLoader\<close>, \<open>composeNode\<close>, documents, \<open>load\<close> and \<open>loadAll\<close> in
  \<open>YamlDocuments\<close>. Loops and the recursion of \<open>composeNode\<close> take fuel: \<open>loop_fuel\<close> is the
  length of the rest of the text plus one, as every round but the last moves the position, and
  \<open>compose_fuel\<close> twice that length plus two, as a nested node starts later or is entered once more
  at the same place with other indentation. A run out of fuel would be the error \<open>Diverges\<close>, which the code
  does not have; \<open>YamlProgress\<close>, \<open>YamlTermination\<close> and \<open>YamlLoad\<close> show that it never occurs, so
  that the fuel bounds nothing. \<open>node_composer\<close> is the contract of \<open>composeNode\<close> for the
  readers of collections, interpreted on \<open>composeNode\<close> by induction on the fuel.

  \<^bold>\<open>js-yaml: dumper (module 22).\<close> \<open>YamlDumpText\<close> has the choice of a style and the texts of
  scalars, \<open>YamlDumper\<close> the state \<open>dstate\<close> and the writers. The recursion over the heap takes
  \<open>depth_bound\<close>, the number of objects plus two, as fuel: an object is entered at most once on a path, since it
  is marked first. \<open>YamlReferences\<close> shows what the search for duplicates finds, \<open>YamlWriters\<close> and
  \<open>YamlDump\<close> that a dump returns, cycles included, from the contracts \<open>node_writing\<close> and
  \<open>value_dumping\<close>.

  \<^bold>\<open>Dumper and loader together.\<close> \<open>YamlQuotes\<close>, \<open>YamlStyles\<close>, \<open>YamlStrings\<close>,
  \<open>YamlRoundTrip\<close> and \<open>YamlLiterals\<close> follow a string from \<open>dump\<close> to \<open>load\<close> in every
  style but the folded one, and \<open>YamlLostStrings\<close> has the strings that do not survive.

  \<^bold>\<open>cookiejar (module 18).\<close> \<open>CookieJar\<close> has the reader of \<open>Set-Cookie\<close> texts, the test
  whether a cookie goes with a request, and the jar, a list of the names with their cookies
  in the order of the engine's properties, with \<open>setCookie\<close>, \<open>setCookies\<close>, \<open>getCookie\<close> and \<open>getCookies\<close>. \<open>CookieLaws\<close> takes the jars that these
  operations can produce (\<open>reachable\<close>), shows their invariant, which cookies a request gets, and
  what storing a cookie changes. The engine's texts of dates are parameters.

  \<^bold>\<open>es5-shim.\<close> \<open>Es5Numbers\<close> has the conversions and \<open>toFixed\<close> with the six digits to the base
  \<open>10 ^ 7\<close> that all calls share; \<open>Es5Fixed\<close> shows what the digits represent and that the
  helpers compute with it, and \<open>Es5ToFixed\<close> that the text is the one of the specification of
  the language. \<open>Es5Arrays\<close> has the methods of arrays for every object with a length, with holes, with callbacks
  that throw and change the object, which is passed as a state; \<open>Es5ArrayLaws\<close> has their meaning
  on lists. \<open>Es5Strings\<close> has \<open>trim\<close>, \<open>lastIndexOf\<close> and the small methods.

  \<^bold>\<open>Not modelled.\<close> The floating point accessors of \<open>Buffer\<close> and \<open>ieee754\<close>;
  the dates, \<open>split\<close> and \<open>bind\<close> of the shim, which rest on objects of the engine; the limit of an engine on the depth of calls; stack traces;
  assignments to \<open>__proto__\<close>. Of the program: the client that turns a description into requests and
  the views (promises, requests, the DOM and generated markup), \<open>lodash\<close>, \<open>q\<close>, \<open>superagent\<close>
  and the further bundled libraries, and the files below \<open>lib\<close> and \<open>lang\<close> that are third-party or
  minified. The components of the manifest list them with the reasons. The node itself is in
  Scala and has no part in these pages but to serve them.
\<close>

end
